(* ===== verification/Prelude.thy ===== *)
theory Prelude
  imports
    Main
    "HOL-Library.Word"
    "HOL-Library.Sublist"
    "HOL-Library.Char_ord"
    "HOL-Library.List_Lexorder"
begin

text \<open>
  Shared vocabulary of the development. Go strings are byte strings, modelled as \<open>string\<close>
  (a list of 8-bit characters), so \<open>length\<close> is Go's \<open>len\<close>. The functions of Go's
  \<open>strings\<close> package that the program calls are defined here under their Go names. Case
  folding covers the ASCII letters; bytes above 127 are left as they are. Go's \<open>int\<close> and
  \<open>int64\<close> are modelled as \<open>int\<close> where no operation of the program can overflow, and
  as words where the width matters.
\<close>

named_theorems go_strings \<open>facts on the string functions\<close>
named_theorems go_defs \<open>definitions that a component unfolds by default\<close>

subsection \<open>Results\<close>

text \<open>A Go result pair \<open>(v, err)\<close> is \<open>Inl err\<close> or \<open>Inr v\<close>.\<close>

type_synonym ('e, 'a) result = "'e + 'a"

fun is_ok :: "'e + 'a \<Rightarrow> bool" where
  "is_ok (Inl _) = False"
| "is_ok (Inr _) = True"

lemma is_ok_iff [simp]: "is_ok r \<longleftrightarrow> (\<exists>v. r = Inr v)"
  by (cases r) auto

subsection \<open>Prefixes and suffixes\<close>

definition HasPrefix :: "string \<Rightarrow> string \<Rightarrow> bool" where
  "HasPrefix s p \<longleftrightarrow> take (length p) s = p"

definition HasSuffix :: "string \<Rightarrow> string \<Rightarrow> bool" where
  "HasSuffix s p \<longleftrightarrow> length p \<le> length s \<and> drop (length s - length p) s = p"

definition TrimPrefix :: "string \<Rightarrow> string \<Rightarrow> string" where
  "TrimPrefix s p = (if HasPrefix s p then drop (length p) s else s)"

definition TrimSuffix :: "string \<Rightarrow> string \<Rightarrow> string" where
  "TrimSuffix s p = (if HasSuffix s p then take (length s - length p) s else s)"

lemma HasPrefix_iff [go_strings]: "HasPrefix s p \<longleftrightarrow> (\<exists>t. s = p @ t)"
  unfolding HasPrefix_def by (metis append_eq_conv_conj append_take_drop_id)

lemma HasPrefix_prefix: "HasPrefix s p \<longleftrightarrow> prefix p s"
  by (simp add: HasPrefix_iff prefix_def)

lemma HasPrefix_Nil [simp]: "HasPrefix s []"
  by (simp add: HasPrefix_def)

lemma HasPrefix_append [simp]: "HasPrefix (p @ t) p"
  by (simp add: HasPrefix_def)

lemma HasPrefix_trans: "HasPrefix s p \<Longrightarrow> HasPrefix p q \<Longrightarrow> HasPrefix s q"
  by (auto simp: HasPrefix_iff)

lemma HasPrefix_Cons: "HasPrefix (x # xs) (y # ys) \<longleftrightarrow> x = y \<and> HasPrefix xs ys"
  by (simp add: HasPrefix_def)

lemma HasSuffix_iff [go_strings]: "HasSuffix s p \<longleftrightarrow> (\<exists>t. s = t @ p)"
proof
  assume "HasSuffix s p"
  then have "s = take (length s - length p) s @ p"
    by (metis HasSuffix_def append_take_drop_id)
  then show "\<exists>t. s = t @ p" ..
next
  assume "\<exists>t. s = t @ p"
  then show "HasSuffix s p" by (auto simp: HasSuffix_def)
qed

lemma TrimPrefix_append [simp]: "TrimPrefix (p @ t) p = t"
  by (simp add: TrimPrefix_def)

lemma TrimSuffix_append [simp]: "TrimSuffix (t @ p) p = t"
  by (simp add: TrimSuffix_def HasSuffix_def)

subsection \<open>Substrings\<close>

fun Contains :: "string \<Rightarrow> string \<Rightarrow> bool" where
  "Contains [] sub = (sub = [])"
| "Contains (c # s) sub = (HasPrefix (c # s) sub \<or> Contains s sub)"

fun IndexFrom :: "nat \<Rightarrow> string \<Rightarrow> string \<Rightarrow> nat option" where
  "IndexFrom i s sub =
     (if HasPrefix s sub then Some i
      else (case s of [] \<Rightarrow> None | _ # t \<Rightarrow> IndexFrom (Suc i) t sub))"

declare IndexFrom.simps [simp del]

text \<open>\<open>strings.Index\<close>: the first occurrence, or \<open>None\<close> for Go's -1.\<close>

definition Index :: "string \<Rightarrow> string \<Rightarrow> nat option" where
  "Index s sub = IndexFrom 0 s sub"

fun LastIndexFrom :: "nat \<Rightarrow> string \<Rightarrow> string \<Rightarrow> nat option" where
  "LastIndexFrom i [] sub = (if sub = [] then Some i else None)"
| "LastIndexFrom i (c # s) sub =
     (case LastIndexFrom (Suc i) s sub of
        Some j \<Rightarrow> Some j
      | None \<Rightarrow> if HasPrefix (c # s) sub then Some i else None)"

definition LastIndex :: "string \<Rightarrow> string \<Rightarrow> nat option" where
  "LastIndex s sub = LastIndexFrom 0 s sub"

lemma Contains_iff: "Contains s sub \<longleftrightarrow> (\<exists>u v. s = u @ sub @ v)"
proof (induction s)
  case Nil
  then show ?case by auto
next
  case (Cons c s)
  show ?case
  proof
    assume "Contains (c # s) sub"
    then consider "HasPrefix (c # s) sub" | "Contains s sub" by auto
    then show "\<exists>u v. c # s = u @ sub @ v"
    proof cases
      case 1
      then obtain v where "c # s = [] @ sub @ v" by (auto simp: HasPrefix_iff)
      then show ?thesis by blast
    next
      case 2
      with Cons.IH obtain u v where "s = u @ sub @ v" by blast
      then have "c # s = (c # u) @ sub @ v" by simp
      then show ?thesis by blast
    qed
  next
    assume "\<exists>u v. c # s = u @ sub @ v"
    then obtain u v where uv: "c # s = u @ sub @ v" by blast
    show "Contains (c # s) sub"
    proof (cases u)
      case Nil
      with uv have "HasPrefix (c # s) sub" by simp
      then show ?thesis by simp
    next
      case (Cons d u')
      with uv have "s = u' @ sub @ v" by simp
      with Cons.IH show ?thesis by auto
    qed
  qed
qed

subsection \<open>Letter case\<close>

definition lower_char :: "char \<Rightarrow> char" where
  "lower_char c =
     (if CHR ''A'' \<le> c \<and> c \<le> CHR ''Z'' then char_of (of_char c + 32 :: nat) else c)"

definition ToLower :: "string \<Rightarrow> string" where
  "ToLower s = map lower_char s"

definition EqualFold :: "string \<Rightarrow> string \<Rightarrow> bool" where
  "EqualFold s t \<longleftrightarrow> ToLower s = ToLower t"

lemma length_ToLower [simp]: "length (ToLower s) = length s"
  by (simp add: ToLower_def)

lemma ToLower_Nil_iff [simp]: "ToLower s = [] \<longleftrightarrow> s = []"
  by (simp add: ToLower_def)

lemma ToLower_append: "ToLower (s @ t) = ToLower s @ ToLower t"
  by (simp add: ToLower_def)

lemma EqualFold_refl [simp, intro]: "EqualFold s s"
  by (simp add: EqualFold_def)

lemma EqualFold_sym: "EqualFold s t \<Longrightarrow> EqualFold t s"
  by (simp add: EqualFold_def)

lemma EqualFold_trans: "EqualFold s t \<Longrightarrow> EqualFold t u \<Longrightarrow> EqualFold s u"
  by (simp add: EqualFold_def)

lemma EqualFold_Nil [simp]: "EqualFold s [] \<longleftrightarrow> s = []" "EqualFold [] s \<longleftrightarrow> s = []"
  by (auto simp: EqualFold_def ToLower_def)

lemma of_char_le_iff: "(c \<le> d) \<longleftrightarrow> (of_char c :: nat) \<le> of_char d"
  by (simp add: less_eq_char_def)

lemma lower_char_idem [simp]: "lower_char (lower_char c) = lower_char c"
proof (cases "CHR ''A'' \<le> c \<and> c \<le> CHR ''Z''")
  case True
  then have b: "65 \<le> (of_char c :: nat)" "(of_char c :: nat) \<le> 90"
    by (simp_all add: of_char_le_iff)
  then have "(of_char (lower_char c) :: nat) = of_char c + 32"
    using True by (simp add: lower_char_def)
  with b have "\<not> lower_char c \<le> CHR ''Z''"
    by (simp add: of_char_le_iff)
  then show ?thesis by (simp add: lower_char_def [of "lower_char c"])
next
  case False
  then have "lower_char c = c" by (auto simp: lower_char_def)
  then show ?thesis by simp
qed

lemma ToLower_idem [simp]: "ToLower (ToLower s) = ToLower s"
  by (simp add: ToLower_def)

lemma EqualFold_ToLower [simp]: "EqualFold (ToLower s) t \<longleftrightarrow> EqualFold s t"
  "EqualFold s (ToLower t) \<longleftrightarrow> EqualFold s t"
  by (simp_all add: EqualFold_def)

subsection \<open>Splitting, joining and trimming\<close>

text \<open>\<open>strings.Split\<close> with a one-character separator.\<close>

fun SplitChar :: "char \<Rightarrow> string \<Rightarrow> string list" where
  "SplitChar sep [] = [[]]"
| "SplitChar sep (c # s) =
     (if c = sep then [] # SplitChar sep s
      else (case SplitChar sep s of [] \<Rightarrow> [[c]] | w # ws \<Rightarrow> (c # w) # ws))"

fun Join :: "string list \<Rightarrow> string \<Rightarrow> string" where
  "Join [] sep = []"
| "Join [w] sep = w"
| "Join (w # v # ws) sep = w @ sep @ Join (v # ws) sep"

lemma SplitChar_not_Nil [simp]: "SplitChar sep s \<noteq> []"
  by (induction s) (auto split: list.splits)

lemma SplitChar_no_sep: "w \<in> set (SplitChar sep s) \<Longrightarrow> sep \<notin> set w"
  by (induction s arbitrary: w) (auto split: list.splits if_splits)

lemma Join_SplitChar: "Join (SplitChar sep s) [sep] = s"
proof (induction s)
  case Nil
  then show ?case by simp
next
  case (Cons c s)
  obtain w ws where "SplitChar sep s = w # ws"
    by (cases "SplitChar sep s") auto
  with Cons show ?case by (cases ws) auto
qed

lemma SplitChar_single: "sep \<notin> set s \<Longrightarrow> SplitChar sep s = [s]"
  by (induction s) auto

lemma SplitChar_append:
  "sep \<notin> set w \<Longrightarrow> SplitChar sep (w @ sep # s) = w # SplitChar sep s"
  by (induction w) auto

text \<open>The white space of Go's \<open>unicode.IsSpace\<close> below 128.\<close>

definition is_space :: "char \<Rightarrow> bool" where
  "is_space c \<longleftrightarrow> c \<in> set [CHR '' '', CHR 0x09, CHR 0x0A, CHR 0x0B, CHR 0x0C, CHR 0x0D]"

definition TrimLeftSpace :: "string \<Rightarrow> string" where
  "TrimLeftSpace s = dropWhile is_space s"

definition TrimSpace :: "string \<Rightarrow> string" where
  "TrimSpace s = rev (dropWhile is_space (rev (dropWhile is_space s)))"

definition TrimRightChar :: "char \<Rightarrow> string \<Rightarrow> string" where
  "TrimRightChar c s = rev (dropWhile (\<lambda>x. x = c) (rev s))"

text \<open>\<open>strings.Fields\<close>: the maximal runs of characters that are not white space.\<close>

fun fields_acc :: "string \<Rightarrow> string \<Rightarrow> string list" where
  "fields_acc cur [] = (if cur = [] then [] else [cur])"
| "fields_acc cur (c # s) =
     (if is_space c then (if cur = [] then fields_acc [] s else cur # fields_acc [] s)
      else fields_acc (cur @ [c]) s)"

definition Fields :: "string \<Rightarrow> string list" where
  "Fields s = fields_acc [] s"

definition ReplaceChar :: "char \<Rightarrow> char \<Rightarrow> string \<Rightarrow> string" where
  "ReplaceChar a b s = map (\<lambda>c. if c = a then b else c) s"

text \<open>\<open>snippet\<close> and \<open>sanitize\<close> share this clean-up: line breaks and tabs become spaces and
  runs of white space collapse to one space.\<close>

definition clean_space :: "string \<Rightarrow> string" where
  "clean_space s =
     Join (Fields (ReplaceChar (CHR 0x09) (CHR '' '')
       (ReplaceChar (CHR 0x0A) (CHR '' '') (ReplaceChar (CHR 0x0D) (CHR '' '') s)))) '' ''"

lemma fields_acc_words:
  "\<forall>c\<in>set cur. \<not> is_space c \<Longrightarrow> w \<in> set (fields_acc cur s) \<Longrightarrow>
   w \<noteq> [] \<and> (\<forall>c\<in>set w. \<not> is_space c)"
proof (induction cur s rule: fields_acc.induct)
  case (1 cur)
  then show ?case by (simp split: if_splits)
next
  case (2 cur c s)
  show ?case
  proof (cases "is_space c")
    case True
    show ?thesis
    proof (cases "cur = []")
      case Nil: True
      with True "2.prems"(2) have "w \<in> set (fields_acc [] s)" by simp
      then show ?thesis using "2.IH"(1) [OF True Nil] by simp
    next
      case False
      with True "2.prems"(2) have "w = cur \<or> w \<in> set (fields_acc [] s)" by simp
      then show ?thesis using "2.IH"(2) [OF True False] False "2.prems"(1) by (elim disjE) simp_all
    qed
  next
    case False
    with "2.prems"(1) have "\<forall>d\<in>set (cur @ [c]). \<not> is_space d" by simp
    moreover from False "2.prems"(2) have "w \<in> set (fields_acc (cur @ [c]) s)" by simp
    ultimately show ?thesis by (rule "2.IH"(3) [OF False])
  qed
qed

lemma Fields_words: "w \<in> set (Fields s) \<Longrightarrow> w \<noteq> [] \<and> (\<forall>c\<in>set w. \<not> is_space c)"
  unfolding Fields_def by (rule fields_acc_words) auto

lemma set_Join: "set (Join ws sep) \<subseteq> (\<Union>w\<in>set ws. set w) \<union> set sep"
  by (induction ws sep rule: Join.induct) auto

lemma Join_Fields_chars: "c \<in> set (Join (Fields s) '' '') \<Longrightarrow> is_space c \<Longrightarrow> c = CHR '' ''"
proof -
  assume c: "c \<in> set (Join (Fields s) '' '')" and sp: "is_space c"
  from c set_Join have "c \<in> (\<Union>w\<in>set (Fields s). set w) \<union> set '' ''" by blast
  then consider w where "w \<in> set (Fields s)" "c \<in> set w" | "c = CHR '' ''" by auto
  then show ?thesis using sp by cases (auto dest: Fields_words)
qed

lemma clean_space_chars: "c \<in> set (clean_space s) \<Longrightarrow> is_space c \<Longrightarrow> c = CHR '' ''"
  unfolding clean_space_def by (rule Join_Fields_chars)

lemma Join_snoc:
  "Join (ws @ [w]) sep = (if ws = [] then w else Join ws sep @ sep @ w)"
  by (induction ws sep rule: Join.induct) simp_all

lemma length_Join:
  "length (Join ws sep) = sum_list (map length ws) + length sep * (length ws - 1)"
  by (induction ws sep rule: Join.induct) auto

subsection \<open>Numbers as text\<close>

fun nat_digits :: "nat \<Rightarrow> string" where
  "nat_digits n =
     (if n < 10 then [char_of (48 + n)] else nat_digits (n div 10) @ [char_of (48 + n mod 10)])"

declare nat_digits.simps [simp del]

definition itoa :: "int \<Rightarrow> string" where
  "itoa i = (if i < 0 then ''-'' @ nat_digits (nat (- i)) else nat_digits (nat i))"

definition is_digit :: "char \<Rightarrow> bool" where
  "is_digit c \<longleftrightarrow> CHR ''0'' \<le> c \<and> c \<le> CHR ''9''"

definition digits_val :: "string \<Rightarrow> nat" where
  "digits_val s = foldl (\<lambda>a c. a * 10 + (of_char c - 48)) 0 s"

text \<open>Go's division, which truncates.\<close>

definition quot :: "int \<Rightarrow> int \<Rightarrow> int" where
  "quot a b = sgn a * sgn b * (\<bar>a\<bar> div \<bar>b\<bar>)"

text \<open>\<open>strconv.ParseInt(s, 10, 64)\<close>: an optional sign, then digits, in the range of \<open>int64\<close>.\<close>

definition parse_int64 :: "string \<Rightarrow> int option" where
  "parse_int64 s =
     (let neg = (take 1 s = ''-'');
          body = (if take 1 s = ''-'' \<or> take 1 s = ''+'' then drop 1 s else s)
      in if body = [] \<or> \<not> list_all is_digit body then None
         else let v = (if neg then - int (digits_val body) else int (digits_val body))
              in if - (2 ^ 63) \<le> v \<and> v < 2 ^ 63 then Some v else None)"

lemma digit_char [simp]: "n < 10 \<Longrightarrow> is_digit (char_of (48 + n :: nat))"
  by (simp add: is_digit_def of_char_le_iff)

lemma nat_digits_digits: "list_all is_digit (nat_digits n) \<and> nat_digits n \<noteq> []"
proof (induction n rule: nat_digits.induct)
  case (1 n)
  then show ?case by (subst (1 2) nat_digits.simps) auto
qed

lemma digits_val_snoc: "digits_val (s @ [c]) = digits_val s * 10 + (of_char c - 48)"
  by (simp add: digits_val_def)

lemma digits_val_nat_digits: "digits_val (nat_digits n) = n"
proof (induction n rule: nat_digits.induct)
  case (1 n)
  show ?case
  proof (cases "n < 10")
    case True
    then show ?thesis by (subst nat_digits.simps) (simp add: digits_val_def)
  next
    case False
    with 1 show ?thesis by (subst nat_digits.simps) (simp add: digits_val_snoc)
  qed
qed

lemma digit_not_sign: "is_digit c \<Longrightarrow> c \<noteq> CHR ''-'' \<and> c \<noteq> CHR ''+''"
  by (auto simp: is_digit_def of_char_le_iff)

lemma parse_int64_itoa: "- (2 ^ 63) \<le> i \<Longrightarrow> i < 2 ^ 63 \<Longrightarrow> parse_int64 (itoa i) = Some i"
proof -
  assume r: "- (2 ^ 63) \<le> i" "i < 2 ^ 63"
  show ?thesis
  proof (cases "i < 0")
    case True
    with r nat_digits_digits [of "nat (- i)"] show ?thesis
      by (simp add: parse_int64_def itoa_def digits_val_nat_digits Let_def)
  next
    case False
    obtain c s where cs: "nat_digits (nat i) = c # s"
      using nat_digits_digits [of "nat i"] by (cases "nat_digits (nat i)") auto
    with nat_digits_digits [of "nat i"] have "is_digit c" by simp
    then have "c \<noteq> CHR ''-''" "c \<noteq> CHR ''+''" by (auto dest: digit_not_sign)
    with r False nat_digits_digits [of "nat i"] cs digits_val_nat_digits [of "nat i"]
    show ?thesis by (simp add: parse_int64_def itoa_def Let_def)
  qed
qed

subsection \<open>Lists and association lists\<close>

text \<open>A Go map that the program ranges over is an association list in iteration order, where the
  order is Go's to choose; a map it only indexes is a function to \<open>option\<close>.\<close>

definition nodup_keys :: "('k \<times> 'v) list \<Rightarrow> bool" where
  "nodup_keys m \<longleftrightarrow> distinct (map fst m)"

fun al_put :: "'k \<Rightarrow> 'v \<Rightarrow> ('k \<times> 'v) list \<Rightarrow> ('k \<times> 'v) list" where
  "al_put k v [] = [(k, v)]"
| "al_put k v ((k', v') # m) = (if k' = k then (k, v) # m else (k', v') # al_put k v m)"

definition al_del :: "'k \<Rightarrow> ('k \<times> 'v) list \<Rightarrow> ('k \<times> 'v) list" where
  "al_del k m = filter (\<lambda>p. fst p \<noteq> k) m"

lemma map_of_al_put [simp]: "map_of (al_put k v m) = (map_of m)(k \<mapsto> v)"
  by (induction k v m rule: al_put.induct) auto

lemma keys_al_put: "set (map fst (al_put k v m)) = insert k (set (map fst m))"
  by (induction k v m rule: al_put.induct) auto

lemma nodup_al_put [simp]: "nodup_keys m \<Longrightarrow> nodup_keys (al_put k v m)"
proof (induction k v m rule: al_put.induct)
  case (2 k v k' v' m)
  then show ?case using keys_al_put [of k v m] by (auto simp: nodup_keys_def)
qed (simp add: nodup_keys_def)

lemma map_of_al_del [simp]: "map_of (al_del k m) = (map_of m)(k := None)"
  by (induction m) (auto simp: al_del_def)

lemma nodup_al_del [simp]: "nodup_keys m \<Longrightarrow> nodup_keys (al_del k m)"
  unfolding nodup_keys_def al_del_def by (induction m) auto

lemma map_of_iff_in_set: "nodup_keys m \<Longrightarrow> map_of m k = Some v \<longleftrightarrow> (k, v) \<in> set m"
  by (simp add: nodup_keys_def)

lemma nodup_keys_Nil [simp]: "nodup_keys []"
  by (simp add: nodup_keys_def)

lemma nodup_keys_Cons [simp]:
  "nodup_keys ((k, v) # m) \<longleftrightarrow> map_of m k = None \<and> nodup_keys m"
  by (auto simp: nodup_keys_def map_of_eq_None_iff)

end
