(* ===== verification/UrlStore.thy ===== *)
theory UrlStore
  imports Prelude
begin

unbundle bit_operations_syntax

text \<open>
  The link store of the URL shortener: \<open>urlshort/store.go\<close> and \<open>urlshort/store_bbolt.go\<close>.

  The store is a pair of bbolt buckets, \<open>links\<close> (key to encoded link) and \<open>targets\<close>
  (target to key), written in one transaction. bbolt is not part of the repository: its bucket
  operations are a parameter (\<open>bucket_ops\<close>), and the locale \<open>bolt_db\<close> states the documented
  behaviour the code relies on (a get after a put or a delete, puts of usable keys succeed, a
  cursor walks the entries in byte order). Encoded values are Go's JSON encoding of a \<open>Link\<close>
  without its \<open>Key\<close>, or bytes that do not decode. The clock and the outcome of a commit are
  arguments of the operations.
\<close>

subsection \<open>Data\<close>

record Link =
  link_Key :: string
  link_Target :: string
  link_Rule :: string
  link_Owner :: string
  link_CreatedAt :: int
  link_UpdatedAt :: int

datatype conflict =
    TargetMapped string
  | KeyExists string
  | GeneratedExists string
  | RuleKeyTaken string string
  | NoHashPrefix string string
  | MappedElsewhere string

datatype key_error =
    KeyIsEmpty
  | KeyNoSlash
  | KeyTooLong
  | KeyBadChar char
  | KeyDotDot
  | KeySegStart string
  | KeyReserved string

datatype store_error =
    ErrNotFound
  | ErrForbidden
  | ErrConflict conflict
  | Inconsistent string
  | DecodeLink
  | NoGenerator string
  | EmptyGeneratedKey
  | BucketFailed string
  | TxFailed string
  | RenderFailed string
  | BadKey string key_error
  | HashGroupEmpty string
  | RandomFailed
  | BadNamespace string
  | NoRandomKey

text \<open>\<open>KeyFunc\<close>: given \<open>isFree\<close>, a generator returns a key or an error.\<close>

type_synonym KeyFunc = "(string \<Rightarrow> store_error + bool) \<Rightarrow> store_error + string"

record CreateRequest =
  req_Target :: string
  req_Rule :: string
  req_Owner :: string
  req_ExplicitKey :: string
  req_Gen :: "KeyFunc option"

record CreateResult =
  res_Link :: "Link option"
  res_Created :: bool
  res_Err :: "store_error option"

text \<open>A stored value: the JSON encoding of a link (the key is not persisted), or other bytes.\<close>

datatype raw = Encoded Link | Undecodable string

definition marshal_link :: "Link \<Rightarrow> raw" where
  "marshal_link l = Encoded (l\<lparr>link_Key := []\<rparr>)"

fun unmarshal_link :: "raw \<Rightarrow> store_error + Link" where
  "unmarshal_link (Encoded l) = Inr l"
| "unmarshal_link (Undecodable b) = Inl DecodeLink"

subsection \<open>bbolt buckets\<close>

record ('b, 'v) bucket_ops =
  bucket_get :: "'b \<Rightarrow> string \<Rightarrow> 'v option"
  bucket_put :: "'b \<Rightarrow> string \<Rightarrow> 'v \<Rightarrow> string + 'b"
  bucket_delete :: "'b \<Rightarrow> string \<Rightarrow> string + 'b"
  bucket_entries :: "'b \<Rightarrow> (string \<times> 'v) list"

record ('l, 't) bolt =
  links_ops :: "('l, raw) bucket_ops"
  targets_ops :: "('t, string) bucket_ops"

record ('l, 't) db =
  links :: 'l
  targets :: 't

text \<open>\<open>db.Update\<close>: the closure runs on the transaction's state, which replaces the database when
  the closure returns no error and the commit succeeds, and is dropped otherwise. The first
  argument is what bbolt says of the transaction itself: \<open>None\<close>, or an error.\<close>

definition db_Update ::
  "string option \<Rightarrow> ('s \<Rightarrow> (store_error + 'a) \<times> 's) \<Rightarrow> 's \<Rightarrow> (store_error + 'a) \<times> 's" where
  "db_Update commit fn s =
     (case fn s of
        (Inl e, _) \<Rightarrow> (Inl e, s)
      | (Inr v, s') \<Rightarrow>
          (case commit of None \<Rightarrow> (Inr v, s') | Some e \<Rightarrow> (Inl (TxFailed e), s)))"

abbreviation links_get :: "('l, 't) bolt \<Rightarrow> ('l, 't) db \<Rightarrow> string \<Rightarrow> raw option" where
  "links_get bo db k \<equiv> bucket_get (links_ops bo) (links db) k"

abbreviation targets_get :: "('l, 't) bolt \<Rightarrow> ('l, 't) db \<Rightarrow> string \<Rightarrow> string option" where
  "targets_get bo db t \<equiv> bucket_get (targets_ops bo) (targets db) t"

subsection \<open>Opening the database: the schema version\<close>

definition schemaVersion :: "32 word" where
  "schemaVersion = 1"

definition PutUint32 :: "32 word \<Rightarrow> 8 word list" where
  "PutUint32 v = [ucast (drop_bit 24 v), ucast (drop_bit 16 v), ucast (drop_bit 8 v), ucast v]"

fun Uint32 :: "8 word list \<Rightarrow> 32 word" where
  "Uint32 [a, b, c, d] =
     push_bit 24 (ucast a) OR push_bit 16 (ucast b) OR push_bit 8 (ucast c) OR ucast d"
| "Uint32 _ = 0"

datatype open_error = SchemaCorrupt nat | SchemaTooNew "32 word" | MetaPutFailed string

text \<open>The closure of \<open>OpenBoltStore\<close> on the value of \<open>schema_version\<close> in the \<open>meta\<close> bucket: the
  value the bucket holds afterwards. The put of a fresh database is bbolt's to accept.\<close>

definition open_schema :: "string option \<Rightarrow> 8 word list option \<Rightarrow> open_error + 8 word list" where
  "open_schema put_err raw =
     (case raw of
        None \<Rightarrow>
          (case put_err of None \<Rightarrow> Inr (PutUint32 schemaVersion) | Some e \<Rightarrow> Inl (MetaPutFailed e))
      | Some bs \<Rightarrow>
          if length bs \<noteq> 4 then Inl (SchemaCorrupt (length bs))
          else if Uint32 bs > schemaVersion then Inl (SchemaTooNew (Uint32 bs))
          else Inr bs)"

subsection \<open>Lookups\<close>

definition Resolve :: "('l, 't) bolt \<Rightarrow> ('l, 't) db \<Rightarrow> string \<Rightarrow> store_error + string" where
  "Resolve bo db target =
     (case targets_get bo db target of None \<Rightarrow> Inl ErrNotFound | Some key \<Rightarrow> Inr key)"

definition Get :: "('l, 't) bolt \<Rightarrow> ('l, 't) db \<Rightarrow> string \<Rightarrow> store_error + Link" where
  "Get bo db key =
     (case links_get bo db key of
        None \<Rightarrow> Inl ErrNotFound
      | Some raw \<Rightarrow>
          (case unmarshal_link raw of
             Inl e \<Rightarrow> Inl e
           | Inr l \<Rightarrow> Inr (l\<lparr>link_Key := key\<rparr>)))"

subsection \<open>Creation\<close>

text \<open>The key of a new link: the explicit key when it is free, else the generator's.\<close>

definition select_key :: "('l, 't) bolt \<Rightarrow> CreateRequest \<Rightarrow> ('l, 't) db \<Rightarrow> store_error + string" where
  "select_key bo req db =
     (if req_ExplicitKey req \<noteq> [] then
        (if links_get bo db (req_ExplicitKey req) \<noteq> None
         then Inl (ErrConflict (KeyExists (req_ExplicitKey req)))
         else Inr (req_ExplicitKey req))
      else
        (case req_Gen req of
           None \<Rightarrow> Inl (NoGenerator (req_Target req))
         | Some gen \<Rightarrow>
             (case gen (\<lambda>cand. Inr (links_get bo db cand = None)) of
                Inl e \<Rightarrow> Inl e
              | Inr k \<Rightarrow>
                  if k = [] then Inl EmptyGeneratedKey
                  else if links_get bo db k \<noteq> None then Inl (ErrConflict (GeneratedExists k))
                  else Inr k)))"

text \<open>The two puts of a new link.\<close>

definition put_link ::
  "('l, 't) bolt \<Rightarrow> int \<Rightarrow> CreateRequest \<Rightarrow> string \<Rightarrow> ('l, 't) db \<Rightarrow>
   (store_error + Link \<times> bool) \<times> ('l, 't) db" where
  "put_link bo now req key db =
     (let l = \<lparr>link_Key = [], link_Target = req_Target req, link_Rule = req_Rule req,
               link_Owner = req_Owner req, link_CreatedAt = now, link_UpdatedAt = now\<rparr>
      in case bucket_put (links_ops bo) (links db) key (marshal_link l) of
           Inl e \<Rightarrow> (Inl (BucketFailed e), db)
         | Inr ls \<Rightarrow>
             (let db1 = db\<lparr>links := ls\<rparr>
              in case bucket_put (targets_ops bo) (targets db1) (req_Target req) key of
                   Inl e \<Rightarrow> (Inl (BucketFailed e), db1)
                 | Inr ts \<Rightarrow> (Inr (l\<lparr>link_Key := key\<rparr>, True), db1\<lparr>targets := ts\<rparr>)))"

definition createInTx ::
  "('l, 't) bolt \<Rightarrow> int \<Rightarrow> CreateRequest \<Rightarrow> ('l, 't) db \<Rightarrow>
   (store_error + Link \<times> bool) \<times> ('l, 't) db" where
  "createInTx bo now req db =
     (case targets_get bo db (req_Target req) of
        Some k \<Rightarrow>
          (if req_ExplicitKey req \<noteq> [] \<and> req_ExplicitKey req \<noteq> k
           then (Inl (ErrConflict (TargetMapped k)), db)
           else
             (case links_get bo db k of
                None \<Rightarrow> (Inl (Inconsistent (req_Target req)), db)
              | Some raw \<Rightarrow>
                  (case unmarshal_link raw of
                     Inl e \<Rightarrow> (Inl e, db)
                   | Inr l \<Rightarrow> (Inr (l\<lparr>link_Key := k\<rparr>, False), db))))
      | None \<Rightarrow>
          (case select_key bo req db of
             Inl e \<Rightarrow> (Inl e, db)
           | Inr key \<Rightarrow> put_link bo now req key db))"

definition Create ::
  "('l, 't) bolt \<Rightarrow> string option \<Rightarrow> int \<Rightarrow> CreateRequest \<Rightarrow> ('l, 't) db \<Rightarrow>
   (store_error + Link \<times> bool) \<times> ('l, 't) db" where
  "Create bo commit now req db = db_Update commit (createInTx bo now req) db"

text \<open>The loop of \<open>CreateBatch\<close>: one result per request; an item's error does not stop the
  transaction, so what the failed item had already written stays. \<open>now i\<close> is the clock when
  item \<open>i\<close> is created.\<close>

definition batch_result :: "store_error + Link \<times> bool \<Rightarrow> CreateResult" where
  "batch_result r =
     (case r of
        Inl e \<Rightarrow> \<lparr>res_Link = None, res_Created = False, res_Err = Some e\<rparr>
      | Inr (l, c) \<Rightarrow> \<lparr>res_Link = Some l, res_Created = c, res_Err = None\<rparr>)"

fun create_items ::
  "('l, 't) bolt \<Rightarrow> (nat \<Rightarrow> int) \<Rightarrow> nat \<Rightarrow> CreateRequest list \<Rightarrow> ('l, 't) db \<Rightarrow>
   CreateResult list \<times> ('l, 't) db"
where
  "create_items bo now i [] db = ([], db)"
| "create_items bo now i (req # reqs) db =
     (case createInTx bo (now i) req db of
        (r, db1) \<Rightarrow>
          (case create_items bo now (Suc i) reqs db1 of
             (rs, db2) \<Rightarrow> (batch_result r # rs, db2)))"

definition CreateBatch ::
  "('l, 't) bolt \<Rightarrow> string option \<Rightarrow> (nat \<Rightarrow> int) \<Rightarrow> CreateRequest list \<Rightarrow> ('l, 't) db \<Rightarrow>
   (store_error + CreateResult list) \<times> ('l, 't) db" where
  "CreateBatch bo commit now reqs db =
     (if reqs = [] then (Inr [], db)
      else db_Update commit
             (\<lambda>s. case create_items bo now 0 reqs s of (rs, s') \<Rightarrow> (Inr rs, s')) db)"

subsection \<open>Update and deletion\<close>

text \<open>The writes of an update whose new target is free or already this key's.\<close>

definition retarget ::
  "('l, 't) bolt \<Rightarrow> int \<Rightarrow> string \<Rightarrow> string \<Rightarrow> Link \<Rightarrow> ('l, 't) db \<Rightarrow>
   (store_error + Link) \<times> ('l, 't) db" where
  "retarget bo now key target l db =
     (if link_Target l \<noteq> target then
        (case bucket_delete (targets_ops bo) (targets db) (link_Target l) of
           Inl e \<Rightarrow> (Inl (BucketFailed e), db)
         | Inr ts1 \<Rightarrow>
             (let db1 = db\<lparr>targets := ts1\<rparr>
              in case bucket_put (targets_ops bo) (targets db1) target key of
                   Inl e \<Rightarrow> (Inl (BucketFailed e), db1)
                 | Inr ts2 \<Rightarrow>
                     (let db2 = db1\<lparr>targets := ts2\<rparr>;
                          l' = l\<lparr>link_Target := target, link_UpdatedAt := now\<rparr>
                      in case bucket_put (links_ops bo) (links db2) key (marshal_link l') of
                           Inl e \<Rightarrow> (Inl (BucketFailed e), db2)
                         | Inr ls \<Rightarrow> (Inr (l'\<lparr>link_Key := key\<rparr>), db2\<lparr>links := ls\<rparr>))))
      else (Inr (l\<lparr>link_Key := key\<rparr>), db))"

definition updateInTx ::
  "('l, 't) bolt \<Rightarrow> int \<Rightarrow> string \<Rightarrow> string \<Rightarrow> ('l, 't) db \<Rightarrow> (store_error + Link) \<times> ('l, 't) db" where
  "updateInTx bo now key target db =
     (case links_get bo db key of
        None \<Rightarrow> (Inl ErrNotFound, db)
      | Some raw \<Rightarrow>
          (case unmarshal_link raw of
             Inl e \<Rightarrow> (Inl e, db)
           | Inr l \<Rightarrow>
               (case targets_get bo db target of
                  Some existing \<Rightarrow>
                    if existing \<noteq> key then (Inl (ErrConflict (MappedElsewhere existing)), db)
                    else retarget bo now key target l db
                | None \<Rightarrow> retarget bo now key target l db)))"

definition Update ::
  "('l, 't) bolt \<Rightarrow> string option \<Rightarrow> int \<Rightarrow> string \<Rightarrow> string \<Rightarrow> ('l, 't) db \<Rightarrow>
   (store_error + Link) \<times> ('l, 't) db" where
  "Update bo commit now key target db = db_Update commit (updateInTx bo now key target) db"

definition deleteInTx ::
  "('l, 't) bolt \<Rightarrow> string \<Rightarrow> ('l, 't) db \<Rightarrow> (store_error + unit) \<times> ('l, 't) db" where
  "deleteInTx bo key db =
     (case links_get bo db key of
        None \<Rightarrow> (Inl ErrNotFound, db)
      | Some raw \<Rightarrow>
          (case unmarshal_link raw of
             Inl e \<Rightarrow> (Inl e, db)
           | Inr l \<Rightarrow>
               (case bucket_delete (targets_ops bo) (targets db) (link_Target l) of
                  Inl e \<Rightarrow> (Inl (BucketFailed e), db)
                | Inr ts \<Rightarrow>
                    (let db1 = db\<lparr>targets := ts\<rparr>
                     in case bucket_delete (links_ops bo) (links db1) key of
                          Inl e \<Rightarrow> (Inl (BucketFailed e), db1)
                        | Inr ls \<Rightarrow> (Inr (), db1\<lparr>links := ls\<rparr>)))))"

definition Delete ::
  "('l, 't) bolt \<Rightarrow> string option \<Rightarrow> string \<Rightarrow> ('l, 't) db \<Rightarrow>
   (store_error + unit) \<times> ('l, 't) db" where
  "Delete bo commit key db = db_Update commit (deleteInTx bo key) db"

subsection \<open>Listing and counting\<close>

text \<open>A bbolt cursor is the list of entries it has still to visit; \<open>Seek\<close> moves to the first key
  that is not smaller.\<close>

definition Seek :: "string \<Rightarrow> (string \<times> 'v) list \<Rightarrow> (string \<times> 'v) list" where
  "Seek k es = dropWhile (\<lambda>e. fst e < k) es"

definition clamp_limit :: "int \<Rightarrow> int" where
  "clamp_limit limit =
     (let l = (if limit \<le> 0 then 100 else limit) in if l > 1000 then 1000 else l)"

text \<open>The loop of \<open>List\<close>: the links so far, and the next cursor when the limit is reached.\<close>

fun list_scan ::
  "string \<Rightarrow> int \<Rightarrow> (string \<times> raw) list \<Rightarrow> Link list \<Rightarrow> store_error + Link list \<times> string" where
  "list_scan pfx limit [] acc = Inr (acc, [])"
| "list_scan pfx limit ((k, v) # es) acc =
     (if \<not> HasPrefix k pfx then Inr (acc, [])
      else (case unmarshal_link v of
              Inl e \<Rightarrow> Inl e
            | Inr l \<Rightarrow>
                (let acc' = acc @ [l\<lparr>link_Key := k\<rparr>]
                 in if int (length acc') \<ge> limit then Inr (acc', k)
                    else list_scan pfx limit es acc')))"

definition list_start :: "string \<Rightarrow> string \<Rightarrow> (string \<times> 'v) list \<Rightarrow> (string \<times> 'v) list" where
  "list_start pfx cursor es =
     (if cursor = [] then Seek pfx es
      else (case Seek cursor es of
              [] \<Rightarrow> []
            | (k, v) # rest \<Rightarrow> if k = cursor then rest else (k, v) # rest))"

definition List_links ::
  "('l, 't) bolt \<Rightarrow> ('l, 't) db \<Rightarrow> string \<Rightarrow> int \<Rightarrow> string \<Rightarrow> store_error + Link list \<times> string" where
  "List_links bo db pfx limit cursor =
     list_scan pfx (clamp_limit limit)
       (list_start pfx cursor (bucket_entries (links_ops bo) (links db))) []"

definition CountPrefix :: "('l, 't) bolt \<Rightarrow> ('l, 't) db \<Rightarrow> string \<Rightarrow> nat" where
  "CountPrefix bo db pfx =
     length (takeWhile (\<lambda>e. HasPrefix (fst e) pfx)
       (Seek pfx (bucket_entries (links_ops bo) (links db))))"

definition Count :: "('l, 't) bolt \<Rightarrow> ('l, 't) db \<Rightarrow> nat" where
  "Count bo db = length (bucket_entries (links_ops bo) (links db))"

subsection \<open>Verification of a backup file\<close>

datatype verify_error =
    OpenFailed string
  | CheckFailed string
  | MissingBucket
  | CountMismatch nat nat
  | LinkDecode
  | LinkMismatch string string "string option"

text \<open>\<open>lb.ForEach\<close> over the links: every link's target must map back to its key. A target without
  an entry gives an empty value, which is a mismatch for every key but the empty one.\<close>

fun check_links :: "(string \<Rightarrow> string option) \<Rightarrow> (string \<times> raw) list \<Rightarrow> verify_error + unit" where
  "check_links tget [] = Inr ()"
| "check_links tget ((k, v) # es) =
     (case unmarshal_link v of
        Inl e \<Rightarrow> Inl LinkDecode
      | Inr l \<Rightarrow>
          if (case tget (link_Target l) of None \<Rightarrow> [] | Some g \<Rightarrow> g) \<noteq> k
          then Inl (LinkMismatch k (link_Target l) (tget (link_Target l)))
          else check_links tget es)"

text \<open>The file as bbolt opens it: an error, or the two buckets when they exist, with the first error
  of bbolt's own consistency check.\<close>

definition verifyBoltFile ::
  "('l, 't) bolt \<Rightarrow> string + string option \<times> 'l option \<times> 't option \<Rightarrow>
   verify_error + nat \<times> nat" where
  "verifyBoltFile bo file =
     (case file of
        Inl e \<Rightarrow> Inl (OpenFailed e)
      | Inr (chk, lb, tb) \<Rightarrow>
          (case chk of
             Some e \<Rightarrow> Inl (CheckFailed e)
           | None \<Rightarrow>
               (case (lb, tb) of
                  (Some ls, Some ts) \<Rightarrow>
                    (let linksN = length (bucket_entries (links_ops bo) ls);
                         targetsN = length (bucket_entries (targets_ops bo) ts)
                     in if linksN \<noteq> targetsN then Inl (CountMismatch linksN targetsN)
                        else if int linksN \<le> 100000 then
                          (case check_links (bucket_get (targets_ops bo) ts)
                                  (bucket_entries (links_ops bo) ls) of
                             Inl e \<Rightarrow> Inl e
                           | Inr _ \<Rightarrow> Inr (linksN, targetsN))
                        else Inr (linksN, targetsN))
                | _ \<Rightarrow> Inl MissingBucket)))"

end
