(* ===== verification/UrlStoreSpec.thy ===== *)
theory UrlStoreSpec
  imports UrlStore
begin

text \<open>
  The contract of the link store. \<open>bucket\<close> states the documented behaviour of a bbolt bucket and
  \<open>bolt_db\<close> that of the two buckets together; \<open>link_store\<close> is the contract of the \<open>Store\<close>
  interface as its clients see it, a partial injection from keys to targets. A \<open>sublocale\<close> shows
  that the bbolt implementation meets that contract, and the sorted association list is a bucket
  that meets bbolt's.
\<close>

subsection \<open>What bbolt promises\<close>

definition MaxKeySize :: nat where
  "MaxKeySize = 32768"

locale bucket =
  fixes ops :: "('b, 'v) bucket_ops"
    and val_ok :: "'v \<Rightarrow> bool"
  assumes get_put: "bucket_put ops b k v = Inr b' \<Longrightarrow>
      bucket_get ops b' k' = (if k' = k then Some v else bucket_get ops b k')"
    and put_key: "bucket_put ops b k v = Inr b' \<Longrightarrow> k \<noteq> [] \<and> length k \<le> MaxKeySize"
    and put_ok: "k \<noteq> [] \<Longrightarrow> length k \<le> MaxKeySize \<Longrightarrow> val_ok v \<Longrightarrow>
      \<exists>b'. bucket_put ops b k v = Inr b'"
    and get_delete: "bucket_delete ops b k = Inr b' \<Longrightarrow>
      bucket_get ops b' k' = (if k' = k then None else bucket_get ops b k')"
    and delete_ok: "\<exists>b'. bucket_delete ops b k = Inr b'"
    and entries_get: "map_of (bucket_entries ops b) k = bucket_get ops b k"
    and entries_sorted: "sorted_wrt (<) (map fst (bucket_entries ops b))"

locale bolt_db =
  L: bucket "links_ops bo" vl + T: bucket "targets_ops bo" vt
  for bo :: "('l, 't) bolt" and vl :: "raw \<Rightarrow> bool" and vt :: "string \<Rightarrow> bool" +
  assumes key_value_ok: "length k \<le> MaxKeySize \<Longrightarrow> vt k"

subsection \<open>The invariant of the two buckets\<close>

text \<open>\<open>targets[target] == key\<close> exactly when \<open>links[key]\<close> exists (the header of
  \<open>store_bbolt.go\<close>), and every stored value decodes.\<close>

definition store_inv :: "('l, 't) bolt \<Rightarrow> ('l, 't) db \<Rightarrow> bool" where
  "store_inv bo db \<longleftrightarrow>
     (\<forall>k raw. links_get bo db k = Some raw \<longrightarrow>
        (\<exists>l. raw = Encoded l \<and> targets_get bo db (link_Target l) = Some k)) \<and>
     (\<forall>t k. targets_get bo db t = Some k \<longrightarrow>
        (\<exists>l. links_get bo db k = Some (Encoded l) \<and> link_Target l = t))"

text \<open>The abstract table: which target a key redirects to.\<close>

definition link_table :: "('l, 't) bolt \<Rightarrow> ('l, 't) db \<Rightarrow> string \<Rightarrow> string option" where
  "link_table bo db k =
     (case links_get bo db k of Some (Encoded l) \<Rightarrow> Some (link_Target l) | _ \<Rightarrow> None)"

lemma store_inv_linksD:
  assumes "store_inv bo db" and "links_get bo db k = Some raw"
  obtains l where "raw = Encoded l" and "targets_get bo db (link_Target l) = Some k"
  using assms unfolding store_inv_def by blast

lemma store_inv_targetsD:
  assumes "store_inv bo db" and "targets_get bo db t = Some k"
  obtains l where "links_get bo db k = Some (Encoded l)" and "link_Target l = t"
  using assms unfolding store_inv_def by blast

lemma link_table_Some:
  "link_table bo db k = Some t \<longleftrightarrow> (\<exists>l. links_get bo db k = Some (Encoded l) \<and> link_Target l = t)"
  by (auto simp: link_table_def split: option.splits raw.splits)

lemma targets_iff_table: "store_inv bo db \<Longrightarrow> targets_get bo db t = Some k \<longleftrightarrow> link_table bo db k = Some t"
  unfolding link_table_Some store_inv_def by (metis option.inject raw.inject(1))

lemma link_table_None: "store_inv bo db \<Longrightarrow> link_table bo db k = None \<longleftrightarrow> links_get bo db k = None"
  by (auto simp: link_table_def elim: store_inv_linksD split: option.splits raw.splits)

lemma store_inv_inj:
  "store_inv bo db \<Longrightarrow> link_table bo db k = Some t \<Longrightarrow> link_table bo db k' = Some t \<Longrightarrow> k = k'"
  by (metis targets_iff_table option.inject)

subsection \<open>Selecting a key\<close>

lemma select_key_fresh: "select_key bo req db = Inr k \<Longrightarrow> links_get bo db k = None \<and> k \<noteq> []"
  by (auto simp: select_key_def split: if_splits option.splits sum.splits)

lemma select_key_explicit:
  "select_key bo req db = Inr k \<Longrightarrow> req_ExplicitKey req \<noteq> [] \<Longrightarrow> k = req_ExplicitKey req"
  by (auto simp: select_key_def split: if_splits)

lemma db_Update_cases:
  assumes "db_Update commit fn s = (r, s')"
  obtains (abort) e where "r = Inl e" and "s' = s"
    | (commit) v where "r = Inr v" and "fn s = (Inr v, s')"
  using assms by (auto simp: db_Update_def split: prod.splits sum.splits option.splits)

lemma db_Update_Inl: "db_Update commit fn s = (Inl e, s') \<Longrightarrow> s' = s"
  by (auto elim: db_Update_cases)

text \<open>A request whose target is a usable bbolt key.\<close>

definition fits :: "CreateRequest \<Rightarrow> bool" where
  "fits req \<longleftrightarrow> req_Target req \<noteq> [] \<and> length (req_Target req) \<le> MaxKeySize"

subsection \<open>The operations keep the invariant\<close>

context bolt_db
begin

lemma put_link_inv:
  assumes inv: "store_inv bo db" and fresh: "links_get bo db key = None"
    and unmapped: "targets_get bo db (req_Target req) = None"
    and res: "put_link bo now req key db = (Inr (l, c), db')"
  shows "store_inv bo db'" and "c = True" and "link_Key l = key"
    and "link_Target l = req_Target req"
    and "links_get bo db' = (links_get bo db)(key \<mapsto> Encoded (l\<lparr>link_Key := []\<rparr>))"
    and "targets_get bo db' = (targets_get bo db)(req_Target req \<mapsto> key)"
proof -
  let ?l = "\<lparr>link_Key = [], link_Target = req_Target req, link_Rule = req_Rule req,
    link_Owner = req_Owner req, link_CreatedAt = now, link_UpdatedAt = now\<rparr>"
  from res obtain ls ts where
    ls: "bucket_put (links_ops bo) (links db) key (Encoded ?l) = Inr ls" and
    ts: "bucket_put (targets_ops bo) (targets db) (req_Target req) key = Inr ts" and
    db': "db' = db\<lparr>links := ls, targets := ts\<rparr>" and l: "l = ?l\<lparr>link_Key := key\<rparr>" and "c = True"
    by (auto simp: put_link_def marshal_link_def Let_def split: sum.splits)
  then show "c = True" "link_Key l = key" "link_Target l = req_Target req" by simp_all
  show lg: "links_get bo db' = (links_get bo db)(key \<mapsto> Encoded (l\<lparr>link_Key := []\<rparr>))"
    using L.get_put [OF ls] by (auto simp: db' l)
  show tg: "targets_get bo db' = (targets_get bo db)(req_Target req \<mapsto> key)"
    using T.get_put [OF ts] by (auto simp: db')
  show "store_inv bo db'"
    unfolding store_inv_def lg tg
    using inv fresh unmapped l unfolding store_inv_def by (auto split: if_splits) (metis option.distinct(1))+
qed

lemma put_link_Inl:
  assumes "put_link bo now req key db = (Inl e, db')"
    and "req_Target req \<noteq> []" and "length (req_Target req) \<le> MaxKeySize"
  shows "db' = db"
proof (cases "bucket_put (links_ops bo) (links db) key (marshal_link
    \<lparr>link_Key = [], link_Target = req_Target req, link_Rule = req_Rule req,
     link_Owner = req_Owner req, link_CreatedAt = now, link_UpdatedAt = now\<rparr>)")
  case (Inl e')
  with assms(1) show ?thesis by (simp add: put_link_def Let_def)
next
  case (Inr ls)
  then have "vt key" using L.put_key key_value_ok by blast
  then obtain ts where "bucket_put (targets_ops bo) (targets db) (req_Target req) key = Inr ts"
    using T.put_ok assms(2,3) by blast
  with Inr assms(1) show ?thesis by (simp add: put_link_def Let_def)
qed

text \<open>One item of a transaction, for a target that fits a bbolt key: an error leaves no trace, a
  created link is added to both buckets, an existing one is returned as it is.\<close>

lemma createInTx_Inl:
  assumes "createInTx bo now req db = (Inl e, db')"
    and "req_Target req \<noteq> []" and "length (req_Target req) \<le> MaxKeySize"
  shows "db' = db"
  using assms put_link_Inl [OF _ assms(2,3)]
  by (auto simp: createInTx_def split: option.splits sum.splits if_splits)

lemma createInTx_Inr:
  assumes inv: "store_inv bo db" and res: "createInTx bo now req db = (Inr (l, c), db')"
  obtains (existing) "c = False" and "db' = db"
      and "link_table bo db (link_Key l) = Some (req_Target req)"
      and "Get bo db (link_Key l) = Inr l"
      and "req_ExplicitKey req = [] \<or> req_ExplicitKey req = link_Key l"
    | (new) "c = True" and "link_Target l = req_Target req" and "store_inv bo db'"
      and "links_get bo db (link_Key l) = None" and "targets_get bo db (req_Target req) = None"
      and "links_get bo db' = (links_get bo db)(link_Key l \<mapsto> Encoded (l\<lparr>link_Key := []\<rparr>))"
      and "targets_get bo db' = (targets_get bo db)(req_Target req \<mapsto> link_Key l)"
      and "select_key bo req db = Inr (link_Key l)"
proof (cases "targets_get bo db (req_Target req)")
  case (Some k)
  with inv obtain l0 where l0: "links_get bo db k = Some (Encoded l0)" "link_Target l0 = req_Target req"
    by (rule store_inv_targetsD)
  have res': "c = False \<and> db' = db \<and> l = l0\<lparr>link_Key := k\<rparr> \<and>
      (req_ExplicitKey req = [] \<or> req_ExplicitKey req = k)"
    using res Some l0 by (auto simp: createInTx_def split: if_splits)
  with Some inv l0 show ?thesis
    by (intro existing) (auto simp: targets_iff_table Get_def)
next
  case None
  then obtain key where sel: "select_key bo req db = Inr key"
    and put: "put_link bo now req key db = (Inr (l, c), db')"
    using res by (auto simp: createInTx_def split: sum.splits)
  from sel have fresh: "links_get bo db key = None" using select_key_fresh by blast
  show ?thesis
    using put_link_inv [OF inv fresh None put] fresh None sel by (intro new) auto
qed

lemma createInTx_inv:
  assumes "store_inv bo db" and "createInTx bo now req db = (r, db')"
    and "req_Target req \<noteq> []" and "length (req_Target req) \<le> MaxKeySize"
  shows "store_inv bo db'"
proof (cases r)
  case (Inl e)
  with assms createInTx_Inl show ?thesis by blast
next
  case (Inr lc)
  obtain l c where "lc = (l, c)" by (cases lc)
  with Inr assms(2) have "createInTx bo now req db = (Inr (l, c), db')" by simp
  with assms(1) show ?thesis by (rule createInTx_Inr) (use assms(1) in auto)
qed

lemma Create_inv:
  assumes "store_inv bo db" and "Create bo commit now req db = (r, db')"
  shows "store_inv bo db'"
  using assms(2) unfolding Create_def
proof (cases rule: db_Update_cases)
  case abort
  with assms(1) show ?thesis by simp
next
  case (commit v)
  obtain l c where "v = (l, c)" by (cases v)
  with commit have "createInTx bo now req db = (Inr (l, c), db')" by simp
  with assms(1) show ?thesis by (rule createInTx_Inr) (use assms(1) in auto)
qed

lemma create_items_inv:
  assumes "store_inv bo db" and "create_items bo now i reqs db = (rs, db')"
    and "\<And>req. req \<in> set reqs \<Longrightarrow> fits req"
  shows "store_inv bo db'"
  using assms
proof (induction reqs arbitrary: i db rs db')
  case Nil
  then show ?case by simp
next
  case (Cons req reqs)
  obtain r db1 where r: "createInTx bo (now i) req db = (r, db1)"
    by (cases "createInTx bo (now i) req db")
  obtain rs' db2 where rs': "create_items bo now (Suc i) reqs db1 = (rs', db2)"
    by (cases "create_items bo now (Suc i) reqs db1")
  have "fits req" by (rule Cons.prems(3)) simp
  then have "store_inv bo db1"
    using createInTx_inv [OF Cons.prems(1) r] by (simp add: fits_def)
  then have "store_inv bo db2"
    by (rule Cons.IH [OF _ rs']) (rule Cons.prems(3), simp)
  with Cons.prems(2) r rs' show ?case by simp
qed

lemma CreateBatch_inv:
  assumes "store_inv bo db" and "CreateBatch bo commit now reqs db = (r, db')"
    and "\<And>req. req \<in> set reqs \<Longrightarrow> fits req"
  shows "store_inv bo db'"
proof (cases "reqs = []")
  case True
  with assms show ?thesis by (simp add: CreateBatch_def)
next
  case False
  with assms(2) have "db_Update commit
      (\<lambda>s. case create_items bo now 0 reqs s of (rs, s') \<Rightarrow> (Inr rs, s')) db = (r, db')"
    by (simp add: CreateBatch_def)
  then show ?thesis
  proof (cases rule: db_Update_cases)
    case abort
    with assms(1) show ?thesis by simp
  next
    case (commit v)
    then have "create_items bo now 0 reqs db = (v, db')" by (auto split: prod.splits)
    from create_items_inv [OF assms(1) this assms(3)] show ?thesis by simp
  qed
qed

text \<open>A retargeting that succeeds.\<close>

lemma retarget_Inr:
  assumes inv: "store_inv bo db" and lk: "links_get bo db key = Some (Encoded l0)"
    and free: "targets_get bo db target = None \<or> targets_get bo db target = Some key"
    and res: "retarget bo now key target l0 db = (Inr l, db')"
  shows "store_inv bo db'" and "link_Key l = key" and "link_Target l = target"
    and "link_table bo db' = (link_table bo db)(key \<mapsto> target)"
proof -
  have both: "store_inv bo db' \<and> link_Key l = key \<and> link_Target l = target \<and>
      link_table bo db' = (link_table bo db)(key \<mapsto> target)"
  proof (cases "link_Target l0 = target")
    case True
    with res have "db' = db" "l = l0\<lparr>link_Key := key\<rparr>" by (simp_all add: retarget_def)
    with inv lk True show ?thesis by (auto simp: link_table_Some fun_eq_iff)
  next
    case False
    let ?l = "l0\<lparr>link_Target := target, link_UpdatedAt := now\<rparr>"
    from inv lk have old: "targets_get bo db (link_Target l0) = Some key"
      by (auto elim: store_inv_linksD)
    from False res obtain ts1 ts2 ls where
      ts1: "bucket_delete (targets_ops bo) (targets db) (link_Target l0) = Inr ts1" and
      ts2: "bucket_put (targets_ops bo) ts1 target key = Inr ts2" and
      ls: "bucket_put (links_ops bo) (links db) key (marshal_link ?l) = Inr ls" and
      db': "db' = db\<lparr>targets := ts2, links := ls\<rparr>" and l: "l = ?l\<lparr>link_Key := key\<rparr>"
      by (auto simp: retarget_def Let_def split: sum.splits)
    have tg: "targets_get bo db' = (targets_get bo db)(link_Target l0 := None, target \<mapsto> key)"
      using T.get_put [OF ts2] T.get_delete [OF ts1] by (auto simp: db')
    have lg: "links_get bo db' = (links_get bo db)(key \<mapsto> Encoded (?l\<lparr>link_Key := []\<rparr>))"
      using L.get_put [OF ls] by (auto simp: db' marshal_link_def)
    have "targets_get bo db target = None"
      using free False inv lk by (auto elim!: store_inv_targetsD)
    then have "store_inv bo db'"
      using inv lk old False unfolding store_inv_def tg lg
      by (auto split: if_splits) (metis option.inject raw.inject(1) option.distinct(1))+
    moreover have "link_table bo db' = (link_table bo db)(key \<mapsto> target)"
      by (rule ext) (simp add: link_table_def lg)
    ultimately show ?thesis by (simp add: l)
  qed
  then show "store_inv bo db'" "link_Key l = key" "link_Target l = target"
    "link_table bo db' = (link_table bo db)(key \<mapsto> target)" by simp_all
qed

lemma updateInTx_Inr:
  assumes inv: "store_inv bo db" and res: "updateInTx bo now key target db = (Inr l, db')"
  shows "store_inv bo db'" and "link_Key l = key" and "link_Target l = target"
    and "link_table bo db' = (link_table bo db)(key \<mapsto> target)"
    and "link_table bo db key \<noteq> None"
    and "\<And>k. link_table bo db k = Some target \<Longrightarrow> k = key"
proof -
  from res obtain raw where raw: "links_get bo db key = Some raw"
    by (auto simp: updateInTx_def split: option.splits)
  with inv obtain l0 where l0: "raw = Encoded l0" by (rule store_inv_linksD)
  from res raw l0 have free: "targets_get bo db target = None \<or> targets_get bo db target = Some key"
    and rt: "retarget bo now key target l0 db = (Inr l, db')"
    by (auto simp: updateInTx_def split: option.splits if_splits)
  from retarget_Inr [OF inv _ free rt] raw l0
  show "store_inv bo db'" "link_Key l = key" "link_Target l = target"
    "link_table bo db' = (link_table bo db)(key \<mapsto> target)" by simp_all
  show "link_table bo db key \<noteq> None" using raw l0 by (simp add: link_table_def)
  show "\<And>k. link_table bo db k = Some target \<Longrightarrow> k = key"
    using free inv by (auto simp: targets_iff_table [OF inv, symmetric])
qed

lemma deleteInTx_Inr:
  assumes inv: "store_inv bo db" and res: "deleteInTx bo key db = (Inr (), db')"
  shows "store_inv bo db'" and "link_table bo db' = (link_table bo db)(key := None)"
    and "link_table bo db key \<noteq> None"
proof -
  from res obtain raw where raw: "links_get bo db key = Some raw"
    by (auto simp: deleteInTx_def split: option.splits)
  with inv obtain l where l: "raw = Encoded l" and tk: "targets_get bo db (link_Target l) = Some key"
    by (rule store_inv_linksD)
  from res raw l obtain ts ls where
    ts: "bucket_delete (targets_ops bo) (targets db) (link_Target l) = Inr ts" and
    ls: "bucket_delete (links_ops bo) (links db) key = Inr ls" and
    db': "db' = db\<lparr>targets := ts, links := ls\<rparr>"
    by (auto simp: deleteInTx_def Let_def split: sum.splits)
  have tg: "targets_get bo db' = (targets_get bo db)(link_Target l := None)"
    using T.get_delete [OF ts] by (auto simp: db')
  have lg: "links_get bo db' = (links_get bo db)(key := None)"
    using L.get_delete [OF ls] by (auto simp: db')
  show "store_inv bo db'"
    using inv raw l tk unfolding store_inv_def tg lg
    by (auto split: if_splits) (metis option.inject raw.inject(1))+
  show "link_table bo db' = (link_table bo db)(key := None)"
    by (rule ext) (simp add: link_table_def lg)
  show "link_table bo db key \<noteq> None" using raw l by (simp add: link_table_def)
qed

end

subsection \<open>The contract of the Store interface\<close>

text \<open>The clients of \<open>Store\<close> (the API handlers) see a table from keys to targets. \<open>create\<close>,
  \<open>update\<close> and \<open>delete\<close> take what the environment decides (clock, commit) as their first
  argument.\<close>

locale link_store =
  fixes tbl :: "'s \<Rightarrow> string \<Rightarrow> string option"
    and inv :: "'s \<Rightarrow> bool"
    and resolve :: "'s \<Rightarrow> string \<Rightarrow> store_error + string"
    and get :: "'s \<Rightarrow> string \<Rightarrow> store_error + Link"
    and create :: "'e \<Rightarrow> CreateRequest \<Rightarrow> 's \<Rightarrow> (store_error + Link \<times> bool) \<times> 's"
    and update :: "'e \<Rightarrow> string \<Rightarrow> string \<Rightarrow> 's \<Rightarrow> (store_error + Link) \<times> 's"
    and delete :: "'e \<Rightarrow> string \<Rightarrow> 's \<Rightarrow> (store_error + unit) \<times> 's"
  assumes inv_create: "inv s \<Longrightarrow> create e req s = (r, s') \<Longrightarrow> inv s'"
    and inv_update: "inv s \<Longrightarrow> update e k t s = (u, s') \<Longrightarrow> inv s'"
    and inv_delete: "inv s \<Longrightarrow> delete e k s = (d, s') \<Longrightarrow> inv s'"
    and create_err: "create e req s = (Inl x, s') \<Longrightarrow> s' = s"
    and create_old: "inv s \<Longrightarrow> create e req s = (Inr (l, False), s') \<Longrightarrow>
      s' = s \<and> tbl s (link_Key l) = Some (req_Target req)"
    and create_new: "inv s \<Longrightarrow> create e req s = (Inr (l, True), s') \<Longrightarrow>
      tbl s (link_Key l) = None \<and> req_Target req \<notin> ran (tbl s) \<and>
      tbl s' = (tbl s)(link_Key l \<mapsto> req_Target req)"
    and update_err: "update e k t s = (Inl x, s') \<Longrightarrow> s' = s"
    and update_table: "inv s \<Longrightarrow> update e k t s = (Inr l, s') \<Longrightarrow>
      tbl s k \<noteq> None \<and> (\<forall>k'. tbl s k' = Some t \<longrightarrow> k' = k) \<and> tbl s' = (tbl s)(k \<mapsto> t)"
    and delete_err: "delete e k s = (Inl x, s') \<Longrightarrow> s' = s"
    and delete_table: "inv s \<Longrightarrow> delete e k s = (Inr d', s') \<Longrightarrow>
      tbl s k \<noteq> None \<and> tbl s' = (tbl s)(k := None)"
    and resolve_iff: "inv s \<Longrightarrow> resolve s t = Inr k \<longleftrightarrow> tbl s k = Some t"
    and get_iff: "inv s \<Longrightarrow> tbl s k = Some t \<longleftrightarrow>
      (\<exists>l. get s k = Inr l \<and> link_Key l = k \<and> link_Target l = t)"

text \<open>A client's writes, as a sequence of operations.\<close>

datatype 'e store_op =
    OpCreate 'e CreateRequest
  | OpUpdate 'e string string
  | OpDelete 'e string

fun client_step ::
  "('e \<Rightarrow> CreateRequest \<Rightarrow> 's \<Rightarrow> (store_error + Link \<times> bool) \<times> 's) \<Rightarrow>
   ('e \<Rightarrow> string \<Rightarrow> string \<Rightarrow> 's \<Rightarrow> (store_error + Link) \<times> 's) \<Rightarrow>
   ('e \<Rightarrow> string \<Rightarrow> 's \<Rightarrow> (store_error + unit) \<times> 's) \<Rightarrow> 'e store_op \<Rightarrow> 's \<Rightarrow> 's" where
  "client_step cr up de (OpCreate e req) s = snd (cr e req s)"
| "client_step cr up de (OpUpdate e k t) s = snd (up e k t s)"
| "client_step cr up de (OpDelete e k) s = snd (de e k s)"

fun names_key :: "string \<Rightarrow> 'e store_op \<Rightarrow> bool" where
  "names_key k (OpCreate e req) = False"
| "names_key k (OpUpdate e k' t) = (k' = k)"
| "names_key k (OpDelete e k') = (k' = k)"

context link_store
begin

lemma step_inv: "inv s \<Longrightarrow> inv (client_step create update delete op s)"
  by (cases op) (auto intro: inv_create inv_update inv_delete simp: prod_eq_iff)

lemma run_inv: "inv s \<Longrightarrow> inv (fold (client_step create update delete) ops s)"
  by (induction ops arbitrary: s) (auto intro: step_inv)

lemma injective: "inv s \<Longrightarrow> tbl s k = Some t \<Longrightarrow> tbl s k' = Some t \<Longrightarrow> k = k'"
  by (metis resolve_iff sum.inject(2))

lemma step_stable:
  assumes "inv s" and "tbl s k = Some t" and "\<not> names_key k op"
  shows "tbl (client_step create update delete op s) k = Some t"
proof (cases op)
  case (OpCreate e req)
  obtain r s' where c: "create e req s = (r, s')" by (cases "create e req s")
  have "tbl s' k = Some t"
  proof (cases r)
    case (Inl x)
    with c assms(2) show ?thesis using create_err by blast
  next
    case (Inr lc)
    obtain l b where "lc = (l, b)" by (cases lc)
    with Inr c assms(1,2) show ?thesis
      using create_old [of s e req l s'] create_new [of s e req l s'] by (cases b) auto
  qed
  with OpCreate c show ?thesis by simp
next
  case (OpUpdate e k' t')
  obtain r s' where u: "update e k' t' s = (r, s')" by (cases "update e k' t' s")
  with OpUpdate assms have "tbl s' k = Some t"
    using update_err [of e k' t' s _ s'] update_table [of s e k' t' _ s'] by (cases r) auto
  with OpUpdate u show ?thesis by simp
next
  case (OpDelete e k')
  obtain r s' where d: "delete e k' s = (r, s')" by (cases "delete e k' s")
  with OpDelete assms have "tbl s' k = Some t"
    using delete_err [of e k' s _ s'] delete_table [of s e k' _ s'] by (cases r) auto
  with OpDelete d show ?thesis by simp
qed

lemma run_stable:
  "inv s \<Longrightarrow> tbl s k = Some t \<Longrightarrow> \<forall>op \<in> set ops. \<not> names_key k op \<Longrightarrow>
   tbl (fold (client_step create update delete) ops s) k = Some t"
  by (induction ops arbitrary: s) (auto intro: step_inv step_stable)

text \<open>Creating a target again returns the key it already has, whatever the caller asks for.\<close>

lemma create_again:
  assumes "inv s" and "create e req s = (Inr (l, c), s')" and "req_Target req2 = req_Target req"
    and "create e2 req2 s' = (Inr (l2, c2), s2)"
  shows "link_Key l2 = link_Key l \<and> c2 = False \<and> s2 = s'"
proof -
  have i: "inv s'" using assms(1,2) by (rule inv_create)
  have t: "tbl s' (link_Key l) = Some (req_Target req)"
    using create_old [OF assms(1), of e req l s'] create_new [OF assms(1), of e req l s'] assms(2)
    by (cases c) auto
  then have "c2 = False"
    using create_new [OF i, of e2 req2 l2 s2] assms(3,4) by (cases c2) (auto simp: ran_def)
  with create_old [OF i, of e2 req2 l2 s2] assms(3,4) t i show ?thesis
    using injective by auto
qed

end

subsection \<open>The bbolt store meets the contract\<close>

text \<open>What the environment decides of one operation: the commit and the clock.\<close>

type_synonym tx_env = "string option \<times> int"

definition bolt_create :: "('l, 't) bolt \<Rightarrow> tx_env \<Rightarrow> CreateRequest \<Rightarrow> ('l, 't) db \<Rightarrow>
    (store_error + Link \<times> bool) \<times> ('l, 't) db" where
  "bolt_create bo e req db = Create bo (fst e) (snd e) req db"

definition bolt_update :: "('l, 't) bolt \<Rightarrow> tx_env \<Rightarrow> string \<Rightarrow> string \<Rightarrow> ('l, 't) db \<Rightarrow>
    (store_error + Link) \<times> ('l, 't) db" where
  "bolt_update bo e k t db = Update bo (fst e) (snd e) k t db"

definition bolt_delete :: "('l, 't) bolt \<Rightarrow> tx_env \<Rightarrow> string \<Rightarrow> ('l, 't) db \<Rightarrow>
    (store_error + unit) \<times> ('l, 't) db" where
  "bolt_delete bo e k db = Delete bo (fst e) k db"

lemmas bolt_op_defs = bolt_create_def bolt_update_def bolt_delete_def

sublocale bolt_db \<subseteq> st: link_store "link_table bo" "store_inv bo" "Resolve bo" "Get bo"
  "bolt_create bo" "bolt_update bo" "bolt_delete bo"
proof (unfold_locales, goal_cases)
  case (1 s e req r s')
  then show ?case by (auto simp: bolt_op_defs intro: Create_inv)
next
  case (2 s e k t u s')
  from 2(2) show ?case unfolding bolt_op_defs Update_def
    by (cases rule: db_Update_cases) (use 2(1) updateInTx_Inr(1) in auto)
next
  case (3 s e k d s')
  from 3(2) show ?case unfolding bolt_op_defs Delete_def
    by (cases rule: db_Update_cases) (use 3(1) deleteInTx_Inr(1) in auto)
next
  case (4 e req s x s')
  then show ?case by (auto simp: bolt_op_defs Create_def dest: db_Update_Inl)
next
  case (5 s e req l s')
  from 5(2) have "createInTx bo (snd e) req s = (Inr (l, False), s')"
    by (auto simp: bolt_op_defs Create_def elim: db_Update_cases)
  with 5(1) show ?case by (rule createInTx_Inr) auto
next
  case (6 s e req l s')
  from 6(2) have "createInTx bo (snd e) req s = (Inr (l, True), s')"
    by (auto simp: bolt_op_defs Create_def elim: db_Update_cases)
  with 6(1) show ?case
  proof (rule createInTx_Inr)
    assume n: "links_get bo s (link_Key l) = None" "targets_get bo s (req_Target req) = None"
      "links_get bo s' = (links_get bo s)(link_Key l \<mapsto> Encoded (l\<lparr>link_Key := []\<rparr>))"
      "link_Target l = req_Target req"
    have "req_Target req \<notin> ran (link_table bo s)"
      using n(2) by (auto simp: ran_def targets_iff_table [OF 6(1), symmetric])
    moreover have "link_table bo s' = (link_table bo s)(link_Key l \<mapsto> req_Target req)"
      by (rule ext) (simp add: link_table_def n)
    ultimately show ?thesis using n(1) by (simp add: link_table_None [OF 6(1)])
  qed simp
next
  case (7 e k t s x s')
  then show ?case by (auto simp: bolt_op_defs Update_def dest: db_Update_Inl)
next
  case (8 s e k t l s')
  from 8(2) have "updateInTx bo (snd e) k t s = (Inr l, s')"
    by (auto simp: bolt_op_defs Update_def elim: db_Update_cases)
  with 8(1) show ?case using updateInTx_Inr(4-6) by blast
next
  case (9 e k s x s')
  then show ?case by (auto simp: bolt_op_defs Delete_def dest: db_Update_Inl)
next
  case (10 s e k d' s')
  from 10(2) have "deleteInTx bo k s = (Inr (), s')"
    by (auto simp: bolt_op_defs Delete_def elim: db_Update_cases)
  with 10(1) show ?case using deleteInTx_Inr(2,3) by blast
next
  case (11 s t k)
  then show ?case by (auto simp: Resolve_def targets_iff_table [symmetric] split: option.splits)
next
  case (12 s k t)
  then show ?case
    by (auto simp: link_table_def Get_def split: option.splits raw.splits elim: store_inv_linksD)
qed

subsection \<open>A bucket that meets the contract\<close>

text \<open>An association list, newest entry first, listed in key order: bbolt's documented behaviour on
  a concrete type, on which the properties' examples are evaluated.\<close>

definition al_bucket_put :: "(string \<times> 'v) list \<Rightarrow> string \<Rightarrow> 'v \<Rightarrow> string + (string \<times> 'v) list" where
  "al_bucket_put b k v =
     (if k = [] then Inl ''key required''
      else if length k > MaxKeySize then Inl ''key too large''
      else Inr ((k, v) # b))"

lemma al_bucket_put_code [code]:
  "al_bucket_put b k v =
     (if k = [] then Inl ''key required''
      else if 32768 < int (length k) then Inl ''key too large''
      else Inr ((k, v) # b))"
  by (simp add: al_bucket_put_def MaxKeySize_def)

definition al_bucket_delete :: "(string \<times> 'v) list \<Rightarrow> string \<Rightarrow> string + (string \<times> 'v) list" where
  "al_bucket_delete b k = Inr (al_del k b)"

definition al_bucket_entries :: "(string \<times> 'v) list \<Rightarrow> (string \<times> 'v) list" where
  "al_bucket_entries b = map (\<lambda>k. (k, the (map_of b k))) (sort (remdups (map fst b)))"

definition al_bucket :: "((string \<times> 'v) list, 'v) bucket_ops" where
  "al_bucket = \<lparr>bucket_get = map_of, bucket_put = al_bucket_put, bucket_delete = al_bucket_delete,
     bucket_entries = al_bucket_entries\<rparr>"

definition al_bolt :: "((string \<times> raw) list, (string \<times> string) list) bolt" where
  "al_bolt = \<lparr>links_ops = al_bucket, targets_ops = al_bucket\<rparr>"

lemma al_bucket_simps [simp]:
  "bucket_get al_bucket = map_of" "bucket_put al_bucket = al_bucket_put"
  "bucket_delete al_bucket = al_bucket_delete" "bucket_entries al_bucket = al_bucket_entries"
  by (simp_all add: al_bucket_def)

lemma map_of_al_entries: "map_of (al_bucket_entries b) k = map_of b k"
proof (cases "k \<in> fst ` set b")
  case True
  then obtain v where "map_of b k = Some v" by (metis domD dom_map_of_conv_image_fst)
  with True show ?thesis by (auto simp: al_bucket_entries_def map_of_map_restrict restrict_map_def)
next
  case False
  then have "map_of b k = None" by (metis map_of_eq_None_iff)
  with False show ?thesis by (auto simp: al_bucket_entries_def map_of_map_restrict restrict_map_def)
qed

lemma sorted_al_entries: "sorted_wrt (<) (map fst (al_bucket_entries b))"
  by (simp add: al_bucket_entries_def comp_def strict_sorted_iff)

lemma bucket_al_bucket: "bucket (al_bucket :: ((string \<times> 'v) list, 'v) bucket_ops) vo"
  by unfold_locales
    (auto simp: al_bucket_put_def al_bucket_delete_def map_of_al_entries
      sorted_al_entries split: if_splits)

interpretation al: bolt_db al_bolt "\<lambda>_. True" "\<lambda>_. True"
  unfolding bolt_db_def bolt_db_axioms_def by (simp add: al_bolt_def bucket_al_bucket)

end
