(* ===== verification/UrlStoreProps.thy ===== *)
theory UrlStoreProps
  imports UrlStoreSpec
begin

text \<open>
  What the link store guarantees: the invariant of the two buckets over whole runs, the stability of
  published links, the independence of the items of a batch, the pages of a listing, the counts, the
  check of a backup file and the schema version. bbolt enters as any \<open>bo\<close> with \<open>bolt_db bo vl vt\<close>.
\<close>

subsection \<open>Byte order and prefixes\<close>

lemma HasPrefix_le: "HasPrefix k p \<Longrightarrow> p \<le> (k :: string)"
  by (induction p arbitrary: k) (auto simp: HasPrefix_iff)

lemma HasPrefix_between:
  "p \<le> a \<Longrightarrow> a \<le> b \<Longrightarrow> HasPrefix b p \<Longrightarrow> HasPrefix (a :: string) p"
proof (induction p arbitrary: a b)
  case Nil
  then show ?case by simp
next
  case (Cons x p)
  then obtain b' where b: "b = x # b'" "HasPrefix b' p" by (auto simp: HasPrefix_iff)
  from Cons.prems(1) obtain y a' where a: "a = y # a'" by (cases a) auto
  with Cons.prems(1,2) b have "y = x" "p \<le> a'" "a' \<le> b'" by auto
  with Cons.IH b a show ?case by (auto simp: HasPrefix_Cons)
qed

lemma takeWhile_prefix_sorted:
  "sorted_wrt (<) (map fst es) \<Longrightarrow> (\<And>e. e \<in> set es \<Longrightarrow> p \<le> fst e) \<Longrightarrow>
   takeWhile (\<lambda>e. HasPrefix (fst e) p) es = filter (\<lambda>e. HasPrefix (fst e) p) es"
proof (induction es)
  case Nil
  then show ?case by simp
next
  case (Cons e es)
  show ?case
  proof (cases "HasPrefix (fst e) p")
    case True
    with Cons show ?thesis by simp
  next
    case False
    have "\<not> HasPrefix (fst e') p" if "e' \<in> set es" for e'
    proof -
      from that Cons.prems(1) have "fst e \<le> fst e'" by auto
      moreover have "p \<le> fst e" by (rule Cons.prems(2)) simp
      ultimately show ?thesis using HasPrefix_between False by blast
    qed
    with False show ?thesis by (simp add: filter_empty_conv)
  qed
qed

lemma Seek_filter: "sorted_wrt (<) (map fst es) \<Longrightarrow> Seek k es = filter (\<lambda>e. k \<le> fst e) es"
proof (induction es)
  case Nil
  then show ?case by (simp add: Seek_def)
next
  case (Cons e es)
  show ?case
  proof (cases "fst e < k")
    case True
    with Cons show ?thesis by (auto simp: Seek_def)
  next
    case False
    then have "k \<le> fst x" if "x \<in> set es" for x using Cons.prems that by fastforce
    with False show ?thesis by (auto simp: Seek_def not_less filter_id_conv)
  qed
qed

lemma sorted_wrt_filter_fst: "sorted_wrt (<) (map fst es) \<Longrightarrow> sorted_wrt (<) (map fst (filter P es))"
  by (induction es) auto

lemma takeWhile_Seek_prefix:
  assumes "sorted_wrt (<) (map fst es)"
  shows "takeWhile (\<lambda>e. HasPrefix (fst e) p) (Seek p es) = filter (\<lambda>e. HasPrefix (fst e) p) es"
proof -
  have "takeWhile (\<lambda>e. HasPrefix (fst e) p) (Seek p es) =
      filter (\<lambda>e. HasPrefix (fst e) p) (filter (\<lambda>e. p \<le> fst e) es)"
    unfolding Seek_filter [OF assms]
    by (rule takeWhile_prefix_sorted) (auto simp: sorted_wrt_filter_fst [OF assms])
  also have "\<dots> = filter (\<lambda>e. HasPrefix (fst e) p) es"
    unfolding filter_filter by (rule filter_cong) (auto dest: HasPrefix_le)
  finally show ?thesis .
qed

subsection \<open>Pages\<close>

text \<open>The keys a listing has still to return.\<close>

definition keys_after :: "('l, 't) bolt \<Rightarrow> ('l, 't) db \<Rightarrow> string \<Rightarrow> string \<Rightarrow> string list" where
  "keys_after bo db pfx cursor =
     filter (\<lambda>k. HasPrefix k pfx \<and> (cursor = [] \<or> cursor < k))
       (map fst (bucket_entries (links_ops bo) (links db)))"

lemma clamp_limit_pos: "1 \<le> clamp_limit n \<and> clamp_limit n \<le> 1000"
  by (simp add: clamp_limit_def Let_def)

lemma list_scan_spec:
  assumes "\<And>e. e \<in> set es \<Longrightarrow> \<exists>l. snd e = Encoded l \<and> get (fst e) = Inr (l\<lparr>link_Key := fst e\<rparr>)"
    and "int (length acc) < limit"
  shows "\<exists>ls. list_scan pfx limit es acc =
      Inr (acc @ ls,
        (let ks = map fst (takeWhile (\<lambda>e. HasPrefix (fst e) pfx) es); n = nat limit - length acc
         in if length ks < n then [] else ks ! (n - 1))) \<and>
      map Inr ls = map get (take (nat limit - length acc)
        (map fst (takeWhile (\<lambda>e. HasPrefix (fst e) pfx) es)))"
  using assms
proof (induction pfx limit es acc rule: list_scan.induct)
  case (1 pfx limit acc)
  then have "length acc < nat limit" by simp
  then show ?case by (simp add: Let_def)
next
  case (2 pfx limit k v es acc)
  obtain l where l: "v = Encoded l" "get k = Inr (l\<lparr>link_Key := k\<rparr>)"
    using 2(2) [of "(k, v)"] by auto
  show ?case
  proof (cases "HasPrefix k pfx")
    case False
    from 2(3) have "length acc < nat limit" by simp
    with False show ?thesis by (simp add: Let_def)
  next
    case True
    let ?acc = "acc @ [l\<lparr>link_Key := k\<rparr>]"
    show ?thesis
    proof (cases "int (length ?acc) \<ge> limit")
      case True': True
      with 2(3) have "nat limit - length acc = 1" by simp
      with True True' l show ?thesis by (intro exI [of _ "[l\<lparr>link_Key := k\<rparr>]"]) (simp add: Let_def)
    next
      case False
      then have lt: "int (length ?acc) < limit" by simp
      let ?n = "nat limit - length ?acc"
      have n: "nat limit - length acc = Suc ?n" "0 < ?n" using lt by simp_all
      have es: "\<exists>l. snd e = Encoded l \<and> get (fst e) = Inr (l\<lparr>link_Key := fst e\<rparr>)"
        if "e \<in> set es" for e using 2(2) that by simp
      from 2(1) [OF _ _ refl False es lt] True l obtain ls where
        "list_scan pfx limit es ?acc =
           Inr (?acc @ ls,
             (let ks = map fst (takeWhile (\<lambda>e. HasPrefix (fst e) pfx) es)
              in if length ks < ?n then [] else ks ! (?n - 1)))"
        "map Inr ls = map get (take ?n (map fst (takeWhile (\<lambda>e. HasPrefix (fst e) pfx) es)))"
        by (auto simp: Let_def)
      with True False l n(2) show ?thesis unfolding n(1)
        by (intro exI [of _ "l\<lparr>link_Key := k\<rparr> # ls"]) (auto simp: Let_def nth_Cons')
    qed
  qed
qed

lemma list_start_keys:
  assumes "sorted_wrt (<) (map fst es)" and "cursor = [] \<or> HasPrefix cursor pfx"
  shows "takeWhile (\<lambda>e. HasPrefix (fst e) pfx) (list_start pfx cursor es) =
    filter (\<lambda>e. HasPrefix (fst e) pfx \<and> (cursor = [] \<or> cursor < fst e)) es"
proof (cases "cursor = []")
  case True
  then show ?thesis by (simp add: list_start_def takeWhile_Seek_prefix [OF assms(1)])
next
  case False
  with assms(2) have c: "HasPrefix cursor pfx" by simp
  have sk: "Seek cursor es = filter (\<lambda>e. cursor \<le> fst e) es" by (rule Seek_filter [OF assms(1)])
  have srt: "sorted_wrt (<) (map fst (Seek cursor es))"
    unfolding sk by (rule sorted_wrt_filter_fst [OF assms(1)])
  have st: "list_start pfx cursor es = filter (\<lambda>e. cursor < fst e) (Seek cursor es)"
  proof (cases "Seek cursor es")
    case Nil
    with False show ?thesis by (simp add: list_start_def)
  next
    case (Cons e rest)
    with srt have "\<forall>x\<in>set rest. fst e < fst x" by auto
    moreover from Cons sk have "cursor \<le> fst e" by (metis (mono_tags) list.set_intros(1) mem_Collect_eq set_filter)
    ultimately show ?thesis using False Cons
      by (cases e) (auto simp: list_start_def filter_id_conv dest: le_less_trans intro!: filter_True [symmetric])
  qed
  have "takeWhile (\<lambda>e. HasPrefix (fst e) pfx) (list_start pfx cursor es) =
      filter (\<lambda>e. HasPrefix (fst e) pfx) (filter (\<lambda>e. cursor < fst e) (Seek cursor es))"
    unfolding st
    by (rule takeWhile_prefix_sorted [OF sorted_wrt_filter_fst [OF srt]])
      (use HasPrefix_le [OF c] in \<open>auto intro: order.trans less_imp_le\<close>)
  also have "\<dots> = filter (\<lambda>e. HasPrefix (fst e) pfx \<and> cursor < fst e) es"
    unfolding sk filter_filter by (rule filter_cong) auto
  finally show ?thesis using False by simp
qed

lemma set_list_start: "set (list_start pfx cursor es) \<subseteq> set es"
proof -
  have sk: "set (Seek k es) \<subseteq> set es" for k by (auto simp: Seek_def dest: set_dropWhileD)
  show ?thesis
    using sk [of cursor] sk [of pfx] unfolding list_start_def
    by (cases "Seek cursor es") (auto split: if_splits)
qed

context bolt_db
begin

lemma entry_Get:
  assumes "store_inv bo db" and "e \<in> set (bucket_entries (links_ops bo) (links db))"
  shows "\<exists>l. snd e = Encoded l \<and> Get bo db (fst e) = Inr (l\<lparr>link_Key := fst e\<rparr>)"
proof -
  let ?es = "bucket_entries (links_ops bo) (links db)"
  have "distinct (map fst ?es)"
    using L.entries_sorted by (simp add: strict_sorted_iff)
  with assms(2) have "map_of ?es (fst e) = Some (snd e)" by simp
  then have g: "links_get bo db (fst e) = Some (snd e)" by (simp add: L.entries_get)
  with assms(1) obtain l where "snd e = Encoded l" by (rule store_inv_linksD)
  with g show ?thesis by (simp add: Get_def)
qed

lemma List_segment:
  assumes inv: "store_inv bo db" and c: "cursor = [] \<or> HasPrefix cursor pfx"
  shows "\<exists>ls. List_links bo db pfx limit cursor =
      Inr (ls, (let ks = keys_after bo db pfx cursor; n = nat (clamp_limit limit)
                in if length ks < n then [] else ks ! (n - 1))) \<and>
      map Inr ls = map (Get bo db) (take (nat (clamp_limit limit)) (keys_after bo db pfx cursor))"
proof -
  let ?es = "bucket_entries (links_ops bo) (links db)"
  have ks: "map fst (takeWhile (\<lambda>e. HasPrefix (fst e) pfx) (list_start pfx cursor ?es)) =
      keys_after bo db pfx cursor"
    unfolding list_start_keys [OF L.entries_sorted c] keys_after_def filter_map comp_def ..
  have sub: "set (list_start pfx cursor ?es) \<subseteq> set ?es"
    by (rule set_list_start)
  have es: "\<exists>l. snd e = Encoded l \<and> Get bo db (fst e) = Inr (l\<lparr>link_Key := fst e\<rparr>)"
    if "e \<in> set (list_start pfx cursor ?es)" for e
    using entry_Get [OF inv] sub that by blast
  have "int (length ([] :: Link list)) < clamp_limit limit" using clamp_limit_pos [of limit] by simp
  from list_scan_spec [where es = "list_start pfx cursor ?es" and pfx = pfx, OF es this, unfolded ks]
  show ?thesis unfolding List_links_def by simp
qed

end

lemma filter_gt_nth:
  fixes xs :: "'a :: linorder list"
  shows "sorted_wrt (<) xs \<Longrightarrow> i < length xs \<Longrightarrow> filter (\<lambda>x. xs ! i < x) xs = drop (Suc i) xs"
proof (induction xs arbitrary: i)
  case Nil
  then show ?case by simp
next
  case (Cons x xs)
  show ?case
  proof (cases i)
    case 0
    with Cons.prems show ?thesis by (simp add: filter_id_conv)
  next
    case (Suc j)
    with Cons.prems have "x < xs ! j" by simp
    then have "\<not> xs ! j < x" by simp
    with Suc Cons show ?thesis by simp
  qed
qed

lemma sorted_keys_after:
  "sorted_wrt (<) (map fst (bucket_entries (links_ops bo) (links db))) \<Longrightarrow>
   sorted_wrt (<) (keys_after bo db pfx cursor)"
  by (simp add: keys_after_def sorted_wrt_filter)

lemma keys_after_next:
  assumes "sorted_wrt (<) (map fst (bucket_entries (links_ops bo) (links db)))"
    and i: "i < length (keys_after bo db pfx cursor)" and ne: "keys_after bo db pfx cursor ! i \<noteq> []"
  shows "keys_after bo db pfx (keys_after bo db pfx cursor ! i) = drop (Suc i) (keys_after bo db pfx cursor)"
    and "HasPrefix (keys_after bo db pfx cursor ! i) pfx"
proof -
  let ?ks = "keys_after bo db pfx cursor"
  have mem: "?ks ! i \<in> set ?ks" using i by simp
  then have c: "HasPrefix (?ks ! i) pfx" "cursor = [] \<or> cursor < ?ks ! i"
    by (simp_all add: keys_after_def)
  from c(1) show "HasPrefix (?ks ! i) pfx" .
  have "keys_after bo db pfx (?ks ! i) = filter (\<lambda>k. ?ks ! i < k) ?ks"
    using ne c(2) unfolding keys_after_def filter_filter by (intro filter_cong) auto
  also have "\<dots> = drop (Suc i) ?ks"
    by (rule filter_gt_nth [OF sorted_keys_after [OF assms(1)] i])
  finally show "keys_after bo db pfx (?ks ! i) = drop (Suc i) ?ks" .
qed

text \<open>A client that follows the cursors, for at most \<open>n\<close> pages.\<close>

fun follow_pages :: "('l, 't) bolt \<Rightarrow> ('l, 't) db \<Rightarrow> string \<Rightarrow> int \<Rightarrow> nat \<Rightarrow> string \<Rightarrow>
    store_error + Link list" where
  "follow_pages bo db pfx limit 0 cursor = Inr []"
| "follow_pages bo db pfx limit (Suc n) cursor =
     (case List_links bo db pfx limit cursor of
        Inl e \<Rightarrow> Inl e
      | Inr (ls, next_cursor) \<Rightarrow>
          if next_cursor = [] then Inr ls
          else (case follow_pages bo db pfx limit n next_cursor of
                  Inl e \<Rightarrow> Inl e
                | Inr ls' \<Rightarrow> Inr (ls @ ls')))"

context bolt_db
begin

lemma follow_pages_all:
  assumes inv: "store_inv bo db" and no_empty: "links_get bo db [] = None"
  shows "cursor = [] \<or> HasPrefix cursor pfx \<Longrightarrow> length (keys_after bo db pfx cursor) < n \<Longrightarrow>
    \<exists>ls. follow_pages bo db pfx limit n cursor = Inr ls \<and>
      map Inr ls = map (Get bo db) (keys_after bo db pfx cursor)"
proof (induction n arbitrary: cursor)
  case 0
  then show ?case by simp
next
  case (Suc n)
  let ?ks = "keys_after bo db pfx cursor" and ?m = "nat (clamp_limit limit)"
  from List_segment [OF inv Suc.prems(1)] obtain ls where
    ls: "List_links bo db pfx limit cursor =
      Inr (ls, if length ?ks < ?m then [] else ?ks ! (?m - 1))"
      "map Inr ls = map (Get bo db) (take ?m ?ks)" by (metis (no_types))
  show ?case
  proof (cases "length ?ks < ?m")
    case True
    with ls show ?thesis by simp
  next
    case False
    have m: "0 < ?m" using clamp_limit_pos [of limit] by simp
    with False have i: "?m - 1 < length ?ks" by simp
    have "map_of (bucket_entries (links_ops bo) (links db)) [] = None"
      using no_empty by (simp add: L.entries_get)
    then have "[] \<notin> set ?ks" by (auto simp: keys_after_def map_of_eq_None_iff)
    with i have ne: "?ks ! (?m - 1) \<noteq> []" by (metis nth_mem)
    note nxt = keys_after_next [OF L.entries_sorted i ne]
    from m Suc.prems(2) i have "length (keys_after bo db pfx (?ks ! (?m - 1))) < n"
      unfolding nxt(1) by simp
    with Suc.IH [of "?ks ! (?m - 1)"] nxt(2) obtain ls' where
      ls': "follow_pages bo db pfx limit n (?ks ! (?m - 1)) = Inr ls'"
      "map Inr ls' = map (Get bo db) (drop ?m ?ks)"
      using m unfolding nxt(1) by auto
    have "map Inr (ls @ ls') = map (Get bo db) (take ?m ?ks @ drop ?m ?ks)"
      by (simp only: map_append ls(2) ls'(2))
    with False ls(1) ls'(1) ne show ?thesis by simp
  qed
qed

lemma CountPrefix_keys: "CountPrefix bo db pfx = length (keys_after bo db pfx [])"
  by (simp add: CountPrefix_def takeWhile_Seek_prefix [OF L.entries_sorted] keys_after_def
      filter_map comp_def)

end

subsection \<open>Batches\<close>

text \<open>What a batch adds to the table, read from its results.\<close>

fun batch_table :: "CreateRequest list \<Rightarrow> CreateResult list \<Rightarrow> (string \<Rightarrow> string option) \<Rightarrow>
    string \<Rightarrow> string option" where
  "batch_table (req # reqs) (r # rs) t =
     batch_table reqs rs
       (case res_Link r of
          Some l \<Rightarrow> if res_Created r then t(link_Key l \<mapsto> req_Target req) else t
        | None \<Rightarrow> t)"
| "batch_table _ _ t = t"

context bolt_db
begin

lemma create_items_table:
  assumes "store_inv bo db" and "create_items bo now i reqs db = (rs, db')"
    and "\<And>req. req \<in> set reqs \<Longrightarrow> fits req"
  shows "length rs = length reqs \<and> batch_table reqs rs (link_table bo db) = link_table bo db' \<and>
    link_table bo db \<subseteq>\<^sub>m link_table bo db' \<and>
    list_all2 (\<lambda>req r. case res_Link r of
        None \<Rightarrow> res_Err r \<noteq> None
      | Some l \<Rightarrow> link_table bo db' (link_Key l) = Some (req_Target req)) reqs rs"
  using assms
proof (induction reqs arbitrary: i db rs)
  case Nil
  then show ?case by (simp add: map_le_refl)
next
  case (Cons req reqs)
  obtain r db1 where r: "createInTx bo (now i) req db = (r, db1)"
    by (cases "createInTx bo (now i) req db")
  obtain rs' where rs': "create_items bo now (Suc i) reqs db1 = (rs', db')" and
    rs: "rs = batch_result r # rs'" using Cons.prems(2) r by (auto split: prod.splits)
  have fit: "fits req" by (rule Cons.prems(3)) simp
  have inv1: "store_inv bo db1"
    using createInTx_inv [OF Cons.prems(1) r] fit by (simp add: fits_def)
  have IH: "length rs' = length reqs \<and>
      batch_table reqs rs' (link_table bo db1) = link_table bo db' \<and>
      link_table bo db1 \<subseteq>\<^sub>m link_table bo db' \<and>
      list_all2 (\<lambda>req r. case res_Link r of
          None \<Rightarrow> res_Err r \<noteq> None
        | Some l \<Rightarrow> link_table bo db' (link_Key l) = Some (req_Target req)) reqs rs'"
    by (rule Cons.IH [OF inv1 rs']) (rule Cons.prems(3), simp)
  show ?case
  proof (cases r)
    case (Inl e)
    with r fit have "db1 = db" using createInTx_Inl by (auto simp: fits_def)
    with Inl IH rs show ?thesis by (simp add: batch_result_def)
  next
    case (Inr lc)
    obtain l c where lc: "lc = (l, c)" by (cases lc)
    with Inr r have "createInTx bo (now i) req db = (Inr (l, c), db1)" by simp
    with Cons.prems(1) have step: "link_table bo db1 (link_Key l) = Some (req_Target req) \<and>
        link_table bo db \<subseteq>\<^sub>m link_table bo db1 \<and>
        link_table bo db1 = (if c then (link_table bo db)(link_Key l \<mapsto> req_Target req)
          else link_table bo db)"
    proof (rule createInTx_Inr)
      assume n: "c = True" "link_Target l = req_Target req" "links_get bo db (link_Key l) = None"
        "links_get bo db1 = (links_get bo db)(link_Key l \<mapsto> Encoded (l\<lparr>link_Key := []\<rparr>))"
      then have "link_table bo db1 = (link_table bo db)(link_Key l \<mapsto> req_Target req)"
        by (intro ext) (simp add: link_table_def)
      moreover have "link_table bo db (link_Key l) = None" using n(3) by (simp add: link_table_def)
      ultimately show ?thesis using n(1) by (auto simp: map_le_def)
    qed (auto simp: map_le_refl)
    then have "link_table bo db' (link_Key l) = Some (req_Target req)"
      using IH by (metis domI map_le_def)
    moreover have "link_table bo db \<subseteq>\<^sub>m link_table bo db'"
      using step IH map_le_trans by blast
    ultimately show ?thesis using IH step rs Inr lc by (simp add: batch_result_def)
  qed
qed

end

subsection \<open>A verified backup\<close>

context bolt_db
begin

lemma check_links_ok:
  "check_links tget es = Inr () \<Longrightarrow> (k, v) \<in> set es \<Longrightarrow>
   \<exists>l. v = Encoded l \<and> (case tget (link_Target l) of None \<Rightarrow> [] | Some g \<Rightarrow> g) = k"
proof (induction tget es rule: check_links.induct)
  case (1 tget)
  then show ?case by simp
next
  case (2 tget k' v' es)
  from 2(2) obtain l where l: "unmarshal_link v' = Inr l"
    "(case tget (link_Target l) of None \<Rightarrow> [] | Some g \<Rightarrow> g) = k'" "check_links tget es = Inr ()"
    by (auto split: sum.splits if_splits)
  then have "v' = Encoded l" by (cases v') auto
  with 2 l show ?case by auto
qed

lemma verified_inv:
  assumes ok: "check_links (targets_get bo db) (bucket_entries (links_ops bo) (links db)) = Inr ()"
    and eq: "length (bucket_entries (links_ops bo) (links db)) =
      length (bucket_entries (targets_ops bo) (targets db))"
    and no_empty: "links_get bo db [] = None"
  shows "store_inv bo db"
proof -
  let ?L = "bucket_entries (links_ops bo) (links db)" and ?T = "bucket_entries (targets_ops bo) (targets db)"
  have dL: "distinct (map fst ?L)" and dT: "distinct (map fst ?T)"
    using L.entries_sorted T.entries_sorted by (simp_all add: strict_sorted_iff)
  have lg: "links_get bo db k = Some raw \<longleftrightarrow> (k, raw) \<in> set ?L" for k raw
    using dL by (simp add: L.entries_get [symmetric])
  have tg: "targets_get bo db t = Some k \<longleftrightarrow> (t, k) \<in> set ?T" for t k
    using dT by (simp add: T.entries_get [symmetric])
  have fwd: "\<exists>l. raw = Encoded l \<and> targets_get bo db (link_Target l) = Some k"
    if "links_get bo db k = Some raw" for k raw
  proof -
    from that check_links_ok [OF ok] obtain l where
      l: "raw = Encoded l" "(case targets_get bo db (link_Target l) of None \<Rightarrow> [] | Some g \<Rightarrow> g) = k"
      unfolding lg by blast
    moreover have "k \<noteq> []" using that no_empty by auto
    ultimately show ?thesis by (auto split: option.splits)
  qed
  define f where "f k = (case links_get bo db k of Some (Encoded l) \<Rightarrow> link_Target l | _ \<Rightarrow> [])" for k
  let ?K = "fst ` set ?L" and ?S = "fst ` set ?T"
  have fK: "targets_get bo db (f k) = Some k" if "k \<in> ?K" for k
  proof -
    from that lg obtain raw where raw: "links_get bo db k = Some raw" by force
    with fwd obtain l where "raw = Encoded l" "targets_get bo db (link_Target l) = Some k" by blast
    with raw show ?thesis by (simp add: f_def)
  qed
  have inj: "inj_on f ?K"
  proof (rule inj_onI)
    fix x y
    assume "x \<in> ?K" "y \<in> ?K" "f x = f y"
    from \<open>x \<in> ?K\<close> have "targets_get bo db (f x) = Some x" by (rule fK)
    moreover from \<open>y \<in> ?K\<close> have "targets_get bo db (f y) = Some y" by (rule fK)
    ultimately show "x = y" unfolding \<open>f x = f y\<close> by simp
  qed
  have sub: "f ` ?K \<subseteq> ?S"
  proof (rule image_subsetI)
    fix k
    assume "k \<in> ?K"
    then have "(f k, k) \<in> set ?T" using fK tg by blast
    then show "f k \<in> ?S" by (rule rev_image_eqI) simp
  qed
  have "card ?K = card ?S" using eq dL dT by (metis distinct_card length_map list.set_map)
  with inj sub have surj: "f ` ?K = ?S" by (intro card_subset_eq) (auto simp: card_image)
  have bwd: "\<exists>l. links_get bo db k = Some (Encoded l) \<and> link_Target l = t"
    if "targets_get bo db t = Some k" for t k
  proof -
    from that tg have "t \<in> ?S" by force
    then have "t \<in> f ` ?K" unfolding surj .
    then obtain k' where k': "k' \<in> ?K" "t = f k'" by (rule imageE)
    with fK that have "k' = k" by auto
    from k'(1) lg obtain raw where raw: "links_get bo db k' = Some raw" by force
    with fwd obtain l where "raw = Encoded l" by blast
    with raw k'(2) \<open>k' = k\<close> show ?thesis by (simp add: f_def)
  qed
  show ?thesis unfolding store_inv_def using fwd bwd by blast
qed

end

lemma Uint32_PutUint32: "Uint32 (PutUint32 v) = v"
proof (rule bit_word_eqI)
  fix n
  assume "n < LENGTH(32)"
  then consider "n < 8" | "8 \<le> n" "n < 16" | "16 \<le> n" "n < 24" | "24 \<le> n" "n < 32" by fastforce
  then show "bit (Uint32 (PutUint32 v)) n \<longleftrightarrow> bit v n"
    by cases (auto simp: PutUint32_def bit_simps)
qed

subsection \<open>Properties of the store\<close>

lemma Get_key: "Get bo db k = Inr l \<Longrightarrow> link_Key l = k"
  by (auto simp: Get_def split: option.splits sum.splits)

definition ex_empty :: "((string \<times> raw) list, (string \<times> string) list) db" where
  "ex_empty = \<lparr>links = [], targets = []\<rparr>"

definition ex_req :: CreateRequest where
  "ex_req = \<lparr>req_Target = ''http://a/'', req_Rule = [], req_Owner = ''alice'',
     req_ExplicitKey = ''/a/x'', req_Gen = None\<rparr>"

definition ex_other :: CreateRequest where
  "ex_other = ex_req\<lparr>req_Target := ''http://b/'', req_ExplicitKey := ''/a/y''\<rparr>"

definition ex_one :: "((string \<times> raw) list, (string \<times> string) list) db" where
  "ex_one = snd (Create al_bolt None 5 ex_req ex_empty)"

definition ex_two :: "((string \<times> raw) list, (string \<times> string) list) db" where
  "ex_two = snd (Create al_bolt None 6 ex_other ex_one)"

lemma bolt_db_al: "bolt_db al_bolt (\<lambda>_. True) (\<lambda>_. True)"
  by (rule al.bolt_db_axioms)

lemma store_inv_ex_empty: "store_inv al_bolt ex_empty"
  by (simp add: store_inv_def al_bolt_def ex_empty_def)

lemma store_inv_ex_one: "store_inv al_bolt ex_one"
  unfolding ex_one_def by (rule al.Create_inv [OF store_inv_ex_empty]) (rule surjective_pairing)

lemma store_inv_ex_two: "store_inv al_bolt ex_two"
  unfolding ex_two_def by (rule al.Create_inv [OF store_inv_ex_one]) (rule surjective_pairing)

context bolt_db
begin

lemmas store_run_inv = st.run_inv
lemmas store_run_stable = st.run_stable
lemmas store_create_again = st.create_again
lemmas store_create_new = st.create_new
lemmas store_create_old = st.create_old
lemmas store_update_table = st.update_table
lemmas store_update_err = st.update_err
lemmas store_resolve_iff = st.resolve_iff
lemmas store_get_iff = st.get_iff

end

text \<open>C1: whatever sequence of creations, retargetings and deletions runs, and whichever of them
  fail or lose their commit, the two buckets stay inverse to each other.\<close>

theorem store_runs_keep_buckets_inverse:
  assumes "bolt_db bo vl vt" and "store_inv bo db"
  shows "store_inv bo (fold (client_step (bolt_create bo) (bolt_update bo) (bolt_delete bo)) ops db)"
  using assms(2) by (rule bolt_db.store_run_inv [OF assms(1)])

theorem store_runs_keep_buckets_inverse_example:
  "store_inv al_bolt (fold (client_step (bolt_create al_bolt) (bolt_update al_bolt) (bolt_delete al_bolt))
     [OpCreate (None, 5) ex_req, OpUpdate (None, 6) ''/a/x'' ''http://c/'', OpDelete (None, 0) ''/a/x'']
     ex_empty)"
  by (rule store_runs_keep_buckets_inverse [OF bolt_db_al store_inv_ex_empty])

text \<open>C2: a published short link keeps redirecting to its target through any run of store operations
  that neither retargets nor deletes that key; other creations cannot take it over.\<close>

theorem published_link_is_stable:
  assumes "bolt_db bo vl vt" and "store_inv bo db" and "link_table bo db k = Some t"
    and "\<forall>op \<in> set ops. \<not> names_key k op"
  shows "link_table bo (fold (client_step (bolt_create bo) (bolt_update bo) (bolt_delete bo)) ops db) k
    = Some t"
  using assms(2-4) by (rule bolt_db.store_run_stable [OF assms(1)])

theorem published_link_is_stable_example:
  "link_table al_bolt (fold (client_step (bolt_create al_bolt) (bolt_update al_bolt) (bolt_delete al_bolt))
     [OpCreate (None, 7) (ex_req\<lparr>req_Target := ''http://d/''\<rparr>), OpDelete (None, 0) ''/a/y''] ex_two)
     ''/a/x'' = Some ''http://a/''"
proof (rule published_link_is_stable [OF bolt_db_al store_inv_ex_two])
  show "link_table al_bolt ex_two ''/a/x'' = Some ''http://a/''" by code_simp
  show "\<forall>op \<in> set [OpCreate (None, 7) (ex_req\<lparr>req_Target := ''http://d/''\<rparr>),
      OpDelete (None :: string option, 0 :: int) ''/a/y'']. \<not> names_key ''/a/x'' op" by simp
qed



text \<open>C8: the results of a committed batch say exactly what it did: one result per request in
  order, the new table is the old one plus the created links, nothing published before is lost, and
  every link returned is in the table; an item that failed leaves no trace.\<close>

theorem batch_results_describe_the_table:
  assumes "bolt_db bo vl vt" and "store_inv bo db" and "\<And>req. req \<in> set reqs \<Longrightarrow> fits req"
    and "CreateBatch bo commit now reqs db = (Inr rs, db')"
  shows "length rs = length reqs \<and> store_inv bo db' \<and>
    link_table bo db' = batch_table reqs rs (link_table bo db) \<and>
    link_table bo db \<subseteq>\<^sub>m link_table bo db' \<and>
    list_all2 (\<lambda>req r. case res_Link r of
        None \<Rightarrow> res_Err r \<noteq> None
      | Some l \<Rightarrow> link_table bo db' (link_Key l) = Some (req_Target req)) reqs rs"
proof (cases "reqs = []")
  case True
  with assms show ?thesis by (simp add: CreateBatch_def map_le_refl)
next
  case False
  with assms(4) have c: "create_items bo now 0 reqs db = (rs, db')"
    by (auto simp: CreateBatch_def elim!: db_Update_cases split: prod.splits)
  from bolt_db.create_items_table [OF assms(1,2) c assms(3)]
    bolt_db.create_items_inv [OF assms(1,2) c assms(3)]
  show ?thesis by auto
qed

theorem batch_results_describe_the_table_example:
  "\<exists>rs db'. CreateBatch al_bolt None (\<lambda>i. int i) [ex_req, ex_req\<lparr>req_ExplicitKey := ''/b''\<rparr>, ex_other]
      ex_empty = (Inr rs, db') \<and> length rs = 3 \<and> link_table al_bolt db' ''/a/y'' = Some ''http://b/''"
proof -
  let ?reqs = "[ex_req, ex_req\<lparr>req_ExplicitKey := ''/b''\<rparr>, ex_other]"
  have "is_ok (fst (CreateBatch al_bolt None (\<lambda>i. int i) ?reqs ex_empty))" by code_simp
  then obtain rs db' where e: "CreateBatch al_bolt None (\<lambda>i. int i) ?reqs ex_empty = (Inr rs, db')"
    by (auto simp: prod_eq_iff)
  have "fits req" if "req \<in> set ?reqs" for req
    using that by (auto simp: fits_def MaxKeySize_def ex_req_def ex_other_def)
  from batch_results_describe_the_table [OF bolt_db_al store_inv_ex_empty this e]
  have len: "length rs = 3" by simp
  have "link_table al_bolt (snd (CreateBatch al_bolt None (\<lambda>i. int i) ?reqs ex_empty)) ''/a/y''
      = Some ''http://b/''" by code_simp
  with e len show ?thesis by auto
qed

text \<open>A successful update makes the new target resolve to the key and frees the old target; an
  update to a target that another key holds is refused as a conflict and changes nothing.\<close>

theorem update_moves_the_target:
  assumes "bolt_db bo vl vt" and "store_inv bo db" and "link_table bo db key = Some old"
    and "Update bo None now key target db = (r, db')"
  shows "(case r of
      Inr l \<Rightarrow> link_Key l = key \<and> link_Target l = target \<and> Resolve bo db' target = Inr key \<and>
        (old \<noteq> target \<longrightarrow> Resolve bo db' old = Inl ErrNotFound) \<and>
        (\<forall>k. k \<noteq> key \<longrightarrow> link_table bo db' k = link_table bo db k)
    | Inl e \<Rightarrow> db' = db) \<and>
    (\<forall>k. k \<noteq> key \<and> link_table bo db k = Some target \<longrightarrow> r = Inl (ErrConflict (MappedElsewhere k)))"
proof -
  note B = assms(1)
  have up: "bolt_update bo (None, now) key target db = (r, db')"
    using assms(4) by (simp add: bolt_update_def)
  have conflict: "r = Inl (ErrConflict (MappedElsewhere k))"
    if "k \<noteq> key" "link_table bo db k = Some target" for k
  proof -
    from assms(3) obtain l0 where "links_get bo db key = Some (Encoded l0)"
      by (auto simp: link_table_Some)
    moreover from that(2) have "targets_get bo db target = Some k"
      by (simp add: targets_iff_table [OF assms(2)])
    ultimately show ?thesis using assms(4) that(1)
      by (auto simp: Update_def db_Update_def updateInTx_def)
  qed
  show ?thesis
  proof (cases r)
    case (Inl e)
    then show ?thesis using conflict bolt_db.store_update_err [OF B] up by auto
  next
    case (Inr l)
    have ok: "updateInTx bo now key target db = (Inr l, db')"
      using assms(4) Inr by (auto simp: Update_def elim: db_Update_cases)
    note u = bolt_db.updateInTx_Inr [OF B assms(2) ok]
    have "Resolve bo db' target = Inr key"
      using bolt_db.store_resolve_iff [OF B u(1)] u(4) by simp
    moreover have "Resolve bo db' old = Inl ErrNotFound" if "old \<noteq> target"
    proof -
      have "targets_get bo db' old \<noteq> Some k" for k
        using targets_iff_table [OF u(1), of old k] that store_inv_inj [OF assms(2,3), of k]
        by (auto simp: u(4) split: if_splits)
      then show ?thesis by (auto simp: Resolve_def split: option.splits)
    qed
    moreover have "\<forall>k. k \<noteq> key \<longrightarrow> link_table bo db' k = link_table bo db k" by (simp add: u(4))
    moreover have "\<not> (k \<noteq> key \<and> link_table bo db k = Some target)" for k using u(6) by blast
    ultimately show ?thesis using Inr u(2,3) by simp
  qed
qed

theorem update_moves_the_target_example:
  "Resolve al_bolt (snd (Update al_bolt None 9 ''/a/x'' ''http://c/'' ex_two)) ''http://a/'' = Inl ErrNotFound"
proof -
  have t: "link_table al_bolt ex_two ''/a/x'' = Some ''http://a/''" by code_simp
  have "is_ok (fst (Update al_bolt None 9 ''/a/x'' ''http://c/'' ex_two))" by code_simp
  then obtain l where "Update al_bolt None 9 ''/a/x'' ''http://c/'' ex_two =
      (Inr l, snd (Update al_bolt None 9 ''/a/x'' ''http://c/'' ex_two))"
    by (auto simp: prod_eq_iff)
  from update_moves_the_target [OF bolt_db_al store_inv_ex_two t this] show ?thesis by simp
qed

text \<open>C21: a client that follows the cursors of a prefix listing, with any page limit, receives every
  link under the prefix exactly once, in byte order of the keys, and their number is the prefix
  count; one page more than there are links is enough to reach the end.\<close>

theorem listing_follows_all_pages:
  assumes "bolt_db bo vl vt" and "store_inv bo db" and "links_get bo db [] = None"
    and "CountPrefix bo db pfx < n"
  shows "\<exists>ls. follow_pages bo db pfx limit n [] = Inr ls \<and> length ls = CountPrefix bo db pfx \<and>
    sorted_wrt (<) (map link_Key ls) \<and>
    (\<forall>k l. Get bo db k = Inr l \<and> HasPrefix k pfx \<longleftrightarrow> l \<in> set ls \<and> link_Key l = k)"
proof -
  note B = assms(1)
  let ?ks = "keys_after bo db pfx []" and ?es = "bucket_entries (links_ops bo) (links db)"
  have L: "bucket (links_ops bo) vl" using B by (simp add: bolt_db_def)
  note cnt = bolt_db.CountPrefix_keys [OF B, of db pfx]
  from bolt_db.follow_pages_all [OF B assms(2,3), of "[]" pfx n limit] assms(4) cnt obtain ls where
    ls: "follow_pages bo db pfx limit n [] = Inr ls" "map Inr ls = map (Get bo db) ?ks" by auto
  have len: "length ls = length ?ks" using arg_cong [OF ls(2), of length] by simp
  have nth: "Get bo db (?ks ! i) = Inr (ls ! i)" if "i < length ls" for i
    using arg_cong [OF ls(2), of "\<lambda>xs. xs ! i"] that len by simp
  have key: "link_Key (ls ! i) = ?ks ! i" if "i < length ls" for i
    using nth [OF that] by (rule Get_key)
  have keys: "map link_Key ls = ?ks" using len key by (intro nth_equalityI) auto
  have srt: "sorted_wrt (<) (map link_Key ls)"
    unfolding keys by (rule sorted_keys_after [OF bucket.entries_sorted [OF L]])
  have dom: "k \<in> set ?ks" if "Get bo db k = Inr l" "HasPrefix k pfx" for k l
  proof -
    from that(1) obtain raw where "map_of ?es k = Some raw"
      by (auto simp: Get_def bucket.entries_get [OF L] split: option.splits)
    then have "k \<in> fst ` set ?es" by (metis domI dom_map_of_conv_image_fst)
    with that(2) show ?thesis by (auto simp: keys_after_def)
  qed
  have "Get bo db k = Inr l \<and> HasPrefix k pfx \<longleftrightarrow> l \<in> set ls \<and> link_Key l = k" for k l
  proof
    assume a: "Get bo db k = Inr l \<and> HasPrefix k pfx"
    then have "k \<in> set ?ks" using dom by blast
    then obtain i where "i < length ls" "?ks ! i = k" by (metis in_set_conv_nth len)
    with a nth [of i] key [of i] show "l \<in> set ls \<and> link_Key l = k" by auto
  next
    assume "l \<in> set ls \<and> link_Key l = k"
    then obtain i where i: "i < length ls" "ls ! i = l" "link_Key l = k" by (auto simp: in_set_conv_nth)
    with key [of i] have "?ks ! i = k" by simp
    moreover have "?ks ! i \<in> set ?ks" using i(1) len by simp
    ultimately show "Get bo db k = Inr l \<and> HasPrefix k pfx"
      using nth [OF i(1)] i(2) by (auto simp: keys_after_def)
  qed
  with ls(1) len cnt srt show ?thesis by (intro exI [of _ ls]) simp
qed

theorem listing_follows_all_pages_example:
  "\<exists>ls. follow_pages al_bolt ex_two ''/a/'' 1 3 [] = Inr ls \<and> length ls = 2"
proof -
  have g: "links_get al_bolt ex_two [] = None" by code_simp
  have c: "CountPrefix al_bolt ex_two ''/a/'' = 2" by code_simp
  then have "CountPrefix al_bolt ex_two ''/a/'' < 3" by simp
  from listing_follows_all_pages [OF bolt_db_al store_inv_ex_two g this, of 1] c show ?thesis by auto
qed

text \<open>C23: a file of at most 100000 links that \<open>verifyBoltFile\<close> accepts satisfies the store invariant:
  its two buckets are inverse to each other, not only equal in number.\<close>

theorem verified_backup_is_consistent:
  assumes "bolt_db bo vl vt" and "bucket_get (links_ops bo) ls [] = None"
    and "verifyBoltFile bo (Inr (chk, Some ls, Some ts)) = Inr (nl, nt)" and "int nl \<le> 100000"
  shows "store_inv bo \<lparr>links = ls, targets = ts\<rparr> \<and> nl = nt \<and> chk = None"
proof -
  from assms(3,4) have c: "chk = None"
    "check_links (bucket_get (targets_ops bo) ts) (bucket_entries (links_ops bo) ls) = Inr ()"
    "length (bucket_entries (links_ops bo) ls) = length (bucket_entries (targets_ops bo) ts)"
    "nl = length (bucket_entries (links_ops bo) ls)" "nt = length (bucket_entries (targets_ops bo) ts)"
    by (auto simp: verifyBoltFile_def Let_def split: option.splits if_splits sum.splits)
  with bolt_db.verified_inv [OF assms(1), of "\<lparr>links = ls, targets = ts\<rparr>"] assms(2) show ?thesis by simp
qed

theorem verified_backup_is_consistent_example:
  "store_inv al_bolt \<lparr>links = links ex_two, targets = targets ex_two\<rparr>"
proof -
  have "bucket_get (links_ops al_bolt) (links ex_two) [] = None" by code_simp
  moreover have "verifyBoltFile al_bolt (Inr (None, Some (links ex_two), Some (targets ex_two))) = Inr (2, 2)"
    by code_simp
  ultimately show ?thesis using verified_backup_is_consistent [OF bolt_db_al] by simp
qed

text \<open>A fresh database is stamped with the current schema version and can be opened again; a
  stored version is accepted exactly when it is four bytes and not newer, and then left as it is.\<close>

theorem schema_version_gate:
  "open_schema None None = Inr (PutUint32 schemaVersion) \<and>
   (\<forall>v. open_schema pe (Some (PutUint32 v)) =
      (if v > schemaVersion then Inl (SchemaTooNew v) else Inr (PutUint32 v))) \<and>
   (\<forall>bs bs'. open_schema pe (Some bs) = Inr bs' \<longrightarrow> bs' = bs \<and> length bs = 4)"
proof (intro conjI allI)
  have len: "length (PutUint32 v) = 4" for v by (simp add: PutUint32_def)
  show "open_schema None None = Inr (PutUint32 schemaVersion)" by (simp add: open_schema_def)
  show "open_schema pe (Some (PutUint32 v)) =
      (if v > schemaVersion then Inl (SchemaTooNew v) else Inr (PutUint32 v))" for v
    by (simp add: open_schema_def Uint32_PutUint32 len)
  show "open_schema pe (Some bs) = Inr bs' \<longrightarrow> bs' = bs \<and> length bs = 4" for bs bs'
    by (simp add: open_schema_def)
qed

theorem schema_version_gate_example:
  "open_schema None (Some [0, 0, 0, 2]) = Inl (SchemaTooNew 2)"
proof -
  have "PutUint32 2 = [0, 0, 0, 2]" by (simp add: PutUint32_def)
  moreover have "(2 :: 32 word) > schemaVersion" by (simp add: schemaVersion_def)
  ultimately show ?thesis using schema_version_gate [of None] by (metis (no_types))
qed

end
