(* ===== verification/UrlRules.thy ===== *)
theory UrlRules
  imports UrlStore
begin

text \<open>
  The mapping rules of the URL shortener: \<open>urlshort/rules.go\<close>, with the reserved names of
  \<open>urlshort/config.go\<close> and \<open>isAPIPath\<close> of \<open>urlshort/api.go\<close>.

  A compiled regular expression is the function \<open>FindStringSubmatchIndex\<close> and its group names; a
  parsed key template is the function that executes it. The bytes of \<open>crypto/rand\<close> are a list, and
  a read past its end is the error of \<open>rand.Read\<close>.
\<close>

subsection \<open>Reserved names\<close>

definition apiRoot :: string where
  "apiRoot = ''/.api/''"

definition apiBase :: string where
  "apiBase = apiRoot @ ''v1''"

definition isAPIPath :: "string \<Rightarrow> bool" where
  "isAPIPath p \<longleftrightarrow> p = apiBase \<or> HasPrefix p (apiBase @ ''/'')"

definition reservedPrefixes :: "string list" where
  "reservedPrefixes = [apiRoot, ''/.well-known/'']"

definition reservedExactKeys :: "string list" where
  "reservedExactKeys = [''/'', ''/robots.txt'', ''/favicon.ico'']"

subsection \<open>Keys\<close>

definition key_char :: "char \<Rightarrow> bool" where
  "key_char c \<longleftrightarrow>
     (CHR ''A'' \<le> c \<and> c \<le> CHR ''Z'') \<or> (CHR ''a'' \<le> c \<and> c \<le> CHR ''z'') \<or>
     (CHR ''0'' \<le> c \<and> c \<le> CHR ''9'') \<or> c \<in> set ''/._~-''"

text \<open>The three loops of \<open>ValidateKey\<close>: the first failing character, segment or reserved name.\<close>

fun check_chars :: "string \<Rightarrow> key_error option" where
  "check_chars [] = None"
| "check_chars (c # s) = (if key_char c then check_chars s else Some (KeyBadChar c))"

fun check_segments :: "string list \<Rightarrow> key_error option" where
  "check_segments [] = None"
| "check_segments (seg # segs) =
     (if seg = ''..'' then Some KeyDotDot
      else if seg \<noteq> [] \<and> (hd seg = CHR ''.'' \<or> hd seg = CHR ''~'') then Some (KeySegStart seg)
      else check_segments segs)"

definition maxKeyLen :: nat where
  "maxKeyLen = 256"

definition ValidateKey :: "string \<Rightarrow> key_error + unit" where
  "ValidateKey key =
     (if key = [] then Inl KeyIsEmpty
      else if hd key \<noteq> CHR ''/'' then Inl KeyNoSlash
      else if length key > maxKeyLen then Inl KeyTooLong
      else (case check_chars key of
              Some e \<Rightarrow> Inl e
            | None \<Rightarrow>
                (case check_segments (SplitChar (CHR ''/'') key) of
                   Some e \<Rightarrow> Inl e
                 | None \<Rightarrow> if key \<in> set reservedExactKeys then Inl (KeyReserved key) else Inr ())))"

subsection \<open>Rules\<close>

record Rule =
  rule_Name :: string
  rule_find :: "string \<Rightarrow> int list option"
  rule_names :: "string list"
  rule_exec :: "(string \<rightharpoonup> string) \<Rightarrow> string + string"
  rule_hash :: string
  rule_hashMinlen :: int

text \<open>The named groups that took part in the match. \<open>m ! (2 * i)\<close> is -1 for a group that did not.\<close>

fun match_vars :: "string \<Rightarrow> int list \<Rightarrow> nat \<Rightarrow> string list \<Rightarrow> (string \<rightharpoonup> string) \<Rightarrow> (string \<rightharpoonup> string)" where
  "match_vars target m i [] vars = vars"
| "match_vars target m i (name # names) vars =
     match_vars target m (Suc i) names
       (if i = 0 \<or> name = [] then vars
        else if m ! (2 * i) \<ge> 0 then
          vars(name \<mapsto> take (nat (m ! (2 * i + 1)) - nat (m ! (2 * i))) (drop (nat (m ! (2 * i))) target))
        else vars)"

fun MatchRules :: "Rule list \<Rightarrow> string \<Rightarrow> (Rule \<times> (string \<rightharpoonup> string)) option" where
  "MatchRules [] target = None"
| "MatchRules (r # rs) target =
     (case rule_find r target of
        None \<Rightarrow> MatchRules rs target
      | Some m \<Rightarrow>
          if m ! 0 \<noteq> 0 \<or> m ! 1 \<noteq> int (length target) then MatchRules rs target
          else Some (r, match_vars target m 0 (rule_names r) Map.empty))"

definition Render :: "Rule \<Rightarrow> (string \<rightharpoonup> string) \<Rightarrow> store_error + string" where
  "Render r vars =
     (case rule_exec r vars of
        Inl e \<Rightarrow> Inl (RenderFailed (rule_Name r))
      | Inr key \<Rightarrow>
          (case ValidateKey key of
             Inl e \<Rightarrow> Inl (BadKey (rule_Name r) e)
           | Inr _ \<Rightarrow> Inr key))"

text \<open>The loop over the prefix lengths \<open>l .. length hashVal\<close>.\<close>

function hash_scan ::
  "Rule \<Rightarrow> (string \<rightharpoonup> string) \<Rightarrow> (string \<Rightarrow> store_error + bool) \<Rightarrow> string \<Rightarrow> int \<Rightarrow> store_error + string" where
  "hash_scan r v isFree hashVal l =
     (if l \<le> int (length hashVal) then
        (case Render r (v(rule_hash r \<mapsto> take (nat l) hashVal)) of
           Inl e \<Rightarrow> Inl e
         | Inr key \<Rightarrow>
             (case isFree key of
                Inl e \<Rightarrow> Inl e
              | Inr free \<Rightarrow>
                  if free then Inr key else hash_scan r v isFree hashVal (l + 1)))
      else Inl (ErrConflict (NoHashPrefix (rule_Name r) hashVal)))"
  by pat_completeness auto
termination
  by (relation "measure (\<lambda>(r, v, isFree, hashVal, l). nat (int (length hashVal) + 1 - l))") auto

declare hash_scan.simps [simp del]

definition GenerateKey ::
  "Rule \<Rightarrow> (string \<rightharpoonup> string) \<Rightarrow> (string \<Rightarrow> store_error + bool) \<Rightarrow> store_error + string" where
  "GenerateKey r vars isFree =
     (if rule_hash r = [] then
        (case Render r vars of
           Inl e \<Rightarrow> Inl e
         | Inr key \<Rightarrow>
             (case isFree key of
                Inl e \<Rightarrow> Inl e
              | Inr free \<Rightarrow>
                  if \<not> free then Inl (ErrConflict (RuleKeyTaken (rule_Name r) key)) else Inr key))
      else
        (case vars (rule_hash r) of
           None \<Rightarrow> Inl (HashGroupEmpty (rule_Name r))
         | Some hashVal \<Rightarrow>
             if hashVal = [] then Inl (HashGroupEmpty (rule_Name r))
             else
               (let minlen = (if rule_hashMinlen r > int (length hashVal) then int (length hashVal)
                              else rule_hashMinlen r)
                in hash_scan r vars isFree hashVal minlen)))"

subsection \<open>Random keys\<close>

definition base62Alphabet :: string where
  "base62Alphabet = ''0123456789ABCDEFGHIJKLMNOPQRSTUVWXYZabcdefghijklmnopqrstuvwxyz''"

fun randomID :: "nat \<Rightarrow> 8 word list \<Rightarrow> (store_error + string) \<times> 8 word list" where
  "randomID 0 bs = (Inr [], bs)"
| "randomID (Suc n) [] = (Inl RandomFailed, [])"
| "randomID (Suc n) (b # bs) =
     (if b \<ge> 62 * 4 then randomID (Suc n) bs
      else (case randomID n bs of
              (Inl e, rest) \<Rightarrow> (Inl e, rest)
            | (Inr s, rest) \<Rightarrow> (Inr (base62Alphabet ! (unat b mod 62) # s), rest)))"

text \<open>The attempts that are left, each with twelve fresh characters.\<close>

fun random_attempts ::
  "nat \<Rightarrow> string \<Rightarrow> (string \<Rightarrow> store_error + bool) \<Rightarrow> 8 word list \<Rightarrow> store_error + string" where
  "random_attempts 0 ns isFree bs = Inl NoRandomKey"
| "random_attempts (Suc n) ns isFree bs =
     (case randomID 12 bs of
        (Inl e, rest) \<Rightarrow> Inl e
      | (Inr ident, rest) \<Rightarrow>
          (let key = ns @ ''~'' @ ident
           in case isFree key of
                Inl e \<Rightarrow> Inl e
              | Inr free \<Rightarrow> if free then Inr key else random_attempts n ns isFree rest))"

definition GenerateRandomKey ::
  "string \<Rightarrow> (string \<Rightarrow> store_error + bool) \<Rightarrow> 8 word list \<Rightarrow> store_error + string" where
  "GenerateRandomKey ns isFree bs =
     (if \<not> HasSuffix ns ''/'' then Inl (BadNamespace ns) else random_attempts 10 ns isFree bs)"

subsection \<open>Valid keys\<close>

lemma check_chars_None: "check_chars s = None \<longleftrightarrow> list_all key_char s"
  by (induction s) auto

lemma check_segments_None:
  "check_segments segs = None \<longleftrightarrow>
     (\<forall>seg\<in>set segs. seg = [] \<or> hd seg \<noteq> CHR ''.'' \<and> hd seg \<noteq> CHR ''~'')"
proof (induction segs)
  case (Cons seg segs)
  have "seg = ''..'' \<Longrightarrow> seg \<noteq> [] \<and> hd seg = CHR ''.''" by simp
  with Cons show ?case by (auto split: if_splits)
qed simp

lemma ValidateKey_ok:
  "ValidateKey key = Inr () \<longleftrightarrow>
     HasPrefix key ''/'' \<and> length key \<le> 256 \<and> list_all key_char key \<and>
     (\<forall>seg\<in>set (SplitChar (CHR ''/'') key). seg = [] \<or> hd seg \<noteq> CHR ''.'' \<and> hd seg \<noteq> CHR ''~'') \<and>
     key \<notin> set reservedExactKeys"
proof -
  have "HasPrefix key ''/'' \<longleftrightarrow> key \<noteq> [] \<and> hd key = CHR ''/''"
    by (cases key) (simp_all add: HasPrefix_def)
  moreover have "ValidateKey key = Inr () \<longleftrightarrow> key \<noteq> [] \<and> hd key = CHR ''/'' \<and>
      \<not> length key > maxKeyLen \<and> check_chars key = None \<and>
      check_segments (SplitChar (CHR ''/'') key) = None \<and> key \<notin> set reservedExactKeys"
    unfolding ValidateKey_def by (simp split: option.split)
  ultimately show ?thesis by (simp add: check_chars_None check_segments_None maxKeyLen_def not_less)
qed

text \<open>A segment of a path that starts with a given character.\<close>

lemma SplitChar_mid:
  "\<exists>ws. SplitChar sep (u @ sep # v) = ws @ SplitChar sep v"
proof (induction u)
  case Nil
  then show ?case by (auto intro: exI [of _ "[[]]"])
next
  case (Cons c u)
  then obtain ws where ws: "SplitChar sep (u @ sep # v) = ws @ SplitChar sep v" by blast
  show ?case
  proof (cases ws)
    case Nil
    obtain w rest where "SplitChar sep v = w # rest" by (cases "SplitChar sep v") auto
    moreover have "length (SplitChar sep (u @ sep # v)) > length (SplitChar sep v)"
      by (induction u) (auto split: list.splits)
    ultimately show ?thesis using ws Nil by simp
  next
    case (Cons w rest)
    with ws show ?thesis
      by (cases "c = sep") (auto intro: exI [of _ "[] # w # rest"] exI [of _ "(c # w) # rest"])
  qed
qed

lemma ValidateKey_no_dot_segment:
  assumes "ValidateKey key = Inr ()" and "key = u @ ''/'' @ c # v"
    and "c = CHR ''.'' \<or> c = CHR ''~''"
  shows False
proof -
  have key: "key = u @ CHR ''/'' # (c # v)" using assms(2) by simp
  from SplitChar_mid [of "CHR ''/''" u "c # v"] obtain ws where
    "SplitChar (CHR ''/'') key = ws @ SplitChar (CHR ''/'') (c # v)" unfolding key by blast
  moreover obtain w rest where "SplitChar (CHR ''/'') (c # v) = (c # w) # rest"
    using assms(3) by (auto split: list.splits) (cases "SplitChar (CHR ''/'') v", auto)+
  ultimately have "c # w \<in> set (SplitChar (CHR ''/'') key)" by simp
  with assms(1,3) show False by (auto simp: ValidateKey_ok)
qed

lemma valid_not_under_dot: "ValidateKey key = Inr () \<Longrightarrow> \<not> HasPrefix key (''/.'' @ p)"
proof
  assume ok: "ValidateKey key = Inr ()" and pre: "HasPrefix key (''/.'' @ p)"
  from pre obtain t where "key = [] @ ''/'' @ CHR ''.'' # (p @ t)" by (auto simp: HasPrefix_iff)
  from ValidateKey_no_dot_segment [OF ok this] show False by simp
qed

subsection \<open>Generated keys\<close>

lemma Render_valid: "Render r vars = Inr key \<Longrightarrow> ValidateKey key = Inr ()"
  by (auto simp: Render_def split: sum.splits)

text \<open>Prefix length \<open>n\<close> gives the key \<open>k\<close>, which \<open>isFree\<close> answers with \<open>b\<close>.\<close>

definition prefix_key ::
  "Rule \<Rightarrow> (string \<rightharpoonup> string) \<Rightarrow> (string \<Rightarrow> store_error + bool) \<Rightarrow> string \<Rightarrow> int \<Rightarrow> string \<Rightarrow> bool \<Rightarrow> bool" where
  "prefix_key r v isFree hashVal n k b \<longleftrightarrow>
     Render r (v(rule_hash r \<mapsto> take (nat n) hashVal)) = Inr k \<and> isFree k = Inr b"

lemma hash_scan_Inr:
  "hash_scan r v isFree hashVal l = Inr k \<Longrightarrow>
   \<exists>n\<ge>l. n \<le> int (length hashVal) \<and> prefix_key r v isFree hashVal n k True \<and>
     (\<forall>i\<ge>l. i < n \<longrightarrow> (\<exists>k'. prefix_key r v isFree hashVal i k' False))"
proof (induction r v isFree hashVal l rule: hash_scan.induct)
  case (1 r v isFree hashVal l)
  from 1(2) obtain key free where le: "l \<le> int (length hashVal)"
    and key: "prefix_key r v isFree hashVal l key free"
    and res: "(if free then Inr key else hash_scan r v isFree hashVal (l + 1)) = Inr k"
    by (subst (asm) hash_scan.simps) (auto simp: prefix_key_def split: if_splits sum.splits)
  show ?case
  proof (cases free)
    case True
    with res key le show ?thesis by (intro exI [of _ l]) auto
  next
    case False
    with res have rec: "hash_scan r v isFree hashVal (l + 1) = Inr k" by simp
    from key False have k0: "prefix_key r v isFree hashVal l key False" by simp
    from 1(1) [OF le _ _ False rec] key obtain n where
      n: "n \<ge> l + 1" "n \<le> int (length hashVal)" "prefix_key r v isFree hashVal n k True"
      "\<And>i. i \<ge> l + 1 \<Longrightarrow> i < n \<Longrightarrow> \<exists>k'. prefix_key r v isFree hashVal i k' False"
      by (auto simp: prefix_key_def)
    have "\<exists>k'. prefix_key r v isFree hashVal i k' False" if "i \<ge> l" "i < n" for i
      using that n(4) [of i] k0 by (cases "i = l") auto
    with n(1-3) show ?thesis by (intro exI [of _ n]) auto
  qed
qed

lemma hash_scan_conflict:
  "hash_scan r v isFree hashVal l = Inl e \<Longrightarrow>
   (\<And>i. l \<le> i \<Longrightarrow> i \<le> int (length hashVal) \<Longrightarrow> \<exists>k b. prefix_key r v isFree hashVal i k b) \<Longrightarrow>
   e = ErrConflict (NoHashPrefix (rule_Name r) hashVal) \<and>
   (\<forall>i\<ge>l. i \<le> int (length hashVal) \<longrightarrow> (\<exists>k. prefix_key r v isFree hashVal i k False))"
proof (induction r v isFree hashVal l rule: hash_scan.induct)
  case (1 r v isFree hashVal l)
  show ?case
  proof (cases "l \<le> int (length hashVal)")
    case False
    with 1(2) show ?thesis by (auto simp: hash_scan.simps)
  next
    case True
    with 1(3) [of l] obtain k b where k: "prefix_key r v isFree hashVal l k b" by auto
    with 1(2) True have b: "\<not> b" and rec: "hash_scan r v isFree hashVal (l + 1) = Inl e"
      by (auto simp: hash_scan.simps [of r v isFree hashVal l] prefix_key_def split: if_splits)
    from k b have k0: "prefix_key r v isFree hashVal l k False" by simp
    have ih: "e = ErrConflict (NoHashPrefix (rule_Name r) hashVal) \<and>
        (\<forall>i\<ge>l + 1. i \<le> int (length hashVal) \<longrightarrow> (\<exists>k. prefix_key r v isFree hashVal i k False))"
      by (rule 1(1) [OF True _ _ b rec]) (use k 1(3) in \<open>auto simp: prefix_key_def\<close>)
    have "\<exists>k. prefix_key r v isFree hashVal i k False" if "i \<ge> l" "i \<le> int (length hashVal)" for i
      using ih that k0 by (cases "i = l") auto
    with ih show ?thesis by blast
  qed
qed

lemma GenerateKey_valid_free:
  "GenerateKey r vars isFree = Inr k \<Longrightarrow> ValidateKey k = Inr () \<and> isFree k = Inr True"
proof -
  assume g: "GenerateKey r vars isFree = Inr k"
  show ?thesis
  proof (cases "rule_hash r = []")
    case True
    with g show ?thesis by (auto simp: GenerateKey_def split: sum.splits if_splits dest: Render_valid)
  next
    case False
    with g obtain h l where "hash_scan r vars isFree h l = Inr k"
      by (auto simp: GenerateKey_def Let_def split: option.splits if_splits)
    then show ?thesis by (auto dest!: hash_scan_Inr simp: prefix_key_def dest: Render_valid)
  qed
qed

lemma randomID_Inr:
  "randomID n bs = (Inr s, rest) \<Longrightarrow> length s = n \<and> set s \<subseteq> set base62Alphabet"
proof (induction n bs arbitrary: s rest rule: randomID.induct)
  case (1 bs)
  then show ?case by simp
next
  case (2 n)
  then show ?case by simp
next
  case (3 n b bs)
  show ?case
  proof (cases "b \<ge> 62 * 4")
    case True
    with 3 show ?thesis by simp
  next
    case False
    with 3(3) obtain s' where s': "randomID n bs = (Inr s', rest)"
      "s = base62Alphabet ! (unat b mod 62) # s'" by (auto split: prod.splits sum.splits)
    have "unat b mod 62 < length base62Alphabet" by (simp add: base62Alphabet_def)
    with s' 3(2) [OF False s'(1)] show ?thesis by simp
  qed
qed

lemma random_attempts_Inr:
  "random_attempts n ns isFree bs = Inr k \<Longrightarrow>
   \<exists>s. k = ns @ ''~'' @ s \<and> length s = 12 \<and> set s \<subseteq> set base62Alphabet \<and> isFree k = Inr True"
proof (induction n ns isFree bs rule: random_attempts.induct)
  case (1 ns isFree bs)
  then show ?case by simp
next
  case (2 n ns isFree bs)
  from 2(2) obtain ident rest free where i: "randomID 12 bs = (Inr ident, rest)"
    and f: "isFree (ns @ CHR ''~'' # ident) = Inr free"
    and r: "(if free then Inr (ns @ CHR ''~'' # ident) else random_attempts n ns isFree rest) = Inr k"
    by (auto simp: Let_def split: prod.splits sum.splits)
  show ?case
  proof (cases free)
    case True
    with r f randomID_Inr [OF i] show ?thesis by auto
  next
    case False
    from r False have r': "random_attempts n ns isFree rest = Inr k" by simp
    show ?thesis using 2(1) [OF i [symmetric] refl refl _ False r'] f by simp
  qed
qed

subsection \<open>Properties of the rules\<close>

text \<open>A rule \<open>/g/{{.h}}\<close> for targets that start with a commit hash, as an example.\<close>

definition ex_rule :: Rule where
  "ex_rule = \<lparr>rule_Name = ''git'', rule_find = (\<lambda>t. Some [0, int (length t), 0, int (length t)]),
     rule_names = [[], ''h''],
     rule_exec = (\<lambda>v. case v ''h'' of None \<Rightarrow> Inl ''no h'' | Some h \<Rightarrow> Inr (''/g/'' @ h)),
     rule_hash = ''h'', rule_hashMinlen = 2\<rparr>"

definition ex_taken :: "string \<Rightarrow> store_error + bool" where
  "ex_taken k = Inr (k \<notin> set [''/g/ab'', ''/g/abc''])"

text \<open>C31: a hash rule gives the key of the shortest prefix of the hash, from the minimum length on,
  whose key is free, so every shorter one was taken; when every length renders, the only error is the
  conflict that all of them are taken.\<close>

theorem hash_rule_takes_shortest_free_prefix:
  fixes r :: Rule and h :: string
  defines "lo \<equiv> min (rule_hashMinlen r) (int (length h))"
  assumes "rule_hash r \<noteq> []" and "vars (rule_hash r) = Some h" and "h \<noteq> []"
  shows "case GenerateKey r vars isFree of
      Inr k \<Rightarrow> \<exists>n\<ge>lo. n \<le> int (length h) \<and> prefix_key r vars isFree h n k True \<and>
        (\<forall>i\<ge>lo. i < n \<longrightarrow> (\<exists>k'. prefix_key r vars isFree h i k' False))
    | Inl e \<Rightarrow> (\<forall>i\<ge>lo. i \<le> int (length h) \<longrightarrow> (\<exists>k b. prefix_key r vars isFree h i k b)) \<longrightarrow>
        e = ErrConflict (NoHashPrefix (rule_Name r) h) \<and>
        (\<forall>i\<ge>lo. i \<le> int (length h) \<longrightarrow> (\<exists>k. prefix_key r vars isFree h i k False))"
proof -
  have g: "GenerateKey r vars isFree = hash_scan r vars isFree h lo"
    using assms by (simp add: GenerateKey_def min_def Let_def)
  show ?thesis
  proof (cases "GenerateKey r vars isFree")
    case (Inl e)
    show ?thesis unfolding Inl using hash_scan_conflict [OF Inl [unfolded g]] by auto
  next
    case (Inr k)
    show ?thesis unfolding Inr using hash_scan_Inr [OF Inr [unfolded g]] by simp
  qed
qed

theorem hash_rule_takes_shortest_free_prefix_example:
  "GenerateKey ex_rule [''h'' \<mapsto> ''abcd''] ex_taken = Inr ''/g/abcd'' \<and>
   prefix_key ex_rule [''h'' \<mapsto> ''abcd''] ex_taken ''abcd'' 4 ''/g/abcd'' True"
proof -
  let ?v = "[''h'' \<mapsto> ''abcd'']"
  have g: "GenerateKey ex_rule ?v ex_taken = Inr ''/g/abcd''" by code_simp
  have "rule_hash ex_rule \<noteq> []" "?v (rule_hash ex_rule) = Some ''abcd''"
    by (simp_all add: ex_rule_def)
  from hash_rule_takes_shortest_free_prefix [where r = ex_rule and vars = ?v and isFree = ex_taken,
      OF this] g obtain n where
    n: "n \<ge> 2" "n \<le> 4" "prefix_key ex_rule ?v ex_taken ''abcd'' n ''/g/abcd'' True"
    by (auto simp: ex_rule_def)
  from n(3) have "length (''/g/'' @ take (nat n) ''abcd'') = length ''/g/abcd''"
    by (auto simp: prefix_key_def Render_def ex_rule_def split: sum.splits)
  with n(1,2) have "n = 4" by simp
  with g n(3) show ?thesis by simp
qed

text \<open>A key that \<open>ValidateKey\<close> accepts never falls under the API tree or \<open>/.well-known/\<close> and is
  none of the reserved names, so no link can shadow a built-in route.\<close>

theorem valid_keys_avoid_reserved_paths:
  assumes "ValidateKey key = Inr ()"
  shows "\<not> isAPIPath key \<and> (\<forall>p\<in>set reservedPrefixes. \<not> HasPrefix key p) \<and>
    key \<notin> set reservedExactKeys"
proof -
  have "apiBase = ''/.'' @ ''api/v1''" "apiRoot = ''/.'' @ ''api/''"
    by (simp_all add: apiBase_def apiRoot_def)
  then have "\<not> HasPrefix key apiBase" "\<not> HasPrefix key apiRoot" "\<not> HasPrefix key ''/.well-known/''"
    using valid_not_under_dot [OF assms] by (metis, metis, metis append_Cons append_Nil)
  moreover have "HasPrefix (apiBase @ ''/'') apiBase" "HasPrefix apiBase apiBase" by (simp_all add: HasPrefix_iff)
  ultimately show ?thesis
    using assms HasPrefix_trans by (auto simp: isAPIPath_def reservedPrefixes_def ValidateKey_ok)
qed

theorem valid_keys_avoid_reserved_paths_example:
  "ValidateKey ''/a/b-1'' = Inr () \<and> \<not> isAPIPath ''/a/b-1''"
proof -
  have "ValidateKey ''/a/b-1'' = Inr ()" by code_simp
  from valid_keys_avoid_reserved_paths [OF this] this show ?thesis by simp
qed

text \<open>A random key lies in its namespace, is free, ends in twelve base62 characters, and is never
  a key that a rule or an explicit request could use, because \<open>ValidateKey\<close> refuses it.\<close>

theorem random_keys_are_free_and_apart:
  assumes "GenerateRandomKey ns isFree bs = Inr k"
  shows "HasPrefix k ns \<and> isFree k = Inr True \<and>
    (\<exists>s. k = ns @ ''~'' @ s \<and> length s = 12 \<and> set s \<subseteq> set base62Alphabet) \<and>
    ValidateKey k \<noteq> Inr () \<and> (\<forall>r vars isFree'. GenerateKey r vars isFree' \<noteq> Inr k)"
proof -
  from assms have ns: "HasSuffix ns ''/''" and at: "random_attempts 10 ns isFree bs = Inr k"
    by (auto simp: GenerateRandomKey_def split: if_splits)
  from ns obtain u where u: "ns = u @ ''/''" by (auto simp: HasSuffix_iff)
  from random_attempts_Inr [OF at] obtain s where
    s: "k = ns @ ''~'' @ s" "length s = 12" "set s \<subseteq> set base62Alphabet" "isFree k = Inr True" by blast
  have bad: "ValidateKey k \<noteq> Inr ()"
    using ValidateKey_no_dot_segment [of k u "CHR ''~''" s] s(1) u by auto
  then have "GenerateKey r vars isFree' \<noteq> Inr k" for r vars isFree'
    using GenerateKey_valid_free by blast
  with s bad show ?thesis by simp
qed

theorem random_keys_are_free_and_apart_example:
  "\<exists>k. GenerateRandomKey ''/a/'' (\<lambda>_. Inr True) [250, 0, 1, 2, 3, 4, 5, 6, 7, 8, 9, 10, 61] = Inr k \<and>
     ValidateKey k \<noteq> Inr ()"
proof -
  have "GenerateRandomKey ''/a/'' (\<lambda>_. Inr True) [250, 0, 1, 2, 3, 4, 5, 6, 7, 8, 9, 10, 61] =
      Inr ''/a/~0123456789Az''" by code_simp
  with random_keys_are_free_and_apart show ?thesis by blast
qed

end
