(* ===== verification/UrlAuth.thy ===== *)
theory UrlAuth
  imports Prelude
begin

text \<open>
  Bearer tokens and namespaces: \<open>urlshort/auth.go\<close>. SHA-256 is a parameter \<open>sha\<close>; the digests are
  of any type. \<open>subtle.ConstantTimeCompare\<close> on two digests is equality.
\<close>

subsection \<open>Clients\<close>

record ClientConfig =
  cc_Name :: string
  cc_Enabled :: bool
  cc_Admin :: bool
  cc_Namespaces :: "string list"
  cc_Tokens :: "string list"

record 'd Client =
  cl_Name :: string
  cl_IsAdmin :: bool
  cl_Namespaces :: "string list"
  cl_digests :: "'d list"

datatype auth_error = SharesToken string string

subsection \<open>Building the authenticator\<close>

fun note_digests :: "string \<Rightarrow> 'd list \<Rightarrow> ('d \<rightharpoonup> string) \<Rightarrow> auth_error + ('d \<rightharpoonup> string)" where
  "note_digests name [] seen = Inr seen"
| "note_digests name (d # ds) seen =
     (case seen d of
        Some other \<Rightarrow> Inl (SharesToken name other)
      | None \<Rightarrow> note_digests name ds (seen(d \<mapsto> name)))"

fun build_clients :: "(string \<Rightarrow> 'd) \<Rightarrow> ClientConfig list \<Rightarrow> ('d \<rightharpoonup> string) \<Rightarrow> 'd Client list \<Rightarrow>
    auth_error + 'd Client list" where
  "build_clients sha [] seen acc = Inr acc"
| "build_clients sha (cfg # cfgs) seen acc =
     (if \<not> cc_Enabled cfg then build_clients sha cfgs seen acc
      else
        (let c = \<lparr>cl_Name = cc_Name cfg, cl_IsAdmin = cc_Admin cfg, cl_Namespaces = cc_Namespaces cfg,
                  cl_digests = map sha (cc_Tokens cfg)\<rparr>
         in case note_digests (cc_Name cfg) (cl_digests c) seen of
              Inl e \<Rightarrow> Inl e
            | Inr seen' \<Rightarrow> build_clients sha cfgs seen' (acc @ [c])))"

definition NewAuthenticator :: "(string \<Rightarrow> 'd) \<Rightarrow> ClientConfig list \<Rightarrow> auth_error + 'd Client list" where
  "NewAuthenticator sha cfgs = build_clients sha cfgs Map.empty []"

subsection \<open>Requests\<close>

text \<open>The two nested loops over clients and digests, without an early exit.\<close>

fun match_digests :: "'d \<Rightarrow> 'd Client \<Rightarrow> 'd list \<Rightarrow> 'd Client option \<Rightarrow> 'd Client option" where
  "match_digests presented c [] matched = matched"
| "match_digests presented c (d # ds) matched =
     match_digests presented c ds (if presented = d then Some c else matched)"

fun match_clients :: "'d \<Rightarrow> 'd Client list \<Rightarrow> 'd Client option \<Rightarrow> 'd Client option" where
  "match_clients presented [] matched = matched"
| "match_clients presented (c # cs) matched =
     match_clients presented cs (match_digests presented c (cl_digests c) matched)"

definition Authenticate :: "(string \<Rightarrow> 'd) \<Rightarrow> 'd Client list \<Rightarrow> string \<Rightarrow> 'd Client option" where
  "Authenticate sha clients token =
     (if token = [] then None else match_clients (sha token) clients None)"

definition CanAccess :: "'d Client \<Rightarrow> string \<Rightarrow> bool" where
  "CanAccess c key \<longleftrightarrow> cl_IsAdmin c \<or> (\<exists>ns\<in>set (cl_Namespaces c). HasPrefix key ns)"

definition FirstNamespace :: "'d Client \<Rightarrow> string" where
  "FirstNamespace c =
     (case cl_Namespaces c of
        [] \<Rightarrow> if cl_IsAdmin c then ''/'' else []
      | ns # _ \<Rightarrow> ns)"

subsection \<open>One owner per token\<close>

definition all_digests :: "'d Client list \<Rightarrow> 'd list" where
  "all_digests cs = concat (map cl_digests cs)"

lemma note_digests_Inr:
  "note_digests name ds seen = Inr seen' \<Longrightarrow>
   distinct ds \<and> set ds \<inter> dom seen = {} \<and> dom seen' = dom seen \<union> set ds"
  by (induction name ds seen rule: note_digests.induct) (auto split: option.splits)

lemma build_clients_distinct:
  "build_clients sha cfgs seen acc = Inr cs \<Longrightarrow> distinct (all_digests acc) \<Longrightarrow>
   set (all_digests acc) = dom seen \<Longrightarrow> distinct (all_digests cs)"
proof (induction sha cfgs seen acc rule: build_clients.induct)
  case (1 sha seen acc)
  then show ?case by simp
next
  case (2 sha cfg cfgs seen acc)
  show ?case
  proof (cases "cc_Enabled cfg")
    case False
    with 2 show ?thesis by simp
  next
    case True
    let ?c = "\<lparr>cl_Name = cc_Name cfg, cl_IsAdmin = cc_Admin cfg, cl_Namespaces = cc_Namespaces cfg,
      cl_digests = map sha (cc_Tokens cfg)\<rparr>"
    from True 2(3) obtain seen' where
      s': "note_digests (cc_Name cfg) (cl_digests ?c) seen = Inr seen'"
      "build_clients sha cfgs seen' (acc @ [?c]) = Inr cs"
      by (auto simp: Let_def split: sum.splits)
    note n = note_digests_Inr [OF s'(1)]
    have "distinct (all_digests (acc @ [?c]))" "set (all_digests (acc @ [?c])) = dom seen'"
      using n 2(4,5) by (auto simp: all_digests_def)
    with 2(2) [OF _ refl s'(1) s'(2)] True show ?thesis by simp
  qed
qed

lemma match_digests_eq: "match_digests p c ds m = (if p \<in> set ds then Some c else m)"
  by (induction p c ds m rule: match_digests.induct) auto

lemma match_clients_eq:
  "distinct (all_digests cs) \<Longrightarrow>
   match_clients p cs m = (case find (\<lambda>c. p \<in> set (cl_digests c)) cs of None \<Rightarrow> m | Some c \<Rightarrow> Some c)"
proof (induction p cs m rule: match_clients.induct)
  case (1 p m)
  then show ?case by simp
next
  case (2 p c cs m)
  have none: "find (\<lambda>c. p \<in> set (cl_digests c)) cs = None" if "p \<in> set (cl_digests c)"
    using that 2(2) by (auto simp: find_None_iff all_digests_def)
  from 2 show ?case using none
    by (cases "p \<in> set (cl_digests c)") (auto simp: match_digests_eq all_digests_def split: option.splits)
qed

lemma find_unique:
  "distinct (all_digests cs) \<Longrightarrow>
   find (\<lambda>c. p \<in> set (cl_digests c)) cs = Some c \<longleftrightarrow> c \<in> set cs \<and> p \<in> set (cl_digests c)"
proof (induction cs)
  case (Cons c' cs)
  then show ?case by (auto simp: all_digests_def)
qed simp

text \<open>The clients in configuration order.\<close>

definition client_of :: "(string \<Rightarrow> 'd) \<Rightarrow> ClientConfig \<Rightarrow> 'd Client" where
  "client_of sha cfg = \<lparr>cl_Name = cc_Name cfg, cl_IsAdmin = cc_Admin cfg,
     cl_Namespaces = cc_Namespaces cfg, cl_digests = map sha (cc_Tokens cfg)\<rparr>"

lemma build_clients_set:
  "build_clients sha cfgs seen acc = Inr cs \<Longrightarrow> cs = acc @ map (client_of sha) (filter cc_Enabled cfgs)"
  by (induction sha cfgs seen acc rule: build_clients.induct)
    (auto simp: client_of_def Let_def split: if_splits sum.splits)

subsection \<open>Properties of the authenticator\<close>

text \<open>An authenticator that could be built answers a token with the one enabled client whose
  configuration lists a token of that digest, and with nobody for any other token; the loop without
  early exit, which keeps the last match, therefore agrees with a search for the first.\<close>

theorem token_names_one_client:
  assumes "NewAuthenticator sha cfgs = Inr clients" and "token \<noteq> []"
  shows "(Authenticate sha clients token = Some c \<longleftrightarrow>
      (\<exists>cfg\<in>set cfgs. cc_Enabled cfg \<and> c = client_of sha cfg \<and> sha token \<in> sha ` set (cc_Tokens cfg))) \<and>
    Authenticate sha clients token = find (\<lambda>c. sha token \<in> set (cl_digests c)) clients"
proof -
  have b: "build_clients sha cfgs Map.empty [] = Inr clients"
    using assms(1) by (simp add: NewAuthenticator_def)
  have d: "distinct (all_digests clients)"
    by (rule build_clients_distinct [OF b]) (simp_all add: all_digests_def)
  have a: "Authenticate sha clients token = find (\<lambda>c. sha token \<in> set (cl_digests c)) clients"
    using assms(2) by (simp add: Authenticate_def match_clients_eq [OF d] split: option.split)
  have cs: "clients = map (client_of sha) (filter cc_Enabled cfgs)"
    using build_clients_set [OF b] by simp
  show ?thesis unfolding a find_unique [OF d] by (auto simp: cs client_of_def)
qed

definition ex_cfgs :: "ClientConfig list" where
  "ex_cfgs = [\<lparr>cc_Name = ''bob'', cc_Enabled = False, cc_Admin = True, cc_Namespaces = [], cc_Tokens = [''t0'']\<rparr>,
     \<lparr>cc_Name = ''alice'', cc_Enabled = True, cc_Admin = False, cc_Namespaces = [''/a/''],
      cc_Tokens = [''t1'', ''t2'']\<rparr>]"

theorem token_names_one_client_example:
  "\<exists>clients. NewAuthenticator id ex_cfgs = Inr clients \<and>
     Authenticate id clients ''t2'' = Some (client_of id (ex_cfgs ! 1)) \<and>
     Authenticate id clients ''t0'' \<noteq> Some (client_of id (ex_cfgs ! 0))"
proof -
  have n: "NewAuthenticator id ex_cfgs = Inr [client_of id (ex_cfgs ! 1)]"
    by (simp add: NewAuthenticator_def ex_cfgs_def client_of_def)
  have "Authenticate id [client_of id (ex_cfgs ! 1)] ''t2'' = Some (client_of id (ex_cfgs ! 1))"
    using token_names_one_client [OF n, of "''t2''" "client_of id (ex_cfgs ! 1)"]
    by (simp add: ex_cfgs_def)
  moreover have "Authenticate id [client_of id (ex_cfgs ! 1)] ''t0'' = None"
    by (simp add: Authenticate_def ex_cfgs_def client_of_def)
  ultimately show ?thesis using n by auto
qed

text \<open>A token that a client lists twice is refused as shared with itself.\<close>

lemma repeated_token_is_shared_with_itself:
  assumes "cc_Enabled cfg" and "\<not> distinct (cc_Tokens cfg)"
  shows "NewAuthenticator sha [cfg] = Inl (SharesToken (cc_Name cfg) (cc_Name cfg))"
proof -
  have shared: "note_digests n ds seen = Inl (SharesToken n n)"
    if "\<not> distinct ds \<or> set ds \<inter> dom seen \<noteq> {}" "ran seen \<subseteq> {n}" for n and ds :: "'d list" and seen
    using that
  proof (induction n ds seen rule: note_digests.induct)
    case (2 name d ds seen)
    show ?case
    proof (cases "seen d")
      case None
      then have r: "ran (seen(d \<mapsto> name)) \<subseteq> {name}" using 2(3) by simp
      have n: "\<not> distinct ds \<or> set ds \<inter> dom (seen(d \<mapsto> name)) \<noteq> {}"
        using 2(2) None by (auto simp: dom_def)
      from 2(1) [OF None n r] None show ?thesis by (simp del: fun_upd_apply)
    next
      case (Some other)
      then have "other = name" using 2(3) by (auto simp: ran_def)
      with Some show ?thesis by simp
    qed
  qed simp
  have "\<not> distinct (map sha (cc_Tokens cfg))" using assms(2) by (auto simp: distinct_map)
  then have "note_digests (cc_Name cfg) (map sha (cc_Tokens cfg)) Map.empty =
      Inl (SharesToken (cc_Name cfg) (cc_Name cfg))"
    by (intro shared) simp_all
  with assms(1) show ?thesis by (simp add: NewAuthenticator_def Let_def)
qed

end
