(* ===== verification/UrlTarget.thy ===== *)
theory UrlTarget
  imports Prelude
begin

text \<open>
  \<open>canonicalizeTarget\<close> of \<open>urlshort/api.go\<close>. \<open>url.Parse\<close> and \<open>URL.String\<close> are parameters; the
  functions of \<open>net\<close> and \<open>net/url\<close> that read and build the host part are defined as in the
  standard library.
\<close>

subsection \<open>URLs\<close>

text \<open>A parsed URL: \<open>url_rest\<close> is the path, query and fragment, which the program never looks at.\<close>

record 'r URL =
  url_Scheme :: string
  url_User :: bool
  url_Host :: string
  url_rest :: 'r

record 'r url_lib =
  url_Parse :: "string \<Rightarrow> string + 'r URL"
  url_String :: "'r URL \<Rightarrow> string"

definition validOptionalPort :: "string \<Rightarrow> bool" where
  "validOptionalPort port \<longleftrightarrow> port = [] \<or> (hd port = CHR '':'' \<and> list_all is_digit (tl port))"

text \<open>\<open>splitHostPort\<close> of \<open>net/url\<close>: the host without brackets, and the port.\<close>

definition unbracket :: "string \<Rightarrow> string" where
  "unbracket h = (if HasPrefix h ''['' \<and> HasSuffix h '']'' then butlast (tl h) else h)"

definition splitHostPort :: "string \<Rightarrow> string \<times> string" where
  "splitHostPort hp =
     (case LastIndex hp '':'' of
        None \<Rightarrow> (unbracket hp, [])
      | Some colon \<Rightarrow>
          if validOptionalPort (drop colon hp) then (unbracket (take colon hp), drop (Suc colon) hp)
          else (unbracket hp, []))"

definition Hostname :: "'r URL \<Rightarrow> string" where
  "Hostname u = fst (splitHostPort (url_Host u))"

definition Port :: "'r URL \<Rightarrow> string" where
  "Port u = snd (splitHostPort (url_Host u))"

definition JoinHostPort :: "string \<Rightarrow> string \<Rightarrow> string" where
  "JoinHostPort host port =
     (if Contains host '':'' then ''['' @ host @ '']:'' @ port else host @ '':'' @ port)"

subsection \<open>Canonical targets\<close>

datatype target_error =
    TargetEmpty
  | TargetTooLong
  | TargetInvalid string
  | BadScheme string
  | HasUserinfo
  | NoHost

definition maxTargetLen :: int where
  "maxTargetLen = 8192"

definition canonicalizeTarget :: "'r url_lib \<Rightarrow> string \<Rightarrow> target_error + string" where
  "canonicalizeTarget lib raw =
     (if raw = [] then Inl TargetEmpty
      else if int (length raw) > maxTargetLen then Inl TargetTooLong
      else (case url_Parse lib raw of
              Inl e \<Rightarrow> Inl (TargetInvalid e)
            | Inr u \<Rightarrow>
                (let scheme = ToLower (url_Scheme u)
                 in if scheme \<noteq> ''http'' \<and> scheme \<noteq> ''https'' then Inl (BadScheme (url_Scheme u))
                    else if url_User u then Inl HasUserinfo
                    else
                      (let host = ToLower (Hostname u)
                       in if host = [] then Inl NoHost
                          else
                            (let port = (if (scheme = ''http'' \<and> Port u = ''80'') \<or>
                                            (scheme = ''https'' \<and> Port u = ''443'')
                                         then [] else Port u);
                                 h = (if port \<noteq> [] then JoinHostPort host port
                                      else if Contains host '':'' then ''['' @ host @ '']''
                                      else host)
                             in Inr (url_String lib (u\<lparr>url_Host := h, url_Scheme := scheme\<rparr>)))))))"

subsection \<open>The host part\<close>

lemma LastIndexFrom_None: "LastIndexFrom i s '':'' = None \<longleftrightarrow> CHR '':'' \<notin> set s"
proof (induction s arbitrary: i)
  case (Cons c s)
  show ?case using Cons.IH [of "Suc i"] by (auto simp: HasPrefix_def split: option.split)
qed simp

lemma LastIndexFrom_append:
  "CHR '':'' \<notin> set t \<Longrightarrow> LastIndexFrom i (s @ CHR '':'' # t) '':'' = Some (i + length s)"
proof (induction s arbitrary: i)
  case Nil
  then show ?case by (simp add: LastIndexFrom_None [THEN iffD2] HasPrefix_def)
qed simp

lemma LastIndexFrom_Some:
  "LastIndexFrom i s '':'' = Some j \<Longrightarrow> i \<le> j \<and> j < i + length s \<and> s ! (j - i) = CHR '':'' \<and>
     CHR '':'' \<notin> set (drop (Suc (j - i)) s)"
proof (induction s arbitrary: i j)
  case Nil
  then show ?case by simp
next
  case (Cons c s)
  show ?case
  proof (cases "LastIndexFrom (Suc i) s '':''")
    case None
    with Cons.prems have "j = i" "c = CHR '':''" by (auto simp: HasPrefix_def split: if_splits)
    with None show ?thesis by (simp add: LastIndexFrom_None)
  next
    case (Some k)
    with Cons.prems have "k = j" by simp
    with Cons.IH [OF Some] have r: "Suc i \<le> j" "j < Suc i + length s" "s ! (j - Suc i) = CHR '':''"
      "CHR '':'' \<notin> set (drop (Suc (j - Suc i)) s)" by simp_all
    from r(1) have "j - i = Suc (j - Suc i)" by simp
    with r show ?thesis by simp
  qed
qed

lemma Contains_char: "Contains s [c] \<longleftrightarrow> c \<in> set s"
  by (induction s) (auto simp: HasPrefix_def)

lemma digits_no_colon: "list_all is_digit p \<Longrightarrow> CHR '':'' \<notin> set p"
  by (auto simp: list_all_iff is_digit_def of_char_le_iff)

lemma unbracket_brackets [simp]: "unbracket (CHR ''['' # h @ '']'') = h"
  by (simp add: unbracket_def HasPrefix_def HasSuffix_def)

lemma splitHostPort_plain: "CHR '':'' \<notin> set h \<Longrightarrow> splitHostPort h = (unbracket h, [])"
  by (simp add: splitHostPort_def LastIndex_def LastIndexFrom_None [THEN iffD2])

lemma splitHostPort_port:
  "list_all is_digit p \<Longrightarrow> splitHostPort (h @ CHR '':'' # p) = (unbracket h, p)"
  by (simp add: splitHostPort_def LastIndex_def LastIndexFrom_append digits_no_colon validOptionalPort_def)

text \<open>The last part of a bracketed host is not a port, because it ends in a bracket.\<close>

lemma splitHostPort_bracketed: "splitHostPort (''['' @ h @ '']'') = (h, [])"
proof (cases "LastIndex (''['' @ h @ '']'') '':''")
  case None
  then show ?thesis by (simp add: splitHostPort_def)
next
  case (Some j)
  let ?s = "''['' @ h @ '']''"
  from Some have j: "j < length ?s" "?s ! j = CHR '':''"
    using LastIndexFrom_Some [of 0 ?s j] by (simp_all add: LastIndex_def)
  define rest where "rest = drop (Suc j) ?s"
  have d: "drop j ?s = CHR '':'' # rest" using j unfolding rest_def by (metis Cons_nth_drop_Suc)
  have "last (drop j ?s) = CHR '']''" using j(1) by (simp add: last_drop)
  with d have "rest \<noteq> []" "last rest = CHR '']''" by (auto split: if_splits)
  then have "CHR '']'' \<in> set rest" using last_in_set by fastforce
  moreover have "\<not> is_digit (CHR '']'')" by (simp add: is_digit_def of_char_le_iff)
  ultimately have "\<not> validOptionalPort (drop j ?s)"
    unfolding d by (auto simp: validOptionalPort_def list_all_iff)
  with Some show ?thesis by (simp add: splitHostPort_def)
qed

subsection \<open>Canonical targets are fixed points\<close>

lemma ToLower_digits: "list_all is_digit p \<Longrightarrow> ToLower p = p"
  by (auto simp: ToLower_def list_all_iff is_digit_def lower_char_def of_char_le_iff intro!: map_idI)

lemma Port_digits: "list_all is_digit (snd (splitHostPort hp))"
proof (cases "LastIndex hp '':''")
  case (Some j)
  show ?thesis
  proof (cases "validOptionalPort (drop j hp)")
    case True
    have "tl (drop j hp) = drop (Suc j) hp" by (simp add: drop_Suc tl_drop)
    with True Some show ?thesis by (auto simp: splitHostPort_def validOptionalPort_def)
  qed (simp add: splitHostPort_def Some)
qed (simp add: splitHostPort_def)

text \<open>The host that the function builds from a lower-case host and a port gives both back.\<close>

definition build_host :: "string \<Rightarrow> string \<Rightarrow> string" where
  "build_host host port =
     (if port \<noteq> [] then JoinHostPort host port
      else if Contains host '':'' then ''['' @ host @ '']'' else host)"

lemma splitHostPort_build_host:
  assumes "list_all is_digit port" and "unbracket host = host \<or> CHR '':'' \<in> set host"
  shows "splitHostPort (build_host host port) = (host, port)"
proof (cases "port = []")
  case True
  with assms show ?thesis
    using splitHostPort_bracketed [of host] splitHostPort_plain [of host]
    by (auto simp: build_host_def Contains_char)
next
  case False
  show ?thesis
  proof (cases "CHR '':'' \<in> set host")
    case True
    have "JoinHostPort host port = (''['' @ host @ '']'') @ CHR '':'' # port"
      using True by (simp add: JoinHostPort_def Contains_char)
    with False splitHostPort_port [OF assms(1), of "''['' @ host @ '']''"] show ?thesis
      by (simp add: build_host_def)
  next
    case c: False
    with False assms splitHostPort_port [OF assms(1), of host] show ?thesis
      by (auto simp: build_host_def JoinHostPort_def Contains_char)
  qed
qed

text \<open>What \<open>net/url\<close> documents of the URLs the program builds: a parsed host has at most one pair of
  brackets, and \<open>String\<close> reassembles a URL whose scheme and host were replaced into a text that
  parses back to it.\<close>

locale net_url =
  fixes lib :: "'r url_lib"
  assumes host_brackets: "url_Parse lib raw = Inr v \<Longrightarrow>
      unbracket (ToLower (Hostname v)) = ToLower (Hostname v) \<or> CHR '':'' \<in> set (ToLower (Hostname v))"
    and parse_String: "url_Parse lib raw = Inr v \<Longrightarrow> \<not> url_User v \<Longrightarrow> scheme \<in> {''http'', ''https''} \<Longrightarrow>
      ToLower (Hostname v) \<noteq> [] \<Longrightarrow> list_all is_digit port \<Longrightarrow>
      u = v\<lparr>url_Host := build_host (ToLower (Hostname v)) port, url_Scheme := scheme\<rparr> \<Longrightarrow>
      url_Parse lib (url_String lib u) = Inr u"
    and String_host: "url_Host u \<noteq> [] \<Longrightarrow> url_String lib u \<noteq> []"

lemma canonicalizeTarget_Inr:
  assumes "canonicalizeTarget lib raw = Inr t"
  obtains v scheme port where "url_Parse lib raw = Inr v" and "scheme = ToLower (url_Scheme v)"
    and "scheme \<in> {''http'', ''https''}" and "\<not> url_User v" and "ToLower (Hostname v) \<noteq> []"
    and "list_all is_digit port" and "port = Port v \<or> port = []"
    and "\<not> (scheme = ''http'' \<and> port = ''80'')" and "\<not> (scheme = ''https'' \<and> port = ''443'')"
    and "t = url_String lib (v\<lparr>url_Host := build_host (ToLower (Hostname v)) port, url_Scheme := scheme\<rparr>)"
proof -
  from assms obtain v where v: "url_Parse lib raw = Inr v"
    by (auto simp: canonicalizeTarget_def split: if_splits sum.splits)
  let ?s = "ToLower (url_Scheme v)" and ?h = "ToLower (Hostname v)"
  let ?p = "if (?s = ''http'' \<and> Port v = ''80'') \<or> (?s = ''https'' \<and> Port v = ''443'') then [] else Port v"
  from assms v have c: "?s \<in> {''http'', ''https''}" "\<not> url_User v" "?h \<noteq> []"
    "t = url_String lib (v\<lparr>url_Host := build_host ?h ?p, url_Scheme := ?s\<rparr>)"
    by (auto simp: canonicalizeTarget_def build_host_def Let_def split: if_splits)
  show thesis
    by (rule that [OF v refl c(1-3) _ _ _ _ c(4)]) (use Port_digits in \<open>auto simp: Port_def\<close>)
qed

context net_url
begin

lemma canonical_nonempty: "canonicalizeTarget lib raw = Inr t \<Longrightarrow> t \<noteq> []"
  by (erule canonicalizeTarget_Inr) (auto simp: build_host_def JoinHostPort_def intro!: String_host)

lemma canonical_fixed:
  assumes "canonicalizeTarget lib raw = Inr t" and "int (length t) \<le> maxTargetLen"
  shows "canonicalizeTarget lib t = Inr t"
  using assms(1)
proof (rule canonicalizeTarget_Inr)
  fix v scheme port
  assume a: "url_Parse lib raw = Inr v" "scheme \<in> {''http'', ''https''}" "\<not> url_User v"
    "ToLower (Hostname v) \<noteq> []" "list_all is_digit port"
    "\<not> (scheme = ''http'' \<and> port = ''80'')" "\<not> (scheme = ''https'' \<and> port = ''443'')"
    "t = url_String lib (v\<lparr>url_Host := build_host (ToLower (Hostname v)) port, url_Scheme := scheme\<rparr>)"
  define u where "u = v\<lparr>url_Host := build_host (ToLower (Hostname v)) port, url_Scheme := scheme\<rparr>"
  have p: "url_Parse lib t = Inr u" using parse_String [OF a(1,3,2,4,5) u_def] a(8) by (simp add: u_def)
  have sp: "splitHostPort (build_host (ToLower (Hostname v)) port) = (ToLower (Hostname v), port)"
    by (rule splitHostPort_build_host [OF a(5) host_brackets [OF a(1)]])
  have h: "Hostname u = ToLower (Hostname v)" "Port u = port" using sp by (simp_all add: u_def Hostname_def Port_def)
  have sc: "ToLower (url_Scheme u) = scheme" using a(2) by (auto simp: u_def ToLower_def lower_char_def)
  have np: "\<not> ((scheme = ''http'' \<and> port = ''80'') \<or> (scheme = ''https'' \<and> port = ''443''))"
    using a(6,7) by blast
  have bh: "(if port \<noteq> [] then JoinHostPort (ToLower (Hostname v)) port
      else if Contains (ToLower (Hostname v)) '':'' then ''['' @ ToLower (Hostname v) @ '']''
      else ToLower (Hostname v)) = url_Host u" by (simp add: u_def build_host_def)
  have "t \<noteq> []" by (rule canonical_nonempty [OF assms(1)])
  then have "canonicalizeTarget lib t = Inr (url_String lib (u\<lparr>url_Host := url_Host u, url_Scheme := scheme\<rparr>))"
    using assms(2) a(2,3,4) np
    unfolding canonicalizeTarget_def Let_def p sum.case sc h ToLower_idem bh if_not_P [OF np]
    by (auto simp: u_def)
  moreover have "u\<lparr>url_Host := url_Host u, url_Scheme := scheme\<rparr> = u" by (simp add: u_def)
  ultimately show ?thesis using a(8) by (simp add: u_def)
qed

end

subsection \<open>A URL library\<close>

text \<open>URLs without user information whose scheme is already in lower case, as an instance of the laws.\<close>

definition simple_url :: "string \<Rightarrow> string \<Rightarrow> string + string URL" where
  "simple_url scheme s =
     (let u = \<lparr>url_Scheme = scheme, url_User = False, url_Host = takeWhile (\<lambda>c. c \<noteq> CHR ''/'') s,
               url_rest = dropWhile (\<lambda>c. c \<noteq> CHR ''/'') s\<rparr>
      in if unbracket (ToLower (Hostname u)) = ToLower (Hostname u) \<or> CHR '':'' \<in> set (ToLower (Hostname u))
         then Inr u else Inl ''invalid host'')"

definition simple_lib :: "string url_lib" where
  "simple_lib = \<lparr>url_Parse = (\<lambda>raw.
       if HasPrefix raw ''http://'' then simple_url ''http'' (drop 7 raw)
       else if HasPrefix raw ''https://'' then simple_url ''https'' (drop 8 raw)
       else Inl ''unknown scheme''),
     url_String = (\<lambda>u. url_Scheme u @ ''://'' @ url_Host u @ url_rest u)\<rparr>"

lemma simple_url_Inr:
  "simple_url scheme s = Inr v \<longleftrightarrow>
   v = \<lparr>url_Scheme = scheme, url_User = False, url_Host = takeWhile (\<lambda>c. c \<noteq> CHR ''/'') s,
        url_rest = dropWhile (\<lambda>c. c \<noteq> CHR ''/'') s\<rparr> \<and>
   (unbracket (ToLower (Hostname v)) = ToLower (Hostname v) \<or> CHR '':'' \<in> set (ToLower (Hostname v)))"
  by (auto simp: simple_url_def Let_def)

lemma take_drop_until:
  "c \<notin> set h \<Longrightarrow> r = [] \<or> hd r = c \<Longrightarrow>
   takeWhile (\<lambda>x. x \<noteq> c) (h @ r) = h \<and> dropWhile (\<lambda>x. x \<noteq> c) (h @ r) = r"
proof (induction h)
  case Nil
  then show ?case by (cases r) auto
qed auto

lemma set_unbracket: "set (unbracket h) \<subseteq> set h"
proof -
  have "set (butlast (tl h)) \<subseteq> set (tl h)" by (rule subsetI) (rule in_set_butlastD)
  also have "\<dots> \<subseteq> set h" by (cases h) auto
  finally show ?thesis by (simp add: unbracket_def)
qed

lemma set_splitHostPort: "set (fst (splitHostPort hp)) \<subseteq> set hp"
proof -
  have "set (unbracket (take j hp)) \<subseteq> set hp" for j
    using set_unbracket set_take_subset by (rule subset_trans)
  then show ?thesis using set_unbracket [of hp] by (simp add: splitHostPort_def split: option.split)
qed

lemma ToLower_no_slash: "CHR ''/'' \<notin> set h \<Longrightarrow> CHR ''/'' \<notin> set (ToLower h)"
proof
  assume h: "CHR ''/'' \<notin> set h" and "CHR ''/'' \<in> set (ToLower h)"
  then obtain c where c: "c \<in> set h" "lower_char c = CHR ''/''" by (auto simp: ToLower_def)
  have "\<not> (CHR ''A'' \<le> c \<and> c \<le> CHR ''Z'')"
  proof
    assume a: "CHR ''A'' \<le> c \<and> c \<le> CHR ''Z''"
    then have b: "65 \<le> (of_char c :: nat)" "(of_char c :: nat) \<le> 90" by (simp_all add: of_char_le_iff)
    have "(of_char (lower_char c) :: nat) = of_char c + 32" using a b by (simp add: lower_char_def)
    with c(2) b show False by simp
  qed
  then have "lower_char c = c" by (auto simp: lower_char_def)
  with c h show False by simp
qed

interpretation su: net_url simple_lib
proof (unfold_locales, goal_cases)
  case (1 raw v)
  then show ?case by (auto simp: simple_lib_def simple_url_Inr split: if_splits)
next
  case (2 raw v scheme port u)
  from 2(1) obtain sc s where v: "simple_url sc s = Inr v"
    by (auto simp: simple_lib_def split: if_splits)
  note vd = v [unfolded simple_url_Inr]
  let ?H = "build_host (ToLower (Hostname v)) port"
  have "CHR ''/'' \<notin> set (url_Host v)" using vd by (auto dest: set_takeWhileD)
  then have "CHR ''/'' \<notin> set (Hostname v)"
    using set_splitHostPort [of "url_Host v"] by (auto simp: Hostname_def)
  then have hn: "CHR ''/'' \<notin> set (ToLower (Hostname v))" by (rule ToLower_no_slash)
  have "CHR ''/'' \<notin> set port" using 2(5) by (auto simp: list_all_iff is_digit_def of_char_le_iff)
  with hn have H: "CHR ''/'' \<notin> set ?H" by (auto simp: build_host_def JoinHostPort_def)
  have rest: "url_rest v = [] \<or> hd (url_rest v) = CHR ''/''"
    using vd hd_dropWhile [of "\<lambda>c. c \<noteq> CHR ''/''" s] by auto
  have tw: "takeWhile (\<lambda>c. c \<noteq> CHR ''/'') (?H @ url_rest v) = ?H"
    and dw: "dropWhile (\<lambda>c. c \<noteq> CHR ''/'') (?H @ url_rest v) = url_rest v"
    using take_drop_until [OF H rest] by simp_all
  have st: "unbracket (ToLower (Hostname v)) = ToLower (Hostname v) \<or> CHR '':'' \<in> set (ToLower (Hostname v))"
    using vd by blast
  have "Hostname u = ToLower (Hostname v)"
    unfolding 2(6) Hostname_def URL.simps using splitHostPort_build_host [OF 2(5) st] by (simp add: Hostname_def)
  with st have "simple_url scheme (?H @ url_rest v) = Inr u"
    unfolding simple_url_Inr tw dw using 2(2) vd by (simp add: 2(6))
  with 2(3) show ?case by (auto simp: simple_lib_def 2(6) HasPrefix_def)
next
  case (3 u)
  then show ?case by (simp add: simple_lib_def)
qed

text \<open>A canonical target is a fixed point: putting it through \<open>canonicalizeTarget\<close> again, as a
  client does that posts a stored target, gives the same text, so one URL has one key.\<close>

theorem canonical_target_is_fixed:
  assumes "net_url lib" and "canonicalizeTarget lib raw = Inr t" and "int (length t) \<le> maxTargetLen"
  shows "canonicalizeTarget lib t = Inr t \<and> t \<noteq> []"
  using net_url.canonical_fixed [OF assms] net_url.canonical_nonempty [OF assms(1,2)] by simp

theorem canonical_target_is_fixed_example:
  "canonicalizeTarget simple_lib ''http://Ex.ORG:80/A?b'' = Inr ''http://ex.org/A?b'' \<and>
   canonicalizeTarget simple_lib ''http://ex.org/A?b'' = Inr ''http://ex.org/A?b''"
proof -
  have "canonicalizeTarget simple_lib ''http://Ex.ORG:80/A?b'' = Inr ''http://ex.org/A?b''" by code_simp
  with canonical_target_is_fixed [OF su.net_url_axioms this] show ?thesis by (simp add: maxTargetLen_def)
qed

end
