(* ===== verification/RateLimit.thy ===== *)
theory RateLimit
  imports Complex_Main Prelude
begin

text \<open>
  The per-key rate limiter of \<open>urlshort/server.go\<close>: a map from keys to elements of a linked list in
  recency order. Elements are addresses into a store \<open>rl_elems\<close>, as the Go code shares one
  \<open>list.Element\<close> between the map and the list. The token bucket of \<open>golang.org/x/time/rate\<close> is a
  parameter: a fresh bucket of a rate and a burst, and what \<open>Allow\<close> does to one at a time.
\<close>

record 'lim bucket_lib =
  bl_new :: "rat \<Rightarrow> int \<Rightarrow> 'lim"
  bl_allow :: "int \<Rightarrow> 'lim \<Rightarrow> bool \<times> 'lim"

record 'lim RateLimiter =
  rl_limit :: rat
  rl_burst :: int
  rl_max :: int
  rl_entries :: "string \<rightharpoonup> nat"
  rl_order :: "nat list"
  rl_elems :: "nat \<Rightarrow> string \<times> 'lim"
  rl_next :: nat

definition NewRateLimiter :: "'lim bucket_lib \<Rightarrow> rat \<Rightarrow> int \<Rightarrow> int \<Rightarrow> 'lim RateLimiter" where
  "NewRateLimiter bl perSecond burst mx =
     \<lparr>rl_limit = perSecond, rl_burst = burst, rl_max = (if mx \<le> 0 then 10000 else mx), rl_entries = Map.empty, rl_order = [],
      rl_elems = (\<lambda>_. ([], bl_new bl perSecond burst)), rl_next = 0\<rparr>"

definition MoveToFront :: "nat \<Rightarrow> nat list \<Rightarrow> nat list" where
  "MoveToFront el xs = el # removeAll el xs"

definition evict_back :: "'lim RateLimiter \<Rightarrow> 'lim RateLimiter" where
  "evict_back rl =
     (if int (length (rl_order rl)) \<ge> rl_max rl then
        (if rl_order rl = [] then rl
         else rl\<lparr>rl_order := butlast (rl_order rl),
                 rl_entries := (rl_entries rl)(fst (rl_elems rl (last (rl_order rl))) := None)\<rparr>)
      else rl)"

definition push_entry :: "'lim bucket_lib \<Rightarrow> string \<Rightarrow> 'lim RateLimiter \<Rightarrow> nat \<times> 'lim RateLimiter" where
  "push_entry bl key rl =
     (let el = rl_next rl
      in (el, rl\<lparr>rl_order := el # rl_order rl,
                 rl_elems := (rl_elems rl)(el := (key, bl_new bl (rl_limit rl) (rl_burst rl))),
                 rl_next := Suc el, rl_entries := (rl_entries rl)(key \<mapsto> el)\<rparr>))"

definition Allow :: "'lim bucket_lib \<Rightarrow> int \<Rightarrow> string \<Rightarrow> 'lim RateLimiter \<Rightarrow> bool \<times> 'lim RateLimiter" where
  "Allow bl now key rl =
     (case (case rl_entries rl key of
              Some el \<Rightarrow> (el, rl\<lparr>rl_order := MoveToFront el (rl_order rl)\<rparr>)
            | None \<Rightarrow> push_entry bl key (evict_back rl)) of
        (el, rl1) \<Rightarrow>
          (case bl_allow bl now (snd (rl_elems rl1 el)) of
             (ok, bkt) \<Rightarrow>
               (ok, rl1\<lparr>rl_elems := (rl_elems rl1)(el := (fst (rl_elems rl1 el), bkt))\<rparr>)))"

subsection \<open>Shape\<close>

definition rl_ok :: "'lim RateLimiter \<Rightarrow> bool" where
  "rl_ok rl \<longleftrightarrow>
     0 < rl_max rl \<and> int (length (rl_order rl)) \<le> rl_max rl \<and> distinct (rl_order rl) \<and>
     (\<forall>el\<in>set (rl_order rl). el < rl_next rl) \<and>
     (\<forall>k el. rl_entries rl k = Some el \<longleftrightarrow> el \<in> set (rl_order rl) \<and> fst (rl_elems rl el) = k)"

text \<open>The bucket a new key starts with.\<close>

definition fresh_bucket :: "'lim bucket_lib \<Rightarrow> 'lim RateLimiter \<Rightarrow> 'lim" where
  "fresh_bucket bl rl = bl_new bl (rl_limit rl) (rl_burst rl)"

text \<open>The abstract limiter: the keys with their buckets, most recent first.\<close>

definition lru_of :: "'lim RateLimiter \<Rightarrow> (string \<times> 'lim) list" where
  "lru_of rl = map (rl_elems rl) (rl_order rl)"

definition lru_allow :: "'lim bucket_lib \<Rightarrow> 'lim \<Rightarrow> int \<Rightarrow> int \<Rightarrow> string \<Rightarrow> (string \<times> 'lim) list \<Rightarrow>
    bool \<times> (string \<times> 'lim) list" where
  "lru_allow bl fresh mx now key xs =
     (case map_of xs key of
        Some bkt \<Rightarrow> (case bl_allow bl now bkt of (ok, bkt') \<Rightarrow> (ok, (key, bkt') # al_del key xs))
      | None \<Rightarrow>
          (case bl_allow bl now fresh of
             (ok, bkt') \<Rightarrow>
               (ok, (key, bkt') # (if int (length xs) \<ge> mx then butlast xs else xs))))"

lemma rl_ok_New: "rl_ok (NewRateLimiter bl perSecond burst mx)"
  by (simp add: rl_ok_def NewRateLimiter_def)

lemma rl_ok_entry:
  "rl_ok rl \<Longrightarrow> rl_entries rl k = Some el \<longleftrightarrow> el \<in> set (rl_order rl) \<and> fst (rl_elems rl el) = k"
  by (simp add: rl_ok_def)

lemma rl_ok_inj:
  assumes "rl_ok rl" and "a \<in> set (rl_order rl)" and "b \<in> set (rl_order rl)"
    and "fst (rl_elems rl a) = fst (rl_elems rl b)"
  shows "a = b"
proof -
  have "rl_entries rl (fst (rl_elems rl a)) = Some a" using assms by (simp add: rl_ok_entry)
  moreover have "rl_entries rl (fst (rl_elems rl a)) = Some b" using assms by (simp add: rl_ok_entry)
  ultimately show ?thesis by simp
qed

lemma keys_distinct: "rl_ok rl \<Longrightarrow> distinct (map fst (lru_of rl))"
proof -
  assume ok: "rl_ok rl"
  then have "distinct (rl_order rl)" by (simp add: rl_ok_def)
  moreover have "inj_on (\<lambda>el. fst (rl_elems rl el)) (set (rl_order rl))"
    by (rule inj_onI) (rule rl_ok_inj [OF ok])
  ultimately show ?thesis by (simp add: lru_of_def distinct_map comp_def)
qed

lemma map_of_lru:
  assumes "rl_ok rl"
  shows "map_of (lru_of rl) k = map_option (\<lambda>el. snd (rl_elems rl el)) (rl_entries rl k)"
proof (cases "rl_entries rl k")
  case None
  have "fst (rl_elems rl el) \<noteq> k" if "el \<in> set (rl_order rl)" for el
    using that None rl_ok_entry [OF assms, of k el] by auto
  then have "k \<notin> fst ` set (lru_of rl)" by (auto simp: lru_of_def image_image)
  with None show ?thesis by (simp add: map_of_eq_None_iff)
next
  case (Some el)
  then have "el \<in> set (rl_order rl)" "fst (rl_elems rl el) = k" using assms by (auto simp: rl_ok_def)
  then have "(k, snd (rl_elems rl el)) \<in> set (lru_of rl)"
    unfolding lru_of_def by (metis imageI list.set_map prod.collapse)
  with keys_distinct [OF assms] Some show ?thesis by simp
qed

lemma evict_back_ok:
  assumes "rl_ok rl"
  shows "rl_ok (evict_back rl)" and "int (length (rl_order (evict_back rl))) < rl_max rl"
    and "rl_max (evict_back rl) = rl_max rl" and "fresh_bucket bl (evict_back rl) = fresh_bucket bl rl"
    and "lru_of (evict_back rl) =
      (if int (length (lru_of rl)) \<ge> rl_max rl then butlast (lru_of rl) else lru_of rl)"
    and "rl_entries rl k = None \<Longrightarrow> rl_entries (evict_back rl) k = None"
proof -
  show "rl_max (evict_back rl) = rl_max rl" "fresh_bucket bl (evict_back rl) = fresh_bucket bl rl"
    by (simp_all add: evict_back_def fresh_bucket_def)
  show "rl_entries rl k = None \<Longrightarrow> rl_entries (evict_back rl) k = None" by (simp add: evict_back_def)
  show "lru_of (evict_back rl) =
      (if int (length (lru_of rl)) \<ge> rl_max rl then butlast (lru_of rl) else lru_of rl)"
    by (simp add: evict_back_def lru_of_def map_butlast)
  have "rl_ok (evict_back rl) \<and> int (length (rl_order (evict_back rl))) < rl_max rl"
  proof (cases "int (length (rl_order rl)) \<ge> rl_max rl")
    case False
    with assms show ?thesis by (simp add: evict_back_def)
  next
    case True
    with assms have ne: "rl_order rl \<noteq> []" by (auto simp: rl_ok_def)
    define xs x where "xs = butlast (rl_order rl)" and "x = last (rl_order rl)"
    have o: "rl_order rl = xs @ [x]" using ne by (simp add: xs_def x_def)
    have e: "evict_back rl = rl\<lparr>rl_order := xs, rl_entries := (rl_entries rl)(fst (rl_elems rl x) := None)\<rparr>"
      using True ne by (simp add: evict_back_def xs_def x_def)
    from assms have x: "rl_entries rl (fst (rl_elems rl x)) = Some x" "x \<notin> set xs"
      by (auto simp: rl_ok_def o)
    have "rl_entries (evict_back rl) k = Some el \<longleftrightarrow>
        el \<in> set (rl_order (evict_back rl)) \<and> fst (rl_elems (evict_back rl) el) = k" for k el
    proof (cases "k = fst (rl_elems rl x)")
      case True
      have "fst (rl_elems rl el) \<noteq> k" if "el \<in> set xs"
        using rl_ok_inj [OF assms, of el x] that x(2) True by (auto simp: o)
      then show ?thesis by (simp add: e True)
    next
      case False
      then show ?thesis by (auto simp: e rl_ok_entry [OF assms] o)
    qed
    moreover have "length xs < length (rl_order rl)" by (simp add: o)
    ultimately show ?thesis using assms by (auto simp: rl_ok_def e o)
  qed
  then show "rl_ok (evict_back rl)" "int (length (rl_order (evict_back rl))) < rl_max rl" by auto
qed

lemma push_entry_ok:
  assumes "rl_ok rl" and "int (length (rl_order rl)) < rl_max rl" and "rl_entries rl key = None"
    and "push_entry bl key rl = (el, rl')"
  shows "rl_ok rl'" and "lru_of rl' = (key, fresh_bucket bl rl) # lru_of rl"
    and "rl_elems rl' el = (key, fresh_bucket bl rl)" and "rl_order rl' = el # rl_order rl"
    and "rl_max rl' = rl_max rl" and "fresh_bucket bl rl' = fresh_bucket bl rl"
proof -
  from assms(4) have d: "el = rl_next rl" "rl' = rl\<lparr>rl_order := el # rl_order rl,
      rl_elems := (rl_elems rl)(el := (key, fresh_bucket bl rl)), rl_next := Suc el,
      rl_entries := (rl_entries rl)(key \<mapsto> el)\<rparr>" by (auto simp: push_entry_def fresh_bucket_def Let_def)
  from assms(1) have fresh: "el \<notin> set (rl_order rl)" by (auto simp: rl_ok_def d(1))
  show "rl_elems rl' el = (key, fresh_bucket bl rl)" "rl_order rl' = el # rl_order rl" "rl_max rl' = rl_max rl"
    "fresh_bucket bl rl' = fresh_bucket bl rl"
    by (simp_all add: d(2) fresh_bucket_def)
  show "lru_of rl' = (key, fresh_bucket bl rl) # lru_of rl" using fresh by (auto simp: d(2) lru_of_def)
  have "fst (rl_elems rl e) \<noteq> key" if "e \<in> set (rl_order rl)" for e
    using that assms(1,3) unfolding rl_ok_def by (metis option.distinct(1))
  moreover have "e < Suc el" if "e \<in> set (rl_order rl)" for e
    using that assms(1) d(1) by (auto simp: rl_ok_def less_Suc_eq)
  ultimately show "rl_ok rl'"
    using assms(1,2) fresh unfolding rl_ok_def d(2) by (auto split: if_splits)
qed

lemma set_bucket_ok:
  assumes "rl_ok rl" and "rl_order rl = el # rest"
  shows "rl_ok (rl\<lparr>rl_elems := (rl_elems rl)(el := (fst (rl_elems rl el), bkt))\<rparr>)"
    and "lru_of (rl\<lparr>rl_elems := (rl_elems rl)(el := (fst (rl_elems rl el), bkt))\<rparr>) =
      (fst (rl_elems rl el), bkt) # map (rl_elems rl) rest"
  using assms by (auto simp: rl_ok_def lru_of_def split: if_splits)

subsection \<open>Properties of the limiter\<close>

lemma Allow_refines:
  assumes ok: "rl_ok rl" and al: "Allow bl now key rl = (b, rl')"
  shows "rl_ok rl' \<and> rl_max rl' = rl_max rl \<and> fresh_bucket bl rl' = fresh_bucket bl rl \<and>
    lru_allow bl (fresh_bucket bl rl) (rl_max rl) now key (lru_of rl) = (b, lru_of rl')"
proof (cases "rl_entries rl key")
  case None
  note ev = evict_back_ok [OF ok]
  obtain el rl1 where p: "push_entry bl key (evict_back rl) = (el, rl1)"
    by (cases "push_entry bl key (evict_back rl)")
  note pu = push_entry_ok [OF ev(1) _ ev(6) [OF None] p]
  obtain bkt where l: "bl_allow bl now (fresh_bucket bl rl) = (b, bkt)"
    and rl': "rl' = rl1\<lparr>rl_elems := (rl_elems rl1)(el := (fst (rl_elems rl1 el), bkt))\<rparr>"
    using al None p pu(3) ev(2,3,4) by (auto simp: Allow_def split: prod.splits)
  have o: "rl_order rl1 = el # rl_order (evict_back rl)" using pu(4) ev(2,3) by simp
  note st = set_bucket_ok [OF _ o, of bkt]
  have k: "rl_elems rl1 el = (key, fresh_bucket bl rl)" "rl_ok rl1"
    "lru_of rl1 = (key, fresh_bucket bl rl) # lru_of (evict_back rl)" "rl_max rl1 = rl_max rl"
    "fresh_bucket bl rl1 = fresh_bucket bl rl"
    using pu ev(2,3,4) by simp_all
  then have fr: "fresh_bucket bl rl' = fresh_bucket bl rl" by (simp add: rl' fresh_bucket_def)
  have "map (rl_elems rl1) (rl_order (evict_back rl)) = lru_of (evict_back rl)"
    using k(1,3) o by (simp add: lru_of_def)
  then have "lru_of rl' = (key, bkt) # lru_of (evict_back rl)"
    using st(2) [OF k(2)] k(1) by (simp add: rl')
  moreover have "map_of (lru_of rl) key = None" using map_of_lru [OF ok] None by simp
  ultimately show ?thesis
    using st(1) [OF k(2)] k(4) l ev(5) fr by (simp add: rl' lru_allow_def)
next
  case (Some el)
  define rl1 where "rl1 = rl\<lparr>rl_order := MoveToFront el (rl_order rl)\<rparr>"
  from Some rl_ok_entry [OF ok] have el: "el \<in> set (rl_order rl)" "fst (rl_elems rl el) = key" by auto
  obtain bkt where l: "bl_allow bl now (snd (rl_elems rl el)) = (b, bkt)"
    and rl': "rl' = rl1\<lparr>rl_elems := (rl_elems rl1)(el := (fst (rl_elems rl1 el), bkt))\<rparr>"
    using al Some by (auto simp: Allow_def rl1_def split: prod.splits)
  have d: "distinct (rl_order rl)" using ok by (simp add: rl_ok_def)
  have len: "length (el # removeAll el (rl_order rl)) = length (rl_order rl)"
    using el(1) d by (simp add: distinct_remove1_removeAll [symmetric] length_remove1)
      (metis Suc_pred length_pos_if_in_set)
  have ok1: "rl_ok rl1" using ok d el(1) len unfolding rl_ok_def rl1_def MoveToFront_def by (auto simp: distinct_removeAll)
  have o: "rl_order rl1 = el # removeAll el (rl_order rl)" by (simp add: rl1_def MoveToFront_def)
  note st = set_bucket_ok [OF ok1 o, of bkt]
  have "al_del key (lru_of rl) = map (rl_elems rl) (removeAll el (rl_order rl))"
    unfolding al_del_def lru_of_def filter_map comp_def removeAll_filter_not_eq
    by (rule arg_cong [where f = "map _"], rule filter_cong [OF refl])
      (use el rl_ok_inj [OF ok] in auto)
  then have "lru_of rl' = (key, bkt) # al_del key (lru_of rl)"
    using st(2) el(2) by (simp add: rl' rl1_def)
  moreover have "map_of (lru_of rl) key = Some (snd (rl_elems rl el))"
    using map_of_lru [OF ok] Some by simp
  ultimately show ?thesis using st(1) l by (simp add: rl' rl1_def lru_allow_def fresh_bucket_def)
qed

text \<open>A run of requests, each a time and a key.\<close>

fun allow_all :: "'lim bucket_lib \<Rightarrow> (int \<times> string) list \<Rightarrow> 'lim RateLimiter \<Rightarrow> bool list \<times> 'lim RateLimiter" where
  "allow_all bl [] rl = ([], rl)"
| "allow_all bl ((now, key) # reqs) rl =
     (case Allow bl now key rl of
        (b, rl1) \<Rightarrow> (case allow_all bl reqs rl1 of (bs, rl2) \<Rightarrow> (b # bs, rl2)))"

fun lru_allow_all :: "'lim bucket_lib \<Rightarrow> 'lim \<Rightarrow> int \<Rightarrow> (int \<times> string) list \<Rightarrow> (string \<times> 'lim) list \<Rightarrow>
    bool list \<times> (string \<times> 'lim) list" where
  "lru_allow_all bl fresh mx [] xs = ([], xs)"
| "lru_allow_all bl fresh mx ((now, key) # reqs) xs =
     (case lru_allow bl fresh mx now key xs of
        (b, xs1) \<Rightarrow> (case lru_allow_all bl fresh mx reqs xs1 of (bs, xs2) \<Rightarrow> (b # bs, xs2)))"

text \<open>C35: over any run of requests the map and the linked list act as a least-recently-used table of
  token buckets: the answers are those of the abstract table, its keys are distinct, and it never
  holds more than the configured number of them, whatever keys clients present.\<close>

theorem rate_limiter_is_a_bounded_lru:
  assumes "allow_all bl reqs (NewRateLimiter bl perSecond burst mx) = (bs, rl)"
  shows "lru_allow_all bl (bl_new bl perSecond burst) (if mx \<le> 0 then 10000 else mx) reqs [] = (bs, lru_of rl) \<and>
    distinct (map fst (lru_of rl)) \<and>
    int (length (lru_of rl)) \<le> (if mx \<le> 0 then 10000 else mx) \<and>
    (\<forall>k. rl_entries rl k = None \<longleftrightarrow> map_of (lru_of rl) k = None)"
proof -
  have run: "rl_ok rl' \<and> rl_max rl' = rl_max rl0 \<and> fresh_bucket bl rl' = fresh_bucket bl rl0 \<and>
      lru_allow_all bl (fresh_bucket bl rl0) (rl_max rl0) reqs (lru_of rl0) = (bs', lru_of rl')"
    if "rl_ok rl0" "allow_all bl reqs rl0 = (bs', rl')" for rl0 rl' bs'
    using that
  proof (induction bl reqs rl0 arbitrary: bs' rl' rule: allow_all.induct)
    case (1 bl rl)
    then show ?case by simp
  next
    case (2 bl now key reqs rl)
    from 2(3) obtain b rl1 bs1 where a: "Allow bl now key rl = (b, rl1)"
      "allow_all bl reqs rl1 = (bs1, rl')" "bs' = b # bs1" by (auto split: prod.splits)
    note r = Allow_refines [OF 2(2) a(1)]
    from 2(1) [OF a(1) [symmetric] _ a(2)] r a(3) show ?case by auto
  qed
  let ?n = "NewRateLimiter bl perSecond burst mx"
  have "rl_ok rl \<and> rl_max rl = rl_max ?n \<and> fresh_bucket bl rl = fresh_bucket bl ?n \<and>
      lru_allow_all bl (fresh_bucket bl ?n) (rl_max ?n) reqs (lru_of ?n) = (bs, lru_of rl)"
    by (rule run [OF rl_ok_New assms])
  moreover have "lru_of ?n = []" "rl_max ?n = (if mx \<le> 0 then 10000 else mx)"
    "fresh_bucket bl ?n = bl_new bl perSecond burst"
    by (simp_all add: lru_of_def NewRateLimiter_def fresh_bucket_def)
  ultimately show ?thesis
    using keys_distinct [of rl] map_of_lru [of rl] by (auto simp: rl_ok_def lru_of_def)
qed

definition ex_bucket :: "nat bucket_lib" where
  "ex_bucket = \<lparr>bl_new = (\<lambda>perSecond burst. nat burst), bl_allow = (\<lambda>now n. if n = 0 then (False, 0) else (True, n - 1))\<rparr>"

theorem rate_limiter_is_a_bounded_lru_example:
  "\<exists>rl. allow_all ex_bucket [(0, ''a''), (1, ''b''), (2, ''a''), (3, ''a''), (4, ''c''), (5, ''b'')]
     (NewRateLimiter ex_bucket 1 2 2) = ([True, True, True, False, True, True], rl) \<and>
   map fst (lru_of rl) = [''b'', ''c'']"
proof -
  let ?reqs = "[(0, ''a''), (1, ''b''), (2, ''a''), (3, ''a''), (4, ''c''), (5, ''b'')]"
  obtain bs rl where r: "allow_all ex_bucket ?reqs (NewRateLimiter ex_bucket 1 2 2) = (bs, rl)"
    by (cases "allow_all ex_bucket ?reqs (NewRateLimiter ex_bucket 1 2 2)")
  have f: "bl_new ex_bucket 1 2 = 2" by (simp add: ex_bucket_def)
  from rate_limiter_is_a_bounded_lru [OF r] have
    "lru_allow_all ex_bucket 2 2 ?reqs [] = (bs, lru_of rl)" by (simp add: f del: lru_allow_all.simps)
  moreover have "lru_allow_all ex_bucket 2 2 ?reqs [] =
      ([True, True, True, False, True, True], [(''b'', 1), (''c'', 1)])" by code_simp
  ultimately show ?thesis using r by (metis (no_types, lifting) list.simps(8,9) fst_conv prod.inject)
qed

end
