(* ===== verification/UrlConfig.thy ===== *)
theory UrlConfig
  imports Complex_Main UrlAuth UrlRules UrlTarget
begin

text \<open>
  The configuration of the URL shortener and its validation: \<open>urlshort/config.go\<close>. A problem is the
  format text and its arguments, in the order the validator adds them. The public URL as \<open>url.Parse\<close>
  reads it, compiled patterns, parsed templates, the proxy list as \<open>net/netip\<close> reads it and the
  readability of files are what the environment record \<open>cfg_env\<close> says.
\<close>

subsection \<open>Configuration records\<close>

record HSTSConfig =
  hs_Enabled :: bool
  hs_MaxAge :: int
  hs_IncludeSubDomains :: bool
  hs_Preload :: bool

record ServerConfig =
  sc_ListenAddresses :: "string list"
  sc_HTTPPort :: int
  sc_HTTPSPort :: int
  sc_PublicURL :: string
  sc_ExtraHosts :: "string list"
  sc_CertFile :: string
  sc_KeyFile :: string
  sc_ShutdownTimeout :: int
  sc_ReadTimeout :: int
  sc_WriteTimeout :: int
  sc_IdleTimeout :: int
  sc_MaxHeaderBytes :: int
  sc_HTTP2Enabled :: bool
  sc_TrustedProxies :: "string list"
  sc_HSTS :: HSTSConfig

record ACMEConfig =
  ac_Enabled :: bool
  ac_DirectoryURL :: string
  ac_AccountFile :: string
  ac_AcceptTOS :: bool
  ac_CacheDir :: string
  ac_RenewBeforeDays :: int
  ac_HTTP01Fallback :: bool
  ac_IssueTimeout :: int

record RateLimitConfig =
  rc_RedirectRate :: rat
  rc_RedirectBurst :: int
  rc_APIRate :: rat
  rc_APIBurst :: int
  rc_APIIPRate :: rat
  rc_APIIPBurst :: int

record AccessLogConfig =
  al_RetentionDays :: int
  al_FlushInterval :: int

record ErrorLogConfig =
  el_Enabled :: bool
  el_RetentionDays :: int
  el_FlushInterval :: int

record BackupConfig =
  bk_Enabled :: bool
  bk_Dir :: string
  bk_HourUTC :: int
  bk_RunOnStart :: bool
  bk_RetentionDays :: int
  bk_StartupRetentionCount :: int
  bk_CompactTxMaxBytes :: int

record RuleConfig =
  ru_Name :: string
  ru_Match :: string
  ru_Key :: string
  ru_Hash :: string
  ru_HashMinlen :: int

record Config =
  cf_LogLevel :: string
  cf_DataDir :: string
  cf_Server :: ServerConfig
  cf_ACME :: ACMEConfig
  cf_RateLimit :: RateLimitConfig
  cf_AccessLog :: AccessLogConfig
  cf_ErrorLog :: ErrorLogConfig
  cf_Backup :: BackupConfig
  cf_Abbreviations :: "(string \<times> string) list"
  cf_Rules :: "RuleConfig list"
  cf_Clients :: "ClientConfig list"

text \<open>What libraries and the file system answer: the public URL (scheme, userinfo, query, fragment,
  path, host name), a pattern (does it match the empty string, its group names), a named key template with abbreviations, a
  trusted-proxy list (its prefix lengths), a file, an account key.\<close>

record public_url =
  pu_Scheme :: string
  pu_User :: bool
  pu_RawQuery :: string
  pu_Fragment :: string
  pu_Path :: string
  pu_Hostname :: string

record cfg_env =
  ce_url :: "string \<Rightarrow> string + public_url"
  ce_regexp :: "string \<Rightarrow> string + bool \<times> string list"
  ce_template :: "(string \<times> string) list \<Rightarrow> string \<Rightarrow> string \<Rightarrow> string option"
  ce_proxies :: "string list \<Rightarrow> string + (int \<times> string) list"
  ce_stat :: "string \<Rightarrow> bool"
  ce_signer :: "string \<Rightarrow> bool"

subsection \<open>Defaults\<close>

definition tokenMinLen :: int where "tokenMinLen = 32"
definition hashMinLen :: int where "hashMinLen = 4"

definition DefaultConfig :: Config where
  "DefaultConfig =
     \<lparr>cf_LogLevel = ''info'', cf_DataDir = ''./data/'',
      cf_Server = \<lparr>sc_ListenAddresses = [''0.0.0.0'', ''::''], sc_HTTPPort = 80, sc_HTTPSPort = 443,
        sc_PublicURL = [], sc_ExtraHosts = [], sc_CertFile = [], sc_KeyFile = [],
        sc_ShutdownTimeout = 10, sc_ReadTimeout = 30, sc_WriteTimeout = 30, sc_IdleTimeout = 60,
        sc_MaxHeaderBytes = 8192, sc_HTTP2Enabled = True,
        sc_TrustedProxies = [''127.0.0.0/8'', ''::1/128''],
        sc_HSTS = \<lparr>hs_Enabled = False, hs_MaxAge = 31536000, hs_IncludeSubDomains = False, hs_Preload = False\<rparr>\<rparr>,
      cf_ACME = \<lparr>ac_Enabled = True, ac_DirectoryURL = ''https://acme-v02.api.letsencrypt.org/directory'',
        ac_AccountFile = [], ac_AcceptTOS = False, ac_CacheDir = [], ac_RenewBeforeDays = 30,
        ac_HTTP01Fallback = False, ac_IssueTimeout = 60\<rparr>,
      cf_RateLimit = \<lparr>rc_RedirectRate = 20, rc_RedirectBurst = 40, rc_APIRate = 5, rc_APIBurst = 10,
        rc_APIIPRate = 20, rc_APIIPBurst = 40\<rparr>,
      cf_AccessLog = \<lparr>al_RetentionDays = 30, al_FlushInterval = 5\<rparr>,
      cf_ErrorLog = \<lparr>el_Enabled = True, el_RetentionDays = 30, el_FlushInterval = 5\<rparr>,
      cf_Backup = \<lparr>bk_Enabled = True, bk_Dir = [], bk_HourUTC = 3, bk_RunOnStart = True,
        bk_RetentionDays = 30, bk_StartupRetentionCount = 3, bk_CompactTxMaxBytes = 1048576\<rparr>,
      cf_Abbreviations = [], cf_Rules = [], cf_Clients = []\<rparr>"

text \<open>\<open>filepath.Join\<close> is the environment's; an empty data directory is an error.\<close>

definition applyDerivedDefaults :: "(string \<Rightarrow> string \<Rightarrow> string) \<Rightarrow> Config \<Rightarrow> string + Config" where
  "applyDerivedDefaults join c =
     (if cf_DataDir c = [] then Inl ''data_dir must not be empty''
      else
        (let c1 = (if ac_CacheDir (cf_ACME c) = []
                   then c\<lparr>cf_ACME := (cf_ACME c)\<lparr>ac_CacheDir := join (cf_DataDir c) ''acme''\<rparr>\<rparr> else c)
         in Inr (if bk_Dir (cf_Backup c1) = []
                 then c1\<lparr>cf_Backup := (cf_Backup c1)\<lparr>bk_Dir := join (cf_DataDir c) ''backup''\<rparr>\<rparr> else c1)))"

definition HeaderValue :: "HSTSConfig \<Rightarrow> string" where
  "HeaderValue h =
     ''max-age='' @ itoa (hs_MaxAge h) @ (if hs_IncludeSubDomains h then ''; includeSubDomains'' else []) @
     (if hs_Preload h then ''; preload'' else [])"

subsection \<open>Validation\<close>

type_synonym problem = "string \<times> string list"

definition addf :: "bool \<Rightarrow> string \<Rightarrow> string list \<Rightarrow> problem list" where
  "addf cond fmt args = (if cond then [(fmt, args)] else [])"

definition isASCII :: "string \<Rightarrow> bool" where
  "isASCII s \<longleftrightarrow> list_all (\<lambda>c. of_char c < (128 :: nat)) s"

definition validateLogLevel :: "Config \<Rightarrow> problem list" where
  "validateLogLevel c =
     addf (cf_LogLevel c \<notin> set [''debug'', ''info'', ''warn'', ''error''])
       ''log_level %q must be one of debug, info, warn, error'' [cf_LogLevel c]"

definition validateHSTS :: "Config \<Rightarrow> problem list" where
  "validateHSTS c =
     (let h = sc_HSTS (cf_Server c)
      in if \<not> hs_Enabled h then []
         else
           addf (sc_HTTPSPort (cf_Server c) = 0) ''server.hsts.enabled requires server.https_port > 0'' [] @
           addf (hs_MaxAge h \<le> 0) ''server.hsts.max_age must be > 0 when enabled'' [] @
           addf (hs_Preload h \<and> \<not> hs_IncludeSubDomains h)
             ''server.hsts.preload requires include_subdomains = true'' [] @
           addf (hs_Preload h \<and> hs_MaxAge h < 31536000)
             ''server.hsts.preload requires max_age >= 31536000'' [])"

definition validateTrustedProxies :: "cfg_env \<Rightarrow> Config \<Rightarrow> problem list \<times> problem list" where
  "validateTrustedProxies ce c =
     (case ce_proxies ce (sc_TrustedProxies (cf_Server c)) of
        Inl e \<Rightarrow> ([(''server.trusted_proxies: %v'', [e])], [])
      | Inr bits \<Rightarrow>
          ([], concat (map (\<lambda>(b, p). addf (b = 0) ''server.trusted_proxies includes %s, which trusts every peer'' [p])
                 bits)))"

definition validateExtraHosts :: "string list \<Rightarrow> problem list" where
  "validateExtraHosts hosts =
     concat (map (\<lambda>h.
       if h = [] then [(''server.extra_hosts contains an empty host'', [])]
       else addf (\<exists>c\<in>set h. c = CHR ''/'' \<or> c = CHR '':'') ''server.extra_hosts entry %q must be a bare hostname'' [h] @
            addf (\<not> isASCII h) ''server.extra_hosts entry %q must be ASCII/punycode'' [h]) hosts)"

definition validatePublicURL :: "Config \<Rightarrow> public_url \<Rightarrow> problem list" where
  "validatePublicURL c u =
     (let s = cf_Server c; scheme = ToLower (pu_Scheme u)
      in addf (scheme \<noteq> ''http'' \<and> scheme \<noteq> ''https'') ''server.public_url scheme %q must be http or https'' [pu_Scheme u] @
         addf (pu_User u) ''server.public_url must not contain userinfo'' [] @
         addf (pu_RawQuery u \<noteq> [] \<or> pu_Fragment u \<noteq> []) ''server.public_url must not contain a query or fragment'' [] @
         addf (pu_Path u \<noteq> [] \<and> pu_Path u \<noteq> ''/'') ''server.public_url must not contain a path, got %q'' [pu_Path u] @
         addf (pu_Hostname u = []) ''server.public_url must contain a host'' [] @
         addf (\<not> isASCII (pu_Hostname u)) ''server.public_url host %q must be ASCII/punycode'' [pu_Hostname u] @
         addf (scheme = ''http'' \<and> ac_Enabled (cf_ACME c))
           ''server.public_url uses http but acme.enabled is true; use https or disable ACME'' [] @
         addf (scheme = ''http'' \<and> sc_HTTPSPort s \<noteq> 0)
           ''server.public_url uses http but https_port is %d; set https_port = 0'' [itoa (sc_HTTPSPort s)] @
         addf (scheme = ''https'' \<and> ac_Enabled (cf_ACME c) \<and> sc_HTTPSPort s \<noteq> 443)
           ''acme.enabled requires server.https_port == 443, got %d'' [itoa (sc_HTTPSPort s)] @
         addf (scheme = ''https'' \<and> sc_HTTPSPort s = 0)
           ''server.public_url uses https but server.https_port is 0'' [] @
         validateExtraHosts (sc_ExtraHosts s))"

definition validateServer :: "cfg_env \<Rightarrow> Config \<Rightarrow> problem list \<times> problem list" where
  "validateServer ce c =
     (let s = cf_Server c; tp = validateTrustedProxies ce c
      in (addf (sc_HTTPPort s < 0 \<or> sc_HTTPPort s > 65535) ''server.http_port %d out of range [0,65535]'' [itoa (sc_HTTPPort s)] @
          addf (sc_HTTPSPort s < 0 \<or> sc_HTTPSPort s > 65535) ''server.https_port %d out of range [0,65535]'' [itoa (sc_HTTPSPort s)] @
          addf (sc_HTTPPort s = 0 \<and> sc_HTTPSPort s = 0)
            ''at least one of server.http_port and server.https_port must be > 0'' [] @
          addf (sc_ListenAddresses s = []) ''server.listen_addresses must not be empty'' [] @
          concat (map (\<lambda>a. addf (TrimSpace a = []) ''server.listen_addresses contains an empty address'' [])
            (sc_ListenAddresses s)) @
          addf (sc_ShutdownTimeout s < 0 \<or> sc_ReadTimeout s < 0 \<or> sc_WriteTimeout s < 0 \<or> sc_IdleTimeout s < 0)
            ''server timeouts must be non-negative'' [] @
          addf (sc_ReadTimeout s \<le> 0 \<or> sc_WriteTimeout s \<le> 0)
            ''server.read_timeout and server.write_timeout must be > 0'' [] @
          addf (sc_MaxHeaderBytes s \<le> 0) ''server.max_header_bytes %d must be positive'' [itoa (sc_MaxHeaderBytes s)] @
          fst tp @ validateHSTS c @
          (case ce_url ce (sc_PublicURL s) of
             Inl e \<Rightarrow> [(''server.public_url %q does not parse: %v'', [sc_PublicURL s, e])]
           | Inr u \<Rightarrow> validatePublicURL c u),
          snd tp))"

definition validateACME :: "cfg_env \<Rightarrow> Config \<Rightarrow> problem list" where
  "validateACME ce c =
     (let a = cf_ACME c; s = cf_Server c
      in (if ac_Enabled a then
            addf (\<not> ac_AcceptTOS a) ''acme.accept_tos must be true when acme.enabled is true'' [] @
            addf (TrimSpace (ac_DirectoryURL a) = []) ''acme.directory_url must not be empty when acme.enabled is true'' [] @
            addf (sc_CertFile s \<noteq> [] \<or> sc_KeyFile s \<noteq> [])
              ''server.cert_file/key_file must be empty when acme.enabled is true'' [] @
            addf (ac_HTTP01Fallback a \<and> sc_HTTPPort s \<noteq> 80)
              ''acme.http01_fallback requires server.http_port == 80, got %d'' [itoa (sc_HTTPPort s)]
          else if sc_HTTPSPort s > 0 then
            (if sc_CertFile s = [] \<or> sc_KeyFile s = [] then
               [(''acme.enabled is false and https_port > 0: server.cert_file and server.key_file are required'', [])]
             else
               addf (\<not> ce_stat ce (sc_CertFile s)) ''server.cert_file %q not readable: %v'' [sc_CertFile s] @
               addf (\<not> ce_stat ce (sc_KeyFile s)) ''server.key_file %q not readable: %v'' [sc_KeyFile s])
          else []) @
         addf (ac_RenewBeforeDays a \<le> 0 \<or> ac_RenewBeforeDays a \<ge> 90)
           ''acme.renew_before_days %d must be > 0 and < 90'' [itoa (ac_RenewBeforeDays a)] @
         addf (ac_IssueTimeout a \<le> 0) ''acme.issue_timeout must be > 0'' [] @
         addf (ac_AccountFile a \<noteq> [] \<and> \<not> ce_signer ce (ac_AccountFile a)) ''acme.account_file %q: %v'' [ac_AccountFile a])"

definition validateAccess :: "Config \<Rightarrow> problem list" where
  "validateAccess c =
     (let rl = cf_RateLimit c
      in addf (rc_RedirectRate rl \<le> 0) ''rate_limit.redirect_rate must be > 0'' [] @
         addf (rc_RedirectBurst rl < 0) ''rate_limit.redirect_burst must be >= 0'' [] @
         addf (rc_APIRate rl \<le> 0) ''rate_limit.api_rate must be > 0'' [] @
         addf (rc_APIBurst rl < 0) ''rate_limit.api_burst must be >= 0'' [] @
         addf (rc_APIIPRate rl \<le> 0) ''rate_limit.api_ip_rate must be > 0'' [] @
         addf (rc_APIIPBurst rl < 0) ''rate_limit.api_ip_burst must be >= 0'' [])"

definition validateAccessLog :: "Config \<Rightarrow> problem list" where
  "validateAccessLog c =
     addf (al_RetentionDays (cf_AccessLog c) < 0) ''access_log.retention_days must be >= 0'' [] @
     addf (al_FlushInterval (cf_AccessLog c) \<le> 0) ''access_log.flush_interval must be > 0'' []"

definition validateErrorLog :: "Config \<Rightarrow> problem list" where
  "validateErrorLog c =
     addf (el_RetentionDays (cf_ErrorLog c) < 0) ''error_log.retention_days must be >= 0'' [] @
     addf (el_FlushInterval (cf_ErrorLog c) \<le> 0) ''error_log.flush_interval must be > 0'' []"

definition validateBackup :: "Config \<Rightarrow> problem list" where
  "validateBackup c =
     (let b = cf_Backup c
      in addf (bk_HourUTC b < 0 \<or> bk_HourUTC b > 23) ''backup.hour_utc %d must be in [0,23]'' [itoa (bk_HourUTC b)] @
         addf (bk_RetentionDays b < 0) ''backup.retention_days must be >= 0'' [] @
         addf (bk_StartupRetentionCount b < 0) ''backup.startup_retention_count must be >= 0'' [] @
         addf (bk_CompactTxMaxBytes b \<le> 0) ''backup.compact_tx_max_bytes must be > 0'' [])"

subsection \<open>Namespaces and templates\<close>

text \<open>\<open>namespaceRe\<close>: one or more segments, each a slash, a letter, digit, underscore or dash, and then
  those characters or a dot or tilde; and a final slash.\<close>

definition alnum :: "char \<Rightarrow> bool" where
  "alnum c \<longleftrightarrow> (CHR ''A'' \<le> c \<and> c \<le> CHR ''Z'') \<or> (CHR ''a'' \<le> c \<and> c \<le> CHR ''z'') \<or>
     (CHR ''0'' \<le> c \<and> c \<le> CHR ''9'')"

definition ns_segment :: "string \<Rightarrow> bool" where
  "ns_segment seg \<longleftrightarrow>
     (case seg of
        [] \<Rightarrow> False
      | c # cs \<Rightarrow> (alnum c \<or> c \<in> set ''_-'') \<and> list_all (\<lambda>d. alnum d \<or> d \<in> set ''._~-'') cs)"

definition namespaceRe :: "string \<Rightarrow> bool" where
  "namespaceRe ns \<longleftrightarrow>
     (let segs = SplitChar (CHR ''/'') ns
      in length segs \<ge> 3 \<and> hd segs = [] \<and> last segs = [] \<and> list_all ns_segment (butlast (tl segs)))"

definition validNamespace :: "string \<Rightarrow> bool" where
  "validNamespace ns \<longleftrightarrow>
     namespaceRe ns \<and> \<not> list_ex (HasPrefix ns) reservedPrefixes \<and>
     \<not> list_ex (\<lambda>k. ns = k @ ''/'' \<or> ns = k) reservedExactKeys"

text \<open>\<open>ruleKeyInvalidRe\<close>: two braces, an optional minus, blanks, one of three words that ends there. The
  minus is no blank and no word starts with one, so consuming it when it is there loses no match.\<close>

definition blank_char :: "char \<Rightarrow> bool" where
  "blank_char c \<longleftrightarrow> c \<in> set [CHR 0x09, CHR 0x0A, CHR 0x0C, CHR 0x0D, CHR 0x20]"

definition word_char :: "char \<Rightarrow> bool" where
  "word_char c \<longleftrightarrow> alnum c \<or> c = CHR ''_''"

definition action_here :: "string \<Rightarrow> bool" where
  "action_here s \<longleftrightarrow> HasPrefix s ''{{'' \<and>
     (let t = dropWhile blank_char (TrimPrefix (drop 2 s) ''-'')
      in list_ex (\<lambda>w. HasPrefix t w \<and> (case drop (length w) t of [] \<Rightarrow> True | c # _ \<Rightarrow> \<not> word_char c))
           [''define'', ''template'', ''block''])"

definition ruleKeyInvalid :: "string \<Rightarrow> bool" where
  "ruleKeyInvalid s \<longleftrightarrow> list_ex (\<lambda>i. action_here (drop i s)) [0..<length s]"

text \<open>The functions of key templates.\<close>

definition abbrev_lookup :: "(string \<times> string) list \<Rightarrow> string \<Rightarrow> string" where
  "abbrev_lookup abbrev s = (case map_of abbrev s of Some v \<Rightarrow> v | None \<Rightarrow> ToLower s)"

type_synonym func_map = "string \<Rightarrow> (string \<Rightarrow> string) option"

definition keyTemplateFuncs :: "(string \<times> string) list \<Rightarrow> func_map" where
  "keyTemplateFuncs abbrev = [''abbrev'' \<mapsto> abbrev_lookup abbrev, ''lower'' \<mapsto> ToLower]"

text \<open>\<open>parseKeyTemplate\<close>: the two checks before the template library, which is \<open>parse\<close>.\<close>

definition parseKeyTemplate :: "(string \<Rightarrow> func_map \<Rightarrow> string \<Rightarrow> string + 'tmpl) \<Rightarrow> string \<Rightarrow> string \<Rightarrow>
    (string \<times> string) list \<Rightarrow> string + 'tmpl" where
  "parseKeyTemplate parse name t abbrev =
     (if \<not> HasPrefix t ''/'' then Inl ''must start with /''
      else if ruleKeyInvalid t then Inl ''template/define/block actions are not allowed''
      else parse name (keyTemplateFuncs abbrev) t)"

subsection \<open>Rules and clients\<close>

definition rule_ctx :: "nat \<Rightarrow> RuleConfig \<Rightarrow> string" where
  "rule_ctx i r = (if ru_Name r \<noteq> [] then ''rule '' @ ru_Name r else ''rules['' @ itoa (int i) @ '']'')"

text \<open>The checks of one rule after its name; a pattern that is missing or does not compile ends them.\<close>

definition rule_problems :: "cfg_env \<Rightarrow> (string \<times> string) list \<Rightarrow> string \<Rightarrow> RuleConfig \<Rightarrow> problem list" where
  "rule_problems ce abbrev ctx r =
     (if ru_Match r = [] then [(''%s: match must not be empty'', [ctx])]
      else
        (case ce_regexp ce (ru_Match r) of
           Inl e \<Rightarrow> [(''%s: match does not compile: %v'', [ctx, e])]
         | Inr (matches_empty, groups) \<Rightarrow>
             addf matches_empty ''%s: match must not match the empty string'' [ctx] @
             (case ce_template ce abbrev (ru_Name r) (ru_Key r) of
                Some e \<Rightarrow> [(''%s: key template: %v'', [ctx, e])] | None \<Rightarrow> []) @
             (if ru_Hash r \<noteq> [] then
                addf (ru_Hash r \<notin> set groups) ''%s: hash %q does not name a capture group'' [ctx, ru_Hash r] @
                addf (ru_HashMinlen r < hashMinLen) ''%s: hash_minlen %d must be >= %d'' [ctx, itoa (ru_HashMinlen r)]
              else addf (ru_HashMinlen r \<noteq> 0) ''%s: hash_minlen set without hash'' [ctx])))"

fun rules_loop :: "cfg_env \<Rightarrow> (string \<times> string) list \<Rightarrow> nat \<Rightarrow> string list \<Rightarrow> RuleConfig list \<Rightarrow> problem list" where
  "rules_loop ce abbrev i seen [] = []"
| "rules_loop ce abbrev i seen (r # rs) =
     (if ru_Name r = [] then [(''%s: name must not be empty'', [rule_ctx i r])]
      else addf (ru_Name r \<in> set seen) ''duplicate rule name %q'' [ru_Name r]) @
     rule_problems ce abbrev (rule_ctx i r) r @ rules_loop ce abbrev (Suc i) (ru_Name r # seen) rs"

definition validateRules :: "cfg_env \<Rightarrow> Config \<Rightarrow> problem list" where
  "validateRules ce c = rules_loop ce (cf_Abbreviations c) 0 [] (cf_Rules c)"

definition client_ctx :: "nat \<Rightarrow> ClientConfig \<Rightarrow> string" where
  "client_ctx i cl = (if cc_Name cl \<noteq> [] then ''client '' @ cc_Name cl else ''clients['' @ itoa (int i) @ '']'')"

definition client_problems :: "string \<Rightarrow> ClientConfig \<Rightarrow> problem list" where
  "client_problems ctx cl =
     concat (map (\<lambda>tok. addf (int (length tok) < tokenMinLen) ''%s: plaintext token shorter than %d characters'' [ctx])
       (cc_Tokens cl)) @
     addf (cc_Enabled cl \<and> cc_Tokens cl = []) ''%s: enabled client must have at least one token'' [ctx] @
     addf (cc_Enabled cl \<and> \<not> cc_Admin cl \<and> cc_Namespaces cl = [])
       ''%s: non-admin client must have at least one namespace'' [ctx] @
     concat (map (\<lambda>ns. addf (\<not> validNamespace ns) ''%s: invalid namespace %q'' [ctx, ns]) (cc_Namespaces cl))"

fun clients_loop :: "nat \<Rightarrow> string list \<Rightarrow> ClientConfig list \<Rightarrow> problem list" where
  "clients_loop i seen [] = []"
| "clients_loop i seen (cl # cls) =
     (if cc_Name cl = [] then [(''%s: name must not be empty'', [client_ctx i cl])]
      else addf (cc_Name cl \<in> set seen) ''duplicate client name %q'' [cc_Name cl]) @
     client_problems (client_ctx i cl) cl @ clients_loop (Suc i) (cc_Name cl # seen) cls"

text \<open>Tokens that two clients share, over all pairs in order; a client's tokens are a set.\<close>

fun shared_tokens :: "ClientConfig list \<Rightarrow> problem list" where
  "shared_tokens [] = []"
| "shared_tokens (a # rest) =
     concat (map (\<lambda>b. concat (map (\<lambda>d.
       addf (d \<in> set (cc_Tokens b)) ''token shared by clients %q and %q'' [cc_Name a, cc_Name b])
       (remdups (cc_Tokens a)))) rest) @ shared_tokens rest"

fun overlap_warnings :: "ClientConfig list \<Rightarrow> problem list" where
  "overlap_warnings [] = []"
| "overlap_warnings (x # rest) =
     concat (map (\<lambda>y. concat (map (\<lambda>a. concat (map (\<lambda>b.
       addf (HasPrefix a b \<or> HasPrefix b a) ''namespaces %q (client %q) and %q (client %q) overlap''
         [a, cc_Name x, b, cc_Name y]) (cc_Namespaces y))) (cc_Namespaces x))) rest) @ overlap_warnings rest"

definition validateClients :: "Config \<Rightarrow> problem list \<times> problem list" where
  "validateClients c =
     (clients_loop 0 [] (cf_Clients c) @ shared_tokens (cf_Clients c), overlap_warnings (cf_Clients c))"

text \<open>The problems (an error when there are any) and the warnings.\<close>

definition Validate :: "cfg_env \<Rightarrow> Config \<Rightarrow> problem list \<times> problem list" where
  "Validate ce c =
     (let sv = validateServer ce c; cl = validateClients c
      in (validateLogLevel c @ fst sv @ validateACME ce c @ validateAccess c @ validateAccessLog c @
          validateErrorLog c @ validateBackup c @ validateRules ce c @ fst cl,
          snd sv @ snd cl))"

subsection \<open>Accessors\<close>

definition AllowedHosts :: "string \<Rightarrow> Config \<Rightarrow> string list" where
  "AllowedHosts publicHost c =
     (if publicHost \<noteq> [] then [ToLower publicHost] else []) @ map ToLower (sc_ExtraHosts (cf_Server c))"

text \<open>\<open>parseTrustedProxies\<close> over \<open>net/netip\<close>: a CIDR, or an address widened to its full length.\<close>

record 'p prefix_lib =
  pl_ParsePrefix :: "string \<Rightarrow> 'p option"
  pl_ParseAddr :: "string \<Rightarrow> (string \<times> bool) option"
  pl_PrefixFrom :: "string \<Rightarrow> int \<Rightarrow> 'p"

fun parseTrustedProxies :: "'p prefix_lib \<Rightarrow> string list \<Rightarrow> 'p list \<Rightarrow> string + 'p list" where
  "parseTrustedProxies pl [] out = Inr out"
| "parseTrustedProxies pl (item0 # items) out =
     (let item = TrimSpace item0
      in if item = [] then parseTrustedProxies pl items out
         else (case pl_ParsePrefix pl item of
                 Some p \<Rightarrow> parseTrustedProxies pl items (out @ [p])
               | None \<Rightarrow>
                   (case pl_ParseAddr pl item of
                      None \<Rightarrow> Inl item
                    | Some (a, is4) \<Rightarrow>
                        parseTrustedProxies pl items (out @ [pl_PrefixFrom pl a (if is4 then 32 else 128)]))))"

text \<open>\<open>EnsureDirs\<close>: the directories in order; the first that cannot be made writable is the error.\<close>

definition ensure_list :: "string \<Rightarrow> Config \<Rightarrow> (string \<times> string) list" where
  "ensure_list logsDir c =
     [(''data_dir'', cf_DataDir c), (''access_log dir'', logsDir)] @
     (if bk_Enabled (cf_Backup c) then [(''backup.dir'', bk_Dir (cf_Backup c))] else []) @
     (if ac_Enabled (cf_ACME c) then [(''acme.cache_dir'', ac_CacheDir (cf_ACME c))] else [])"

definition EnsureDirs :: "(string \<Rightarrow> string option) \<Rightarrow> string \<Rightarrow> Config \<Rightarrow> (string \<times> string) option" where
  "EnsureDirs ensureDir logsDir c = find (\<lambda>d. ensureDir (snd d) \<noteq> None) (ensure_list logsDir c)"

text \<open>\<open>ensureDir\<close>: make the directory, create a probe file in it, close it and remove it; a probe that
  does not close is removed too. The operations answer with an error or \<open>None\<close>.\<close>

record dir_ops =
  do_MkdirAll :: "string \<Rightarrow> string option"
  do_CreateTemp :: "string \<Rightarrow> string option"
  do_Close :: "string \<Rightarrow> string option"
  do_Remove :: "string \<Rightarrow> string option"

definition ensureDir :: "dir_ops \<Rightarrow> string \<Rightarrow> string option" where
  "ensureDir d path =
     (case do_MkdirAll d path of
        Some e \<Rightarrow> Some e
      | None \<Rightarrow>
          (case do_CreateTemp d path of
             Some e \<Rightarrow> Some e
           | None \<Rightarrow> (case do_Close d path of Some e \<Rightarrow> Some e | None \<Rightarrow> do_Remove d path)))"

text \<open>\<open>loadAccountSigner\<close>: the file, its first PEM block, and the three key formats in order.\<close>

datatype 'k pkcs8_key = ECDSAKey 'k | RSAKey 'k | OtherKey string

datatype signer_error = KeyRead string | NoPEM | UnsupportedKey string | UnsupportedType string

record ('b, 'k) key_lib =
  kl_ReadFile :: "string \<Rightarrow> string + string"
  kl_DecodePEM :: "string \<Rightarrow> 'b option"
  kl_EC :: "'b \<Rightarrow> 'k option"
  kl_PKCS1 :: "'b \<Rightarrow> 'k option"
  kl_PKCS8 :: "'b \<Rightarrow> string + 'k pkcs8_key"

definition loadAccountSigner :: "('b, 'k) key_lib \<Rightarrow> string \<Rightarrow> signer_error + 'k" where
  "loadAccountSigner kl path =
     (case kl_ReadFile kl path of
        Inl e \<Rightarrow> Inl (KeyRead e)
      | Inr d \<Rightarrow>
          (case kl_DecodePEM kl d of
             None \<Rightarrow> Inl NoPEM
           | Some b \<Rightarrow>
               (case kl_EC kl b of
                  Some k \<Rightarrow> Inr k
                | None \<Rightarrow>
                    (case kl_PKCS1 kl b of
                       Some k \<Rightarrow> Inr k
                     | None \<Rightarrow>
                         (case kl_PKCS8 kl b of
                            Inl e \<Rightarrow> Inl (UnsupportedKey e)
                          | Inr (ECDSAKey k) \<Rightarrow> Inr k
                          | Inr (RSAKey k) \<Rightarrow> Inr k
                          | Inr (OtherKey t) \<Rightarrow> Inl (UnsupportedType t))))))"

subsection \<open>Loading\<close>

datatype load_error =
    ReadConfig string
  | ParseConfig string
  | UnknownKeys "string list"
  | EmptyDataDir string
  | ConfigError "problem list"

text \<open>\<open>LoadConfig\<close>: the decoder overlays the file on the defaults and reports the keys it did not use.
  The result carries the warnings, which the code stores in the configuration.\<close>

definition LoadConfig :: "(string \<Rightarrow> string + string) \<Rightarrow> (string \<Rightarrow> Config \<Rightarrow> string + Config \<times> string list) \<Rightarrow>
    (string \<Rightarrow> string \<Rightarrow> string) \<Rightarrow> cfg_env \<Rightarrow> string \<Rightarrow> load_error + Config \<times> problem list" where
  "LoadConfig readFile decode join ce path =
     (case readFile path of
        Inl e \<Rightarrow> Inl (ReadConfig e)
      | Inr d \<Rightarrow>
          (case decode d DefaultConfig of
             Inl e \<Rightarrow> Inl (ParseConfig e)
           | Inr (cfg, undecoded) \<Rightarrow>
               if undecoded \<noteq> [] then Inl (UnknownKeys undecoded)
               else
                 (case applyDerivedDefaults join cfg of
                    Inl e \<Rightarrow> Inl (EmptyDataDir e)
                  | Inr c \<Rightarrow>
                      (case Validate ce c of
                         (problems, warnings) \<Rightarrow>
                           if problems \<noteq> [] then Inl (ConfigError problems) else Inr (c, warnings)))))"

end
