(* ===== verification/GoTime.thy ===== *)
theory GoTime
  imports Prelude
begin

text \<open>
  What the programs use of Go's \<open>time\<close> package: instants as nanoseconds since 1970 in UTC, the calendar
  date of an instant, the layouts \<open>2006-01-02\<close>, \<open>2006-01-02T150405\<close> and \<open>2006-01-02 15:04:05\<close>, and
  parsing of the first two. The calendar counts years from March, as the standard library does, so
  that the leap day comes last. Years are those of four digits.
\<close>

type_synonym instant = int

definition second :: int where "second = 10 ^ 9"
definition day_ns :: int where "day_ns = 86400 * second"

subsection \<open>The calendar\<close>

text \<open>Days from 1 March of year 0 to 1 March of year \<open>y\<close>, and from then to the first of the month \<open>mp\<close>
  months later.\<close>

definition dby :: "int \<Rightarrow> int" where
  "dby y = 365 * y + y div 4 - y div 100 + y div 400"

definition dbm :: "int \<Rightarrow> int" where
  "dbm mp = (153 * mp + 2) div 5"

definition unix_epoch :: int where
  "unix_epoch = 719468"

definition year_of :: "int \<Rightarrow> int" where
  "year_of n = (let y = n * 400 div 146097 in if dby (y + 1) \<le> n then y + 1 else y)"

definition civil_of_days :: "int \<Rightarrow> int \<times> int \<times> int" where
  "civil_of_days days =
     (let n = days + unix_epoch; y = year_of n; doy = n - dby y; mp = (5 * doy + 2) div 153
      in (if mp < 10 then y else y + 1, if mp < 10 then mp + 3 else mp - 9, doy - dbm mp + 1))"

definition is_leap :: "int \<Rightarrow> bool" where
  "is_leap y \<longleftrightarrow> y mod 4 = 0 \<and> (y mod 100 \<noteq> 0 \<or> y mod 400 = 0)"

definition days_in :: "int \<Rightarrow> int \<Rightarrow> int" where
  "days_in y m = (if m = 2 then (if is_leap y then 29 else 28) else if m \<in> {4, 6, 9, 11} then 30 else 31)"

definition days_of_civil :: "int \<times> int \<times> int \<Rightarrow> int" where
  "days_of_civil ymd =
     (case ymd of (y, m, d) \<Rightarrow>
        (if m > 2 then dby y + dbm (m - 3) else dby (y - 1) + dbm (m + 9)) + d - 1 - unix_epoch)"

definition valid_date :: "int \<times> int \<times> int \<Rightarrow> bool" where
  "valid_date ymd = (case ymd of (y, m, d) \<Rightarrow> 1 \<le> m \<and> m \<le> 12 \<and> 1 \<le> d \<and> d \<le> days_in y m)"

lemma div_bounds:
  fixes k x :: int
  assumes "0 < k"
  shows "k * (x div k) \<le> x" and "x < k * (x div k) + k"
  using pos_mod_bound [OF assms, of x] pos_mod_sign [OF assms, of x] mult_div_mod_eq [of k x] by linarith+

lemma dby_bounds: "400 * dby y \<le> 146097 * y + 396" "146097 * y - 699 \<le> 400 * dby y"
proof -
  define a b c where "a = y div 4" and "b = y div 100" and "c = y div 400"
  have "4 * a \<le> y" "y < 4 * a + 4" "100 * b \<le> y" "y < 100 * b + 100" "400 * c \<le> y" "y < 400 * c + 400"
    unfolding a_def b_def c_def by (rule div_bounds, simp)+
  moreover have "dby y = 365 * y + a - b + c" by (simp add: dby_def a_def b_def c_def)
  ultimately show "400 * dby y \<le> 146097 * y + 396" "146097 * y - 699 \<le> 400 * dby y" by linarith+
qed

lemma year_of_bounds: "dby (year_of n) \<le> n \<and> n < dby (year_of n + 1)"
proof -
  define y where "y = n * 400 div 146097"
  have q: "146097 * y \<le> n * 400" "n * 400 < 146097 * y + 146097" unfolding y_def by (rule div_bounds, simp)+
  have "dby y \<le> n" using q dby_bounds [of y] by linarith
  moreover have "n < z" if "z = dby (y + 1 + 1)" for z
    using q dby_bounds [of "y + 1 + 1", folded that] by (simp add: algebra_simps)
  ultimately show ?thesis by (auto simp: year_of_def Let_def simp flip: y_def)
qed

lemma Suc_div: "0 < k \<Longrightarrow> (y + 1) div k = y div k + (if (y + 1) mod k = 0 then 1 else 0)" for k y :: int
proof -
  assume k: "0 < k"
  let ?q = "y div k" and ?r = "y mod k"
  have y: "y + 1 = k * ?q + (?r + 1)" by (simp add: mult_div_mod_eq)
  show ?thesis
  proof (cases "?r + 1 = k")
    case True
    then have e: "y + 1 = k * (?q + 1)" using y by (simp add: algebra_simps)
    show ?thesis unfolding e using k by simp
  next
    case False
    then have r: "0 < ?r + 1" "?r + 1 < k" using pos_mod_bound [OF k, of y] pos_mod_sign [OF k, of y] by linarith+
    have "(y + 1) div k = ?q" by (rule int_div_pos_eq [OF y]) (use r in linarith)+
    moreover have "(y + 1) mod k = ?r + 1" by (rule int_mod_pos_eq [OF y]) (use r in linarith)+
    ultimately show ?thesis using r by simp
  qed
qed

lemma mod_dvd_zero: "b dvd a \<Longrightarrow> x mod a = 0 \<Longrightarrow> x mod b = 0" for a b x :: int
  by (metis dvd_imp_mod_0 dvd_trans mod_0_imp_dvd)

lemma dby_Suc: "dby (y + 1) = dby y + 365 + (if is_leap (y + 1) then 1 else 0)"
proof -
  define p q r where "p = ((y + 1) mod 4 = 0)" and "q = ((y + 1) mod 100 = 0)" and "r = ((y + 1) mod 400 = 0)"
  have "r \<Longrightarrow> q" "q \<Longrightarrow> p" unfolding p_def q_def r_def by (rule mod_dvd_zero [rotated], assumption, simp)+
  moreover define a b c where "a = y div 4" and "b = y div 100" and "c = y div 400"
  moreover have "(y + 1) div 4 = a + (if p then 1 else 0)" "(y + 1) div 100 = b + (if q then 1 else 0)"
    "(y + 1) div 400 = c + (if r then 1 else 0)"
    unfolding p_def q_def r_def a_def b_def c_def by (rule Suc_div, simp)+
  then have "dby (y + 1) = 365 * (y + 1) + (a + (if p then 1 else 0)) - (b + (if q then 1 else 0)) +
      (c + (if r then 1 else 0))" by (simp only: dby_def)
  moreover have "dby y = 365 * y + a - b + c" by (simp only: dby_def a_def b_def c_def)
  moreover have "is_leap (y + 1) \<longleftrightarrow> p \<and> (\<not> q \<or> r)" by (simp add: is_leap_def p_def q_def r_def)
  ultimately show ?thesis by (cases p; cases q; cases r) simp_all
qed

lemma month_split:
  assumes "0 \<le> doy" and "doy < 366"
  shows "0 \<le> (5 * doy + 2) div 153" and "(5 * doy + 2) div 153 \<le> 11"
    and "dbm ((5 * doy + 2) div 153) \<le> doy" and "doy < dbm ((5 * doy + 2) div 153 + 1)"
proof -
  define m where "m = (5 * doy + 2) div 153"
  have m: "153 * m \<le> 5 * doy + 2" "5 * doy + 2 < 153 * m + 153"
    unfolding m_def by (rule div_bounds, simp)+
  have d: "5 * dbm x \<le> 153 * x + 2" "153 * x + 2 < 5 * dbm x + 5" for x
    unfolding dbm_def by (rule div_bounds, simp)+
  have "0 \<le> m" "m \<le> 11" "dbm m \<le> doy" using m d [of m] assms by linarith+
  moreover have "doy < z" if "z = dbm (m + 1)" for z
    using m d [of "m + 1", folded that] by (simp add: algebra_simps)
  ultimately show "0 \<le> (5 * doy + 2) div 153" "(5 * doy + 2) div 153 \<le> 11"
    "dbm ((5 * doy + 2) div 153) \<le> doy" "doy < dbm ((5 * doy + 2) div 153 + 1)"
    by (simp_all flip: m_def)
qed

lemma dbm_values:
  "dbm 0 = 0" "dbm 1 = 31" "dbm 2 = 61" "dbm 3 = 92" "dbm 4 = 122" "dbm 5 = 153" "dbm 6 = 184" "dbm 7 = 214"
  "dbm 8 = 245" "dbm 9 = 275" "dbm 10 = 306" "dbm 11 = 337" "dbm 12 = 367"
  by (simp_all add: dbm_def)

lemma civil_roundtrip: "days_of_civil (civil_of_days days) = days \<and> valid_date (civil_of_days days)"
proof -
  define n where "n = days + unix_epoch"
  define y where "y = year_of n"
  define doy where "doy = n - dby y"
  define mp where "mp = (5 * doy + 2) div 153"
  have b: "0 \<le> doy" "doy < 365 + (if is_leap (y + 1) then 1 else 0)"
    using year_of_bounds [of n] dby_Suc [of y] by (auto simp: y_def doy_def)
  then have b2: "doy < 366" by (simp split: if_splits)
  note m = month_split [OF b(1) b2, folded mp_def]
  have c: "civil_of_days days = (if mp < 10 then y else y + 1, if mp < 10 then mp + 3 else mp - 9, doy - dbm mp + 1)"
    by (simp add: civil_of_days_def Let_def n_def y_def doy_def mp_def)
  have r: "days_of_civil (civil_of_days days) = days"
    using m(1,2) by (simp add: c days_of_civil_def) (simp add: doy_def n_def)
  have mp: "mp = 0 \<or> mp = 1 \<or> mp = 2 \<or> mp = 3 \<or> mp = 4 \<or> mp = 5 \<or> mp = 6 \<or> mp = 7 \<or> mp = 8 \<or> mp = 9 \<or>
      mp = 10 \<or> mp = 11"
  proof -
    have "mp \<in> set [0..11]" using m(1,2) by simp
    moreover have "[0..11] = [0, 1, 2, 3, 4, 5, 6, 7, 8, 9, 10, 11 :: int]" by (simp add: upto_rec1)
    ultimately show ?thesis by simp
  qed
  have "valid_date (civil_of_days days)"
    unfolding c valid_date_def days_in_def
    using mp m(3,4) b(2) by (elim disjE) (simp_all add: dbm_values split: if_splits)
  with r show ?thesis by blast
qed

subsection \<open>Layouts\<close>

fun pad_digits :: "nat \<Rightarrow> nat \<Rightarrow> string" where
  "pad_digits 0 v = []"
| "pad_digits (Suc n) v = pad_digits n (v div 10) @ [char_of (48 + v mod 10)]"

definition format_civil :: "int \<times> int \<times> int \<Rightarrow> string" where
  "format_civil ymd =
     (case ymd of (y, m, d) \<Rightarrow>
        pad_digits 4 (nat y) @ ''-'' @ pad_digits 2 (nat m) @ ''-'' @ pad_digits 2 (nat d))"

definition format_date :: "instant \<Rightarrow> string" where
  "format_date t = format_civil (civil_of_days (t div day_ns))"

definition clock_of :: "instant \<Rightarrow> int \<times> int \<times> int" where
  "clock_of t = (let s = t div second mod 86400 in (s div 3600, s div 60 mod 60, s mod 60))"

definition format_stamp :: "instant \<Rightarrow> string" where
  "format_stamp t =
     (case clock_of t of (h, mi, s) \<Rightarrow>
        format_date t @ ''T'' @ pad_digits 2 (nat h) @ pad_digits 2 (nat mi) @ pad_digits 2 (nat s))"

definition format_datetime :: "instant \<Rightarrow> string" where
  "format_datetime t =
     (case clock_of t of (h, mi, s) \<Rightarrow>
        format_date t @ '' '' @ pad_digits 2 (nat h) @ '':'' @ pad_digits 2 (nat mi) @ '':'' @ pad_digits 2 (nat s))"

definition parse_date :: "string \<Rightarrow> instant option" where
  "parse_date s =
     (if length s = 10 \<and> s ! 4 = CHR ''-'' \<and> s ! 7 = CHR ''-'' \<and>
         list_all is_digit (take 4 s) \<and> list_all is_digit (take 2 (drop 5 s)) \<and> list_all is_digit (drop 8 s)
      then
        (let ymd = (int (digits_val (take 4 s)), int (digits_val (take 2 (drop 5 s))), int (digits_val (drop 8 s)))
         in if valid_date ymd then Some (days_of_civil ymd * day_ns) else None)
      else None)"

text \<open>After the seconds the parser also takes a fraction, of which it keeps nine digits.\<close>

definition fraction_ns :: "string \<Rightarrow> int option" where
  "fraction_ns s =
     (case s of
        [] \<Rightarrow> Some 0
      | c # ds \<Rightarrow>
          if c \<in> set ''.,'' \<and> ds \<noteq> [] \<and> list_all is_digit ds
          then Some (int (digits_val (take 9 (ds @ replicate 9 (CHR ''0''))))) else None)"

definition parse_stamp :: "string \<Rightarrow> instant option" where
  "parse_stamp s =
     (case parse_date (take 10 s) of
        None \<Rightarrow> None
      | Some d \<Rightarrow>
          if 17 \<le> length s \<and> s ! 10 = CHR ''T'' \<and> list_all is_digit (take 6 (drop 11 s)) then
            (let h = int (digits_val (take 2 (drop 11 s))); mi = int (digits_val (take 2 (drop 13 s)));
                 sec = int (digits_val (take 2 (drop 15 s)))
             in if h < 24 \<and> mi < 60 \<and> sec < 60
                then map_option (\<lambda>f. d + (h * 3600 + mi * 60 + sec) * second + f) (fraction_ns (drop 17 s))
                else None)
          else None)"

lemma length_pad_digits [simp]: "length (pad_digits n v) = n"
  by (induction n v rule: pad_digits.induct) simp_all

lemma pad_digits_digits [simp]: "list_all is_digit (pad_digits n v)"
  by (induction n v rule: pad_digits.induct) simp_all

lemma digits_val_pad: "digits_val (pad_digits n v) = v mod 10 ^ n"
proof (induction n v rule: pad_digits.induct)
  case (2 n v)
  have "of_char (char_of (48 + v mod 10) :: char) - 48 = v mod 10" by simp
  then show ?case using 2 by (simp add: digits_val_snoc mod_mult2_eq)
qed (simp add: digits_val_def)

definition four_digit_year :: "instant \<Rightarrow> bool" where
  "four_digit_year t \<longleftrightarrow> (let y = fst (civil_of_days (t div day_ns)) in 0 \<le> y \<and> y < 10000)"

lemma take_drop_parts:
  "length a = 4 \<Longrightarrow> length b = 2 \<Longrightarrow> take 4 (a @ x # b @ y # c) = a" "length a = 4 \<Longrightarrow> length b = 2 \<Longrightarrow> take 2 (drop 5 (a @ x # b @ y # c)) = b"
  "length a = 4 \<Longrightarrow> length b = 2 \<Longrightarrow> drop 8 (a @ x # b @ y # c) = c" "length a = 4 \<Longrightarrow> length b = 2 \<Longrightarrow> (a @ x # b @ y # c) ! 4 = x"
  "length a = 4 \<Longrightarrow> length b = 2 \<Longrightarrow> (a @ x # b @ y # c) ! 7 = y"
  by (simp_all add: nth_append)

lemma parse_format_date:
  assumes "four_digit_year t"
  shows "parse_date (format_date t) = Some (t div day_ns * day_ns)"
proof -
  obtain y m d where c: "civil_of_days (t div day_ns) = (y, m, d)" by (cases "civil_of_days (t div day_ns)")
  from civil_roundtrip [of "t div day_ns"] c
  have r: "days_of_civil (y, m, d) = t div day_ns" "valid_date (y, m, d)" by simp_all
  have b: "0 \<le> y" "y < 10000" using assms c by (simp_all add: four_digit_year_def)
  have md: "0 \<le> m" "m < 100" "0 \<le> d" "d < 100" using r(2) by (auto simp: valid_date_def days_in_def split: if_splits)
  have v: "int (digits_val (pad_digits 4 (nat y))) = y" "int (digits_val (pad_digits 2 (nat m))) = m"
    "int (digits_val (pad_digits 2 (nat d))) = d"
    using b md by (simp_all add: digits_val_pad)
  show ?thesis
    using r by (simp add: format_date_def c format_civil_def parse_date_def take_drop_parts v)
qed

lemma length_format_date: "length (format_date t) = 10"
  by (simp add: format_date_def format_civil_def split: prod.split)

lemma clock_of_parts:
  assumes "clock_of t = (h, mi, s)"
  shows "0 \<le> h \<and> h < 24 \<and> 0 \<le> mi \<and> mi < 60 \<and> 0 \<le> s \<and> s < 60"
    and "t div day_ns * day_ns + (h * 3600 + mi * 60 + s) * second = t div second * second"
proof -
  define n where "n = t div second mod 86400"
  have n: "0 \<le> n" "n < 86400" by (simp_all add: n_def)
  have hms: "h = n div 3600" "mi = n div 60 mod 60" "s = n mod 60" using assms by (simp_all add: clock_of_def Let_def n_def)
  have "0 \<le> h" "h < 24" "0 \<le> mi" "mi < 60" "0 \<le> s" "s < 60" using n by (simp_all add: hms)
  then show "0 \<le> h \<and> h < 24 \<and> 0 \<le> mi \<and> mi < 60 \<and> 0 \<le> s \<and> s < 60" by simp
  have "n div (60 * 60) = n div 60 div 60" by (rule zdiv_zmult2_eq) simp
  with hms(1,2) have "h * 60 + mi = n div 60" using div_mult_mod_eq [of "n div 60" 60] by simp
  moreover have "n div 60 * 60 + s = n" using hms(3) by (simp add: div_mult_mod_eq)
  ultimately have "(h * 60 + mi) * 60 + s = n" by simp
  then have sum: "h * 3600 + mi * 60 + s = n" by (simp add: algebra_simps)
  have "t div (second * 86400) = t div second div 86400" by (rule zdiv_zmult2_eq) simp
  then have "t div day_ns = t div second div 86400" by (simp add: day_ns_def mult.commute)
  then have "t div day_ns * day_ns + n * second = (t div second div 86400 * 86400 + n) * second"
    by (simp add: day_ns_def algebra_simps)
  then show "t div day_ns * day_ns + (h * 3600 + mi * 60 + s) * second = t div second * second"
    by (simp add: sum n_def div_mult_mod_eq)
qed

lemma clock_digits:
  assumes "clock_of t = (h, mi, s)"
  shows "int (digits_val (pad_digits 2 (nat h))) = h" "int (digits_val (pad_digits 2 (nat mi))) = mi"
    "int (digits_val (pad_digits 2 (nat s))) = s"
proof -
  have "0 \<le> h" "h < 24" "0 \<le> mi" "mi < 60" "0 \<le> s" "s < 60" using clock_of_parts(1) [OF assms] by simp_all
  then show "int (digits_val (pad_digits 2 (nat h))) = h" "int (digits_val (pad_digits 2 (nat mi))) = mi"
    "int (digits_val (pad_digits 2 (nat s))) = s"
    by (simp_all add: digits_val_pad)
qed

lemma parse_format_stamp:
  assumes "four_digit_year t"
  shows "parse_stamp (format_stamp t) = Some (t div second * second)"
proof -
  obtain h mi s where c: "clock_of t = (h, mi, s)" by (cases "clock_of t")
  show ?thesis
    using clock_of_parts [OF c] clock_digits [OF c] parse_format_date [OF assms] length_format_date [of t]
    by (simp add: format_stamp_def c parse_stamp_def nth_append fraction_ns_def Let_def)
qed

subsection \<open>RFC 3339\<close>

text \<open>The layout \<open>time.RFC3339\<close>, written in UTC, and its parser: date, \<open>T\<close>, clock, an optional fraction and the
  zone. A one-digit hour and a zone of 24 hours, which the parser takes too, are left out.\<close>

definition format_rfc3339 :: "instant \<Rightarrow> string" where
  "format_rfc3339 t =
     (case clock_of t of (h, mi, s) \<Rightarrow>
        format_date t @ ''T'' @ pad_digits 2 (nat h) @ '':'' @ pad_digits 2 (nat mi) @ '':'' @ pad_digits 2 (nat s) @ ''Z'')"

definition zone_offset :: "string \<Rightarrow> int option" where
  "zone_offset z =
     (if z = ''Z'' then Some 0
      else if length z = 6 \<and> z ! 0 \<in> set ''+-'' \<and> z ! 3 = CHR '':'' \<and> list_all is_digit (take 2 (drop 1 z)) \<and>
          list_all is_digit (drop 4 z) then
        (let h = int (digits_val (take 2 (drop 1 z))); mi = int (digits_val (drop 4 z))
         in if h < 24 \<and> mi < 60 then Some ((if z ! 0 = CHR ''-'' then - 1 else 1) * (h * 3600 + mi * 60)) else None)
      else None)"

definition parse_rfc3339 :: "string \<Rightarrow> instant option" where
  "parse_rfc3339 s =
     (case parse_date (take 10 s) of
        None \<Rightarrow> None
      | Some d \<Rightarrow>
          if 20 \<le> length s \<and> s ! 10 = CHR ''T'' \<and> s ! 13 = CHR '':'' \<and> s ! 16 = CHR '':'' \<and>
             list_all is_digit (take 2 (drop 11 s)) \<and> list_all is_digit (take 2 (drop 14 s)) \<and>
             list_all is_digit (take 2 (drop 17 s)) then
            (let h = int (digits_val (take 2 (drop 11 s))); mi = int (digits_val (take 2 (drop 14 s)));
                 sec = int (digits_val (take 2 (drop 17 s)));
                 frac = takeWhile (\<lambda>c. c \<notin> set ''Z+-'') (drop 19 s); zone = dropWhile (\<lambda>c. c \<notin> set ''Z+-'') (drop 19 s)
             in if h < 24 \<and> mi < 60 \<and> sec < 60 then
                  (case (fraction_ns frac, zone_offset zone) of
                     (Some f, Some z) \<Rightarrow> Some (d + (h * 3600 + mi * 60 + sec - z) * second + f)
                   | _ \<Rightarrow> None)
                else None)
          else None)"

text \<open>The zero time of Go, 1 January of year 1.\<close>

definition zero_time :: instant where "zero_time = - 62135596800 * second"

lemma parse_format_rfc3339:
  assumes "four_digit_year t"
  shows "parse_rfc3339 (format_rfc3339 t) = Some (t div second * second)"
proof -
  obtain h mi s where c: "clock_of t = (h, mi, s)" by (cases "clock_of t")
  show ?thesis
    using clock_of_parts [OF c] clock_digits [OF c] parse_format_date [OF assms] length_format_date [of t]
    by (simp add: format_rfc3339_def c parse_rfc3339_def nth_append fraction_ns_def zone_offset_def Let_def)
qed

end
