(* ===== verification/UrlStatus.thy ===== *)
theory UrlStatus
  imports GoTime UrlStore
begin

text \<open>
  What the status endpoint of the URL shortener reports about the parts of the server: the
  \<open>StatusState\<close> of \<open>urlshort/server.go\<close> and the figures of the store (\<open>urlshort/store.go\<close>,
  \<open>urlshort/store_bbolt.go\<close>), the access log (\<open>urlshort/logfile.go\<close>) and the backups
  (\<open>urlshort/maintenance.go\<close>). Instants of the status state are nanoseconds; zero is \<open>time.Time{}\<close>.
\<close>

subsection \<open>Certificates and errors\<close>

record CertInfo =
  ci_Subject :: string
  ci_Issuer :: string
  ci_NotBefore :: int
  ci_NotAfter :: int
  ci_DaysLeft :: int

text \<open>The errors that reach \<open>SetError\<close>: of the store, of its file, of a certificate, a recovered panic.\<close>

datatype status_error = StoreError store_error | StatsError string | CertError string | Panicked

record StatusState =
  ss_startedAt :: int
  ss_cert :: "CertInfo option"
  ss_prewarmOK :: bool
  ss_prewarmAt :: int
  ss_prewarmErr :: string
  ss_lastError :: "status_error option"
  ss_lastErrAt :: int

definition NewStatusState :: "int \<Rightarrow> StatusState" where
  "NewStatusState now = \<lparr>ss_startedAt = now, ss_cert = None, ss_prewarmOK = False, ss_prewarmAt = 0,
     ss_prewarmErr = [], ss_lastError = None, ss_lastErrAt = 0\<rparr>"

definition SetCert :: "CertInfo option \<Rightarrow> StatusState \<Rightarrow> StatusState" where
  "SetCert c s = s\<lparr>ss_cert := c\<rparr>"

definition SetPrewarm :: "int \<Rightarrow> bool \<Rightarrow> string option \<Rightarrow> StatusState \<Rightarrow> StatusState" where
  "SetPrewarm now ok err s =
     s\<lparr>ss_prewarmOK := ok, ss_prewarmAt := now,
       ss_prewarmErr := (case err of Some e \<Rightarrow> e | None \<Rightarrow> [])\<rparr>"

definition SetError :: "int \<Rightarrow> status_error option \<Rightarrow> StatusState \<Rightarrow> StatusState" where
  "SetError now err s =
     (case err of None \<Rightarrow> s | Some e \<Rightarrow> s\<lparr>ss_lastError := Some e, ss_lastErrAt := now\<rparr>)"

definition LastError :: "StatusState \<Rightarrow> int \<times> status_error option" where
  "LastError s = (ss_lastErrAt s, ss_lastError s)"

definition Prewarm :: "StatusState \<Rightarrow> bool \<times> int \<times> string" where
  "Prewarm s = (ss_prewarmOK s, ss_prewarmAt s, ss_prewarmErr s)"

subsection \<open>The store\<close>

record StoreStats =
  so_FileSizeBytes :: int
  so_TxN :: int
  so_OpenTxN :: int
  so_FreePageN :: int
  so_PendingPageN :: int
  so_FreeAlloc :: int

text \<open>\<open>Stats\<close>: the size \<open>os.Stat\<close> gives, then the counters of bbolt.\<close>

definition Stats :: "string + int \<Rightarrow> StoreStats \<Rightarrow> string + StoreStats" where
  "Stats fi st = (case fi of Inl e \<Rightarrow> Inl e | Inr n \<Rightarrow> Inr (st\<lparr>so_FileSizeBytes := n\<rparr>))"

text \<open>\<open>CompactTo\<close>: the destination is opened, filled, synced and closed, whatever fails on the way, and
  the first failure in the order compact, sync, close is reported. The result has the error and the
  calls made.\<close>

datatype compact_call = CallOpen | CallCompact | CallSync | CallClose

definition CompactTo :: "(compact_call \<Rightarrow> string option) \<Rightarrow> string option \<times> compact_call list" where
  "CompactTo ans =
     (case ans CallOpen of
        Some e \<Rightarrow> (Some e, [CallOpen])
      | None \<Rightarrow>
          (case ans CallCompact of
             Some e \<Rightarrow> Some e
           | None \<Rightarrow> (case ans CallSync of Some e \<Rightarrow> Some e | None \<Rightarrow> ans CallClose),
           [CallOpen, CallCompact, CallSync, CallClose]))"

lemma CompactTo_closes:
  "ans CallOpen = None \<Longrightarrow> last (snd (CompactTo ans)) = CallClose"
  "fst (CompactTo ans) = None \<longleftrightarrow> (\<forall>c. ans c = None)"
proof -
  have "(\<forall>c. ans c = None) \<longleftrightarrow>
      ans CallOpen = None \<and> ans CallCompact = None \<and> ans CallSync = None \<and> ans CallClose = None"
    by (metis compact_call.exhaust)
  then show "fst (CompactTo ans) = None \<longleftrightarrow> (\<forall>c. ans c = None)"
    by (simp add: CompactTo_def split: option.split)
qed (simp add: CompactTo_def)

subsection \<open>Logs and backups\<close>

record logFileStats =
  lf_CurrentFile :: string
  lf_CurrentSizeBytes :: nat
  lf_OldestRetained :: string
  lf_Files :: nat

datatype backup_error =
    CreateBackupDir string
  | CompactFailed string
  | VerifyFailed verify_error
  | PublishFailed string
  | StatFailed string

record MaintenanceStatus =
  ms_BackupDir :: string
  ms_LastBackupAt :: "instant option"
  ms_LastBackupOK :: bool
  ms_LastBackupFile :: string
  ms_LastBackupSizeBytes :: int
  ms_BackupFiles :: nat
  ms_LastBackupError :: "backup_error option"

end
