(* ===== verification/UrlApi.thy ===== *)
theory UrlApi
  imports UrlStoreProps UrlRules UrlAuth UrlTarget RateLimit UrlConfig UrlStatus
begin

text \<open>
  The REST API of the URL shortener: \<open>urlshort/api.go\<close>. A handler maps the request and the state to
  the response, the access-log fields it sets and the new state. What \<open>encoding/json\<close> makes of a
  request body is part of the request; what the environment decides (transaction commits, the clock,
  random bytes) is a record \<open>env\<close>. Headers are the pairs set by \<open>Header.Set\<close>, last one winning.
\<close>

subsection \<open>Requests and responses\<close>

datatype decode_error = DecTooLarge | DecEOF | DecOther string

text \<open>The outcome of the first \<open>Decode\<close>, and whether something but the end of the body follows.\<close>

type_synonym 'v body_in = "(decode_error + 'v) \<times> bool"

record request =
  rq_Method :: string
  rq_Path :: string
  rq_Authorization :: string
  rq_Query :: "(string \<times> string) list"
  rq_link_body :: "(string \<times> string) body_in"
  rq_batch_body :: "(string \<times> string) list body_in"
  rq_rate_key :: string

record accessInfo =
  ai_Type :: string
  ai_Client :: string
  ai_Action :: string
  ai_Key :: string
  ai_Target :: string
  ai_Rule :: string

definition no_info :: accessInfo where
  "no_info = \<lparr>ai_Type = [], ai_Client = [], ai_Action = [], ai_Key = [], ai_Target = [], ai_Rule = []\<rparr>"

datatype api_msg =
    Lit string
  | ConflictMsg conflict
  | KeyMsg key_error
  | TargetMsg target_error
  | JsonMsg string
  | TooMany nat

record apiError =
  ae_status :: int
  ae_code :: string
  ae_message :: api_msg

record linkView =
  lv_Key :: string
  lv_ShortURL :: string
  lv_Target :: string
  lv_Rule :: string
  lv_CreatedAt :: int
  lv_UpdatedAt :: int

record batchCreateResult =
  bc_Target :: string
  bc_Created :: bool
  bc_Link :: "linkView option"
  bc_Error :: "(string \<times> api_msg) option"

record statusServer =
  tv_PublicURL :: string
  tv_Listeners :: "string list"
  tv_HTTPEnabled :: bool
  tv_HTTPSEnabled :: bool

record statusACME =
  ta_Enabled :: bool
  ta_DirectoryURL :: string
  ta_Staging :: bool
  ta_Certificate :: "CertInfo option"
  ta_LastPrewarmOK :: bool
  ta_LastPrewarmAt :: "int option"
  ta_LastPrewarmError :: string

text \<open>The total and the namespaces are \<open>statusLinks\<close>; a client is its name, namespaces and rank.\<close>

record statusResponse =
  sr_StartedAt :: int
  sr_UptimeSeconds :: int
  sr_Server :: statusServer
  sr_ACME :: statusACME
  sr_Total :: nat
  sr_Namespaces :: "(string \<times> nat) list"
  sr_Clients :: "(string \<times> string list \<times> bool) list"
  sr_AccessLog :: logFileStats
  sr_DB :: StoreStats
  sr_Maintenance :: "MaintenanceStatus option"
  sr_Goroutines :: int
  sr_MemoryAllocBytes :: int
  sr_LastError :: "(int \<times> status_error) option"

datatype resp_body =
    NoBody
  | ErrBody string api_msg
  | IndexBody "(string \<times> string) list"
  | HealthBody
  | WhoamiBody string bool "string list"
  | LinkBody linkView
  | CreateBody linkView bool
  | ListBody "linkView list" string
  | BatchBody "batchCreateResult list"
  | StatusBody statusResponse
  | PlainBody string
  | HomeBody string

record response =
  rs_status :: int
  rs_headers :: "(string \<times> string) list"
  rs_body :: resp_body

subsection \<open>The server\<close>

record ('l, 't, 'd, 'r, 'lim) server =
  sv_bolt :: "('l, 't) bolt"
  sv_rules :: "Rule list"
  sv_clients :: "'d Client list"
  sv_sha :: "string \<Rightarrow> 'd"
  sv_url :: "'r url_lib"
  sv_short :: "string \<Rightarrow> string"
  sv_buckets :: "'lim bucket_lib"
  sv_cfg :: Config
  sv_publicURL :: string

record ('l, 't, 'lim) state =
  st_db :: "('l, 't) db"
  st_status :: StatusState
  st_apiIPLimiter :: "'lim RateLimiter"
  st_apiLimiter :: "'lim RateLimiter"
  st_redirectLimiter :: "'lim RateLimiter"

text \<open>What the status endpoint asks of the process: the time, the store's figures, those of the access
  log and the backups, the bound listeners, the runtime.\<close>

record status_env =
  se_now :: int
  se_stats :: "string + StoreStats"
  se_logs :: logFileStats
  se_maintenance :: "MaintenanceStatus option"
  se_listeners :: "string list"
  se_goroutines :: int
  se_memory :: int

text \<open>One request's environment: commit outcome, clock of item \<open>i\<close>, random bytes of item \<open>i\<close>, the
  time the limiters see, the time an error is noted at, and the figures for the status.\<close>

record env =
  ev_commit :: "string option"
  ev_now :: "nat \<Rightarrow> int"
  ev_rand :: "nat \<Rightarrow> 8 word list"
  ev_tick :: int
  ev_errAt :: int
  ev_status :: status_env

type_synonym ('l, 't, 'lim) outcome = "response \<times> accessInfo \<times> ('l, 't, 'lim) state"

subsection \<open>JSON helpers\<close>

definition json_headers :: "(string \<times> string) list" where
  "json_headers = [(''Content-Type'', ''application/json; charset=utf-8''),
     (''X-Content-Type-Options'', ''nosniff''), (''Referrer-Policy'', ''no-referrer''),
     (''Cache-Control'', ''no-store'')]"

definition writeJSON :: "int \<Rightarrow> resp_body \<Rightarrow> response" where
  "writeJSON status v = \<lparr>rs_status = status, rs_headers = json_headers, rs_body = v\<rparr>"

definition writeAPIError :: "int \<Rightarrow> string \<Rightarrow> api_msg \<Rightarrow> response" where
  "writeAPIError status code msg = writeJSON status (ErrBody code msg)"

definition set_header :: "string \<Rightarrow> string \<Rightarrow> response \<Rightarrow> response" where
  "set_header k v r = r\<lparr>rs_headers := (k, v) # rs_headers r\<rparr>"

definition set_error :: "env \<Rightarrow> status_error \<Rightarrow> ('l, 't, 'lim) state \<Rightarrow> ('l, 't, 'lim) state" where
  "set_error ev e st = st\<lparr>st_status := SetError (ev_errAt ev) (Some e) (st_status st)\<rparr>"

definition writeInternalError :: "env \<Rightarrow> status_error \<Rightarrow> ('l, 't, 'lim) state \<Rightarrow> response \<times> ('l, 't, 'lim) state" where
  "writeInternalError ev e st =
     (writeAPIError 500 ''internal'' (Lit ''internal server error''), set_error ev e st)"

definition decodeJSON :: "'v body_in \<Rightarrow> response + 'v" where
  "decodeJSON b =
     (case fst b of
        Inl DecTooLarge \<Rightarrow> Inl (writeAPIError 413 ''payload_too_large'' (Lit ''request body too large''))
      | Inl DecEOF \<Rightarrow> Inl (writeAPIError 400 ''bad_request'' (Lit ''request body is required''))
      | Inl (DecOther e) \<Rightarrow> Inl (writeAPIError 400 ''bad_request'' (JsonMsg e))
      | Inr v \<Rightarrow>
          if snd b then
            Inl (writeAPIError 400 ''bad_request'' (Lit ''request body must contain a single JSON object''))
          else Inr v)"

definition requireMethod :: "request \<Rightarrow> string list \<Rightarrow> response option" where
  "requireMethod rq methods =
     (if rq_Method rq \<in> set methods then None
      else Some (set_header ''Allow'' (Join methods '', '')
                  (writeAPIError 405 ''method_not_allowed'' (Lit ''method not allowed''))))"

subsection \<open>Simple endpoints\<close>

datatype apiAuth = authPublic | authAny | authAdmin
datatype handler = HIndex | HHealth | HStatus | HWhoami | HLinks | HLinksBatch

record apiEndpoint =
  ep_methods :: "string list"
  ep_path :: string
  ep_auth :: apiAuth
  ep_handle :: handler

definition apiEndpoints :: "apiEndpoint list" where
  "apiEndpoints =
     [\<lparr>ep_methods = [''GET''], ep_path = apiBase, ep_auth = authPublic, ep_handle = HIndex\<rparr>,
      \<lparr>ep_methods = [''GET''], ep_path = apiBase @ ''/health'', ep_auth = authPublic, ep_handle = HHealth\<rparr>,
      \<lparr>ep_methods = [''GET''], ep_path = apiBase @ ''/status'', ep_auth = authAdmin, ep_handle = HStatus\<rparr>,
      \<lparr>ep_methods = [''GET''], ep_path = apiBase @ ''/whoami'', ep_auth = authAny, ep_handle = HWhoami\<rparr>,
      \<lparr>ep_methods = [''GET'', ''POST'', ''PUT'', ''DELETE''], ep_path = apiBase @ ''/links'',
       ep_auth = authAny, ep_handle = HLinks\<rparr>,
      \<lparr>ep_methods = [''POST''], ep_path = apiBase @ ''/links/batch'', ep_auth = authAny,
       ep_handle = HLinksBatch\<rparr>]"

definition apiIndex :: "(string \<times> string) list" where
  "apiIndex = concat (map (\<lambda>ep. map (\<lambda>m. (m, ep_path ep)) (ep_methods ep)) apiEndpoints)"

definition handleWhoami :: "'d Client \<Rightarrow> response" where
  "handleWhoami c = writeJSON 200 (WhoamiBody (cl_Name c) (cl_IsAdmin c) (cl_Namespaces c))"

definition linkView_of :: "('l, 't, 'd, 'r, 'lim) server \<Rightarrow> Link \<Rightarrow> linkView" where
  "linkView_of sv l =
     \<lparr>lv_Key = link_Key l, lv_ShortURL = sv_short sv (link_Key l), lv_Target = link_Target l,
      lv_Rule = link_Rule l, lv_CreatedAt = link_CreatedAt l, lv_UpdatedAt = link_UpdatedAt l\<rparr>"

subsection \<open>Store errors\<close>

text \<open>The API error, and whether the failure is recorded in the status state.\<close>

fun apiErrorFromStore :: "store_error \<Rightarrow> apiError \<times> bool" where
  "apiErrorFromStore ErrForbidden =
     (\<lparr>ae_status = 403, ae_code = ''forbidden'',
       ae_message = Lit ''key is outside the caller's namespaces''\<rparr>, False)"
| "apiErrorFromStore (ErrConflict c) =
     (\<lparr>ae_status = 409, ae_code = ''conflict'', ae_message = ConflictMsg c\<rparr>, False)"
| "apiErrorFromStore ErrNotFound =
     (\<lparr>ae_status = 404, ae_code = ''not_found'', ae_message = Lit ''link not found''\<rparr>, False)"
| "apiErrorFromStore e =
     (\<lparr>ae_status = 500, ae_code = ''internal'', ae_message = Lit ''internal server error''\<rparr>, True)"

definition note_error :: "env \<Rightarrow> store_error \<Rightarrow> ('l, 't, 'lim) state \<Rightarrow> ('l, 't, 'lim) state" where
  "note_error ev e st = (if snd (apiErrorFromStore e) then set_error ev (StoreError e) st else st)"

definition write_apiError :: "apiError \<Rightarrow> response" where
  "write_apiError ae = writeAPIError (ae_status ae) (ae_code ae) (ae_message ae)"

definition storeError :: "env \<Rightarrow> store_error \<Rightarrow> ('l, 't, 'lim) state \<Rightarrow> response \<times> ('l, 't, 'lim) state" where
  "storeError ev e st = (write_apiError (fst (apiErrorFromStore e)), note_error ev e st)"

subsection \<open>Reading links\<close>

text \<open>\<open>url.Values.Get\<close>: the first value, or the empty string.\<close>

definition query_get :: "request \<Rightarrow> string \<Rightarrow> string" where
  "query_get rq k = (case map_of (rq_Query rq) k of None \<Rightarrow> [] | Some v \<Rightarrow> v)"

definition forbidden_key :: response where
  "forbidden_key = writeAPIError 403 ''forbidden'' (Lit ''key is outside the caller's namespaces'')"

definition key_required :: response where
  "key_required = writeAPIError 400 ''bad_request'' (Lit ''key query parameter is required'')"

definition getLink :: "('l, 't, 'd, 'r, 'lim) server \<Rightarrow> env \<Rightarrow> 'd Client \<Rightarrow> request \<Rightarrow> accessInfo \<Rightarrow>
    ('l, 't, 'lim) state \<Rightarrow> ('l, 't, 'lim) outcome" where
  "getLink sv ev c rq ai st =
     (let key = query_get rq ''key''
      in if key = [] then (key_required, ai, st)
         else if \<not> CanAccess c key then (forbidden_key, ai, st)
         else (case Get (sv_bolt sv) (st_db st) key of
                 Inl e \<Rightarrow> (case storeError ev e st of (r, st') \<Rightarrow> (r, ai, st'))
               | Inr l \<Rightarrow>
                   (writeJSON 200 (LinkBody (linkView_of sv l)),
                    ai\<lparr>ai_Action := ''resolve'', ai_Key := key\<rparr>, st)))"

text \<open>The inner loop of \<open>listFiltered\<close>.\<close>

fun take_batch :: "'d Client \<Rightarrow> int \<Rightarrow> Link list \<Rightarrow> Link list \<Rightarrow> string \<Rightarrow> Link list \<times> string" where
  "take_batch c limit [] out next_cursor = (out, next_cursor)"
| "take_batch c limit (l # ls) out next_cursor =
     (let out' = (if CanAccess c (link_Key l) then out @ [l] else out)
      in if int (length out') \<ge> limit then (out', link_Key l)
         else take_batch c limit ls out' next_cursor)"

text \<open>The outer loop; \<open>None\<close> when the fuel runs out.\<close>

fun filtered_loop :: "nat \<Rightarrow> ('l, 't) bolt \<Rightarrow> ('l, 't) db \<Rightarrow> 'd Client \<Rightarrow> int \<Rightarrow> Link list \<Rightarrow> string \<Rightarrow>
    (store_error + Link list \<times> string) option" where
  "filtered_loop 0 bo db c limit out next_cursor = None"
| "filtered_loop (Suc fuel) bo db c limit out next_cursor =
     (if int (length out) < limit then
        (case List_links bo db [] limit next_cursor of
           Inl e \<Rightarrow> Some (Inl e)
         | Inr (batch, n) \<Rightarrow>
             (case take_batch c limit batch out next_cursor of
                (out', next') \<Rightarrow>
                  if int (length out') \<ge> limit then Some (Inr (out', next'))
                  else if n = [] then Some (Inr (out', []))
                  else filtered_loop fuel bo db c limit out' n))
      else Some (Inr (out, next_cursor)))"

definition listFiltered :: "('l, 't) bolt \<Rightarrow> ('l, 't) db \<Rightarrow> 'd Client \<Rightarrow> int \<Rightarrow> string \<Rightarrow>
    (store_error + Link list \<times> string) option" where
  "listFiltered bo db c limit cursor = filtered_loop (Count bo db + 2) bo db c limit [] cursor"

definition list_limit :: "request \<Rightarrow> int option" where
  "list_limit rq =
     (let v = query_get rq ''limit''
      in if v = [] then Some 100
         else (case parse_int64 v of
                 None \<Rightarrow> None
               | Some n \<Rightarrow> if n \<le> 0 then None else Some (if n > 1000 then 1000 else n)))"

definition listLinks :: "('l, 't, 'd, 'r, 'lim) server \<Rightarrow> env \<Rightarrow> 'd Client \<Rightarrow> request \<Rightarrow> accessInfo \<Rightarrow>
    ('l, 't, 'lim) state \<Rightarrow> ('l, 't, 'lim) outcome option" where
  "listLinks sv ev c rq ai st =
     (let nsParam = query_get rq ''namespace''; cursor = query_get rq ''cursor'';
          bo = sv_bolt sv; db = st_db st
      in case list_limit rq of
           None \<Rightarrow> Some (writeAPIError 400 ''bad_request'' (Lit ''limit must be a positive integer''), ai, st)
         | Some limit \<Rightarrow>
             if nsParam \<noteq> [] \<and> \<not> CanAccess c nsParam then
               Some (writeAPIError 403 ''forbidden'' (Lit ''namespace is outside the caller's namespaces''), ai, st)
             else
               (case (if nsParam \<noteq> [] then Some (List_links bo db nsParam limit cursor)
                      else if cl_IsAdmin c then Some (List_links bo db [] limit cursor)
                      else if length (cl_Namespaces c) = 1 then
                        Some (List_links bo db (cl_Namespaces c ! 0) limit cursor)
                      else listFiltered bo db c limit cursor) of
                  None \<Rightarrow> None
                | Some (Inl e) \<Rightarrow> (case writeInternalError ev (StoreError e) st of (r, st') \<Rightarrow> Some (r, ai, st'))
                | Some (Inr (ls, next_cursor)) \<Rightarrow>
                    Some (writeJSON 200 (ListBody (map (linkView_of sv) ls) next_cursor),
                          ai\<lparr>ai_Action := ''resolve''\<rparr>, st)))"

subsection \<open>Creating links\<close>

datatype prepared =
    PErr apiError
  | PExisting Link
  | PReq CreateRequest

definition bad_request :: "api_msg \<Rightarrow> apiError" where
  "bad_request m = \<lparr>ae_status = 400, ae_code = ''bad_request'', ae_message = m\<rparr>"

definition forbidden_err :: "string \<Rightarrow> apiError" where
  "forbidden_err m = \<lparr>ae_status = 403, ae_code = ''forbidden'', ae_message = Lit m\<rparr>"

text \<open>The generator of a rule, which also checks the namespace of the key it found.\<close>

definition rule_gen :: "'d Client \<Rightarrow> Rule \<Rightarrow> (string \<rightharpoonup> string) \<Rightarrow> KeyFunc" where
  "rule_gen c rule vars = (\<lambda>isFree.
     case GenerateKey rule vars isFree of
       Inl e \<Rightarrow> Inl e
     | Inr key \<Rightarrow> if \<not> CanAccess c key then Inl ErrForbidden else Inr key)"

definition existing_link :: "('l, 't) bolt \<Rightarrow> ('l, 't) db \<Rightarrow> string \<Rightarrow> Link option" where
  "existing_link bo db target =
     (case Resolve bo db target of
        Inl _ \<Rightarrow> None
      | Inr key \<Rightarrow> (case Get bo db key of Inl _ \<Rightarrow> None | Inr l \<Rightarrow> Some l))"

text \<open>How the key of a new target is chosen. The second result is the error noted in the status
  state, when a rule does not render.\<close>

definition choose_gen :: "('l, 't, 'd, 'r, 'lim) server \<Rightarrow> 'd Client \<Rightarrow> 8 word list \<Rightarrow> string \<Rightarrow>
    prepared \<times> store_error option" where
  "choose_gen sv c rnd target =
     (let req = \<lparr>req_Target = target, req_Rule = [], req_Owner = cl_Name c, req_ExplicitKey = [],
                 req_Gen = None\<rparr>
      in case MatchRules (sv_rules sv) target of
           None \<Rightarrow>
             (let ns = FirstNamespace c
              in if ns = [] then (PErr (bad_request (Lit ''no namespace available'')), None)
                 else (PReq (req\<lparr>req_Gen := Some (\<lambda>isFree. GenerateRandomKey ns isFree rnd)\<rparr>), None))
         | Some (rule, vars) \<Rightarrow>
             (case Render rule vars of
                Inl e \<Rightarrow>
                  (PErr \<lparr>ae_status = 500, ae_code = ''internal'', ae_message = Lit ''internal server error''\<rparr>,
                   Some e)
              | Inr full \<Rightarrow>
                  if \<not> CanAccess c full then
                    (PErr (forbidden_err ''rule key is outside the caller's namespaces''), None)
                  else
                    (PReq (req\<lparr>req_Rule := rule_Name rule, req_Gen := Some (rule_gen c rule vars)\<rparr>), None)))"

definition prepareCreate :: "('l, 't, 'd, 'r, 'lim) server \<Rightarrow> ('l, 't) db \<Rightarrow> 'd Client \<Rightarrow> 8 word list \<Rightarrow>
    string \<Rightarrow> string \<Rightarrow> prepared \<times> store_error option" where
  "prepareCreate sv db c rnd rawTarget explicitKey =
     (case canonicalizeTarget (sv_url sv) rawTarget of
        Inl e \<Rightarrow> (PErr (bad_request (TargetMsg e)), None)
      | Inr target \<Rightarrow>
          if explicitKey \<noteq> [] then
            (case ValidateKey explicitKey of
               Inl e \<Rightarrow> (PErr (bad_request (KeyMsg e)), None)
             | Inr _ \<Rightarrow>
                 if \<not> CanAccess c explicitKey then
                   (PErr (forbidden_err ''key is outside the caller's namespaces''), None)
                 else
                   (PReq \<lparr>req_Target = target, req_Rule = [], req_Owner = cl_Name c,
                          req_ExplicitKey = explicitKey, req_Gen = None\<rparr>, None))
          else
            (case existing_link (sv_bolt sv) db target of
               Some l \<Rightarrow> (PExisting l, None)
             | None \<Rightarrow> choose_gen sv c rnd target))"

definition note_opt :: "env \<Rightarrow> store_error option \<Rightarrow> ('l, 't, 'lim) state \<Rightarrow> ('l, 't, 'lim) state" where
  "note_opt ev e st = (case e of None \<Rightarrow> st | Some x \<Rightarrow> set_error ev (StoreError x) st)"

definition finishCreate :: "('l, 't, 'd, 'r, 'lim) server \<Rightarrow> Link \<Rightarrow> bool \<Rightarrow> accessInfo \<Rightarrow> response \<times> accessInfo" where
  "finishCreate sv l created ai =
     (writeJSON (if created then 201 else 200) (CreateBody (linkView_of sv l) created),
      ai\<lparr>ai_Key := link_Key l, ai_Target := link_Target l, ai_Rule := link_Rule l,
         ai_Action := (if created then ''create'' else ''resolve'')\<rparr>)"

definition createLink :: "('l, 't, 'd, 'r, 'lim) server \<Rightarrow> env \<Rightarrow> 'd Client \<Rightarrow> request \<Rightarrow> accessInfo \<Rightarrow>
    ('l, 't, 'lim) state \<Rightarrow> ('l, 't, 'lim) outcome" where
  "createLink sv ev c rq ai st =
     (case decodeJSON (rq_link_body rq) of
        Inl r \<Rightarrow> (r, ai, st)
      | Inr (target, key) \<Rightarrow>
          (case prepareCreate sv (st_db st) c (ev_rand ev 0) target key of
             (p, note) \<Rightarrow>
               (let st1 = note_opt ev note st
                in case p of
                     PErr ae \<Rightarrow> (write_apiError ae, ai, st1)
                   | PExisting l \<Rightarrow> (case finishCreate sv l False ai of (r, ai') \<Rightarrow> (r, ai', st1))
                   | PReq req \<Rightarrow>
                       (case Create (sv_bolt sv) (ev_commit ev) (ev_now ev 0) req (st_db st1) of
                          (Inl e, db') \<Rightarrow>
                            (case storeError ev e (st1\<lparr>st_db := db'\<rparr>) of (r, st2) \<Rightarrow> (r, ai, st2))
                        | (Inr (l, created), db') \<Rightarrow>
                            (case finishCreate sv l created ai of
                               (r, ai') \<Rightarrow> (r, ai', st1\<lparr>st_db := db'\<rparr>))))))"

subsection \<open>Batches\<close>

definition maxBatchCreate :: nat where
  "maxBatchCreate = 100"

text \<open>The first loop of \<open>handleLinksBatch\<close>: the results known without the store, and the requests
  left for it with the index each result goes to.\<close>

fun prepare_items :: "('l, 't, 'd, 'r, 'lim) server \<Rightarrow> ('l, 't) db \<Rightarrow> 'd Client \<Rightarrow> (nat \<Rightarrow> 8 word list) \<Rightarrow>
    nat \<Rightarrow> (string \<times> string) list \<Rightarrow>
    batchCreateResult list \<times> (nat \<times> CreateRequest) list \<times> store_error option" where
  "prepare_items sv db c rnd i [] = ([], [], None)"
| "prepare_items sv db c rnd i ((target, key) # items) =
     (case prepareCreate sv db c (rnd i) target key of
        (p, note) \<Rightarrow>
          (case prepare_items sv db c rnd (Suc i) items of
             (rs, reqs, note') \<Rightarrow>
               (let r0 = \<lparr>bc_Target = target, bc_Created = False, bc_Link = None, bc_Error = None\<rparr>;
                    n = (case note' of None \<Rightarrow> note | Some e \<Rightarrow> Some e)
                in case p of
                     PErr ae \<Rightarrow> (r0\<lparr>bc_Error := Some (ae_code ae, ae_message ae)\<rparr> # rs, reqs, n)
                   | PExisting l \<Rightarrow> (r0\<lparr>bc_Link := Some (linkView_of sv l)\<rparr> # rs, reqs, n)
                   | PReq req \<Rightarrow> (r0 # rs, (i, req) # reqs, n))))"

definition item_result :: "('l, 't, 'd, 'r, 'lim) server \<Rightarrow> CreateResult \<Rightarrow> batchCreateResult \<Rightarrow> batchCreateResult" where
  "item_result sv res r =
     (case res_Err res of
        Some e \<Rightarrow> r\<lparr>bc_Error := Some (ae_code (fst (apiErrorFromStore e)), ae_message (fst (apiErrorFromStore e)))\<rparr>
      | None \<Rightarrow> r\<lparr>bc_Link := map_option (linkView_of sv) (res_Link res), bc_Created := res_Created res\<rparr>)"

fun fill_results :: "('l, 't, 'd, 'r, 'lim) server \<Rightarrow> (nat \<times> CreateResult) list \<Rightarrow>
    batchCreateResult list \<Rightarrow> batchCreateResult list" where
  "fill_results sv [] results = results"
| "fill_results sv ((i, res) # rest) results =
     fill_results sv rest (results[i := item_result sv res (results ! i)])"

definition note_results :: "env \<Rightarrow> CreateResult list \<Rightarrow> ('l, 't, 'lim) state \<Rightarrow> ('l, 't, 'lim) state" where
  "note_results ev stored st =
     fold (\<lambda>res s. case res_Err res of None \<Rightarrow> s | Some e \<Rightarrow> note_error ev e s) stored st"

definition handleLinksBatch :: "('l, 't, 'd, 'r, 'lim) server \<Rightarrow> env \<Rightarrow> 'd Client \<Rightarrow> request \<Rightarrow> accessInfo \<Rightarrow>
    ('l, 't, 'lim) state \<Rightarrow> ('l, 't, 'lim) outcome" where
  "handleLinksBatch sv ev c rq ai st =
     (case decodeJSON (rq_batch_body rq) of
        Inl r \<Rightarrow> (r, ai, st)
      | Inr items \<Rightarrow>
          if items = [] then (writeAPIError 400 ''bad_request'' (Lit ''items must not be empty''), ai, st)
          else if length items > maxBatchCreate then
            (writeAPIError 400 ''bad_request'' (TooMany maxBatchCreate), ai, st)
          else
            (case prepare_items sv (st_db st) c (ev_rand ev) 0 items of
               (results, reqs, note) \<Rightarrow>
                 (let st1 = note_opt ev note st; ok = ai\<lparr>ai_Action := ''batch_create''\<rparr>
                  in if reqs = [] then (writeJSON 200 (BatchBody results), ok, st1)
                     else
                       (case CreateBatch (sv_bolt sv) (ev_commit ev) (ev_now ev) (map snd reqs) (st_db st1) of
                          (Inl e, db') \<Rightarrow>
                            (case writeInternalError ev (StoreError e) (st1\<lparr>st_db := db'\<rparr>) of (r, st2) \<Rightarrow> (r, ai, st2))
                        | (Inr stored, db') \<Rightarrow>
                            (writeJSON 200 (BatchBody (fill_results sv (zip (map fst reqs) stored) results)),
                             ok, note_results ev stored (st1\<lparr>st_db := db'\<rparr>))))))"

subsection \<open>Updating and deleting links\<close>

definition updateLink :: "('l, 't, 'd, 'r, 'lim) server \<Rightarrow> env \<Rightarrow> 'd Client \<Rightarrow> request \<Rightarrow> accessInfo \<Rightarrow>
    ('l, 't, 'lim) state \<Rightarrow> ('l, 't, 'lim) outcome" where
  "updateLink sv ev c rq ai st =
     (case decodeJSON (rq_link_body rq) of
        Inl r \<Rightarrow> (r, ai, st)
      | Inr (rawTarget, key) \<Rightarrow>
          (case canonicalizeTarget (sv_url sv) rawTarget of
             Inl e \<Rightarrow> (writeAPIError 400 ''bad_request'' (TargetMsg e), ai, st)
           | Inr target \<Rightarrow>
               if key = [] then (writeAPIError 400 ''bad_request'' (Lit ''key is required''), ai, st)
               else if \<not> CanAccess c key then (forbidden_key, ai, st)
               else
                 (case Update (sv_bolt sv) (ev_commit ev) (ev_now ev 0) key target (st_db st) of
                    (Inl e, db') \<Rightarrow> (case storeError ev e (st\<lparr>st_db := db'\<rparr>) of (r, st') \<Rightarrow> (r, ai, st'))
                  | (Inr l, db') \<Rightarrow>
                      (writeJSON 200 (LinkBody (linkView_of sv l)),
                       ai\<lparr>ai_Action := ''update'', ai_Key := key, ai_Target := link_Target l\<rparr>,
                       st\<lparr>st_db := db'\<rparr>))))"

definition deleteLink :: "('l, 't, 'd, 'r, 'lim) server \<Rightarrow> env \<Rightarrow> 'd Client \<Rightarrow> request \<Rightarrow> accessInfo \<Rightarrow>
    ('l, 't, 'lim) state \<Rightarrow> ('l, 't, 'lim) outcome" where
  "deleteLink sv ev c rq ai st =
     (let key = query_get rq ''key''
      in if key = [] then (key_required, ai, st)
         else if \<not> CanAccess c key then (forbidden_key, ai, st)
         else
           (case Delete (sv_bolt sv) (ev_commit ev) key (st_db st) of
              (Inl e, db') \<Rightarrow> (case storeError ev e (st\<lparr>st_db := db'\<rparr>) of (r, st') \<Rightarrow> (r, ai, st'))
            | (Inr _, db') \<Rightarrow>
                (\<lparr>rs_status = 204, rs_headers = [], rs_body = NoBody\<rparr>,
                 ai\<lparr>ai_Action := ''delete'', ai_Key := key\<rparr>, st\<lparr>st_db := db'\<rparr>)))"

definition handleLinks :: "('l, 't, 'd, 'r, 'lim) server \<Rightarrow> env \<Rightarrow> 'd Client \<Rightarrow> request \<Rightarrow> accessInfo \<Rightarrow>
    ('l, 't, 'lim) state \<Rightarrow> ('l, 't, 'lim) outcome option" where
  "handleLinks sv ev c rq ai st =
     (if rq_Method rq = ''GET'' then
        (if map_of (rq_Query rq) ''key'' \<noteq> None then Some (getLink sv ev c rq ai st)
         else listLinks sv ev c rq ai st)
      else if rq_Method rq = ''POST'' then Some (createLink sv ev c rq ai st)
      else if rq_Method rq = ''PUT'' then Some (updateLink sv ev c rq ai st)
      else if rq_Method rq = ''DELETE'' then Some (deleteLink sv ev c rq ai st)
      else
        (case requireMethod rq [''GET'', ''POST'', ''PUT'', ''DELETE''] of
           None \<Rightarrow> Some (\<lparr>rs_status = 200, rs_headers = [], rs_body = NoBody\<rparr>, ai, st)
         | Some r \<Rightarrow> Some (r, ai, st)))"

subsection \<open>Status\<close>

text \<open>The uptime is cut to whole seconds (the code goes through a float). Counting links does not fail
  in bbolt, so the store's figures are the only error.\<close>

definition status_server :: "('l, 't, 'd, 'r, 'lim) server \<Rightarrow> status_env \<Rightarrow> statusServer" where
  "status_server sv se =
     \<lparr>tv_PublicURL = sv_publicURL sv, tv_Listeners = se_listeners se,
      tv_HTTPEnabled = sc_HTTPPort (cf_Server (sv_cfg sv)) > 0,
      tv_HTTPSEnabled = sc_HTTPSPort (cf_Server (sv_cfg sv)) > 0\<rparr>"

definition status_acme :: "('l, 't, 'd, 'r, 'lim) server \<Rightarrow> StatusState \<Rightarrow> statusACME" where
  "status_acme sv s =
     (case Prewarm s of
        (ok, t, err) \<Rightarrow>
          \<lparr>ta_Enabled = ac_Enabled (cf_ACME (sv_cfg sv)), ta_DirectoryURL = ac_DirectoryURL (cf_ACME (sv_cfg sv)),
           ta_Staging = Contains (ac_DirectoryURL (cf_ACME (sv_cfg sv))) ''staging'', ta_Certificate = ss_cert s,
           ta_LastPrewarmOK = ok, ta_LastPrewarmAt = (if t = 0 then None else Some t),
           ta_LastPrewarmError = err\<rparr>)"

definition handleStatus :: "('l, 't, 'd, 'r, 'lim) server \<Rightarrow> env \<Rightarrow> ('l, 't, 'lim) state \<Rightarrow>
    response \<times> ('l, 't, 'lim) state" where
  "handleStatus sv ev st =
     (let se = ev_status ev; total = Count (sv_bolt sv) (st_db st)
      in case se_stats se of
           Inl e \<Rightarrow> writeInternalError ev (StatsError e) st
         | Inr dbStats \<Rightarrow>
             (let nsSet = remdups (concat (map cl_Namespaces (sv_clients sv)))
              in (writeJSON 200 (StatusBody
                    \<lparr>sr_StartedAt = ss_startedAt (st_status st),
                     sr_UptimeSeconds = (se_now se - ss_startedAt (st_status st)) div second,
                     sr_Server = status_server sv se, sr_ACME = status_acme sv (st_status st), sr_Total = total,
                     sr_Namespaces = map (\<lambda>ns. (ns, CountPrefix (sv_bolt sv) (st_db st) ns)) nsSet,
                     sr_Clients = map (\<lambda>c. (cl_Name c, cl_Namespaces c, cl_IsAdmin c)) (sv_clients sv),
                     sr_AccessLog = se_logs se, sr_DB = dbStats, sr_Maintenance = se_maintenance se,
                     sr_Goroutines = se_goroutines se, sr_MemoryAllocBytes = se_memory se,
                     sr_LastError = (case LastError (st_status st) of
                        (t, Some e) \<Rightarrow> Some (t, e) | (t, None) \<Rightarrow> None)\<rparr>), st)))"

subsection \<open>Dispatch\<close>

definition rate_limited :: response where
  "rate_limited = set_header ''Retry-After'' ''1''
     (writeAPIError 429 ''rate_limited'' (Lit ''too many requests''))"

definition authenticate :: "('l, 't, 'd, 'r, 'lim) server \<Rightarrow> request \<Rightarrow> response + 'd Client" where
  "authenticate sv rq =
     (if \<not> HasPrefix (rq_Authorization rq) ''Bearer '' then
        Inl (writeAPIError 401 ''unauthorized'' (Lit ''missing or malformed Authorization header''))
      else
        (case Authenticate (sv_sha sv) (sv_clients sv)
                (TrimSpace (TrimPrefix (rq_Authorization rq) ''Bearer '')) of
           None \<Rightarrow> Inl (writeAPIError 401 ''unauthorized'' (Lit ''invalid token''))
         | Some c \<Rightarrow> Inr c))"

definition allowAPIIP :: "('l, 't, 'd, 'r, 'lim) server \<Rightarrow> env \<Rightarrow> request \<Rightarrow> ('l, 't, 'lim) state \<Rightarrow>
    bool \<times> ('l, 't, 'lim) state" where
  "allowAPIIP sv ev rq st =
     (if rq_rate_key rq = [] then (False, st)
      else (case Allow (sv_buckets sv) (ev_tick ev) (rq_rate_key rq) (st_apiIPLimiter st) of
              (ok, rl) \<Rightarrow> (ok, st\<lparr>st_apiIPLimiter := rl\<rparr>)))"

definition allowAPI :: "('l, 't, 'd, 'r, 'lim) server \<Rightarrow> env \<Rightarrow> 'd Client \<Rightarrow> ('l, 't, 'lim) state \<Rightarrow>
    bool \<times> ('l, 't, 'lim) state" where
  "allowAPI sv ev c st =
     (case Allow (sv_buckets sv) (ev_tick ev) (cl_Name c) (st_apiLimiter st) of
        (ok, rl) \<Rightarrow> (ok, st\<lparr>st_apiLimiter := rl\<rparr>))"

text \<open>The endpoint's handler; the client is \<open>None\<close> for public endpoints.\<close>

definition run_handler :: "('l, 't, 'd, 'r, 'lim) server \<Rightarrow> env \<Rightarrow> handler \<Rightarrow> 'd Client option \<Rightarrow> request \<Rightarrow>
    accessInfo \<Rightarrow> ('l, 't, 'lim) state \<Rightarrow> ('l, 't, 'lim) outcome option" where
  "run_handler sv ev h c rq ai st =
     (case (h, c) of
        (HIndex, _) \<Rightarrow> Some (writeJSON 200 (IndexBody apiIndex), ai, st)
      | (HHealth, _) \<Rightarrow> Some (writeJSON 200 HealthBody, ai, st)
      | (HStatus, _) \<Rightarrow> (case handleStatus sv ev st of (r, st') \<Rightarrow> Some (r, ai, st'))
      | (HWhoami, Some cl) \<Rightarrow> Some (handleWhoami cl, ai, st)
      | (HLinks, Some cl) \<Rightarrow> handleLinks sv ev cl rq ai st
      | (HLinksBatch, Some cl) \<Rightarrow> Some (handleLinksBatch sv ev cl rq ai st)
      | (_, None) \<Rightarrow> None)"

definition find_endpoint :: "request \<Rightarrow> apiEndpoint option" where
  "find_endpoint rq = find (\<lambda>ep. ep_path ep = TrimSuffix (rq_Path rq) ''/'') apiEndpoints"

definition handleAPI :: "('l, 't, 'd, 'r, 'lim) server \<Rightarrow> env \<Rightarrow> request \<Rightarrow> accessInfo \<Rightarrow>
    ('l, 't, 'lim) state \<Rightarrow> ('l, 't, 'lim) outcome option" where
  "handleAPI sv ev rq ai st =
     (case allowAPIIP sv ev rq st of
        (False, st1) \<Rightarrow> Some (rate_limited, ai, st1)
      | (True, st1) \<Rightarrow>
          (case find_endpoint rq of
             None \<Rightarrow> Some (writeAPIError 404 ''not_found'' (Lit ''unknown endpoint''), ai, st1)
           | Some ep \<Rightarrow>
               (case requireMethod rq (ep_methods ep) of
                  Some r \<Rightarrow> Some (r, ai, st1)
                | None \<Rightarrow>
                    if ep_auth ep = authPublic then run_handler sv ev (ep_handle ep) None rq ai st1
                    else
                      (case authenticate sv rq of
                         Inl r \<Rightarrow> Some (r, ai, st1)
                       | Inr c \<Rightarrow>
                           (let ai1 = ai\<lparr>ai_Client := cl_Name c\<rparr>
                            in if ep_auth ep = authAdmin \<and> \<not> cl_IsAdmin c then
                                 Some (writeAPIError 403 ''forbidden'' (Lit ''admin required''), ai1, st1)
                               else if ep_auth ep = authAny then
                                 (case allowAPI sv ev c st1 of
                                    (False, st2) \<Rightarrow> Some (rate_limited, ai1, st2)
                                  | (True, st2) \<Rightarrow> run_handler sv ev (ep_handle ep) (Some c) rq ai1 st2)
                               else run_handler sv ev (ep_handle ep) (Some c) rq ai1 st1)))))"

end
