(* ===== verification/UrlApiProps.thy ===== *)
theory UrlApiProps
  imports UrlApi
begin

text \<open>
  What the API guarantees: a request changes only links in its client's namespaces and only after
  authentication, every handler keeps the store invariant, listings show only accessible links, and
  the filtered listing of a client with several namespaces is complete.
\<close>

subsection \<open>Keys a client can obtain\<close>

lemma FirstNamespace_access: "FirstNamespace c \<noteq> [] \<Longrightarrow> HasPrefix k (FirstNamespace c) \<Longrightarrow> CanAccess c k"
  by (auto simp: FirstNamespace_def CanAccess_def split: list.splits if_splits)

lemma select_key_gen:
  "select_key bo req db = Inr k \<Longrightarrow>
   req_ExplicitKey req = k \<and> k \<noteq> [] \<or>
   (\<exists>gen isFree. req_ExplicitKey req = [] \<and> req_Gen req = Some gen \<and> gen isFree = Inr k)"
  by (auto simp: select_key_def split: if_splits option.splits sum.splits)

lemma choose_gen_PReq:
  assumes "choose_gen sv c rnd target = (PReq req, note)"
  shows "req_Target req = target \<and> req_ExplicitKey req = [] \<and>
    (\<forall>gen isFree k. req_Gen req = Some gen \<longrightarrow> gen isFree = Inr k \<longrightarrow> CanAccess c k)"
proof (cases "MatchRules (sv_rules sv) target")
  case None
  with assms have ns: "FirstNamespace c \<noteq> []" and r: "req = \<lparr>req_Target = target, req_Rule = [],
      req_Owner = cl_Name c, req_ExplicitKey = [],
      req_Gen = Some (\<lambda>isFree. GenerateRandomKey (FirstNamespace c) isFree rnd)\<rparr>"
    by (auto simp: choose_gen_def Let_def split: if_splits)
  have "HasPrefix k (FirstNamespace c)" if "GenerateRandomKey (FirstNamespace c) isFree rnd = Inr k"
    for isFree k
    using that random_attempts_Inr by (fastforce simp: GenerateRandomKey_def HasPrefix_iff split: if_splits)
  with ns r show ?thesis by (auto intro: FirstNamespace_access)
next
  case (Some rv)
  obtain rule vars where rv: "rv = (rule, vars)" by (cases rv)
  with assms Some have "req = \<lparr>req_Target = target, req_Rule = rule_Name rule,
      req_Owner = cl_Name c, req_ExplicitKey = [], req_Gen = Some (rule_gen c rule vars)\<rparr>"
    by (auto simp: choose_gen_def Let_def split: if_splits sum.splits)
  then show ?thesis by (auto simp: rule_gen_def split: sum.splits if_splits)
qed

text \<open>A request that \<open>prepareCreate\<close> lets through to the store.\<close>

definition own_request :: "('l, 't, 'd, 'r, 'lim) server \<Rightarrow> 'd Client \<Rightarrow> CreateRequest \<Rightarrow> bool" where
  "own_request sv c req \<longleftrightarrow>
     (\<exists>raw. canonicalizeTarget (sv_url sv) raw = Inr (req_Target req)) \<and>
     (\<forall>bo db k. select_key (bo :: ('l, 't) bolt) req db = Inr k \<longrightarrow> CanAccess c k)"

lemma prepareCreate_PReq:
  assumes "prepareCreate sv db c rnd raw key = (PReq req, note)"
  shows "own_request sv c req"
proof -
  from assms obtain target where t: "canonicalizeTarget (sv_url sv) raw = Inr target"
    by (auto simp: prepareCreate_def split: sum.splits)
  show ?thesis
  proof (cases "key = []")
    case False
    with assms t have "CanAccess c key" "req_ExplicitKey req = key" "req_Target req = target"
      by (auto simp: prepareCreate_def split: sum.splits if_splits)
    with False t show ?thesis by (auto simp: own_request_def dest: select_key_explicit)
  next
    case True
    with assms t have "choose_gen sv c rnd target = (PReq req, note)"
      by (auto simp: prepareCreate_def split: option.splits)
    note g = choose_gen_PReq [OF this]
    then have "CanAccess c k" if "select_key bo req db = Inr k" for bo :: "('l, 't) bolt" and db k
      using select_key_gen [OF that] by auto
    with g t show ?thesis by (auto simp: own_request_def)
  qed
qed

lemma prepare_items_own:
  "prepare_items sv db c rnd i items = (rs, reqs, nt) \<Longrightarrow> (j, req) \<in> set reqs \<Longrightarrow> own_request sv c req"
proof (induction sv db c rnd i items arbitrary: rs reqs nt rule: prepare_items.induct)
  case (1 sv db c rnd i)
  then show ?case by simp
next
  case (2 sv db c rnd i target key items)
  obtain p n0 where p: "prepareCreate sv db c (rnd i) target key = (p, n0)"
    by (cases "prepareCreate sv db c (rnd i) target key")
  obtain rs' reqs' n' where r: "prepare_items sv db c rnd (Suc i) items = (rs', reqs', n')"
    by (cases "prepare_items sv db c rnd (Suc i) items")
  have rec: "own_request sv c req" if "(j, req) \<in> set reqs'" by (rule 2(1) [OF p [symmetric] r that])
  have "(j, req) \<in> set reqs' \<or> p = PReq req"
    using 2(2,3) p r by (cases p) (auto simp: Let_def)
  then show ?case using rec p by (auto intro: prepareCreate_PReq)
qed

subsection \<open>Which keys an operation may change\<close>

context bolt_db
begin

lemma createInTx_changes:
  assumes "store_inv bo db" and "createInTx bo now req db = (r, db')"
    and "fits req" and "link_table bo db' k \<noteq> link_table bo db k"
  shows "select_key bo req db = Inr k"
proof (cases r)
  case (Inl e)
  with assms(2,3) have "db' = db" using createInTx_Inl by (auto simp: fits_def)
  with assms(4) show ?thesis by simp
next
  case (Inr lc)
  obtain l b where "lc = (l, b)" by (cases lc)
  with Inr assms(2) have "createInTx bo now req db = (Inr (l, b), db')" by simp
  with assms(1) show ?thesis
  proof (rule createInTx_Inr)
    assume "links_get bo db' = (links_get bo db)(link_Key l \<mapsto> Encoded (l\<lparr>link_Key := []\<rparr>))"
      "select_key bo req db = Inr (link_Key l)"
    then show ?thesis using assms(4) by (auto simp: link_table_def split: if_splits)
  qed (use assms(4) in simp)
qed

lemma create_items_changes:
  assumes "store_inv bo db" and "create_items bo now i reqs db = (rs, db')"
    and "\<And>req. req \<in> set reqs \<Longrightarrow> fits req" and "link_table bo db' k \<noteq> link_table bo db k"
  shows "\<exists>req\<in>set reqs. \<exists>db0. select_key bo req db0 = Inr k"
  using assms
proof (induction reqs arbitrary: i db rs)
  case Nil
  then show ?case by simp
next
  case (Cons req reqs)
  obtain r db1 where r: "createInTx bo (now i) req db = (r, db1)"
    by (cases "createInTx bo (now i) req db")
  obtain rs' where rs': "create_items bo now (Suc i) reqs db1 = (rs', db')"
    using Cons.prems(2) r by (auto split: prod.splits)
  have fit: "fits req" by (rule Cons.prems(3)) simp
  have inv1: "store_inv bo db1" using createInTx_inv [OF Cons.prems(1) r] fit by (simp add: fits_def)
  show ?case
  proof (cases "link_table bo db1 k = link_table bo db k")
    case True
    with Cons.IH [OF inv1 rs'] Cons.prems(3,4) show ?thesis by auto
  next
    case False
    then show ?thesis using createInTx_changes [OF Cons.prems(1) r fit] by auto
  qed
qed

lemma Create_changes:
  assumes "store_inv bo db" and "Create bo commit now req db = (r, db')"
    and "fits req" and "link_table bo db' k \<noteq> link_table bo db k"
  shows "select_key bo req db = Inr k"
  using assms(2) unfolding Create_def
  by (cases rule: db_Update_cases) (use assms(1,3,4) createInTx_changes in auto)

lemma CreateBatch_changes:
  assumes "store_inv bo db" and "CreateBatch bo commit now reqs db = (r, db')"
    and "\<And>req. req \<in> set reqs \<Longrightarrow> fits req" and "link_table bo db' k \<noteq> link_table bo db k"
  shows "\<exists>req\<in>set reqs. \<exists>db0. select_key bo req db0 = Inr k"
proof -
  from assms(2,4) have "db_Update commit
      (\<lambda>s. case create_items bo now 0 reqs s of (rs, s') \<Rightarrow> (Inr rs, s')) db = (r, db')"
    by (auto simp: CreateBatch_def split: if_splits)
  then show ?thesis
  proof (cases rule: db_Update_cases)
    case (commit v)
    then have "create_items bo now 0 reqs db = (v, db')" by (auto split: prod.splits)
    from create_items_changes [OF assms(1) this assms(3,4)] show ?thesis by simp
  qed (use assms(4) in simp)
qed

lemma Update_changes:
  assumes "store_inv bo db" and "Update bo commit now key target db = (r, db')"
  shows "store_inv bo db'" and "link_table bo db' k \<noteq> link_table bo db k \<Longrightarrow> k = key"
proof -
  have "store_inv bo db' \<and> (link_table bo db' k \<noteq> link_table bo db k \<longrightarrow> k = key)"
    using assms(2) unfolding Update_def
  proof (cases rule: db_Update_cases)
    case (commit v)
    from updateInTx_Inr(1,4) [OF assms(1) commit(2)] show ?thesis by auto
  qed (use assms(1) in auto)
  then show "store_inv bo db'" "link_table bo db' k \<noteq> link_table bo db k \<Longrightarrow> k = key" by auto
qed

lemma Delete_changes:
  assumes "store_inv bo db" and "Delete bo commit key db = (r, db')"
  shows "store_inv bo db'" and "link_table bo db' k \<noteq> link_table bo db k \<Longrightarrow> k = key"
proof -
  have "store_inv bo db' \<and> (link_table bo db' k \<noteq> link_table bo db k \<longrightarrow> k = key)"
    using assms(2) unfolding Delete_def
  proof (cases rule: db_Update_cases)
    case (commit v)
    from deleteInTx_Inr(1,2) [OF assms(1), of key db'] commit(2) show ?thesis by auto
  qed (use assms(1) in auto)
  then show "store_inv bo db'" "link_table bo db' k \<noteq> link_table bo db k \<Longrightarrow> k = key" by auto
qed

end

subsection \<open>The handlers\<close>

definition own_change :: "('l, 't, 'd, 'r, 'lim) server \<Rightarrow> 'd Client \<Rightarrow> ('l, 't) db \<Rightarrow> ('l, 't) db \<Rightarrow> bool" where
  "own_change sv c db db' \<longleftrightarrow> store_inv (sv_bolt sv) db' \<and>
     (\<forall>k. link_table (sv_bolt sv) db' k \<noteq> link_table (sv_bolt sv) db k \<longrightarrow> CanAccess c k)"

text \<open>Escaping lengthens a target of 8192 bytes to far less than the largest bbolt key, and a URL with a
  host has a text.\<close>

definition targets_fit :: "('l, 't, 'd, 'r, 'lim) server \<Rightarrow> bool" where
  "targets_fit sv \<longleftrightarrow> (\<forall>raw t. canonicalizeTarget (sv_url sv) raw = Inr t \<longrightarrow> t \<noteq> [] \<and> length t \<le> MaxKeySize)"

lemma own_change_refl: "store_inv (sv_bolt sv) db \<Longrightarrow> own_change sv c db db"
  by (simp add: own_change_def)

lemma own_request_fits: "targets_fit sv \<Longrightarrow> own_request sv c req \<Longrightarrow> fits req"
  by (auto simp: targets_fit_def own_request_def fits_def)

lemma st_db_notes [simp]:
  "st_db (set_error ev se st) = st_db st"
  "st_db (note_opt ev e st) = st_db st" "st_db (note_error ev x st) = st_db st"
  "st_db (snd (storeError ev x st)) = st_db st" "st_db (snd (writeInternalError ev se st)) = st_db st"
  by (simp_all add: set_error_def note_opt_def note_error_def storeError_def writeInternalError_def split: option.split)

lemma st_db_note_results [simp]: "st_db (note_results ev stored st) = st_db st"
proof -
  have "st_db (fold (\<lambda>res s. case res_Err res of None \<Rightarrow> s | Some e \<Rightarrow> note_error ev e s) stored st) = st_db st"
    by (induction stored arbitrary: st) (auto split: option.splits)
  then show ?thesis by (simp add: note_results_def)
qed

text \<open>The new database of each handler, read off its definition.\<close>

lemma createLink_db:
  "createLink sv ev c rq ai st = (r, ai', st') \<Longrightarrow>
   st_db st' = st_db st \<or>
   (\<exists>req x. own_request sv c req \<and>
      Create (sv_bolt sv) (ev_commit ev) (ev_now ev 0) req (st_db st) = (x, st_db st'))"
proof -
  assume a: "createLink sv ev c rq ai st = (r, ai', st')"
  show ?thesis
  proof (cases "decodeJSON (rq_link_body rq)")
    case (Inl x)
    with a show ?thesis by (simp add: createLink_def)
  next
    case (Inr tk)
    obtain target key where tk: "tk = (target, key)" by (cases tk)
    obtain p nt where p: "prepareCreate sv (st_db st) c (ev_rand ev 0) target key = (p, nt)"
      by (cases "prepareCreate sv (st_db st) c (ev_rand ev 0) target key")
    show ?thesis
    proof (cases p)
      case (PReq req)
      obtain x db' where cr: "Create (sv_bolt sv) (ev_commit ev) (ev_now ev 0) req (st_db st) = (x, db')"
        by (cases "Create (sv_bolt sv) (ev_commit ev) (ev_now ev 0) req (st_db st)")
      have "st_db st' = db'"
        using a Inr tk p PReq cr
        by (cases x) (auto simp: createLink_def Let_def storeError_def split: prod.splits)
      with cr prepareCreate_PReq [of sv "st_db st" c "ev_rand ev 0" target key req nt] p PReq
      show ?thesis by blast
    qed (use a Inr tk p in \<open>auto simp: createLink_def Let_def split: prod.splits\<close>)
  qed
qed

lemma handleLinksBatch_db:
  "handleLinksBatch sv ev c rq ai st = (r, ai', st') \<Longrightarrow>
   st_db st' = st_db st \<or>
   (\<exists>reqs x. (\<forall>req\<in>set reqs. own_request sv c req) \<and>
      CreateBatch (sv_bolt sv) (ev_commit ev) (ev_now ev) reqs (st_db st) = (x, st_db st'))"
proof -
  assume a: "handleLinksBatch sv ev c rq ai st = (r, ai', st')"
  show ?thesis
  proof (cases "\<exists>items. decodeJSON (rq_batch_body rq) = Inr items \<and> items \<noteq> [] \<and> length items \<le> maxBatchCreate")
    case False
    with a show ?thesis
      by (auto simp: handleLinksBatch_def not_le split: sum.splits if_splits)
  next
    case True
    then obtain items where i: "decodeJSON (rq_batch_body rq) = Inr items" "items \<noteq> []"
      "\<not> length items > maxBatchCreate" by auto
    obtain results reqs nt where p: "prepare_items sv (st_db st) c (ev_rand ev) 0 items = (results, reqs, nt)"
      by (cases "prepare_items sv (st_db st) c (ev_rand ev) 0 items")
    have own: "\<forall>req\<in>set (map snd reqs). own_request sv c req"
      using prepare_items_own [OF p] by auto
    obtain x db' where cr: "CreateBatch (sv_bolt sv) (ev_commit ev) (ev_now ev) (map snd reqs) (st_db st) = (x, db')"
      by (cases "CreateBatch (sv_bolt sv) (ev_commit ev) (ev_now ev) (map snd reqs) (st_db st)")
    have "reqs = [] \<and> st_db st' = st_db st \<or> st_db st' = db'"
      using a i p cr
      by (cases x) (auto simp: handleLinksBatch_def Let_def writeInternalError_def split: if_splits)
    with own cr show ?thesis by blast
  qed
qed

lemma updateLink_db:
  "updateLink sv ev c rq ai st = (r, ai', st') \<Longrightarrow>
   st_db st' = st_db st \<or>
   (\<exists>key target x. CanAccess c key \<and>
      Update (sv_bolt sv) (ev_commit ev) (ev_now ev 0) key target (st_db st) = (x, st_db st'))"
  by (auto simp: updateLink_def storeError_def split: sum.splits prod.splits if_splits)

lemma deleteLink_db:
  "deleteLink sv ev c rq ai st = (r, ai', st') \<Longrightarrow>
   st_db st' = st_db st \<or>
   (\<exists>key x. CanAccess c key \<and> Delete (sv_bolt sv) (ev_commit ev) key (st_db st) = (x, st_db st'))"
  by (auto simp: deleteLink_def storeError_def Let_def split: sum.splits prod.splits if_splits)

lemma getLink_db: "getLink sv ev c rq ai st = (r, ai', st') \<Longrightarrow> st_db st' = st_db st"
  by (auto simp: getLink_def storeError_def Let_def split: sum.splits if_splits)

lemma listLinks_db: "listLinks sv ev c rq ai st = Some (r, ai', st') \<Longrightarrow> st_db st' = st_db st"
  by (auto simp: listLinks_def writeInternalError_def Let_def split: option.splits sum.splits if_splits)

lemma handleStatus_db: "handleStatus sv ev st = (r, st') \<Longrightarrow> st_db st' = st_db st"
  by (auto simp: handleStatus_def writeInternalError_def Let_def split: sum.splits)

lemma handleStatus_body: "handleStatus sv ev st = (r, st') \<Longrightarrow> rs_body r \<noteq> ListBody vs nx"
  by (auto simp: handleStatus_def writeInternalError_def writeAPIError_def writeJSON_def Let_def split: sum.splits)

lemma handler_own_change:
  assumes B: "bolt_db (sv_bolt sv) vl vt" and fit: "targets_fit sv" and inv: "store_inv (sv_bolt sv) (st_db st)"
    and run: "run_handler sv ev h (Some c) rq ai st = Some (r, ai', st')"
  shows "own_change sv c (st_db st) (st_db st')"
proof -
  have same: "own_change sv c (st_db st) (st_db st')" if "st_db st' = st_db st"
    using that inv by (simp add: own_change_refl)
  have create: "own_change sv c (st_db st) (st_db st')" if "createLink sv ev c rq ai st = (r, ai', st')"
    using createLink_db [OF that]
  proof (elim disjE exE conjE)
    fix req x
    assume q: "own_request sv c req" "Create (sv_bolt sv) (ev_commit ev) (ev_now ev 0) req (st_db st) = (x, st_db st')"
    note f = own_request_fits [OF fit q(1)]
    show ?thesis
      using bolt_db.Create_inv [OF B inv q(2)] bolt_db.Create_changes [OF B inv q(2) f] q(1)
      by (auto simp: own_change_def own_request_def)
  qed (rule same)
  have batch: "own_change sv c (st_db st) (st_db st')" if "handleLinksBatch sv ev c rq ai st = (r, ai', st')"
    using handleLinksBatch_db [OF that]
  proof (elim disjE exE conjE)
    fix reqs x
    assume q: "\<forall>req\<in>set reqs. own_request sv c req"
      "CreateBatch (sv_bolt sv) (ev_commit ev) (ev_now ev) reqs (st_db st) = (x, st_db st')"
    have f: "fits req" if "req \<in> set reqs" for req using that q(1) own_request_fits [OF fit] by blast
    have "CanAccess c k" if "link_table (sv_bolt sv) (st_db st') k \<noteq> link_table (sv_bolt sv) (st_db st) k" for k
      using bolt_db.CreateBatch_changes [OF B inv q(2) f that] q(1) by (auto simp: own_request_def)
    then show ?thesis using bolt_db.CreateBatch_inv [OF B inv q(2) f] by (auto simp: own_change_def)
  qed (rule same)
  have update: "own_change sv c (st_db st) (st_db st')" if "updateLink sv ev c rq ai st = (r, ai', st')"
    using updateLink_db [OF that]
  proof (elim disjE exE conjE)
    fix key target x
    assume q: "CanAccess c key"
      "Update (sv_bolt sv) (ev_commit ev) (ev_now ev 0) key target (st_db st) = (x, st_db st')"
    show ?thesis using bolt_db.Update_changes [OF B inv q(2)] q(1) by (auto simp: own_change_def)
  qed (rule same)
  have delete: "own_change sv c (st_db st) (st_db st')" if "deleteLink sv ev c rq ai st = (r, ai', st')"
    using deleteLink_db [OF that]
  proof (elim disjE exE conjE)
    fix key x
    assume q: "CanAccess c key" "Delete (sv_bolt sv) (ev_commit ev) key (st_db st) = (x, st_db st')"
    show ?thesis using bolt_db.Delete_changes [OF B inv q(2)] q(1) by (auto simp: own_change_def)
  qed (rule same)
  show ?thesis
  proof (cases h)
    case HLinks
    with run have "handleLinks sv ev c rq ai st = Some (r, ai', st')" by (simp add: run_handler_def)
    then show ?thesis
      using create update delete same getLink_db [of sv ev c rq ai st r ai' st'] listLinks_db [of sv ev c rq ai st r ai' st']
      by (auto simp: handleLinks_def split: if_splits option.splits)
  qed (use run same batch in \<open>auto simp: run_handler_def handleStatus_db split: prod.splits\<close>)
qed

lemma run_public_db:
  "run_handler sv ev h None rq ai st = Some (r, ai', st') \<Longrightarrow> st_db st' = st_db st"
  by (cases h) (auto simp: run_handler_def handleStatus_db split: prod.splits)

lemma allowAPIIP_db: "allowAPIIP sv ev rq st = (ok, st') \<Longrightarrow> st_db st' = st_db st"
  by (auto simp: allowAPIIP_def split: if_splits prod.splits)

lemma allowAPI_db: "allowAPI sv ev c st = (ok, st') \<Longrightarrow> st_db st' = st_db st"
  by (auto simp: allowAPI_def split: prod.splits)

text \<open>One request, seen from the database: nothing changes, or a handler ran for an authenticated
  client.\<close>

lemma handleAPI_cases:
  assumes "handleAPI sv ev rq ai st = Some (r, ai', st')"
  obtains (quiet) "st_db st' = st_db st"
    | (client) c ep ai1 st1 where "authenticate sv rq = Inr c" and "find_endpoint rq = Some ep"
      and "ep_auth ep = authAdmin \<longrightarrow> cl_IsAdmin c" and "st_db st1 = st_db st"
      and "rq_Method rq \<in> set (ep_methods ep)"
      and "run_handler sv ev (ep_handle ep) (Some c) rq ai1 st1 = Some (r, ai', st')"
proof -
  obtain ok st1 where ip: "allowAPIIP sv ev rq st = (ok, st1)" by (cases "allowAPIIP sv ev rq st")
  note d1 = allowAPIIP_db [OF ip]
  show thesis
  proof (cases "ok \<and> (\<exists>ep. find_endpoint rq = Some ep \<and> requireMethod rq (ep_methods ep) = None)")
    case False
    with assms ip have "st' = st1" by (auto simp: handleAPI_def split: bool.splits option.splits)
    with d1 show thesis by (intro quiet) simp
  next
    case True
    then obtain ep where ep: "ok" "find_endpoint rq = Some ep" "requireMethod rq (ep_methods ep) = None" by blast
    have mth: "rq_Method rq \<in> set (ep_methods ep)"
      using ep(3) by (simp add: requireMethod_def split: if_splits)
    show thesis
    proof (cases "ep_auth ep = authPublic")
      case pub: True
      with assms ip ep have "run_handler sv ev (ep_handle ep) None rq ai st1 = Some (r, ai', st')"
        by (simp add: handleAPI_def)
      then have "st_db st' = st_db st1" by (rule run_public_db)
      with d1 show thesis by (intro quiet) simp
    next
      case nonpub: False
      show thesis
      proof (cases "authenticate sv rq")
        case (Inl x)
        with assms ip ep nonpub have "st' = st1" by (simp add: handleAPI_def)
        with d1 show thesis by (intro quiet) simp
      next
        case (Inr c)
        obtain ok2 st2 where lim: "allowAPI sv ev c st1 = (ok2, st2)" by (cases "allowAPI sv ev c st1")
        note d2 = allowAPI_db [OF lim]
        show thesis
        proof (cases "ep_auth ep = authAdmin")
          case True
          with assms ip ep Inr d1 mth show thesis
            by (cases "cl_IsAdmin c")
              (auto simp: handleAPI_def Let_def intro: quiet client [OF Inr ep(2)])
        next
          case False
          with nonpub have any: "ep_auth ep = authAny" by (cases "ep_auth ep") auto
          with assms ip ep Inr lim d1 d2 mth show thesis
            by (cases ok2) (auto simp: handleAPI_def Let_def intro: quiet client [OF Inr ep(2)])
        qed
      qed
    qed
  qed
qed

lemma endpoint_in_table: "find_endpoint rq = Some ep \<Longrightarrow> ep \<in> set apiEndpoints"
  by (auto simp: find_endpoint_def find_Some_iff)

lemma batch_endpoint: "ep \<in> set apiEndpoints \<Longrightarrow> ep_handle ep = HLinksBatch \<Longrightarrow> ep_methods ep = [''POST'']"
  by (auto simp: apiEndpoints_def)

lemma get_is_quiet:
  assumes "run_handler sv ev h (Some c) rq ai st = Some (r, ai', st')" and "rq_Method rq = ''GET''"
    and "h \<noteq> HLinksBatch"
  shows "st_db st' = st_db st"
  using assms getLink_db [of sv ev c rq ai st r ai' st'] listLinks_db [of sv ev c rq ai st r ai' st']
  by (cases h) (auto simp: run_handler_def handleLinks_def handleStatus_db split: if_splits prod.splits)

subsection \<open>Filtered listings\<close>

lemma take_batch_spec:
  assumes "int (length out) < limit"
  shows "take_batch c limit ls out cur =
    (let acc = filter (\<lambda>l. CanAccess c (link_Key l)) ls; need = nat limit - length out
     in if length acc < need then (out @ acc, cur)
        else (out @ take need acc, link_Key (acc ! (need - 1))))"
  using assms
proof (induction c limit ls out cur rule: take_batch.induct)
  case (1 c limit out cur)
  then have "0 < nat limit - length out" by simp
  then show ?case by (simp add: Let_def)
next
  case (2 c limit l ls out cur)
  show ?case
  proof (cases "CanAccess c (link_Key l)")
    case False
    with 2 show ?thesis by (simp add: Let_def)
  next
    case True
    show ?thesis
    proof (cases "int (length (out @ [l])) \<ge> limit")
      case full: True
      with 2(2) have "nat limit - length out = 1" by simp
      with True full show ?thesis by (simp add: Let_def)
    next
      case False
      define need where "need = nat limit - length (out @ [l])"
      have n: "nat limit - length out = Suc need" "0 < need" using False by (simp_all add: need_def)
      have "take_batch c limit ls (out @ [l]) cur =
        (let acc = filter (\<lambda>l. CanAccess c (link_Key l)) ls
         in if length acc < need then ((out @ [l]) @ acc, cur)
            else ((out @ [l]) @ take need acc, link_Key (acc ! (need - 1))))"
        using 2(1) [OF refl] True False by (simp add: Let_def need_def)
      then show ?thesis using True False n by (auto simp: Let_def nth_Cons')
    qed
  qed
qed

context bolt_db
begin

lemma filtered_loop_spec:
  fixes c :: "'d Client" and limit :: int
  assumes inv: "store_inv bo db" and no_empty: "links_get bo db [] = None"
    and lim: "clamp_limit limit = limit"
    and G: "\<And>k. links_get bo db k \<noteq> None \<Longrightarrow> Get bo db k = Inr (G k)"
  shows "length (keys_after bo db [] cur) < fuel \<Longrightarrow> int (length out) < limit \<Longrightarrow>
    filtered_loop fuel bo db c limit out cur =
      (let ks = filter (CanAccess c) (keys_after bo db [] cur); need = nat limit - length out
       in Some (Inr (out @ map G (take need ks), if length ks < need then [] else ks ! (need - 1))))"
proof (induction fuel arbitrary: out cur)
  case 0
  then show ?case by simp
next
  case (Suc fuel)
  let ?ks = "keys_after bo db [] cur" and ?m = "nat limit" and ?acc = "CanAccess c"
  define need where "need = nat limit - length out"
  have need: "0 < need" "need \<le> ?m" using Suc.prems(2) by (simp_all add: need_def)
  from List_segment [OF inv, of cur "[]" limit] obtain ls where
    ls: "List_links bo db [] limit cur = Inr (ls, if length ?ks < ?m then [] else ?ks ! (?m - 1))"
      "map Inr ls = map (Get bo db) (take ?m ?ks)"
    unfolding lim by (metis (no_types) HasPrefix_Nil)
  have stored: "links_get bo db k \<noteq> None" if "k \<in> set ?ks" for k
  proof -
    from that have "k \<in> fst ` set (bucket_entries (links_ops bo) (links db))" by (auto simp: keys_after_def)
    then show ?thesis by (metis L.entries_get map_of_eq_None_iff)
  qed
  have Gk: "link_Key (G k) = k" if "k \<in> set ?ks" for k
    using Get_key [OF G [OF stored [OF that]]] .
  have "(map Inr ls :: (store_error + Link) list) = map Inr (map G (take ?m ?ks))"
    unfolding ls(2) map_map comp_def
  proof (rule map_cong [OF refl])
    fix k
    assume "k \<in> set (take ?m ?ks)"
    then have "k \<in> set ?ks" by (rule in_set_takeD)
    then show "Get bo db k = Inr (G k)" by (rule G [OF stored])
  qed
  then have lsG: "ls = map G (take ?m ?ks)" by (metis inj_Inr inj_map_eq_map)
  have acc: "filter (\<lambda>l. ?acc (link_Key l)) ls = map G (filter ?acc (take ?m ?ks))"
    unfolding lsG filter_map comp_def
  proof (rule arg_cong [where f = "map G"], rule filter_cong [OF refl])
    fix k
    assume "k \<in> set (take ?m ?ks)"
    then have "k \<in> set ?ks" by (rule in_set_takeD)
    then show "CanAccess c (link_Key (G k)) = CanAccess c k" by (simp add: Gk)
  qed
  have split: "filter ?acc ?ks = filter ?acc (take ?m ?ks) @ filter ?acc (drop ?m ?ks)"
    by (metis append_take_drop_id filter_append)
  note tb = take_batch_spec [OF Suc.prems(2), of c ls cur, folded need_def, unfolded acc Let_def length_map]
  show ?case
  proof (cases "length (filter ?acc (take ?m ?ks)) < need")
    case False
    let ?f = "filter ?acc (take ?m ?ks)"
    have i: "need - 1 < length ?f" using False need by simp
    then have "?f ! (need - 1) \<in> set ?f" by (rule nth_mem)
    then have "?f ! (need - 1) \<in> set ?ks" by (auto dest: in_set_takeD)
    then have k: "link_Key (G (?f ! (need - 1))) = ?f ! (need - 1)" by (rule Gk)
    have t: "take need (filter ?acc ?ks) = take need ?f" "filter ?acc ?ks ! (need - 1) = ?f ! (need - 1)"
      using False i by (simp_all add: split nth_append)
    have full: "int (length (out @ map G (take need ?f))) \<ge> limit"
      using False need Suc.prems(2) by (simp add: need_def)
    have "\<not> length (filter ?acc ?ks) < need" using False by (simp add: split)
    then show ?thesis
      using False Suc.prems(2) ls(1) tb full i
      by (simp add: need_def [symmetric] Let_def t(1) t(2) [simplified] take_map k [simplified])
  next
    case True
    then have notfull: "\<not> int (length (out @ map G (filter ?acc (take ?m ?ks)))) \<ge> limit"
      using need by (simp add: need_def)
    show ?thesis
    proof (cases "length ?ks < ?m")
      case short: True
      then have "take ?m ?ks = ?ks" by simp
      with True notfull short ls(1) tb Suc.prems(2) show ?thesis
        by (simp add: need_def [symmetric] Let_def)
    next
      case False
      have i: "?m - 1 < length ?ks" using False need by simp
      have "map_of (bucket_entries (links_ops bo) (links db)) [] = None"
        using no_empty by (simp add: L.entries_get)
      then have "[] \<notin> set ?ks" by (auto simp: keys_after_def map_of_eq_None_iff)
      with i have ne: "?ks ! (?m - 1) \<noteq> []" by (metis nth_mem)
      have nxt: "keys_after bo db [] (?ks ! (?m - 1)) = drop ?m ?ks"
        using keys_after_next(1) [OF L.entries_sorted i ne] need by simp
      let ?out = "out @ map G (filter ?acc (take ?m ?ks))"
      have rec: "filtered_loop fuel bo db c limit ?out (?ks ! (?m - 1)) =
        (let ks = filter ?acc (drop ?m ?ks); need' = nat limit - length ?out
         in Some (Inr (?out @ map G (take need' ks), if length ks < need' then [] else ks ! (need' - 1))))"
        using Suc.IH [of "?ks ! (?m - 1)" ?out] notfull Suc.prems(1) i need unfolding nxt by simp
      have n': "nat limit - length ?out = need - length (filter ?acc (take ?m ?ks))"
        by (simp add: need_def)
      have step: "filtered_loop (Suc fuel) bo db c limit out cur =
          filtered_loop fuel bo db c limit ?out (?ks ! (?m - 1))"
        using True False notfull ls(1) tb Suc.prems(2) ne by simp
      define A B where "A = filter ?acc (take ?m ?ks)" and "B = filter ?acc (drop ?m ?ks)"
      have "(out @ map G A) @ map G (take (need - length A) B) = out @ map G (take need (A @ B))"
        using True by (simp add: A_def [symmetric])
      moreover have "(if length B < need - length A then [] else B ! (need - length A - 1)) =
          (if length (A @ B) < need then [] else (A @ B) ! (need - 1))"
        using True by (auto simp: A_def [symmetric] nth_append)
      ultimately show ?thesis
        unfolding step rec Let_def n' split need_def [symmetric]
        unfolding A_def [symmetric] B_def [symmetric]
        by (simp only:)
    qed
  qed
qed

lemma keys_after_le_Count: "length (keys_after bo db pfx cur) \<le> Count bo db"
  using length_filter_le [of _ "map fst (bucket_entries (links_ops bo) (links db))"]
  by (simp add: keys_after_def Count_def)

lemma stored_Get: "store_inv bo db \<Longrightarrow> links_get bo db k \<noteq> None \<Longrightarrow> Get bo db k = Inr (projr (Get bo db k))"
proof -
  assume "store_inv bo db" and "links_get bo db k \<noteq> None"
  then obtain l where "links_get bo db k = Some (Encoded l)" by (metis not_None_eq store_inv_linksD)
  then show ?thesis by (simp add: Get_def)
qed

lemma listFiltered_spec:
  assumes "store_inv bo db" and "links_get bo db [] = None" and "clamp_limit limit = limit"
  shows "listFiltered bo db c limit cursor =
    (let ks = filter (CanAccess c) (keys_after bo db [] cursor); n = nat limit
     in Some (Inr (map (\<lambda>k. projr (Get bo db k)) (take n ks), if length ks < n then [] else ks ! (n - 1))))"
proof -
  have pos: "int (length ([] :: Link list)) < limit" using clamp_limit_pos [of limit] assms(3) by simp
  have "length (keys_after bo db [] cursor) < Count bo db + 2"
    using keys_after_le_Count [of db "[]" cursor] by simp
  from filtered_loop_spec [OF assms stored_Get [OF assms(1)] this pos, of c]
  show ?thesis by (simp add: listFiltered_def)
qed

end

subsection \<open>What a listing may show\<close>

lemma list_scan_prefix:
  "list_scan pfx limit es acc = Inr (ls, nx) \<Longrightarrow> (\<And>l. l \<in> set acc \<Longrightarrow> HasPrefix (link_Key l) pfx) \<Longrightarrow>
   l \<in> set ls \<Longrightarrow> HasPrefix (link_Key l) pfx"
proof (induction pfx limit es acc rule: list_scan.induct)
  case (1 pfx limit acc)
  then show ?case by simp
next
  case (2 pfx limit k v es acc)
  show ?case
  proof (cases "HasPrefix k pfx")
    case False
    with 2 show ?thesis by simp
  next
    case True
    with 2(2) obtain l0 where l0: "unmarshal_link v = Inr l0" by (auto split: sum.splits)
    let ?acc = "acc @ [l0\<lparr>link_Key := k\<rparr>]"
    have acc: "HasPrefix (link_Key x) pfx" if "x \<in> set ?acc" for x using that 2(3) True by auto
    show ?thesis
    proof (cases "int (length ?acc) \<ge> limit")
      case full: True
      with 2(2) True l0 have "ls = ?acc" by (auto simp: Let_def)
      with 2(4) acc show ?thesis by simp
    next
      case False
      with 2(2) True l0 have "list_scan pfx limit es ?acc = Inr (ls, nx)" by (simp add: Let_def)
      with 2(1) [of l0 ?acc] True l0 False acc 2(4) show ?thesis by simp
    qed
  qed
qed

lemma List_links_prefix:
  "List_links bo db pfx limit cursor = Inr (ls, nx) \<Longrightarrow> l \<in> set ls \<Longrightarrow> HasPrefix (link_Key l) pfx"
  unfolding List_links_def by (erule list_scan_prefix) auto

lemma take_batch_access:
  "take_batch c limit ls out cur = (out', nx) \<Longrightarrow> (\<And>l. l \<in> set out \<Longrightarrow> CanAccess c (link_Key l)) \<Longrightarrow>
   l \<in> set out' \<Longrightarrow> CanAccess c (link_Key l)"
proof (induction c limit ls out cur rule: take_batch.induct)
  case (2 c limit l0 ls out cur)
  define o1 where "o1 = (if CanAccess c (link_Key l0) then out @ [l0] else out)"
  have o: "CanAccess c (link_Key x)" if "x \<in> set o1" for x
    using that 2(3) by (auto simp: o1_def split: if_splits)
  have tb: "take_batch c limit (l0 # ls) out cur =
      (if int (length o1) \<ge> limit then (o1, link_Key l0) else take_batch c limit ls o1 cur)"
    by (simp add: Let_def o1_def)
  show ?case
  proof (cases "int (length o1) \<ge> limit")
    case True
    with 2(2) tb have "out' = o1" by simp
    with o 2(4) show ?thesis by simp
  next
    case False
    with 2(2) tb have r: "take_batch c limit ls o1 cur = (out', nx)" by simp
    show ?thesis by (rule 2(1) [OF o1_def False r o 2(4)])
  qed
qed simp

lemma filtered_loop_access:
  "filtered_loop fuel bo db c limit out cur = Some (Inr (ls, nx)) \<Longrightarrow>
   (\<And>l. l \<in> set out \<Longrightarrow> CanAccess c (link_Key l)) \<Longrightarrow> l \<in> set ls \<Longrightarrow> CanAccess c (link_Key l)"
proof (induction fuel arbitrary: out cur)
  case 0
  then show ?case by simp
next
  case (Suc fuel)
  show ?case
  proof (cases "int (length out) < limit")
    case False
    with Suc.prems show ?thesis by auto
  next
    case True
    with Suc.prems(1) obtain batch n where b: "List_links bo db [] limit cur = Inr (batch, n)"
      by (auto split: sum.splits)
    obtain out' next' where t: "take_batch c limit batch out cur = (out', next')"
      by (cases "take_batch c limit batch out cur")
    have o: "CanAccess c (link_Key x)" if "x \<in> set out'" for x
      using take_batch_access [OF t Suc.prems(2) that] .
    show ?thesis
    proof (cases "int (length out') \<ge> limit \<or> n = []")
      case True
      with \<open>int (length out) < limit\<close> b t Suc.prems(1) have "ls = out'" by (auto split: if_splits)
      with o Suc.prems(3) show ?thesis by simp
    next
      case False
      with True b t Suc.prems(1) have "filtered_loop fuel bo db c limit out' n = Some (Inr (ls, nx))"
        by simp
      from Suc.IH [OF this o Suc.prems(3)] show ?thesis .
    qed
  qed
qed

lemma CanAccess_prefix: "CanAccess c ns \<Longrightarrow> HasPrefix k ns \<Longrightarrow> CanAccess c k"
  by (auto simp: CanAccess_def intro: HasPrefix_trans)

lemma listLinks_shows:
  assumes "listLinks sv ev c rq ai st = Some (r, ai', st')" and "rs_body r = ListBody vs nx" and "v \<in> set vs"
  shows "CanAccess c (lv_Key v)"
proof -
  let ?ns = "query_get rq ''namespace''" and ?cur = "query_get rq ''cursor''"
  let ?bo = "sv_bolt sv" and ?db = "st_db st"
  have eb: "rs_body (writeAPIError a b m) \<noteq> ListBody vs nx" for a b m
    by (simp add: writeAPIError_def writeJSON_def)
  from assms(1,2) obtain limit ls nx' where l: "list_limit rq = Some limit"
    "?ns \<noteq> [] \<longrightarrow> CanAccess c ?ns"
    "(if ?ns \<noteq> [] then Some (List_links ?bo ?db ?ns limit ?cur)
      else if cl_IsAdmin c then Some (List_links ?bo ?db [] limit ?cur)
      else if length (cl_Namespaces c) = 1 then Some (List_links ?bo ?db (cl_Namespaces c ! 0) limit ?cur)
      else listFiltered ?bo ?db c limit ?cur) = Some (Inr (ls, nx'))"
    "r = writeJSON 200 (ListBody (map (linkView_of sv) ls) nx')"
    using eb
    by (auto simp: listLinks_def Let_def writeInternalError_def split: option.splits if_splits sum.splits)
  have "vs = map (linkView_of sv) ls" using assms(2) l(4) by (simp add: writeJSON_def)
  with assms(3) obtain x where x: "x \<in> set ls" "lv_Key v = link_Key x" by (auto simp: linkView_of_def)
  have "CanAccess c (link_Key x)"
  proof (cases "?ns = [] \<and> cl_IsAdmin c")
    case True
    then show ?thesis by (simp add: CanAccess_def)
  next
    case False
    show ?thesis
    proof (cases "?ns = []")
      case False
      with l(2,3) x(1) show ?thesis by (auto intro: CanAccess_prefix dest: List_links_prefix)
    next
      case True
      show ?thesis
      proof (cases "length (cl_Namespaces c) = 1")
        case one: True
        then have "cl_Namespaces c ! 0 \<in> set (cl_Namespaces c)" by simp
        moreover have "HasPrefix (cl_Namespaces c ! 0) (cl_Namespaces c ! 0)" by (simp add: HasPrefix_def)
        ultimately have "CanAccess c (cl_Namespaces c ! 0)" unfolding CanAccess_def by blast
        moreover have "HasPrefix (link_Key x) (cl_Namespaces c ! 0)"
          using l(3) x(1) True one False by (auto dest: List_links_prefix)
        ultimately show ?thesis by (rule CanAccess_prefix)
      next
        case many: False
        with l(3) True False have "listFiltered ?bo ?db c limit ?cur = Some (Inr (ls, nx'))" by simp
        then show ?thesis unfolding listFiltered_def
          by (rule filtered_loop_access) (use x(1) in auto)
      qed
    qed
  qed
  with x(2) show ?thesis by simp
qed

subsection \<open>A server to try the properties on\<close>

lemma length_splitHostPort:
  "length (fst (splitHostPort hp)) \<le> length hp" "length (snd (splitHostPort hp)) \<le> length hp"
  by (auto simp: splitHostPort_def unbracket_def split: option.splits)

lemma simple_lib_fit:
  assumes "canonicalizeTarget simple_lib raw = Inr t"
  shows "t \<noteq> [] \<and> length t \<le> MaxKeySize"
proof
  show "t \<noteq> []" by (rule su.canonical_nonempty [OF assms])
  have len: "length raw \<le> 8192"
    using assms by (auto simp: canonicalizeTarget_def maxTargetLen_def split: if_splits)
  from assms show "length t \<le> MaxKeySize"
  proof (rule canonicalizeTarget_Inr)
    fix v scheme port
    assume a: "url_Parse simple_lib raw = Inr v" "scheme \<in> {''http'', ''https''}" "port = Port v \<or> port = []"
      "t = url_String simple_lib (v\<lparr>url_Host := build_host (ToLower (Hostname v)) port, url_Scheme := scheme\<rparr>)"
    from a(1) obtain sc n where "simple_url sc (drop n raw) = Inr v"
      by (auto simp: simple_lib_def split: if_splits)
    then have host: "length (url_Host v) \<le> length raw" "length (url_rest v) \<le> length raw"
      by (auto simp: simple_url_Inr intro: le_trans [OF length_takeWhile_le] le_trans [OF length_dropWhile_le])
    have h: "length (Hostname v) \<le> length raw" "length port \<le> length raw"
      using length_splitHostPort [of "url_Host v"] host(1) a(3) by (auto simp: Hostname_def Port_def)
    have "length (build_host (ToLower (Hostname v)) port) \<le> length (Hostname v) + length port + 3"
      by (simp add: build_host_def JoinHostPort_def)
    with h host(2) len a(2) show ?thesis
      by (auto simp: a(4) simple_lib_def MaxKeySize_def)
  qed
qed

definition ex_server :: "((string \<times> raw) list, (string \<times> string) list, string, string, nat) server" where
  "ex_server = \<lparr>sv_bolt = al_bolt, sv_rules = [], sv_clients =
      [client_of id \<lparr>cc_Name = ''alice'', cc_Enabled = True, cc_Admin = False,
         cc_Namespaces = [''/a/'', ''/b/''], cc_Tokens = [''tok'']\<rparr>],
     sv_sha = id, sv_url = simple_lib, sv_short = (\<lambda>k. ''https://s.org'' @ k), sv_buckets = ex_bucket,
     sv_cfg = DefaultConfig, sv_publicURL = ''https://s.org''\<rparr>"

definition ex_state :: "((string \<times> raw) list, (string \<times> string) list, nat) state" where
  "ex_state = \<lparr>st_db = ex_two, st_status = NewStatusState 5,
     st_apiIPLimiter = NewRateLimiter ex_bucket 1 2 5, st_apiLimiter = NewRateLimiter ex_bucket 1 2 5,
     st_redirectLimiter = NewRateLimiter ex_bucket 1 2 5\<rparr>"

definition ex_status_env :: status_env where
  "ex_status_env = \<lparr>se_now = 9, se_stats = Inr \<lparr>so_FileSizeBytes = 32768, so_TxN = 1, so_OpenTxN = 0, so_FreePageN = 0,
       so_PendingPageN = 0, so_FreeAlloc = 0\<rparr>,
     se_logs = \<lparr>lf_CurrentFile = [], lf_CurrentSizeBytes = 0, lf_OldestRetained = [], lf_Files = 0\<rparr>,
     se_maintenance = None, se_listeners = [], se_goroutines = 5, se_memory = 4096\<rparr>"

definition ex_env :: env where
  "ex_env = \<lparr>ev_commit = None, ev_now = (\<lambda>i. 10 + int i),
     ev_rand = (\<lambda>i. [1, 2, 3, 4, 5, 6, 7, 8, 9, 10, 11, word_of_nat i]), ev_tick = 0, ev_errAt = 7, ev_status = ex_status_env\<rparr>"

definition ex_request :: "string \<Rightarrow> string \<Rightarrow> (string \<times> string) list \<Rightarrow> string \<times> string \<Rightarrow> request" where
  "ex_request meth path query body = \<lparr>rq_Method = meth, rq_Path = path,
     rq_Authorization = ''Bearer tok'', rq_Query = query, rq_link_body = (Inr body, False),
     rq_batch_body = (Inr [body], False), rq_rate_key = ''192.0.2.1''\<rparr>"

lemma ex_server_bolt: "sv_bolt ex_server = al_bolt"
  by (simp add: ex_server_def)

lemma ex_server_ok:
  "bolt_db (sv_bolt ex_server) (\<lambda>_. True) (\<lambda>_. True)" "targets_fit ex_server"
  "store_inv (sv_bolt ex_server) (st_db ex_state)"
  using bolt_db_al simple_lib_fit store_inv_ex_two
  by (auto simp: ex_server_def ex_state_def targets_fit_def)

subsection \<open>Properties of the API\<close>

text \<open>C15: the API changes what a key redirects to only for a client that presented a valid token and
  whose namespaces hold that key, and never on a GET; every other request leaves all links as they
  were.\<close>

theorem api_changes_only_own_links:
  assumes "bolt_db (sv_bolt sv) vl vt" and "targets_fit sv" and "store_inv (sv_bolt sv) (st_db st)"
    and "handleAPI sv ev rq ai st = Some (r, ai', st')"
    and "link_table (sv_bolt sv) (st_db st') k \<noteq> link_table (sv_bolt sv) (st_db st) k"
  shows "\<exists>c. authenticate sv rq = Inr c \<and> CanAccess c k \<and> rq_Method rq \<noteq> ''GET''"
  using assms(4)
proof (cases rule: handleAPI_cases)
  case quiet
  with assms(5) show ?thesis by simp
next
  case (client c ep ai1 st1)
  have "own_change sv c (st_db st1) (st_db st')"
    by (rule handler_own_change [OF assms(1,2) _ client(6)]) (simp add: client(4) assms(3))
  with assms(5) client(4) have "CanAccess c k" by (auto simp: own_change_def)
  moreover have "rq_Method rq \<noteq> ''GET''"
  proof
    assume g: "rq_Method rq = ''GET''"
    with client(5) batch_endpoint [OF endpoint_in_table [OF client(2)]] have "ep_handle ep \<noteq> HLinksBatch"
      by auto
    from get_is_quiet [OF client(6) g this] client(4) assms(5) show False by simp
  qed
  ultimately show ?thesis using client(1) by blast
qed

theorem api_changes_only_own_links_example:
  "\<exists>r ai' st'. handleAPI ex_server ex_env (ex_request ''DELETE'' ''/.api/v1/links'' [(''key'', ''/a/x'')] ([], []))
      no_info ex_state = Some (r, ai', st') \<and> link_table al_bolt (st_db st') ''/a/x'' = None \<and>
    (\<exists>c. authenticate ex_server (ex_request ''DELETE'' ''/.api/v1/links'' [(''key'', ''/a/x'')] ([], [])) = Inr c \<and>
       CanAccess c ''/a/x'')"
proof -
  let ?rq = "ex_request ''DELETE'' ''/.api/v1/links'' [(''key'', ''/a/x'')] ([], [])"
  have e: "case handleAPI ex_server ex_env ?rq no_info ex_state of None \<Rightarrow> False
    | Some (r, ai', st') \<Rightarrow> link_table al_bolt (st_db st') ''/a/x'' = None" by code_simp
  then obtain r ai' st' where h: "handleAPI ex_server ex_env ?rq no_info ex_state = Some (r, ai', st')"
    "link_table al_bolt (st_db st') ''/a/x'' = None" by (auto split: option.splits)
  have "link_table al_bolt (st_db ex_state) ''/a/x'' = Some ''http://a/''" by code_simp
  with h(2) have "link_table (sv_bolt ex_server) (st_db st') ''/a/x'' \<noteq>
      link_table (sv_bolt ex_server) (st_db ex_state) ''/a/x''" by (simp add: ex_server_def)
  from api_changes_only_own_links [OF ex_server_ok h(1) this] h show ?thesis by blast
qed

text \<open>A run of API requests, each with its environment.\<close>

fun api_run :: "('l, 't, 'd, 'r, 'lim) server \<Rightarrow> (env \<times> request) list \<Rightarrow> ('l, 't, 'lim) state \<Rightarrow>
    ('l, 't, 'lim) state" where
  "api_run sv [] st = st"
| "api_run sv ((ev, rq) # rest) st =
     (case handleAPI sv ev rq no_info st of
        None \<Rightarrow> api_run sv rest st
      | Some (r, ai, st') \<Rightarrow> api_run sv rest st')"

lemma handleAPI_inv:
  assumes "bolt_db (sv_bolt sv) vl vt" and "targets_fit sv" and "store_inv (sv_bolt sv) (st_db st)"
    and "handleAPI sv ev rq ai st = Some (r, ai', st')"
  shows "store_inv (sv_bolt sv) (st_db st')"
  using assms(4)
proof (cases rule: handleAPI_cases)
  case quiet
  with assms(3) show ?thesis by simp
next
  case (client c ep ai1 st1)
  have "own_change sv c (st_db st1) (st_db st')"
    by (rule handler_own_change [OF assms(1,2) _ client(6)]) (simp add: client(4) assms(3))
  then show ?thesis by (simp add: own_change_def)
qed

text \<open>C18: no sequence of API requests, from any clients, with any failing commits and any random
  bytes, breaks the store: the two buckets stay inverse to each other.\<close>

theorem api_runs_keep_the_store:
  assumes "bolt_db (sv_bolt sv) vl vt" and "targets_fit sv" and "store_inv (sv_bolt sv) (st_db st)"
  shows "store_inv (sv_bolt sv) (st_db (api_run sv rqs st))"
  using assms(3)
proof (induction rqs arbitrary: st)
  case (Cons er rqs)
  obtain ev rq where er: "er = (ev, rq)" by (cases er)
  show ?case
  proof (cases "handleAPI sv ev rq no_info st")
    case None
    with Cons er show ?thesis by simp
  next
    case (Some o')
    obtain r ai st' where o': "o' = (r, ai, st')" by (cases o')
    have "store_inv (sv_bolt sv) (st_db st')"
      using handleAPI_inv [OF assms(1,2) Cons.prems] Some o' by simp
    with Cons.IH Some o' er show ?thesis by simp
  qed
qed simp

theorem api_runs_keep_the_store_example:
  "store_inv al_bolt (st_db (api_run ex_server
     [(ex_env, ex_request ''POST'' ''/.api/v1/links'' [] (''http://new/'', [])),
      (ex_env, ex_request ''PUT'' ''/.api/v1/links'' [] (''http://new2/'', ''/a/y''))] ex_state))"
  by (rule api_runs_keep_the_store [OF ex_server_ok, unfolded ex_server_bolt])

text \<open>A listing never shows a link outside the namespaces of the client that asked for it,
  whatever namespace, limit or cursor the request names.\<close>

theorem listing_shows_only_own_links:
  assumes "handleAPI sv ev rq ai st = Some (r, ai', st')" and "rs_body r = ListBody vs next_cursor"
    and "v \<in> set vs"
  shows "\<exists>c. authenticate sv rq = Inr c \<and> CanAccess c (lv_Key v)"
proof -
  have err: "rs_body (writeAPIError a b m) \<noteq> ListBody vs next_cursor"
    "rs_body (set_header h x (writeAPIError a b m)) \<noteq> ListBody vs next_cursor" for a b m h x
    by (simp_all add: writeAPIError_def writeJSON_def set_header_def)
  have hdl: "CanAccess c (lv_Key v)"
    if "run_handler sv ev h (Some c) rq ai1 st1 = Some (r, ai', st')" for h c ai1 st1
  proof (cases h)
    case HLinks
    with that have l: "handleLinks sv ev c rq ai1 st1 = Some (r, ai', st')" by (simp add: run_handler_def)
    have "listLinks sv ev c rq ai1 st1 = Some (r, ai', st')"
      using l assms(2)
      by (auto simp: handleLinks_def getLink_def createLink_def updateLink_def deleteLink_def Let_def
          storeError_def write_apiError_def finishCreate_def writeAPIError_def writeJSON_def
          key_required_def forbidden_key_def decodeJSON_def requireMethod_def set_header_def
          split: if_splits option.splits sum.splits prod.splits prepared.splits decode_error.splits)
    then show ?thesis by (rule listLinks_shows [OF _ assms(2,3)])
  next
    case HLinksBatch
    with that assms(2) show ?thesis
      by (auto simp: run_handler_def handleLinksBatch_def Let_def writeInternalError_def writeAPIError_def
          writeJSON_def decodeJSON_def
          split: if_splits sum.splits prod.splits decode_error.splits)
  qed (use that assms(2) in \<open>auto simp: run_handler_def handleWhoami_def writeJSON_def Let_def
        split: prod.splits dest: handleStatus_body\<close>)
  show ?thesis
    using assms(1,2) err hdl
    by (auto simp: handleAPI_def rate_limited_def requireMethod_def authenticate_def run_handler_def
        writeJSON_def Let_def
        split: prod.splits bool.splits option.splits if_splits sum.splits handler.splits
        dest: handleStatus_body)
qed

theorem listing_shows_only_own_links_example:
  "\<exists>r ai' st' vs nx c. handleAPI ex_server ex_env (ex_request ''GET'' ''/.api/v1/links'' [] ([], [])) no_info
      ex_state = Some (r, ai', st') \<and> rs_body r = ListBody vs nx \<and> length vs = 2 \<and>
    authenticate ex_server (ex_request ''GET'' ''/.api/v1/links'' [] ([], [])) = Inr c \<and>
    CanAccess c (lv_Key (vs ! 0))"
proof -
  let ?rq = "ex_request ''GET'' ''/.api/v1/links'' [] ([], [])"
  have "case handleAPI ex_server ex_env ?rq no_info ex_state of None \<Rightarrow> False
    | Some (r, ai', st') \<Rightarrow> (case rs_body r of ListBody vs nx \<Rightarrow> length vs = 2 | _ \<Rightarrow> False)" by code_simp
  then obtain r ai' st' vs nx where h: "handleAPI ex_server ex_env ?rq no_info ex_state = Some (r, ai', st')"
    "rs_body r = ListBody vs nx" "length vs = 2"
    by (auto split: option.splits resp_body.splits)
  then have "vs ! 0 \<in> set vs" by simp
  from listing_shows_only_own_links [OF h(1,2) this] h show ?thesis by blast
qed

text \<open>C24: the listing of a client with several namespaces, which pages through the whole store and
  filters, returns exactly the next \<open>limit\<close> accessible links after the cursor in key order, and a
  cursor from which the rest follows (empty when fewer than \<open>limit\<close> were left).\<close>

theorem filtered_listing_is_complete:
  assumes "bolt_db bo vl vt" and "store_inv bo db" and "links_get bo db [] = None"
    and "1 \<le> limit" and "limit \<le> 1000"
  shows "\<exists>ls next_cursor. listFiltered bo db c limit cursor = Some (Inr (ls, next_cursor)) \<and>
    (let ks = filter (CanAccess c) (keys_after bo db [] cursor)
     in map Inr ls = map (Get bo db) (take (nat limit) ks) \<and>
        next_cursor = (if length ks < nat limit then [] else ks ! (nat limit - 1)))"
proof -
  note B = assms(1)
  let ?ks = "filter (CanAccess c) (keys_after bo db [] cursor)"
  have cl: "clamp_limit limit = limit" using assms(4,5) by (simp add: clamp_limit_def Let_def)
  have st: "Get bo db k = Inr (projr (Get bo db k))" if "k \<in> set (take (nat limit) ?ks)" for k
  proof (rule bolt_db.stored_Get [OF B assms(2)])
    from that have "k \<in> fst ` set (bucket_entries (links_ops bo) (links db))"
      by (auto simp: keys_after_def dest!: in_set_takeD)
    moreover have "bucket (links_ops bo) vl" using B by (simp add: bolt_db_def)
    ultimately show "links_get bo db k \<noteq> None"
      by (metis bucket.entries_get map_of_eq_None_iff)
  qed
  let ?g = "\<lambda>k. projr (Get bo db k)" and ?nx = "if length ?ks < nat limit then [] else ?ks ! (nat limit - 1)"
  have "listFiltered bo db c limit cursor = Some (Inr (map ?g (take (nat limit) ?ks), ?nx))"
    using bolt_db.listFiltered_spec [OF B assms(2,3) cl, of c cursor] by (simp add: Let_def)
  moreover have "map Inr (map ?g (take (nat limit) ?ks)) = map (Get bo db) (take (nat limit) ?ks)"
    unfolding map_map comp_def by (rule map_cong [OF refl]) (rule st [symmetric])
  ultimately show ?thesis unfolding Let_def by blast
qed

theorem filtered_listing_is_complete_example:
  "\<exists>ls nx. listFiltered al_bolt ex_two (sv_clients ex_server ! 0) 1 [] = Some (Inr (ls, nx)) \<and>
     length ls = 1 \<and> nx = ''/a/x''"
proof -
  let ?c = "sv_clients ex_server ! 0"
  have g: "links_get al_bolt ex_two [] = None" by code_simp
  have ks: "filter (CanAccess ?c) (keys_after al_bolt ex_two [] []) = [''/a/x'', ''/a/y'']" by code_simp
  obtain ls nx where l: "listFiltered al_bolt ex_two ?c 1 [] = Some (Inr (ls, nx))"
    "map Inr ls = map (Get al_bolt ex_two) (take (nat 1) [''/a/x'', ''/a/y''])"
    "nx = (if length [''/a/x'', ''/a/y''] < nat 1 then [] else [''/a/x'', ''/a/y''] ! (nat 1 - 1))"
    using filtered_listing_is_complete [OF bolt_db_al store_inv_ex_two g, of 1 ?c "[]"]
    unfolding Let_def ks by auto
  have "length ls = length (take (nat 1) [''/a/x'', ''/a/y''])" using arg_cong [OF l(2), of length] by simp
  then have "length ls = 1" by simp
  with l(1,3) show ?thesis by simp
qed

text \<open>C36: the API answers every request: the loop of the filtered listing ends within the fuel given to
  it, and no endpoint reaches a handler that needs a client without one.\<close>

theorem api_always_answers:
  assumes "bolt_db (sv_bolt sv) vl vt" and "store_inv (sv_bolt sv) (st_db st)"
    and "links_get (sv_bolt sv) (st_db st) [] = None"
  shows "handleAPI sv ev rq ai st \<noteq> None"
proof -
  have list: "listLinks sv ev c rq ai1 st1 \<noteq> None" if "st_db st1 = st_db st" for c ai1 st1
  proof (cases "list_limit rq")
    case None
    then show ?thesis by (simp add: listLinks_def Let_def)
  next
    case (Some limit)
    then have "1 \<le> limit" "limit \<le> 1000"
      by (auto simp: list_limit_def Let_def split: if_splits option.splits)
    then have cl: "clamp_limit limit = limit" by (simp add: clamp_limit_def Let_def)
    obtain y where "listFiltered (sv_bolt sv) (st_db st1) c limit (query_get rq ''cursor'') = Some y"
      using bolt_db.listFiltered_spec [OF assms(1,2,3) cl, of c "query_get rq ''cursor''"]
      unfolding \<open>st_db st1 = st_db st\<close> Let_def by blast
    then show ?thesis using Some
      by (auto simp: listLinks_def writeInternalError_def Let_def split: option.splits sum.splits if_splits)
  qed
  have run: "run_handler sv ev h (Some c) rq ai1 st1 \<noteq> None" if "st_db st1 = st_db st" for h c ai1 st1
    using list [OF that]
    by (cases h) (simp_all del: not_None_eq add: run_handler_def handleLinks_def split: option.split prod.split)
  have pub: "run_handler sv ev (ep_handle ep) None rq ai st1 \<noteq> None"
    if "find_endpoint rq = Some ep" "ep_auth ep = authPublic" for ep st1
    using endpoint_in_table [OF that(1)] that(2) by (auto simp: apiEndpoints_def run_handler_def)
  show ?thesis
    using run pub
    by (auto simp: handleAPI_def Let_def dest!: allowAPIIP_db allowAPI_db
        split: prod.splits bool.splits option.splits sum.splits)
qed

theorem api_always_answers_example:
  "\<exists>out. handleAPI ex_server ex_env (ex_request ''GET'' ''/.api/v1/links'' [] ([], [])) no_info ex_state = Some out"
proof -
  have "links_get (sv_bolt ex_server) (st_db ex_state) [] = None" by code_simp
  from api_always_answers [OF ex_server_ok(1,3) this] show ?thesis by blast
qed

lemma match_digests_in: "match_digests p c ds m = Some c' \<Longrightarrow> m = Some c' \<or> c' = c \<and> p \<in> set ds"
  by (auto simp: match_digests_eq split: if_splits)

lemma match_clients_in:
  "match_clients p cs m = Some c \<Longrightarrow> m = Some c \<or> c \<in> set cs \<and> p \<in> set (cl_digests c)"
  by (induction p cs m rule: match_clients.induct) (auto dest: match_digests_in)

text \<open>C20: an endpoint that is not public answers below 400 only to a configured client: the request
  carries a bearer token of that client's digests, and the status endpoint's client is an
  administrator.\<close>

theorem protected_endpoints_need_a_token:
  assumes "handleAPI sv ev rq ai st = Some (r, ai', st')" and "rs_status r < 400"
    and "find_endpoint rq = Some ep" and "ep_auth ep \<noteq> authPublic"
  shows "\<exists>c token. c \<in> set (sv_clients sv) \<and> HasPrefix (rq_Authorization rq) ''Bearer '' \<and>
    token = TrimSpace (TrimPrefix (rq_Authorization rq) ''Bearer '') \<and> token \<noteq> [] \<and>
    sv_sha sv token \<in> set (cl_digests c) \<and> (ep_auth ep = authAdmin \<longrightarrow> cl_IsAdmin c)"
proof -
  have err: "rs_status (writeAPIError a b m) = a" "rs_status rate_limited = 429"
    "rs_status (set_header h x q) = rs_status q" for a b m h x q
    by (simp_all add: writeAPIError_def writeJSON_def rate_limited_def set_header_def)
  have unauth: "authenticate sv rq \<noteq> Inl y \<or> rs_status y = 401" for y
    by (auto simp: authenticate_def err split: if_splits option.splits)
  have bad: "requireMethod rq ms = Some y \<Longrightarrow> rs_status y = 405" for ms y
    by (auto simp: requireMethod_def err split: if_splits)
  obtain c where c: "authenticate sv rq = Inr c" "ep_auth ep = authAdmin \<longrightarrow> cl_IsAdmin c"
  proof (cases "authenticate sv rq")
    case (Inl y)
    with assms unauth [of y] bad show ?thesis
      by (auto simp: handleAPI_def err split: prod.splits bool.splits option.splits)
  next
    case (Inr c)
    with assms bad that [of c] show ?thesis
      by (auto simp: handleAPI_def err Let_def split: prod.splits bool.splits option.splits if_splits)
  qed
  from c(1) have a: "HasPrefix (rq_Authorization rq) ''Bearer ''"
    "Authenticate (sv_sha sv) (sv_clients sv) (TrimSpace (TrimPrefix (rq_Authorization rq) ''Bearer '')) = Some c"
    by (auto simp: authenticate_def split: if_splits option.splits)
  from a(2) show ?thesis
    using a(1) c(2) match_clients_in [of _ "sv_clients sv" None c]
    by (auto simp: Authenticate_def split: if_splits)
qed

theorem protected_endpoints_need_a_token_example:
  "\<exists>c. c \<in> set (sv_clients ex_server) \<and> sv_sha ex_server ''tok'' \<in> set (cl_digests c)"
proof -
  let ?rq = "ex_request ''GET'' ''/.api/v1/whoami'' [] ([], [])"
  let ?ep = "\<lparr>ep_methods = [''GET''], ep_path = apiBase @ ''/whoami'', ep_auth = authAny, ep_handle = HWhoami\<rparr>"
  have "case handleAPI ex_server ex_env ?rq no_info ex_state of None \<Rightarrow> False
    | Some (r, ai', st') \<Rightarrow> rs_status r < 400" by code_simp
  then obtain r ai' st' where h: "handleAPI ex_server ex_env ?rq no_info ex_state = Some (r, ai', st')"
    "rs_status r < 400" by (auto split: option.splits)
  have ep: "find_endpoint ?rq = Some ?ep" by code_simp
  have tok: "TrimSpace (TrimPrefix (rq_Authorization ?rq) ''Bearer '') = ''tok''" by code_simp
  from protected_endpoints_need_a_token [OF h ep] tok show ?thesis by auto
qed

end
