(* ===== verification/UrlServer.thy ===== *)
theory UrlServer
  imports Complex_Main UrlApi
begin

text \<open>
  The HTTP server of the URL shortener: \<open>urlshort/server.go\<close>, \<open>urlshort/redirect.go\<close> and
  \<open>urlshort/home.go\<close>. Addresses of \<open>net/netip\<close> are a parameter (\<open>ip_lib\<close>); \<open>net.SplitHostPort\<close>
  is defined as in the standard library. The middleware is the composition of the functions below in
  the order of \<open>wrap\<close>; a panic is what \<open>recoverMiddleware\<close> makes of it.
\<close>

subsection \<open>Addresses\<close>

text \<open>\<open>ip_key\<close> is what \<open>rateKey\<close> prints: the address for IPv4, the /64 prefix for IPv6.\<close>

record 'ip ip_lib =
  ip_Parse :: "string \<Rightarrow> 'ip option"
  ip_Unmap :: "'ip \<Rightarrow> 'ip"
  ip_Is4 :: "'ip \<Rightarrow> bool"
  ip_String :: "'ip \<Rightarrow> string"
  ip_Prefix64 :: "'ip \<Rightarrow> string option"

definition IndexByte :: "string \<Rightarrow> char \<Rightarrow> nat option" where
  "IndexByte s c = Index s [c]"

definition SplitHostPort :: "string \<Rightarrow> (string \<times> string) option" where
  "SplitHostPort hp =
     (case LastIndex hp '':'' of
        None \<Rightarrow> None
      | Some i \<Rightarrow>
          (case (if hd hp = CHR ''['' then
                   (case IndexByte hp (CHR '']'') of
                      None \<Rightarrow> None
                    | Some e \<Rightarrow> if e + 1 = i then Some (drop 1 (take e hp), 1, e + 1) else None)
                 else if CHR '':'' \<in> set (take i hp) then None
                 else Some (take i hp, 0, 0)) of
             None \<Rightarrow> None
           | Some (host, j, k) \<Rightarrow>
               if CHR ''['' \<in> set (drop j hp) then None
               else if CHR '']'' \<in> set (drop k hp) then None
               else Some (host, drop (i + 1) hp)))"

definition stripPort :: "string \<Rightarrow> string" where
  "stripPort addr = (case SplitHostPort addr of Some (host, _) \<Rightarrow> host | None \<Rightarrow> addr)"

text \<open>The right-to-left walk over \<open>X-Forwarded-For\<close>; the list is reversed, so an item is the
  leftmost one when nothing follows it. \<open>None\<close> when the loop breaks or ends.\<close>

fun forwarded_walk :: "'ip ip_lib \<Rightarrow> ('ip \<Rightarrow> bool) \<Rightarrow> string list \<Rightarrow> 'ip option" where
  "forwarded_walk lib trusted [] = None"
| "forwarded_walk lib trusted (item # rest) =
     (case ip_Parse lib (TrimSpace item) of
        None \<Rightarrow> None
      | Some a \<Rightarrow>
          (let cand = ip_Unmap lib a
           in if rest = [] \<or> \<not> trusted cand then Some cand else forwarded_walk lib trusted rest))"

definition clientIP :: "'ip ip_lib \<Rightarrow> ('ip \<Rightarrow> bool) \<Rightarrow> string \<Rightarrow> string \<Rightarrow> string \<Rightarrow> 'ip option" where
  "clientIP lib trusted remoteAddr xff xri0 =
     (case ip_Parse lib (stripPort remoteAddr) of
        None \<Rightarrow> None
      | Some d \<Rightarrow>
          (let direct = ip_Unmap lib d; xri = TrimSpace xri0
           in if \<not> trusted direct then Some direct
              else
                (case (if xff \<noteq> [] then forwarded_walk lib trusted (rev (SplitChar (CHR '','') xff))
                       else None) of
                   Some c \<Rightarrow> Some c
                 | None \<Rightarrow>
                     if xri \<noteq> [] then
                       (case ip_Parse lib xri of Some c \<Rightarrow> Some (ip_Unmap lib c) | None \<Rightarrow> Some direct)
                     else Some direct)))"

definition rateKey :: "'ip ip_lib \<Rightarrow> 'ip option \<Rightarrow> string" where
  "rateKey lib ip =
     (case ip of
        None \<Rightarrow> []
      | Some a \<Rightarrow>
          (let u = ip_Unmap lib a
           in if ip_Is4 lib u then ip_String lib u
              else (case ip_Prefix64 lib u of None \<Rightarrow> ip_String lib u | Some p \<Rightarrow> p)))"

subsection \<open>Requests and log entries\<close>

text \<open>\<open>hr_api\<close> is the part the API reads; the bodies in it are what decoding gives when the body is
  not limited, and the \<open>hr_limited\<close> fields when \<open>MaxBytesReader\<close> limits it. The clock gives the
  start and the microseconds until the handler is done.\<close>

record http_request =
  hr_api :: request
  hr_limited_link :: "(string \<times> string) body_in"
  hr_limited_batch :: "(string \<times> string) list body_in"
  hr_Host :: string
  hr_RequestURI :: string
  hr_IsAbs :: bool
  hr_RemoteAddr :: string
  hr_XFF :: string
  hr_XRealIP :: string
  hr_RequestID :: string
  hr_newID :: string
  hr_UserAgent :: string
  hr_Referer :: string
  hr_start :: int
  hr_micros :: int

record AccessEntry =
  ae_Timestamp :: int
  ae_Type :: string
  ae_RemoteIP :: string
  ae_Method :: string
  ae_Host :: string
  ae_Path :: string
  ae_Status :: int
  ae_info :: accessInfo
  ae_RequestID :: string
  ae_UserAgent :: string
  ae_Referer :: string
  ae_DurationMS :: rat
  ae_Bytes :: int

record 'ip middleware =
  mw_ip :: "'ip ip_lib"
  mw_trusted :: "('ip \<Rightarrow> bool) list"
  mw_allowedHosts :: "string list"
  mw_hsts :: string
  mw_HTTPSPort :: int
  mw_bytes :: "resp_body \<Rightarrow> int"
  mw_ACMEHandler :: "(http_request \<Rightarrow> response option) option"

definition isTrustedProxy :: "'ip middleware \<Rightarrow> 'ip \<Rightarrow> bool" where
  "isTrustedProxy mw ip \<longleftrightarrow> (\<exists>p\<in>set (mw_trusted mw). p ip)"

definition request_ip :: "'ip middleware \<Rightarrow> http_request \<Rightarrow> 'ip option" where
  "request_ip mw hr = clientIP (mw_ip mw) (isTrustedProxy mw) (hr_RemoteAddr hr) (hr_XFF hr) (hr_XRealIP hr)"

definition plain_headers :: "(string \<times> string) list" where
  "plain_headers = [(''X-Content-Type-Options'', ''nosniff''), (''Referrer-Policy'', ''no-referrer''),
     (''Cache-Control'', ''no-store'')]"

definition writePlainError :: "int \<Rightarrow> string \<Rightarrow> response" where
  "writePlainError status msg = \<lparr>rs_status = status, rs_headers = plain_headers, rs_body = PlainBody msg\<rparr>"

definition classifyAccessType :: "string \<Rightarrow> string" where
  "classifyAccessType path =
     (if HasPrefix path ''/.well-known/acme-challenge/'' then ''acme''
      else if HasPrefix path apiRoot then ''api''
      else if path = ''/'' then ''home''
      else ''redirect'')"

subsection \<open>The status recorder\<close>

record statusRecorder =
  sr_status :: int
  sr_bytes :: int

definition rec_WriteHeader :: "int \<Rightarrow> statusRecorder \<Rightarrow> statusRecorder" where
  "rec_WriteHeader code r = (if sr_status r = 0 then r\<lparr>sr_status := code\<rparr> else r)"

definition rec_Write :: "int \<Rightarrow> statusRecorder \<Rightarrow> statusRecorder" where
  "rec_Write n r =
     (let r1 = (if sr_status r = 0 then r\<lparr>sr_status := 200\<rparr> else r)
      in r1\<lparr>sr_bytes := sr_bytes r1 + n\<rparr>)"

subsection \<open>Routes\<close>

definition getHead :: "request \<Rightarrow> bool" where
  "getHead rq \<longleftrightarrow> rq_Method rq = ''GET'' \<or> rq_Method rq = ''HEAD''"

definition requireGetHead :: "request \<Rightarrow> response option" where
  "requireGetHead rq =
     (if getHead rq then None
      else Some (set_header ''Allow'' ''GET, HEAD'' (writePlainError 405 ''method not allowed'')))"

definition handleRedirect :: "('l, 't, 'd, 'r, 'lim) server \<Rightarrow> env \<Rightarrow> request \<Rightarrow> accessInfo \<Rightarrow>
    ('l, 't, 'lim) state \<Rightarrow> ('l, 't, 'lim) outcome" where
  "handleRedirect sv ev rq ai st =
     (if \<not> getHead rq then
        (set_header ''Allow'' ''GET, HEAD'' (writePlainError 405 ''method not allowed''), ai, st)
      else
        (let key = rq_Path rq
         in case Get (sv_bolt sv) (st_db st) key of
              Inl ErrNotFound \<Rightarrow> (writePlainError 404 ''404 page not found'', ai, st)
            | Inl e \<Rightarrow> (writePlainError 500 ''internal server error'', ai, set_error ev (StoreError e) st)
            | Inr l \<Rightarrow>
                (\<lparr>rs_status = 302, rs_headers = (''Location'', link_Target l) # plain_headers,
                  rs_body = (if rq_Method rq = ''GET''
                             then PlainBody (''Redirecting to '' @ link_Target l @ [CHR 0x0A]) else NoBody)\<rparr>,
                 ai\<lparr>ai_Type := ''redirect'', ai_Key := key, ai_Target := link_Target l, ai_Rule := link_Rule l\<rparr>,
                 st)))"

definition handleHome :: "request \<Rightarrow> response" where
  "handleHome rq =
     (case requireGetHead rq of
        Some r \<Rightarrow> r
      | None \<Rightarrow>
          \<lparr>rs_status = 200, rs_headers = (''Content-Type'', ''text/html; charset=utf-8'') # plain_headers,
           rs_body = (if rq_Method rq = ''HEAD'' then NoBody else HomeBody apiBase)\<rparr>)"

definition routeMain :: "('l, 't, 'd, 'r, 'lim) server \<Rightarrow> env \<Rightarrow> request \<Rightarrow> accessInfo \<Rightarrow>
    ('l, 't, 'lim) state \<Rightarrow> ('l, 't, 'lim) outcome option" where
  "routeMain sv ev rq ai st =
     (let p = rq_Path rq
      in if isAPIPath p then handleAPI sv ev rq ai st
         else if HasPrefix p ''/.well-known/'' then Some (writePlainError 404 ''404 page not found'', ai, st)
         else if p = ''/'' then Some (handleHome rq, ai, st)
         else if p = ''/robots.txt'' then
           Some (case requireGetHead rq of
                   Some r \<Rightarrow> (r, ai, st)
                 | None \<Rightarrow>
                     (\<lparr>rs_status = 200, rs_headers = [(''Content-Type'', ''text/plain; charset=utf-8''),
                         (''Cache-Control'', ''no-store'')],
                       rs_body = PlainBody (''User-agent: *'' @ [CHR 0x0A] @ ''Disallow: /'' @ [CHR 0x0A])\<rparr>,
                      ai, st))
         else if p = ''/favicon.ico'' then
           Some (case requireGetHead rq of
                   Some r \<Rightarrow> (r, ai, st)
                 | None \<Rightarrow> (\<lparr>rs_status = 204, rs_headers = [], rs_body = NoBody\<rparr>, ai, st))
         else Some (handleRedirect sv ev rq ai st))"

definition redirectToHTTPS :: "'ip middleware \<Rightarrow> http_request \<Rightarrow> response" where
  "redirectToHTTPS mw hr =
     (let host0 = stripPort (hr_Host hr);
          host = (if mw_HTTPSPort mw \<noteq> 443 then JoinHostPort host0 (itoa (mw_HTTPSPort mw))
                  else if Contains host0 '':'' then ''['' @ host0 @ '']'' else host0)
      in \<lparr>rs_status = 308,
          rs_headers = (''Location'', ''https://'' @ host @ hr_RequestURI hr) # plain_headers,
          rs_body = NoBody\<rparr>)"

subsection \<open>Middleware\<close>

text \<open>A route maps the request and the state to an outcome, or \<open>None\<close> when it panics.\<close>

type_synonym ('l, 't, 'lim) route =
  "http_request \<Rightarrow> accessInfo \<Rightarrow> ('l, 't, 'lim) state \<Rightarrow> ('l, 't, 'lim) outcome option"

type_synonym ('l, 't, 'lim) served = "(response \<times> AccessEntry list \<times> ('l, 't, 'lim) state) option"

text \<open>\<open>mw_bytes\<close> is how many bytes a body takes as it is written.\<close>

definition access_entry :: "'ip middleware \<Rightarrow> http_request \<Rightarrow> string \<Rightarrow> accessInfo \<Rightarrow> statusRecorder \<Rightarrow>
    AccessEntry" where
  "access_entry mw hr ident ai rec =
     \<lparr>ae_Timestamp = hr_start hr,
      ae_Type = (if ai_Type ai = [] then classifyAccessType (rq_Path (hr_api hr)) else ai_Type ai),
      ae_RemoteIP = (case request_ip mw hr of Some ip \<Rightarrow> ip_String (mw_ip mw) ip | None \<Rightarrow> stripPort (hr_RemoteAddr hr)),
      ae_Method = rq_Method (hr_api hr), ae_Host = hr_Host hr, ae_Path = rq_Path (hr_api hr),
      ae_Status = (if sr_status rec = 0 then 200 else sr_status rec), ae_info = ai, ae_RequestID = ident,
      ae_UserAgent = hr_UserAgent hr, ae_Referer = hr_Referer hr, ae_DurationMS = of_int (hr_micros hr) / 1000,
      ae_Bytes = sr_bytes rec\<rparr>"

definition accessLogMiddleware :: "'ip middleware \<Rightarrow> string \<Rightarrow> ('l, 't, 'lim) route \<Rightarrow> http_request \<Rightarrow>
    ('l, 't, 'lim) state \<Rightarrow> ('l, 't, 'lim) served" where
  "accessLogMiddleware mw ident route hr st =
     (case route hr no_info st of
        None \<Rightarrow> None
      | Some (r, ai, st') \<Rightarrow>
          (let rec = rec_WriteHeader (rs_status r) \<lparr>sr_status = 0, sr_bytes = 0\<rparr>
           in Some (r, [access_entry mw hr ident ai (if rs_body r = NoBody then rec else rec_Write (mw_bytes mw (rs_body r)) rec)],
                st')))"

definition rateLimitMiddleware :: "('l, 't, 'd, 'r, 'lim) server \<Rightarrow> 'ip middleware \<Rightarrow> env \<Rightarrow>
    (http_request \<Rightarrow> ('l, 't, 'lim) state \<Rightarrow> ('l, 't, 'lim) served) \<Rightarrow> http_request \<Rightarrow>
    ('l, 't, 'lim) state \<Rightarrow> ('l, 't, 'lim) served" where
  "rateLimitMiddleware sv mw ev k hr st =
     (if isAPIPath (rq_Path (hr_api hr)) then k hr st
      else
        (let key = rateKey (mw_ip mw) (request_ip mw hr);
             limited = set_header ''Retry-After'' ''1'' (writePlainError 429 ''rate limited'')
         in if key = [] then Some (limited, [], st)
            else (case Allow (sv_buckets sv) (ev_tick ev) key (st_redirectLimiter st) of
                    (ok, rl) \<Rightarrow>
                      (let st' = st\<lparr>st_redirectLimiter := rl\<rparr>
                       in if \<not> ok then Some (limited, [], st') else k hr st'))))"

definition bodyLimitMiddleware :: "http_request \<Rightarrow> http_request" where
  "bodyLimitMiddleware hr =
     (if isAPIPath (rq_Path (hr_api hr)) then
        hr\<lparr>hr_api := (hr_api hr)\<lparr>rq_link_body := hr_limited_link hr, rq_batch_body := hr_limited_batch hr\<rparr>\<rparr>
      else hr)"

definition hostCheck :: "'ip middleware \<Rightarrow> http_request \<Rightarrow> response option" where
  "hostCheck mw hr =
     (if rq_Method (hr_api hr) = ''CONNECT'' then Some (writePlainError 405 ''method not allowed'')
      else if hr_RequestURI hr = ''*'' then Some (writePlainError 400 ''asterisk-form request target not allowed'')
      else if hr_IsAbs hr then Some (writePlainError 400 ''absolute-form request target not allowed'')
      else
        (let host = stripPort (hr_Host hr)
         in if host = [] \<or> ToLower host \<notin> set (mw_allowedHosts mw)
            then Some (writePlainError 421 ''misdirected request'') else None))"

text \<open>\<open>wrap\<close>: recover, request ID, host check, body limit, rate limit, access log, route.\<close>

definition request_id :: "http_request \<Rightarrow> string" where
  "request_id hr = (if hr_RequestID hr = [] then hr_newID hr else hr_RequestID hr)"

definition recoverMiddleware :: "env \<Rightarrow> string \<Rightarrow> ('l, 't, 'lim) state \<Rightarrow> ('l, 't, 'lim) served \<Rightarrow>
    response \<times> AccessEntry list \<times> ('l, 't, 'lim) state" where
  "recoverMiddleware ev ident st out =
     (case out of
        None \<Rightarrow> (set_header ''X-Request-ID'' ident (writePlainError 500 ''internal server error''), [],
                 set_error ev Panicked st)
      | Some (r, es, st') \<Rightarrow> (set_header ''X-Request-ID'' ident r, es, st'))"

definition wrap :: "('l, 't, 'd, 'r, 'lim) server \<Rightarrow> 'ip middleware \<Rightarrow> env \<Rightarrow> ('l, 't, 'lim) route \<Rightarrow>
    http_request \<Rightarrow> ('l, 't, 'lim) state \<Rightarrow> response \<times> AccessEntry list \<times> ('l, 't, 'lim) state" where
  "wrap sv mw ev route hr0 st =
     (let ident = request_id hr0;
          hr = hr0\<lparr>hr_api := (hr_api hr0)\<lparr>rq_rate_key := rateKey (mw_ip mw) (request_ip mw hr0)\<rparr>\<rparr>
      in recoverMiddleware ev ident st
           (case hostCheck mw hr of
              Some r \<Rightarrow> Some (r, [], st)
            | None \<Rightarrow>
                rateLimitMiddleware sv mw ev (accessLogMiddleware mw ident route) (bodyLimitMiddleware hr) st))"

definition mainHandler :: "('l, 't, 'd, 'r, 'lim) server \<Rightarrow> 'ip middleware \<Rightarrow> env \<Rightarrow> http_request \<Rightarrow>
    ('l, 't, 'lim) state \<Rightarrow> response \<times> AccessEntry list \<times> ('l, 't, 'lim) state" where
  "mainHandler sv mw ev =
     wrap sv mw ev (\<lambda>hr ai st.
       case routeMain sv ev (hr_api hr) ai st of
         None \<Rightarrow> None
       | Some (r, ai', st') \<Rightarrow>
           Some (if mw_hsts mw \<noteq> [] then set_header ''Strict-Transport-Security'' (mw_hsts mw) r else r, ai', st'))"

definition httpHandler :: "('l, 't, 'd, 'r, 'lim) server \<Rightarrow> 'ip middleware \<Rightarrow> env \<Rightarrow> http_request \<Rightarrow>
    ('l, 't, 'lim) state \<Rightarrow> response \<times> AccessEntry list \<times> ('l, 't, 'lim) state" where
  "httpHandler sv mw ev =
     wrap sv mw ev (\<lambda>hr ai st.
       Some (case mw_ACMEHandler mw of
               None \<Rightarrow> (redirectToHTTPS mw hr, ai, st)
             | Some acme \<Rightarrow>
                 (case acme hr of Some r \<Rightarrow> (r, ai, st) | None \<Rightarrow> (redirectToHTTPS mw hr, ai, st))))"

subsection \<open>Listeners\<close>

text \<open>\<open>listenTCP\<close>: the network is pinned for an address literal, so that an IPv6 socket never takes the
  IPv4 wildcard too; \<open>parse\<close> is \<open>netip.ParseAddr\<close> with \<open>Is4\<close>, \<open>listen\<close> the system's answer.\<close>

definition listen_network :: "(string \<Rightarrow> bool option) \<Rightarrow> string \<Rightarrow> string" where
  "listen_network parse addr =
     (case parse addr of None \<Rightarrow> ''tcp'' | Some is4 \<Rightarrow> if is4 then ''tcp4'' else ''tcp6'')"

definition v6_only :: "string \<Rightarrow> bool" where
  "v6_only network \<longleftrightarrow> network = ''tcp6''"

definition listenTCP :: "(string \<Rightarrow> bool option) \<Rightarrow> (string \<Rightarrow> string \<Rightarrow> string option) \<Rightarrow> string \<Rightarrow> int \<Rightarrow> string option" where
  "listenTCP parse listen addr port = listen (listen_network parse addr) (JoinHostPort addr (itoa port))"

datatype listener_kind = ServeMain | ServeHTTPHandler | ServeTLS

type_synonym listener = "string \<times> int \<times> listener_kind"

datatype serve_error = ListenFailed string int string | NoListeners | ServerFailed string | ShutdownFailed string

text \<open>The binding loop of \<open>Serve\<close>: the error it stops at, and the listeners bound by then. \<open>bind\<close> is
  \<open>listenTCP\<close>.\<close>

definition bind_port :: "(string \<Rightarrow> int \<Rightarrow> string option) \<Rightarrow> string \<Rightarrow> int \<Rightarrow> listener_kind \<Rightarrow> listener list \<Rightarrow>
    serve_error option \<times> listener list" where
  "bind_port bind addr port kind acc =
     (if port > 0 then
        (case bind addr port of
           Some e \<Rightarrow> (Some (ListenFailed addr port e), acc)
         | None \<Rightarrow> (None, acc @ [(addr, port, kind)]))
      else (None, acc))"

fun bind_listeners :: "(string \<Rightarrow> int \<Rightarrow> string option) \<Rightarrow> int \<Rightarrow> int \<Rightarrow> string list \<Rightarrow> listener list \<Rightarrow>
    serve_error option \<times> listener list" where
  "bind_listeners bind http https [] acc = (None, acc)"
| "bind_listeners bind http https (addr # addrs) acc =
     (case bind_port bind addr http (if https > 0 then ServeHTTPHandler else ServeMain) acc of
        (Some e, acc1) \<Rightarrow> (Some e, acc1)
      | (None, acc1) \<Rightarrow>
          (case bind_port bind addr https ServeTLS acc1 of
             (Some e, acc2) \<Rightarrow> (Some e, acc2)
           | (None, acc2) \<Rightarrow> bind_listeners bind http https addrs acc2))"

text \<open>\<open>shutdown\<close>: every server is shut down within the timeout; the first failure is reported.\<close>

definition shutdown_timeout :: "int \<Rightarrow> int" where
  "shutdown_timeout t = (if t \<le> 0 then 10 * 1000000000 else t)"

definition shutdown :: "(nat \<Rightarrow> string option) \<Rightarrow> nat \<Rightarrow> serve_error option" where
  "shutdown ans n = (case List.map_filter ans [0..<n] of [] \<Rightarrow> None | e # _ \<Rightarrow> Some (ShutdownFailed e))"

text \<open>\<open>Serve\<close>: what it does to the servers, by position, and the error it returns. It ends when the
  context is cancelled or a server fails.\<close>

datatype serve_action = Bound listener | CloseServer nat | ShutdownServer nat

datatype serve_end = Cancelled | Failed string

definition Serve :: "(string \<Rightarrow> int \<Rightarrow> string option) \<Rightarrow> int \<Rightarrow> int \<Rightarrow> string list \<Rightarrow> serve_end \<Rightarrow> (nat \<Rightarrow> string option) \<Rightarrow>
    serve_error option \<times> serve_action list" where
  "Serve bind http https addrs ending ans =
     (case bind_listeners bind http https addrs [] of
        (Some e, ls) \<Rightarrow> (Some e, map Bound ls @ map CloseServer [0..<length ls])
      | (None, ls) \<Rightarrow>
          if ls = [] then (Some NoListeners, [])
          else
            (case ending of
               Cancelled \<Rightarrow> shutdown ans (length ls)
             | Failed e \<Rightarrow> Some (ServerFailed e),
             map Bound ls @ map ShutdownServer [0..<length ls]))"

text \<open>The ALPN list of \<open>httpsServer\<close>: \<open>h2\<close> in front when HTTP/2 is on, its first occurrence removed
  otherwise.\<close>

definition https_protos :: "bool \<Rightarrow> string list \<Rightarrow> string list" where
  "https_protos http2 protos =
     (if http2 then (if ''h2'' \<notin> set protos then ''h2'' # protos else protos)
      else remove1 ''h2'' protos)"

end
