(* ===== verification/UrlConfigProps.thy ===== *)
theory UrlConfigProps
  imports UrlConfig
begin

text \<open>
  What a configuration that passes validation guarantees to the components built from it: the
  authenticator accepts its clients, every client can create links, keys in its namespaces stay clear
  of the reserved paths, and the documented defaults are themselves valid.
\<close>

lemma addf_Nil [simp]: "addf cond fmt args = [] \<longleftrightarrow> \<not> cond"
  by (simp add: addf_def)

lemma concat_map_Nil: "concat (map f xs) = [] \<longleftrightarrow> (\<forall>x\<in>set xs. f x = [])"
  by auto

subsection \<open>Clients\<close>

lemma shared_tokens_Nil:
  "shared_tokens cls = [] \<Longrightarrow> i < j \<Longrightarrow> j < length cls \<Longrightarrow>
   set (cc_Tokens (cls ! i)) \<inter> set (cc_Tokens (cls ! j)) = {}"
proof (induction cls arbitrary: i j)
  case (Cons a rest)
  then obtain j' where j: "j = Suc j'" "j' < length rest" by (cases j) auto
  have head: "d \<notin> set (cc_Tokens b)" if "b \<in> set rest" "d \<in> set (cc_Tokens a)" for b d
    using Cons.prems(1) that by (auto simp: concat_map_Nil)
  show ?case
  proof (cases i)
    case 0
    have "rest ! j' \<in> set rest" using j(2) by simp
    with head 0 j show ?thesis by auto
  next
    case (Suc i')
    with Cons j show ?thesis by simp
  qed
qed simp

lemma note_digests_ok:
  "distinct ds \<Longrightarrow> set ds \<inter> dom seen = {} \<Longrightarrow> \<exists>seen'. note_digests name ds seen = Inr seen'"
proof (induction name ds seen rule: note_digests.induct)
  case (2 name d ds seen)
  then have n: "seen d = None" by (auto simp: dom_def)
  have "set ds \<inter> dom (seen(d \<mapsto> name)) = {}" using 2(2,3) by auto
  with 2(1) [OF n] 2(2) n show ?case by (simp del: fun_upd_apply)
qed simp

lemma build_clients_ok:
  assumes "\<And>i j. i < j \<Longrightarrow> j < length cfgs \<Longrightarrow> cc_Enabled (cfgs ! i) \<Longrightarrow> cc_Enabled (cfgs ! j) \<Longrightarrow>
      sha ` set (cc_Tokens (cfgs ! i)) \<inter> sha ` set (cc_Tokens (cfgs ! j)) = {}"
    and "\<And>cfg. cfg \<in> set cfgs \<Longrightarrow> cc_Enabled cfg \<Longrightarrow>
      distinct (map sha (cc_Tokens cfg)) \<and> sha ` set (cc_Tokens cfg) \<inter> dom seen = {}"
  shows "\<exists>cs. build_clients sha cfgs seen acc = Inr cs"
  using assms
proof (induction cfgs arbitrary: seen acc)
  case (Cons cfg cfgs)
  have tl: "\<And>i j. i < j \<Longrightarrow> j < length cfgs \<Longrightarrow> cc_Enabled (cfgs ! i) \<Longrightarrow> cc_Enabled (cfgs ! j) \<Longrightarrow>
      sha ` set (cc_Tokens (cfgs ! i)) \<inter> sha ` set (cc_Tokens (cfgs ! j)) = {}"
    using Cons.prems(1) [of "Suc _" "Suc _"] by simp
  show ?case
  proof (cases "cc_Enabled cfg")
    case False
    have "\<exists>cs. build_clients sha cfgs seen acc = Inr cs"
      by (rule Cons.IH [OF tl]) (use Cons.prems(2) in auto)
    with False show ?thesis by simp
  next
    case True
    have d: "distinct (map sha (cc_Tokens cfg))" "sha ` set (cc_Tokens cfg) \<inter> dom seen = {}"
      using Cons.prems(2) [of cfg] True by auto
    then obtain seen' where s: "note_digests (cc_Name cfg) (map sha (cc_Tokens cfg)) seen = Inr seen'"
      using note_digests_ok [of "map sha (cc_Tokens cfg)" seen "cc_Name cfg"] by auto
    then have dom: "dom seen' = dom seen \<union> sha ` set (cc_Tokens cfg)"
      using note_digests_Inr [OF s] by simp
    have "\<exists>cs. build_clients sha cfgs seen' acc' = Inr cs" for acc'
    proof (rule Cons.IH [OF tl])
      fix c'
      assume c': "c' \<in> set cfgs" "cc_Enabled c'"
      then obtain j where "j < length cfgs" "cfgs ! j = c'" by (auto simp: in_set_conv_nth)
      with Cons.prems(1) [of 0 "Suc j"] True c'(2)
      have "sha ` set (cc_Tokens cfg) \<inter> sha ` set (cc_Tokens c') = {}" by simp
      moreover have "distinct (map sha (cc_Tokens c'))" "sha ` set (cc_Tokens c') \<inter> dom seen = {}"
        using Cons.prems(2) [of c'] c' by auto
      ultimately show "distinct (map sha (cc_Tokens c')) \<and> sha ` set (cc_Tokens c') \<inter> dom seen' = {}"
        unfolding dom by auto
    qed
    with True s show ?thesis by (simp add: Let_def)
  qed
qed simp

lemma clients_loop_Nil:
  "clients_loop i seen cls = [] \<Longrightarrow> cl \<in> set cls \<Longrightarrow> \<exists>ctx. client_problems ctx cl = []"
  by (induction i seen cls rule: clients_loop.induct) auto

lemma client_problems_Nil:
  "client_problems ctx cl = [] \<Longrightarrow>
   (\<forall>ns\<in>set (cc_Namespaces cl). validNamespace ns) \<and> (\<forall>t\<in>set (cc_Tokens cl). tokenMinLen \<le> int (length t)) \<and>
   (cc_Enabled cl \<longrightarrow> cc_Tokens cl \<noteq> [] \<and> (cc_Admin cl \<or> cc_Namespaces cl \<noteq> []))"
  by (auto simp: client_problems_def concat_map_Nil)

subsection \<open>Namespaces\<close>

lemma validNamespace_shape:
  assumes "validNamespace ns"
  shows "HasPrefix ns ''/''" and "HasSuffix ns ''/''" and "\<not> HasPrefix (ns @ t) ''/.''" and "ns \<noteq> []" and "ns \<noteq> ''/''"
proof -
  let ?segs = "SplitChar (CHR ''/'') ns"
  have r: "length ?segs \<ge> 3" "hd ?segs = []" "last ?segs = []" "list_all ns_segment (butlast (tl ?segs))"
    using assms by (auto simp: validNamespace_def namespaceRe_def Let_def)
  then obtain s rest where segs: "?segs = [] # s # rest" "rest \<noteq> []"
    by (cases ?segs; cases "tl ?segs"; cases "tl (tl ?segs)") auto
  have ns: "ns = Join ?segs ''/''" by (simp add: Join_SplitChar)
  obtain w ws where rest: "rest = w # ws" using segs(2) by (cases rest) auto
  have eq: "ns = CHR ''/'' # s @ CHR ''/'' # Join rest ''/''" using ns segs(1) rest by simp
  have sg: "ns_segment s" using r(4) segs by simp
  have "\<not> (alnum CHR ''.'' \<or> CHR ''.'' \<in> set ''_-'')" by (simp add: alnum_def of_char_le_iff)
  with sg obtain c cs where s: "s = c # cs" "c \<noteq> CHR ''.''"
    by (cases s) (auto simp: ns_segment_def)
  show "HasPrefix ns ''/''" "ns \<noteq> []" by (simp_all add: eq HasPrefix_def)
  show "\<not> HasPrefix (ns @ t) ''/.''" using s by (simp add: eq HasPrefix_def)
  show "ns \<noteq> ''/''" using s by (simp add: eq)
  have "Join (ys @ [[]]) ''/'' = Join ys ''/'' @ ''/''" if "ys \<noteq> []" for ys
    using that by (simp add: Join_snoc)
  moreover have "?segs = butlast ?segs @ [[]]" using r(3) segs by (metis append_butlast_last_id SplitChar_not_Nil)
  moreover have "butlast ?segs \<noteq> []" using segs by simp
  ultimately have "ns = Join (butlast ?segs) ''/'' @ ''/''" using ns by metis
  then show "HasSuffix ns ''/''" by (auto simp: HasSuffix_iff)
qed

text \<open>Keys below a valid namespace, or random keys below the root, stay clear of the built-in routes.\<close>

lemma namespace_key_is_free:
  assumes "validNamespace ns \<or> ns = ''/''" and "k = ns @ ''~'' @ s"
  shows "\<not> isAPIPath k \<and> \<not> HasPrefix k ''/.well-known/'' \<and> k \<notin> set reservedExactKeys"
proof -
  have dot: "\<not> HasPrefix k ''/.''"
    using assms validNamespace_shape(3) [of ns "''~'' @ s"] by (auto simp: HasPrefix_def)
  have "HasPrefix apiBase ''/.''" "HasPrefix (apiBase @ ''/'') ''/.''"
    by (simp_all add: HasPrefix_def apiBase_def apiRoot_def)
  then have "\<not> isAPIPath k" using dot HasPrefix_trans unfolding isAPIPath_def by blast
  moreover have "\<not> HasPrefix k ''/.well-known/''"
    using dot HasPrefix_trans [of k "''/.well-known/''" "''/.''"] by (auto simp: HasPrefix_def)
  moreover have "CHR ''~'' \<in> set k" by (simp add: assms(2))
  then have "k \<notin> set reservedExactKeys" by (auto simp: reservedExactKeys_def)
  ultimately show ?thesis by blast
qed

subsection \<open>Properties of validated configurations\<close>

definition ex_cfg_env :: cfg_env where
  "ex_cfg_env = \<lparr>ce_url = (\<lambda>s. Inr \<lparr>pu_Scheme = ''https'', pu_User = False, pu_RawQuery = [], pu_Fragment = [],
       pu_Path = [], pu_Hostname = ''s.org''\<rparr>),
     ce_regexp = (\<lambda>_. Inr (False, [])), ce_template = (\<lambda>_ _ _. None), ce_proxies = (\<lambda>_. Inr [(8, ''127.0.0.0/8'')]),
     ce_stat = (\<lambda>_. True), ce_signer = (\<lambda>_. True)\<rparr>"

definition ex_client_cfg :: ClientConfig where
  "ex_client_cfg = \<lparr>cc_Name = ''alice'', cc_Enabled = True, cc_Admin = False, cc_Namespaces = [''/a/''],
     cc_Tokens = [''0123456789abcdef0123456789abcdef'']\<rparr>"

definition ex_config :: Config where
  "ex_config = DefaultConfig
     \<lparr>cf_ACME := (cf_ACME DefaultConfig)\<lparr>ac_AcceptTOS := True\<rparr>, cf_Clients := [ex_client_cfg]\<rparr>"

text \<open>A client the server can rely on: valid namespaces, and one to create random keys in.\<close>

definition sound_client :: "'d Client \<Rightarrow> bool" where
  "sound_client c \<longleftrightarrow> FirstNamespace c \<noteq> [] \<and> (\<forall>ns\<in>set (cl_Namespaces c). validNamespace ns)"

lemma authenticated_clients_sound:
  assumes "fst (Validate ce c) = []" and "NewAuthenticator sha (cf_Clients c) = Inr cs" and "x \<in> set cs"
  shows "sound_client x"
proof -
  have p: "clients_loop 0 [] (cf_Clients c) = []"
    using assms(1) by (auto simp: Validate_def validateClients_def Let_def)
  from assms(2) have "build_clients sha (cf_Clients c) Map.empty [] = Inr cs" by (simp add: NewAuthenticator_def)
  from assms(3) build_clients_set [OF this] obtain cfg where
    x: "cfg \<in> set (cf_Clients c)" "cc_Enabled cfg" "x = client_of sha cfg" by auto
  from clients_loop_Nil [OF p x(1)] obtain ctx where "client_problems ctx cfg = []" by blast
  note q = client_problems_Nil [OF this]
  have v: "\<forall>ns\<in>set (cl_Namespaces x). validNamespace ns" using q x(3) by (simp add: client_of_def)
  have "cc_Admin cfg \<or> cc_Namespaces cfg \<noteq> []" using q x(2) by blast
  then show ?thesis using v validNamespace_shape(4)
    by (cases "cc_Namespaces cfg") (auto simp: sound_client_def x(3) client_of_def FirstNamespace_def)
qed

text \<open>When no client repeats one of its own tokens and the digest separates the configured tokens, the
  authenticator of a validated configuration can be built.\<close>

lemma authenticator_builds:
  assumes "fst (Validate ce c) = []" and "\<forall>cl\<in>set (cf_Clients c). distinct (cc_Tokens cl)"
    and "inj_on sha (\<Union>cl\<in>set (cf_Clients c). set (cc_Tokens cl))"
  shows "\<exists>cs. NewAuthenticator sha (cf_Clients c) = Inr cs"
proof -
  let ?cfgs = "cf_Clients c"
  have p: "shared_tokens ?cfgs = []"
    using assms(1) by (auto simp: Validate_def validateClients_def Let_def)
  have inj: "inj_on sha (set (cc_Tokens x) \<union> set (cc_Tokens y))" if "x \<in> set ?cfgs" "y \<in> set ?cfgs" for x y
  proof (rule inj_on_subset [OF assms(3)])
    show "set (cc_Tokens x) \<union> set (cc_Tokens y) \<subseteq> (\<Union>cl\<in>set ?cfgs. set (cc_Tokens cl))"
      using that by blast
  qed
  have "\<exists>cs. build_clients sha ?cfgs Map.empty [] = Inr cs"
  proof (rule build_clients_ok)
    fix i j
    assume ij: "i < j" "j < length ?cfgs"
    then have m: "?cfgs ! i \<in> set ?cfgs" "?cfgs ! j \<in> set ?cfgs" by simp_all
    have d: "set (cc_Tokens (?cfgs ! i)) \<inter> set (cc_Tokens (?cfgs ! j)) = {}"
      by (rule shared_tokens_Nil [OF p ij])
    have "sha ` set (cc_Tokens (?cfgs ! i)) \<inter> sha ` set (cc_Tokens (?cfgs ! j))
        = sha ` (set (cc_Tokens (?cfgs ! i)) \<inter> set (cc_Tokens (?cfgs ! j)))"
      by (rule inj_on_image_Int [symmetric, OF inj [OF m]]) simp_all
    then show "sha ` set (cc_Tokens (?cfgs ! i)) \<inter> sha ` set (cc_Tokens (?cfgs ! j)) = {}"
      unfolding d by simp
  next
    fix cfg
    assume m: "cfg \<in> set ?cfgs"
    with assms(2) have "distinct (cc_Tokens cfg)" by blast
    moreover have "inj_on sha (set (cc_Tokens cfg))" using inj [OF m m] by simp
    ultimately show "distinct (map sha (cc_Tokens cfg)) \<and> sha ` set (cc_Tokens cfg) \<inter> dom Map.empty = {}"
      by (simp add: distinct_map)
  qed
  then show ?thesis by (simp add: NewAuthenticator_def)
qed

text \<open>The validators of a configuration whose other sections are the documented defaults.\<close>

definition plain_url :: "string \<Rightarrow> string \<Rightarrow> public_url" where
  "plain_url p h = \<lparr>pu_Scheme = ''https'', pu_User = False, pu_RawQuery = [], pu_Fragment = [], pu_Path = p,
     pu_Hostname = h\<rparr>"

lemma default_server_ok:
  assumes "cf_Server c = cf_Server DefaultConfig" and "ce_url ce [] = Inr (plain_url p h)"
    and "p = [] \<or> p = ''/''" and "h \<noteq> []" and "isASCII h"
    and "ce_proxies ce (sc_TrustedProxies (cf_Server DefaultConfig)) = Inr bits" and "\<forall>b\<in>set bits. fst b \<noteq> 0"
  shows "validateServer ce c = ([], [])"
proof -
  have tp: "validateTrustedProxies ce c = ([], [])"
    using assms(1,6,7) by (auto simp: validateTrustedProxies_def concat_map_Nil)
  have low: "ToLower ''https'' = ''https''" by code_simp
  have sp: "TrimSpace ''0.0.0.0'' \<noteq> []" "TrimSpace ''::'' \<noteq> []" by code_simp+
  show ?thesis
    using assms(2-5) low sp by (auto simp: validateServer_def Let_def tp assms(1) plain_url_def validateHSTS_def
        validatePublicURL_def DefaultConfig_def validateExtraHosts_def)
qed

lemma default_sections_ok:
  "validateLogLevel DefaultConfig = []" "validateAccess DefaultConfig = []" "validateAccessLog DefaultConfig = []"
  "validateErrorLog DefaultConfig = []" "validateBackup DefaultConfig = []" "validateRules ce DefaultConfig = []"
  "validateClients DefaultConfig = ([], [])"
  by (simp_all add: validateLogLevel_def validateAccess_def validateAccessLog_def validateErrorLog_def
      validateBackup_def validateRules_def validateClients_def DefaultConfig_def Let_def addf_def)

lemma sections_frame [simp]:
  "validateLogLevel (c\<lparr>cf_ACME := a\<rparr>) = validateLogLevel c" "validateAccess (c\<lparr>cf_ACME := a\<rparr>) = validateAccess c"
  "validateAccessLog (c\<lparr>cf_ACME := a\<rparr>) = validateAccessLog c" "validateErrorLog (c\<lparr>cf_ACME := a\<rparr>) = validateErrorLog c"
  "validateBackup (c\<lparr>cf_ACME := a\<rparr>) = validateBackup c" "validateRules ce (c\<lparr>cf_ACME := a\<rparr>) = validateRules ce c"
  "validateClients (c\<lparr>cf_ACME := a\<rparr>) = validateClients c"
  "validateLogLevel (c\<lparr>cf_Clients := cl\<rparr>) = validateLogLevel c" "validateAccess (c\<lparr>cf_Clients := cl\<rparr>) = validateAccess c"
  "validateAccessLog (c\<lparr>cf_Clients := cl\<rparr>) = validateAccessLog c"
  "validateErrorLog (c\<lparr>cf_Clients := cl\<rparr>) = validateErrorLog c"
  "validateBackup (c\<lparr>cf_Clients := cl\<rparr>) = validateBackup c" "validateRules ce (c\<lparr>cf_Clients := cl\<rparr>) = validateRules ce c"
  "validateACME ce (c\<lparr>cf_Clients := cl\<rparr>) = validateACME ce c"
  by (simp_all add: validateLogLevel_def validateAccess_def validateAccessLog_def validateErrorLog_def
      validateBackup_def validateRules_def validateClients_def validateACME_def)

lemma accepted_acme_ok:
  "validateACME ce (DefaultConfig\<lparr>cf_ACME := (cf_ACME DefaultConfig)\<lparr>ac_AcceptTOS := True\<rparr>\<rparr>) = []"
proof -
  have "TrimSpace ''https://acme-v02.api.letsencrypt.org/directory'' \<noteq> []" by code_simp
  then show ?thesis by (simp add: validateACME_def DefaultConfig_def Let_def addf_def)
qed

lemma unaccepted_acme:
  "validateACME ce DefaultConfig = [(''acme.accept_tos must be true when acme.enabled is true'', [])]"
proof -
  have "TrimSpace ''https://acme-v02.api.letsencrypt.org/directory'' \<noteq> []" by code_simp
  then show ?thesis by (simp add: validateACME_def DefaultConfig_def Let_def addf_def)
qed

lemma ex_config_ok: "fst (Validate ex_cfg_env ex_config) = []"
proof -
  have "isASCII ''s.org''" by code_simp
  then have "validateServer ex_cfg_env ex_config = ([], [])"
    by (intro default_server_ok [where p = "[]" and h = "''s.org''" and bits = "[(8, ''127.0.0.0/8'')]"])
      (simp_all add: ex_config_def ex_cfg_env_def plain_url_def)
  moreover have "fst (validateClients ex_config) = []" unfolding validateClients_def ex_config_def by code_simp
  ultimately show ?thesis
    unfolding Validate_def Let_def by (simp add: ex_config_def default_sections_ok accepted_acme_ok)
qed

text \<open>The documented defaults are valid as they stand, given a public URL that is a plain HTTPS host
  and the acceptance of the terms of service; every problem a validation of them reports comes from
  what the administrator must supply.\<close>

theorem defaults_validate:
  assumes "ce_url ce [] = Inr \<lparr>pu_Scheme = ''https'', pu_User = False, pu_RawQuery = [], pu_Fragment = [],
      pu_Path = p, pu_Hostname = h\<rparr>"
    and "p = [] \<or> p = ''/''" and "h \<noteq> []" and "isASCII h"
    and "ce_proxies ce (sc_TrustedProxies (cf_Server DefaultConfig)) = Inr bits" and "\<forall>b\<in>set bits. fst b \<noteq> 0"
  shows "Validate ce (DefaultConfig\<lparr>cf_ACME := (cf_ACME DefaultConfig)\<lparr>ac_AcceptTOS := True\<rparr>\<rparr>) = ([], []) \<and>
    fst (Validate ce DefaultConfig) = [(''acme.accept_tos must be true when acme.enabled is true'', [])]"
proof -
  note srv = default_server_ok [OF _ assms(1) [folded plain_url_def] assms(2-6)]
  have "validateServer ce (DefaultConfig\<lparr>cf_ACME := (cf_ACME DefaultConfig)\<lparr>ac_AcceptTOS := True\<rparr>\<rparr>) = ([], [])"
    "validateServer ce DefaultConfig = ([], [])"
    by (simp_all add: srv)
  then show ?thesis
    by (simp add: Validate_def Let_def default_sections_ok accepted_acme_ok unaccepted_acme)
qed

theorem defaults_validate_example:
  "Validate ex_cfg_env (DefaultConfig\<lparr>cf_ACME := (cf_ACME DefaultConfig)\<lparr>ac_AcceptTOS := True\<rparr>\<rparr>) = ([], [])"
proof -
  have "isASCII ''s.org''" by code_simp
  then show ?thesis
    using defaults_validate [of ex_cfg_env "[]" "''s.org''" "[(8, ''127.0.0.0/8'')]"]
    by (simp add: ex_cfg_env_def)
qed

end
