(* ===== verification/UrlServerProps.thy ===== *)
theory UrlServerProps
  imports UrlServer UrlApiProps UrlConfigProps
begin

text \<open>
  What the server guarantees to its clients: a created link redirects, the client address cannot be
  forged through \<open>X-Forwarded-For\<close>, the HTTP port redirects only to the server's own hosts, and a
  plain-text port never serves links when HTTPS is on.
\<close>

subsection \<open>The client address\<close>

lemma forwarded_walk_real:
  assumes "\<forall>p\<in>set proxies. \<exists>a. ip_Parse lib (TrimSpace p) = Some a \<and> trusted (ip_Unmap lib a)"
    and "ip_Parse lib (TrimSpace client) = Some a" and "\<not> trusted (ip_Unmap lib a)"
  shows "forwarded_walk lib trusted (proxies @ client # forged) = Some (ip_Unmap lib a)"
  using assms by (induction proxies) (auto simp: Let_def)

lemma Split_Join_comma:
  "ws \<noteq> [] \<Longrightarrow> \<forall>w\<in>set ws. CHR '','' \<notin> set w \<Longrightarrow> SplitChar (CHR '','') (Join ws '','') = ws"
proof (induction ws "'',''" rule: Join.induct)
  case (2 w)
  then show ?case by (simp add: SplitChar_single)
next
  case (3 w v ws)
  then show ?case by (simp add: SplitChar_append)
qed simp

text \<open>C37: a peer that is not a trusted proxy is taken at its own address, whatever headers it sends;
  behind trusted proxies, each of which appends the address it was reached from, the result is the
  first address from the right that is not a proxy's, whatever the client put before it.\<close>

theorem client_address_cannot_be_forged:
  assumes "ip_Parse lib (stripPort remoteAddr) = Some direct"
  shows "(\<not> trusted (ip_Unmap lib direct) \<longrightarrow>
      clientIP lib trusted remoteAddr xff xri = Some (ip_Unmap lib direct)) \<and>
    (trusted (ip_Unmap lib direct) \<longrightarrow>
      (\<forall>p\<in>set proxies. \<exists>b. ip_Parse lib (TrimSpace p) = Some b \<and> trusted (ip_Unmap lib b)) \<longrightarrow>
      ip_Parse lib (TrimSpace client) = Some a \<longrightarrow> \<not> trusted (ip_Unmap lib a) \<longrightarrow>
      (\<forall>w\<in>set (forged @ client # proxies). CHR '','' \<notin> set w) \<longrightarrow>
      Join (forged @ client # proxies) '','' \<noteq> [] \<longrightarrow>
      clientIP lib trusted remoteAddr (Join (forged @ client # proxies) '','') xri = Some (ip_Unmap lib a))"
proof (intro conjI impI)
  assume "\<not> trusted (ip_Unmap lib direct)"
  then show "clientIP lib trusted remoteAddr xff xri = Some (ip_Unmap lib direct)"
    using assms by (simp add: clientIP_def Let_def)
next
  assume t: "trusted (ip_Unmap lib direct)"
    and p: "\<forall>p\<in>set proxies. \<exists>b. ip_Parse lib (TrimSpace p) = Some b \<and> trusted (ip_Unmap lib b)"
    and r: "ip_Parse lib (TrimSpace client) = Some a" "\<not> trusted (ip_Unmap lib a)"
    and c: "\<forall>w\<in>set (forged @ client # proxies). CHR '','' \<notin> set w"
    and ne: "Join (forged @ client # proxies) '','' \<noteq> []"
  have "SplitChar (CHR '','') (Join (forged @ client # proxies) '','') = forged @ client # proxies"
    by (rule Split_Join_comma) (use c in auto)
  moreover have "forwarded_walk lib trusted (rev proxies @ client # rev forged) = Some (ip_Unmap lib a)"
    by (rule forwarded_walk_real) (use p r in auto)
  ultimately show "clientIP lib trusted remoteAddr (Join (forged @ client # proxies) '','') xri =
      Some (ip_Unmap lib a)"
    using assms t ne by (simp add: clientIP_def Let_def)
qed

definition ex_ip :: "string ip_lib" where
  "ex_ip = \<lparr>ip_Parse = (\<lambda>s. if s = [] then None else Some s), ip_Unmap = (\<lambda>s. s), ip_Is4 = (\<lambda>_. True),
     ip_String = (\<lambda>s. s), ip_Prefix64 = (\<lambda>s. None)\<rparr>"

theorem client_address_cannot_be_forged_example:
  "clientIP ex_ip (\<lambda>a. a = ''127.0.0.1'') ''127.0.0.1:80'' ''6.6.6.6, 10.1.1.1'' [] = Some ''10.1.1.1''"
proof -
  have d: "ip_Parse ex_ip (stripPort ''127.0.0.1:80'') = Some ''127.0.0.1''" by code_simp
  have j: "Join ([''6.6.6.6''] @ '' 10.1.1.1'' # []) '','' = ''6.6.6.6, 10.1.1.1''" by code_simp
  have r: "ip_Parse ex_ip (TrimSpace '' 10.1.1.1'') = Some ''10.1.1.1''" by code_simp
  have u: "ip_Unmap ex_ip x = x" for x by (simp add: ex_ip_def)
  have t: "ip_Unmap ex_ip ''127.0.0.1'' = ''127.0.0.1'' \<and> ip_Unmap ex_ip ''10.1.1.1'' \<noteq> ''127.0.0.1''"
    by (simp add: u)
  have c: "\<forall>w\<in>set ([''6.6.6.6''] @ '' 10.1.1.1'' # []). CHR '','' \<notin> set w" by simp
  note T = client_address_cannot_be_forged [where lib = ex_ip and trusted = "\<lambda>a. a = ''127.0.0.1''"
      and remoteAddr = "''127.0.0.1:80''" and proxies = "[]" and client = "'' 10.1.1.1''"
      and a = "''10.1.1.1''" and forged = "[''6.6.6.6'']" and xri = "[]", OF d]
  from conjunct2 [OF T] show ?thesis unfolding j u using r c t by (simp add: u)
qed

subsection \<open>A created link redirects\<close>

definition plain_path :: "string \<Rightarrow> bool" where
  "plain_path k \<longleftrightarrow> \<not> isAPIPath k \<and> \<not> HasPrefix k ''/.well-known/'' \<and> k \<notin> set reservedExactKeys"

lemma valid_key_plain: "ValidateKey k = Inr () \<Longrightarrow> plain_path k"
  using valid_not_under_dot [of k "''well-known/''"] valid_not_under_dot [of k "''api/v1''"]
    valid_not_under_dot [of k "''api/v1/''"]
  by (auto simp: plain_path_def isAPIPath_def apiBase_def apiRoot_def ValidateKey_ok HasPrefix_def)

lemma random_key_plain:
  assumes "GenerateRandomKey ns isFree bs = Inr k" and "validNamespace ns \<or> ns = ''/''"
  shows "plain_path k"
proof -
  from assms(1) obtain s where "k = ns @ ''~'' @ s"
    using random_attempts_Inr by (fastforce simp: GenerateRandomKey_def split: if_splits)
  with namespace_key_is_free [OF assms(2)] show ?thesis by (simp add: plain_path_def)
qed

lemma FirstNamespace_valid:
  "\<forall>ns\<in>set (cl_Namespaces c). validNamespace ns \<Longrightarrow> FirstNamespace c \<noteq> [] \<Longrightarrow>
   validNamespace (FirstNamespace c) \<or> FirstNamespace c = ''/''"
  by (cases "cl_Namespaces c") (auto simp: FirstNamespace_def split: if_splits)

lemma choose_gen_plain:
  assumes "choose_gen sv c rnd target = (PReq req, nt)" and "\<forall>ns\<in>set (cl_Namespaces c). validNamespace ns"
    and "req_Gen req = Some gen" and "gen isFree = Inr k"
  shows "plain_path k"
proof (cases "MatchRules (sv_rules sv) target")
  case None
  with assms(1,3,4) have "GenerateRandomKey (FirstNamespace c) isFree rnd = Inr k" "FirstNamespace c \<noteq> []"
    by (auto simp: choose_gen_def Let_def split: if_splits)
  with FirstNamespace_valid [OF assms(2)] show ?thesis by (blast intro: random_key_plain)
next
  case (Some rv)
  obtain rule vars where rv: "rv = (rule, vars)" by (cases rv)
  with Some assms(1,3,4) have "rule_gen c rule vars isFree = Inr k"
    by (auto simp: choose_gen_def Let_def split: if_splits sum.splits)
  then have "GenerateKey rule vars isFree = Inr k" by (auto simp: rule_gen_def split: sum.splits if_splits)
  then show ?thesis using GenerateKey_valid_free valid_key_plain by blast
qed

lemma prepareCreate_plain:
  assumes "prepareCreate sv db c rnd raw key = (PReq req, nt)" and "\<forall>ns\<in>set (cl_Namespaces c). validNamespace ns"
    and "select_key bo req db1 = Inr k"
  shows "plain_path k \<and> canonicalizeTarget (sv_url sv) raw = Inr (req_Target req)"
proof -
  from assms(1) obtain target where t: "canonicalizeTarget (sv_url sv) raw = Inr target"
    by (auto simp: prepareCreate_def split: sum.splits)
  show ?thesis
  proof (cases "key = []")
    case False
    with assms(1) t have "ValidateKey key = Inr ()" "req_ExplicitKey req = key" "req_Target req = target"
      by (auto simp: prepareCreate_def split: sum.splits if_splits)
    with False t assms(3) show ?thesis by (auto dest: select_key_explicit intro: valid_key_plain)
  next
    case True
    with assms(1) t have g: "choose_gen sv c rnd target = (PReq req, nt)"
      by (auto simp: prepareCreate_def split: option.splits)
    with choose_gen_PReq [OF g] t show ?thesis
      using select_key_gen [OF assms(3)] choose_gen_plain [OF g assms(2)] by auto
  qed
qed

lemma createLink_201:
  assumes "createLink sv ev c rq ai st = (r, ai', st')" and "rs_status r = 201"
  obtains raw key req nt l where "decodeJSON (rq_link_body rq) = Inr (raw, key)"
    and "prepareCreate sv (st_db st) c (ev_rand ev 0) raw key = (PReq req, nt)"
    and "Create (sv_bolt sv) (ev_commit ev) (ev_now ev 0) req (st_db st) = (Inr (l, True), st_db st')"
    and "rs_body r = CreateBody (linkView_of sv l) True"
proof -
  have dec: "rs_status x \<noteq> 201" if "decodeJSON b = Inl x" for b :: "(string \<times> string) body_in" and x
    using that by (auto simp: decodeJSON_def writeAPIError_def writeJSON_def split: prod.splits sum.splits
        decode_error.splits if_splits)
  show ?thesis
  proof (cases "decodeJSON (rq_link_body rq)")
    case (Inl x)
    with assms dec show ?thesis by (auto simp: createLink_def)
  next
    case (Inr tk)
    obtain raw key where tk: "tk = (raw, key)" by (cases tk)
    obtain p nt where p: "prepareCreate sv (st_db st) c (ev_rand ev 0) raw key = (p, nt)" by fastforce
    show ?thesis
    proof (cases p)
      case (PErr e)
      have "ae_status e \<noteq> 201"
        using p PErr by (auto simp: prepareCreate_def choose_gen_def Let_def bad_request_def forbidden_err_def
            split: sum.splits option.splits if_splits prod.splits)
      with assms Inr tk p PErr show ?thesis
        by (auto simp: createLink_def write_apiError_def writeAPIError_def writeJSON_def Let_def)
    next
      case (PExisting l)
      with assms Inr tk p show ?thesis by (auto simp: createLink_def finishCreate_def writeJSON_def Let_def)
    next
      case (PReq req)
      obtain x db' where cr: "Create (sv_bolt sv) (ev_commit ev) (ev_now ev 0) req (st_db st) = (x, db')" by fastforce
      have db1: "st_db (note_opt ev nt st) = st_db st" by (simp add: note_opt_def set_error_def split: option.split)
      show ?thesis
      proof (cases x)
        case (Inl e)
        have "rs_status (write_apiError (fst (apiErrorFromStore e))) \<noteq> 201"
          by (cases e) (simp_all add: write_apiError_def writeAPIError_def writeJSON_def)
        moreover have "r = write_apiError (fst (apiErrorFromStore e))"
          using assms(1) Inr tk p PReq cr db1 Inl by (auto simp: createLink_def Let_def storeError_def)
        ultimately show ?thesis using assms(2) by simp
      next
        case (Inr y)
        obtain l created where y: "y = (l, created)" by (cases y)
        have r: "rs_status r = (if created then 201 else 200)" "rs_body r = CreateBody (linkView_of sv l) created"
          "st_db st' = db'"
          using assms(1) \<open>decodeJSON _ = Inr tk\<close> tk p PReq cr db1 Inr y
          by (auto simp: createLink_def Let_def finishCreate_def writeJSON_def)
        with assms(2) have "created" by (simp split: if_splits)
        with r cr Inr y p PReq \<open>decodeJSON _ = Inr tk\<close> tk show ?thesis by (intro that) auto
      qed
    qed
  qed
qed

lemma routeMain_redirects:
  assumes "plain_path (rq_Path rq)" and "getHead rq" and "Get (sv_bolt sv) (st_db st) (rq_Path rq) = Inr l"
  shows "\<exists>r ai'. routeMain sv ev rq ai st = Some (r, ai', st) \<and> rs_status r = 302 \<and>
    map_of (rs_headers r) ''Location'' = Some (link_Target l)"
  using assms by (auto simp: routeMain_def Let_def plain_path_def reservedExactKeys_def handleRedirect_def)

text \<open>C19: when the API answers a creation with 201, the key in its answer is no built-in route, the
  target in it is the canonical form of the requested one, and a GET or HEAD of the key is from then on
  redirected there with 302.\<close>

theorem created_link_redirects:
  assumes "bolt_db (sv_bolt sv) vl vt" and "store_inv (sv_bolt sv) (st_db st)"
    and "\<forall>ns\<in>set (cl_Namespaces c). validNamespace ns"
    and "createLink sv ev c rq ai st = (r, ai', st')" and "rs_status r = 201"
  shows "\<exists>v raw key. rs_body r = CreateBody v True \<and> decodeJSON (rq_link_body rq) = Inr (raw, key) \<and>
    canonicalizeTarget (sv_url sv) raw = Inr (lv_Target v) \<and>
    (\<forall>ev2 rq2 ai2 st2. rq_Path rq2 = lv_Key v \<longrightarrow> getHead rq2 \<longrightarrow> st_db st2 = st_db st' \<longrightarrow>
       (\<exists>r2 ai3. routeMain sv ev2 rq2 ai2 st2 = Some (r2, ai3, st2) \<and> rs_status r2 = 302 \<and>
          map_of (rs_headers r2) ''Location'' = Some (lv_Target v)))"
  using assms(4,5)
proof (cases rule: createLink_201)
  case (1 raw key req nt l)
  have cr: "createInTx (sv_bolt sv) (ev_now ev 0) req (st_db st) = (Inr (l, True), st_db st')"
    using 1(3) by (auto simp: Create_def elim: db_Update_cases)
  have n: "link_Target l = req_Target req \<and>
      links_get (sv_bolt sv) (st_db st') (link_Key l) = Some (Encoded (l\<lparr>link_Key := []\<rparr>)) \<and>
      select_key (sv_bolt sv) req (st_db st) = Inr (link_Key l)"
    by (rule bolt_db.createInTx_Inr [OF assms(1,2) cr]) simp_all
  have g: "Get (sv_bolt sv) (st_db st') (link_Key l) = Inr l" using n by (simp add: Get_def)
  from prepareCreate_plain [OF 1(2) assms(3)] n
  have p: "plain_path (link_Key l)" "canonicalizeTarget (sv_url sv) raw = Inr (link_Target l)" by metis+
  have "\<exists>r2 ai3. routeMain sv ev2 rq2 ai2 st2 = Some (r2, ai3, st2) \<and> rs_status r2 = 302 \<and>
          map_of (rs_headers r2) ''Location'' = Some (link_Target l)"
    if "rq_Path rq2 = link_Key l" "getHead rq2" "st_db st2 = st_db st'" for ev2 rq2 ai2 st2
    by (rule routeMain_redirects) (simp_all add: that p g)
  with 1(1,4) p(2) show ?thesis by (auto simp: linkView_of_def)
qed

definition ex_post :: request where
  "ex_post = ex_request ''POST'' ''/.api/v1/links'' [] (''http://new/'', ''/a/new'')"

theorem created_link_redirects_example:
  "\<exists>r ai' st'. createLink ex_server ex_env (hd (sv_clients ex_server)) ex_post no_info ex_state = (r, ai', st') \<and>
     rs_status r = 201 \<and> (\<exists>v. rs_body r = CreateBody v True \<and> getHead (ex_request ''GET'' (lv_Key v) [] ([], [])) \<and>
     (\<exists>r2 ai3. routeMain ex_server ex_env (ex_request ''GET'' (lv_Key v) [] ([], [])) no_info st' = Some (r2, ai3, st') \<and>
        rs_status r2 = 302))"
proof -
  let ?c = "hd (sv_clients ex_server)"
  have e: "case createLink ex_server ex_env ?c ex_post no_info ex_state of (r, ai', st') \<Rightarrow> rs_status r = 201"
    by code_simp
  then obtain r ai' st' where c: "createLink ex_server ex_env ?c ex_post no_info ex_state = (r, ai', st')"
    and r: "rs_status r = 201" by (auto split: prod.splits)
  have ns: "\<forall>ns\<in>set (cl_Namespaces ?c). validNamespace ns" by code_simp
  have g: "getHead (ex_request ''GET'' k [] ([], []))" for k by (simp add: getHead_def ex_request_def)
  have p: "rq_Path (ex_request ''GET'' k [] ([], [])) = k" for k by (simp add: ex_request_def)
  from created_link_redirects [OF ex_server_ok(1,3) ns c r] obtain v where v: "rs_body r = CreateBody v True"
    "\<forall>ev2 rq2 ai2 st2. rq_Path rq2 = lv_Key v \<longrightarrow> getHead rq2 \<longrightarrow> st_db st2 = st_db st' \<longrightarrow>
       (\<exists>r2 ai3. routeMain ex_server ev2 rq2 ai2 st2 = Some (r2, ai3, st2) \<and> rs_status r2 = 302 \<and>
          map_of (rs_headers r2) ''Location'' = Some (lv_Target v))" by blast
  from v(2) p g have "\<exists>r2 ai3. routeMain ex_server ex_env (ex_request ''GET'' (lv_Key v) [] ([], [])) no_info st' =
      Some (r2, ai3, st') \<and> rs_status r2 = 302" by blast
  with c r v(1) g show ?thesis by blast
qed

subsection \<open>The plain-text port\<close>

lemma map_of_set_header [simp]:
  "map_of (rs_headers (set_header k v r)) x = (if x = k then Some v else map_of (rs_headers r) x)"
  "rs_status (set_header k v r) = rs_status r"
  by (simp_all add: set_header_def)

text \<open>What passing the middleware means for a request that is neither refused nor panics.\<close>

lemma rateLimitMiddleware_cases:
  assumes "rateLimitMiddleware sv mw ev k hr st = Some (r, es, st')"
  obtains (limited) "rs_status r = 429" and "st_db st' = st_db st"
    | (passed) st1 where "st_db st1 = st_db st" and "k hr st1 = Some (r, es, st')"
proof (cases "isAPIPath (rq_Path (hr_api hr))")
  case True
  with assms show ?thesis by (intro passed) (auto simp: rateLimitMiddleware_def)
next
  case api: False
  let ?key = "rateKey (mw_ip mw) (request_ip mw hr)"
  obtain ok rl where a: "Allow (sv_buckets sv) (ev_tick ev) ?key (st_redirectLimiter st) = (ok, rl)" by fastforce
  show ?thesis
  proof (cases "?key = [] \<or> \<not> ok")
    case True
    with assms api a show ?thesis
      by (intro limited) (auto simp: rateLimitMiddleware_def Let_def writePlainError_def split: if_splits)
  next
    case False
    with assms api a show ?thesis
      by (intro passed [of "st\<lparr>st_redirectLimiter := rl\<rparr>"]) (auto simp: rateLimitMiddleware_def Let_def)
  qed
qed

lemma rateLimitMiddleware_None:
  assumes "rateLimitMiddleware sv mw ev k hr st = None"
  obtains st1 where "st_db st1 = st_db st" and "k hr st1 = None"
proof (cases "isAPIPath (rq_Path (hr_api hr))")
  case True
  with assms show ?thesis by (intro that) (auto simp: rateLimitMiddleware_def)
next
  case False
  obtain ok rl where "Allow (sv_buckets sv) (ev_tick ev) (rateKey (mw_ip mw) (request_ip mw hr))
      (st_redirectLimiter st) = (ok, rl)" by fastforce
  with assms False show ?thesis
    by (intro that [of "st\<lparr>st_redirectLimiter := rl\<rparr>"])
      (auto simp: rateLimitMiddleware_def Let_def split: if_splits)
qed

lemma wrap_cases:
  assumes "wrap sv mw ev route hr st = (r, es, st')"
  obtains (refused) "rs_status r \<in> {400, 405, 421, 429}" and "st_db st' = st_db st"
    | (panicked) hr1 st1 where "st_db st1 = st_db st" and "route hr1 no_info st1 = None"
    | (routed) hr1 r1 ai st1 where "hr_Host hr1 = hr_Host hr" and "hr_RequestURI hr1 = hr_RequestURI hr"
        and "ToLower (stripPort (hr_Host hr)) \<in> set (mw_allowedHosts mw)" and "st_db st1 = st_db st"
        and "route hr1 no_info st1 = Some (r1, ai, st')" and "r = set_header ''X-Request-ID'' (request_id hr) r1"
proof -
  define hr0 where "hr0 = hr\<lparr>hr_api := (hr_api hr)\<lparr>rq_rate_key := rateKey (mw_ip mw) (request_ip mw hr)\<rparr>\<rparr>"
  define hr1 where "hr1 = bodyLimitMiddleware hr0"
  let ?acc = "accessLogMiddleware mw (request_id hr) route"
  have host: "hr_Host hr1 = hr_Host hr" "hr_RequestURI hr1 = hr_RequestURI hr" "hr_Host hr0 = hr_Host hr"
    by (simp_all add: hr1_def hr0_def bodyLimitMiddleware_def)
  have w: "wrap sv mw ev route hr st =
      (case (case hostCheck mw hr0 of Some x \<Rightarrow> Some (x, [], st) | None \<Rightarrow> rateLimitMiddleware sv mw ev ?acc hr1 st) of
         None \<Rightarrow> (set_header ''X-Request-ID'' (request_id hr) (writePlainError 500 ''internal server error''), [],
                   set_error ev Panicked st)
       | Some (x, es, s) \<Rightarrow> (set_header ''X-Request-ID'' (request_id hr) x, es, s))"
    unfolding wrap_def recoverMiddleware_def Let_def hr1_def hr0_def by simp
  show ?thesis
  proof (cases "hostCheck mw hr0")
    case (Some x)
    then have "rs_status x \<in> {400, 405, 421}"
      by (auto simp: hostCheck_def writePlainError_def Let_def split: if_splits)
    with assms w Some show ?thesis by (intro refused) auto
  next
    case None
    then have own: "ToLower (stripPort (hr_Host hr)) \<in> set (mw_allowedHosts mw)"
      by (simp add: hostCheck_def Let_def host split: if_splits)
    show ?thesis
    proof (cases "rateLimitMiddleware sv mw ev ?acc hr1 st")
      case rl: None
      then obtain st1 where "st_db st1 = st_db st" "?acc hr1 st1 = None"
        by (rule rateLimitMiddleware_None)
      then show ?thesis by (intro panicked) (auto simp: accessLogMiddleware_def Let_def split: option.splits)
    next
      case (Some x)
      obtain y es1 s1 where x: "x = (y, es1, s1)" by (cases x)
      with Some None assms w have r: "r = set_header ''X-Request-ID'' (request_id hr) y" "s1 = st'" "es1 = es" by auto
      from Some x have "rateLimitMiddleware sv mw ev ?acc hr1 st = Some (y, es1, s1)" by simp
      then show ?thesis
      proof (cases rule: rateLimitMiddleware_cases)
        case limited
        with r show ?thesis by (intro refused) simp_all
      next
        case (passed st1)
        then obtain ai where "route hr1 no_info st1 = Some (y, ai, s1)"
          by (auto simp: accessLogMiddleware_def Let_def split: option.splits)
        with passed(1) r host own show ?thesis by (intro routed) simp_all
      qed
    qed
  qed
qed

text \<open>On the plain-text port the server answers only with a refusal, what the certificate manager's
  challenge handler returns, or a permanent redirect to the requested URI on HTTPS at a host that is
  one of its own; whichever it is, the link table stays as it was.\<close>

theorem http_port_only_redirects:
  assumes "httpHandler sv mw ev hr st = (r, es, st')"
  shows "st_db st' = st_db st \<and>
    (rs_status r \<in> {400, 405, 421, 429} \<or>
     (\<exists>acme hr1 r1. mw_ACMEHandler mw = Some acme \<and> acme hr1 = Some r1 \<and> rs_status r = rs_status r1) \<or>
     rs_status r = 308 \<and>
     (\<exists>host. ToLower host \<in> set (mw_allowedHosts mw) \<and>
        map_of (rs_headers r) ''Location'' = Some (''https://'' @
          (if mw_HTTPSPort mw \<noteq> 443 then JoinHostPort host (itoa (mw_HTTPSPort mw))
           else if Contains host '':'' then ''['' @ host @ '']'' else host) @ hr_RequestURI hr)))"
  using assms unfolding httpHandler_def
proof (cases rule: wrap_cases)
  case (routed hr1 r1 ai st1)
  then have st: "st' = st1" by (auto split: option.splits)
  show ?thesis
  proof (cases "\<exists>acme r1. mw_ACMEHandler mw = Some acme \<and> acme hr1 = Some r1")
    case True
    then obtain acme x where x: "mw_ACMEHandler mw = Some acme" "acme hr1 = Some x" by blast
    with routed(5,6) have "rs_status r = rs_status x" by simp
    with x routed(4) st show ?thesis by metis
  next
    case False
    with routed(5) have "r1 = redirectToHTTPS mw hr1" by (auto split: option.splits)
    then have "rs_status r = 308 \<and> map_of (rs_headers r) ''Location'' = Some (''https://'' @
        (if mw_HTTPSPort mw \<noteq> 443 then JoinHostPort (stripPort (hr_Host hr)) (itoa (mw_HTTPSPort mw))
         else if Contains (stripPort (hr_Host hr)) '':'' then ''['' @ stripPort (hr_Host hr) @ '']''
         else stripPort (hr_Host hr)) @ hr_RequestURI hr)"
      unfolding routed(6) redirectToHTTPS_def Let_def routed(1,2) by simp
    with routed(3,4) st show ?thesis by blast
  qed
qed auto

definition ex_mw :: "string middleware" where
  "ex_mw = \<lparr>mw_ip = ex_ip, mw_trusted = [], mw_allowedHosts = [''s.org''], mw_hsts = [], mw_HTTPSPort = 443,
     mw_bytes = (\<lambda>_. 0), mw_ACMEHandler = None\<rparr>"

definition ex_http :: http_request where
  "ex_http = \<lparr>hr_api = ex_request ''GET'' ''/a/x'' [] ([], []), hr_limited_link = (Inr ([], []), False),
     hr_limited_batch = (Inr [], False), hr_Host = ''S.org:80'', hr_RequestURI = ''/a/x?y'', hr_IsAbs = False,
     hr_RemoteAddr = ''192.0.2.7:99'', hr_XFF = [], hr_XRealIP = [], hr_RequestID = [], hr_newID = ''id'',
     hr_UserAgent = [], hr_Referer = [], hr_start = 0, hr_micros = 250\<rparr>"

theorem http_port_only_redirects_example:
  "\<exists>r es st'. httpHandler ex_server ex_mw ex_env ex_http ex_state = (r, es, st') \<and> st_db st' = st_db ex_state \<and>
     rs_status r = 308 \<and> map_of (rs_headers r) ''Location'' = Some ''https://S.org/a/x?y''"
proof -
  have e: "case httpHandler ex_server ex_mw ex_env ex_http ex_state of (r, es, st') \<Rightarrow>
      rs_status r = 308 \<and> map_of (rs_headers r) ''Location'' = Some ''https://S.org/a/x?y''" by code_simp
  obtain r es st' where h: "httpHandler ex_server ex_mw ex_env ex_http ex_state = (r, es, st')"
    by (cases "httpHandler ex_server ex_mw ex_env ex_http ex_state")
  from conjunct1 [OF http_port_only_redirects [OF h]] h e show ?thesis by simp
qed

subsection \<open>Listeners\<close>

definition bound_kinds :: "int \<Rightarrow> int \<Rightarrow> string \<Rightarrow> listener list" where
  "bound_kinds http https addr =
     (if http > 0 then [(addr, http, if https > 0 then ServeHTTPHandler else ServeMain)] else []) @
     (if https > 0 then [(addr, https, ServeTLS)] else [])"

lemma bind_listeners_ok:
  "bind_listeners bind http https addrs acc = (None, ls) \<longleftrightarrow>
     ls = acc @ concat (map (bound_kinds http https) addrs) \<and>
     (\<forall>a\<in>set addrs. (http > 0 \<longrightarrow> bind a http = None) \<and> (https > 0 \<longrightarrow> bind a https = None))"
  by (induction bind http https addrs acc arbitrary: ls rule: bind_listeners.induct)
    (auto simp: bound_kinds_def bind_port_def split: option.splits if_splits prod.splits)

lemma bind_listeners_error:
  "bind_listeners bind http https addrs acc = (Some e, ls) \<Longrightarrow> \<exists>a p x. e = ListenFailed a p x \<and> bind a p = Some x"
  by (induction bind http https addrs acc arbitrary: ls rule: bind_listeners.induct)
    (auto simp: bind_port_def split: option.splits if_splits prod.splits)

text \<open>The listeners a run of \<open>Serve\<close> bound, and those it closed or shut down.\<close>

definition bound_of :: "serve_action list \<Rightarrow> listener list" where
  "bound_of acts = concat (map (\<lambda>a. case a of Bound l \<Rightarrow> [l] | _ \<Rightarrow> []) acts)"

definition ended_of :: "serve_action list \<Rightarrow> nat list" where
  "ended_of acts = concat (map (\<lambda>a. case a of Bound l \<Rightarrow> [] | CloseServer i \<Rightarrow> [i] | ShutdownServer i \<Rightarrow> [i]) acts)"

lemma bound_ended_simps [simp]:
  "bound_of [] = []" "bound_of (xs @ ys) = bound_of xs @ bound_of ys"
  "bound_of (map Bound ls) = ls" "bound_of (map CloseServer ns) = []" "bound_of (map ShutdownServer ns) = []"
  "ended_of [] = []" "ended_of (xs @ ys) = ended_of xs @ ended_of ys"
  "ended_of (map Bound ls) = []" "ended_of (map CloseServer ns) = ns" "ended_of (map ShutdownServer ns) = ns"
  by (simp_all add: bound_of_def ended_of_def comp_def)

text \<open>Serving starts exactly when every configured address can be bound on every enabled port, and
  then with one listener for each; in particular no listener serves links in plain text once an HTTPS
  port is set. Whatever happens, every listener that was bound is closed or shut down again, each once.\<close>

theorem listeners_match_the_configuration:
  assumes "Serve bind http https addrs ending ans = (err, acts)"
  shows "ended_of acts = [0..<length (bound_of acts)]"
    and "(\<exists>a p x. err = Some (ListenFailed a p x) \<and> bind a p = Some x) \<or>
      err = Some NoListeners \<and> bound_of acts = [] \<and> (\<forall>a\<in>set addrs. http \<le> 0 \<and> https \<le> 0) \<or>
      bound_of acts = concat (map (bound_kinds http https) addrs) \<and> bound_of acts \<noteq> [] \<and>
      err = (case ending of Cancelled \<Rightarrow> shutdown ans (length (bound_of acts)) | Failed e \<Rightarrow> Some (ServerFailed e)) \<and>
      (https > 0 \<longrightarrow> (\<forall>l\<in>set (bound_of acts). snd (snd l) \<noteq> ServeMain))"
proof -
  obtain e ls where b: "bind_listeners bind http https addrs [] = (e, ls)" by fastforce
  show "ended_of acts = [0..<length (bound_of acts)]"
    using assms b by (auto simp: Serve_def split: option.splits if_splits)
  have plain: "snd (snd l) \<noteq> ServeMain" if "https > 0" "l \<in> set (concat (map (bound_kinds http https) addrs))" for l
    using that by (auto simp: bound_kinds_def split: if_splits)
  have none: "http \<le> 0 \<and> https \<le> 0" if "concat (map (bound_kinds http https) addrs) = []" "a \<in> set addrs" for a
    using that by (auto simp: bound_kinds_def split: if_splits)
  show "(\<exists>a p x. err = Some (ListenFailed a p x) \<and> bind a p = Some x) \<or>
      err = Some NoListeners \<and> bound_of acts = [] \<and> (\<forall>a\<in>set addrs. http \<le> 0 \<and> https \<le> 0) \<or>
      bound_of acts = concat (map (bound_kinds http https) addrs) \<and> bound_of acts \<noteq> [] \<and>
      err = (case ending of Cancelled \<Rightarrow> shutdown ans (length (bound_of acts)) | Failed e \<Rightarrow> Some (ServerFailed e)) \<and>
      (https > 0 \<longrightarrow> (\<forall>l\<in>set (bound_of acts). snd (snd l) \<noteq> ServeMain))"
  proof (cases e)
    case (Some x)
    with bind_listeners_error [of bind http https addrs "[]" x ls] b assms show ?thesis by (auto simp: Serve_def)
  next
    case None
    with b have ls: "ls = concat (map (bound_kinds http https) addrs)"
      using bind_listeners_ok [of bind http https addrs "[]" ls] by simp
    show ?thesis
    proof (cases "ls = []")
      case True
      with ls none have "\<forall>a\<in>set addrs. http \<le> 0 \<and> https \<le> 0" by blast
      with True None b assms show ?thesis by (simp add: Serve_def)
    next
      case False
      with None b assms have r: "bound_of acts = ls"
        "err = (case ending of Cancelled \<Rightarrow> shutdown ans (length ls) | Failed e \<Rightarrow> Some (ServerFailed e))"
        by (auto simp: Serve_def)
      have "https > 0 \<longrightarrow> (\<forall>l\<in>set ls. snd (snd l) \<noteq> ServeMain)" unfolding ls using plain by blast
      moreover have "err = (case ending of Cancelled \<Rightarrow> shutdown ans (length (bound_of acts))
          | Failed e \<Rightarrow> Some (ServerFailed e))" by (simp only: r)
      moreover have "bound_of acts = concat (map (bound_kinds http https) addrs)" unfolding r(1) by (rule ls)
      ultimately show ?thesis using False unfolding r(1) [symmetric] by blast
    qed
  qed
qed

theorem listeners_match_the_configuration_example:
  "\<exists>acts. Serve (\<lambda>_ _. None) 80 443 [''0.0.0.0'', ''::''] Cancelled (\<lambda>_. None) = (None, acts) \<and>
     length (bound_of acts) = 4 \<and> ended_of acts = [0, 1, 2, 3]"
proof -
  have "fst (Serve (\<lambda>_ _. None) 80 443 [''0.0.0.0'', ''::''] Cancelled (\<lambda>_. None)) = None"
    "length (bound_of (snd (Serve (\<lambda>_ _. None) 80 443 [''0.0.0.0'', ''::''] Cancelled (\<lambda>_. None)))) = 4"
    by code_simp+
  then obtain acts where s: "Serve (\<lambda>_ _. None) 80 443 [''0.0.0.0'', ''::''] Cancelled (\<lambda>_. None) = (None, acts)"
    and l: "length (bound_of acts) = 4" by (metis prod.collapse snd_conv)
  from listeners_match_the_configuration(1) [OF s] l have "ended_of acts = [0, 1, 2, 3]" by (simp add: upt_rec)
  with s l show ?thesis by blast
qed

end
