(* ===== verification/Files.thy ===== *)
theory Files
  imports GoTime
begin

text \<open>
  The part of \<open>os\<close> and \<open>bufio\<close> that the log writers of both programs use: a directory as a map from
  names to contents, a file opened for appending, and a buffered writer as its pending bytes.
\<close>

subsection \<open>Files\<close>

type_synonym dir = "string \<rightharpoonup> string"

definition append_file :: "string \<Rightarrow> string \<Rightarrow> dir \<Rightarrow> dir" where
  "append_file name s d = (case d name of None \<Rightarrow> d | Some c \<Rightarrow> d(name \<mapsto> c @ s))"

text \<open>\<open>O_CREATE | O_APPEND\<close>.\<close>

definition create_file :: "string \<Rightarrow> dir \<Rightarrow> dir" where
  "create_file name d = (case d name of None \<Rightarrow> d(name \<mapsto> []) | Some _ \<Rightarrow> d)"

text \<open>\<open>bufio.Writer.Write\<close>: what goes to the file, and what stays in the buffer.\<close>

definition buffer_size :: int where "buffer_size = 16 * 1024"

definition bufio_write :: "string \<Rightarrow> string \<Rightarrow> string \<times> string" where
  "bufio_write buf p =
     (let av = buffer_size - int (length buf)
      in if int (length p) \<le> av then ([], buf @ p)
         else if buf = [] then (p, [])
         else
           (let rest = drop (nat av) p
            in if int (length rest) \<le> buffer_size then (buf @ take (nat av) p, rest) else (buf @ p, [])))"

lemma bufio_write_keeps: "fst (bufio_write buf p) @ snd (bufio_write buf p) = buf @ p"
  by (auto simp: bufio_write_def Let_def)

end
