(* ===== verification/UrlLogs.thy ===== *)
theory UrlLogs
  imports Files UrlStatus
begin

text \<open>
  The rotated log files of the URL shortener: \<open>urlshort/logfile.go\<close> and \<open>urlshort/accesslog.go\<close>. The
  directory maps file names to their contents. A run is a sequence of what the two goroutines of a
  log do: a caller enqueues a record, the writer takes one, its ticker fires, and closing drains the
  channel. An open that fails and a removal that fails are the environment's choice; a write to an
  open file succeeds, and reaches the directory unless the name has been removed meanwhile.
\<close>

subsection \<open>The log\<close>

definition channel_size :: int where "channel_size = 4096"

record dailyLog =
  dl_prefix :: string
  dl_suffix :: string
  dl_retentionDays :: int

record log_state =
  ls_ch :: "string list"
  ls_closed :: bool
  ls_dropped :: nat
  ls_file :: "(string \<times> string) option"
  ls_lastCleanupDay :: string
  ls_dir :: dir

text \<open>\<open>Write\<close> and \<open>enqueue\<close>: a record, unless the log is closed; a full channel drops it.\<close>

definition enqueue :: "string \<Rightarrow> log_state \<Rightarrow> log_state" where
  "enqueue b s =
     (if ls_closed s then s
      else if int (length (ls_ch s)) < channel_size then s\<lparr>ls_ch := ls_ch s @ [b]\<rparr>
      else s\<lparr>ls_dropped := ls_dropped s + 1\<rparr>)"

definition file_name :: "dailyLog \<Rightarrow> string \<Rightarrow> string" where
  "file_name l day = dl_prefix l @ day @ dl_suffix l"

definition openFile :: "dailyLog \<Rightarrow> bool \<Rightarrow> string \<Rightarrow> log_state \<Rightarrow> log_state" where
  "openFile l ok day s =
     (if \<not> ok then s else s\<lparr>ls_file := Some (day, []), ls_dir := create_file (file_name l day) (ls_dir s)\<rparr>)"

definition flush :: "dailyLog \<Rightarrow> log_state \<Rightarrow> log_state" where
  "flush l s =
     (case ls_file s of
        None \<Rightarrow> s
      | Some (day, buf) \<Rightarrow>
          s\<lparr>ls_file := Some (day, []), ls_dir := append_file (file_name l day) buf (ls_dir s)\<rparr>)"

definition closeFile :: "dailyLog \<Rightarrow> log_state \<Rightarrow> log_state" where
  "closeFile l s = (flush l s)\<lparr>ls_file := None\<rparr>"

definition with_newline :: "string \<Rightarrow> string" where
  "with_newline b = (if b = [] \<or> last b \<noteq> CHR 0x0A then b @ [CHR 0x0A] else b)"

text \<open>\<open>write\<close> of the writer goroutine, at an instant; \<open>ok\<close> is what opening a file would answer.\<close>

definition write_record :: "dailyLog \<Rightarrow> instant \<Rightarrow> bool \<Rightarrow> string \<Rightarrow> log_state \<Rightarrow> log_state" where
  "write_record l now ok b s =
     (let day = format_date now;
          s1 = (case ls_file s of
                  None \<Rightarrow> openFile l ok day s
                | Some (d, _) \<Rightarrow> if day \<noteq> d then openFile l ok day (closeFile l s) else s)
      in case ls_file s1 of
           None \<Rightarrow> s1
         | Some (d, buf) \<Rightarrow>
             (case bufio_write buf (with_newline b) of
                (out, buf') \<Rightarrow>
                  s1\<lparr>ls_file := Some (d, buf'), ls_dir := append_file (file_name l d) out (ls_dir s1)\<rparr>))"

subsection \<open>Retention\<close>

text \<open>A directory listing: names, and whether each is a directory.\<close>

definition log_date :: "dailyLog \<Rightarrow> string \<times> bool \<Rightarrow> (string \<times> instant) option" where
  "log_date l e =
     (case e of
        (name, isDir) \<Rightarrow>
          if isDir \<or> \<not> HasPrefix name (dl_prefix l) \<or> \<not> HasSuffix name (dl_suffix l) then None
          else map_option (Pair name) (parse_date (TrimSuffix (TrimPrefix name (dl_prefix l)) (dl_suffix l))))"

definition logFiles :: "dailyLog \<Rightarrow> (string \<times> bool) list \<Rightarrow> (string \<times> instant) list" where
  "logFiles l entries = sort_key snd (List.map_filter (log_date l) entries)"

text \<open>\<open>cleanup\<close>: the names it removes. \<open>AddDate\<close> in UTC moves by whole days.\<close>

definition cleanup_removes :: "dailyLog \<Rightarrow> instant \<Rightarrow> (string \<times> bool) list option \<Rightarrow> string list" where
  "cleanup_removes l now listing =
     (if dl_retentionDays l \<le> 0 then []
      else
        (let cutoff = now - dl_retentionDays l * day_ns
         in case listing of
              None \<Rightarrow> []
            | Some entries \<Rightarrow> map fst (filter (\<lambda>f. snd f < cutoff) (logFiles l entries))))"

text \<open>What the environment answers: the listing of the directory, and which removals succeed.\<close>

record log_env =
  le_listing :: "dir \<Rightarrow> (string \<times> bool) list option"
  le_remove :: "string \<Rightarrow> bool"

definition cleanup :: "log_env \<Rightarrow> dailyLog \<Rightarrow> instant \<Rightarrow> dir \<Rightarrow> dir" where
  "cleanup le l now d =
     fold (\<lambda>f d. if le_remove le f then d(f := None) else d) (cleanup_removes l now (le_listing le d)) d"

definition newDailyLog :: "log_env \<Rightarrow> dailyLog \<Rightarrow> instant \<Rightarrow> dir \<Rightarrow> log_state" where
  "newDailyLog le l now d =
     \<lparr>ls_ch = [], ls_closed = False, ls_dropped = 0, ls_file = None, ls_lastCleanupDay = format_date now,
      ls_dir = cleanup le l now d\<rparr>"

definition tick :: "log_env \<Rightarrow> dailyLog \<Rightarrow> instant \<Rightarrow> log_state \<Rightarrow> log_state" where
  "tick le l now s =
     (let s1 = flush l s; day = format_date now
      in if day \<noteq> ls_lastCleanupDay s1
         then s1\<lparr>ls_dir := cleanup le l now (ls_dir s1), ls_lastCleanupDay := day\<rparr> else s1)"

text \<open>The drain of \<open>Close\<close>, each record at its own instant, and the closing of the file.\<close>

fun drain :: "dailyLog \<Rightarrow> (nat \<Rightarrow> instant \<times> bool) \<Rightarrow> nat \<Rightarrow> string list \<Rightarrow> log_state \<Rightarrow> log_state" where
  "drain l clock i [] s = s"
| "drain l clock i (b # bs) s = drain l clock (Suc i) bs (write_record l (fst (clock i)) (snd (clock i)) b s)"

definition stop_writer :: "dailyLog \<Rightarrow> (nat \<Rightarrow> instant \<times> bool) \<Rightarrow> log_state \<Rightarrow> log_state" where
  "stop_writer l clock s = closeFile l (drain l clock 0 (ls_ch s) (s\<lparr>ls_ch := [], ls_closed := True\<rparr>))"

datatype log_event = Enqueue string | TakeOne instant bool | Tick instant

fun log_step :: "log_env \<Rightarrow> dailyLog \<Rightarrow> log_event \<Rightarrow> log_state \<Rightarrow> log_state" where
  "log_step le l (Enqueue b) s = enqueue b s"
| "log_step le l (TakeOne now ok) s =
     (case ls_ch s of [] \<Rightarrow> s | b # bs \<Rightarrow> write_record l now ok b (s\<lparr>ls_ch := bs\<rparr>))"
| "log_step le l (Tick now) s = tick le l now s"

definition log_run :: "log_env \<Rightarrow> dailyLog \<Rightarrow> log_event list \<Rightarrow> log_state \<Rightarrow> log_state" where
  "log_run le l es s = fold (log_step le l) es s"

subsection \<open>Statistics\<close>

definition stats :: "log_env \<Rightarrow> dailyLog \<Rightarrow> instant \<Rightarrow> dir \<Rightarrow> logFileStats" where
  "stats le l now d =
     (case le_listing le d of
        None \<Rightarrow> \<lparr>lf_CurrentFile = [], lf_CurrentSizeBytes = 0, lf_OldestRetained = [], lf_Files = 0\<rparr>
      | Some entries \<Rightarrow>
          (let files = logFiles l entries; cur = file_name l (format_date now)
           in \<lparr>lf_CurrentFile = cur,
               lf_CurrentSizeBytes = (case d cur of None \<Rightarrow> 0 | Some c \<Rightarrow> length c),
               lf_OldestRetained = (case files of [] \<Rightarrow> [] | f # _ \<Rightarrow> format_date (snd f)),
               lf_Files = length files\<rparr>))"

subsection \<open>The access log\<close>

definition access_log :: "int \<Rightarrow> dailyLog" where
  "access_log retentionDays =
     \<lparr>dl_prefix = ''access-'', dl_suffix = ''.jsonl'', dl_retentionDays = retentionDays\<rparr>"

text \<open>\<open>Log\<close>: a zero timestamp becomes the present; \<open>marshal\<close> is \<open>encoding/json\<close>.\<close>

definition Log :: "('e \<Rightarrow> string option) \<Rightarrow> ('e \<Rightarrow> bool) \<Rightarrow> (instant \<Rightarrow> 'e \<Rightarrow> 'e) \<Rightarrow> instant \<Rightarrow> 'e \<Rightarrow>
    log_state \<Rightarrow> log_state" where
  "Log marshal zero stamp now e0 s =
     (let e = (if zero e0 then stamp now e0 else e0)
      in case marshal e of None \<Rightarrow> s | Some b \<Rightarrow> enqueue b s)"

subsection \<open>Nothing accepted is lost\<close>

text \<open>What a run has to leave behind. \<open>pending\<close> are the records accepted and not yet handled; the
  handled ones are listed with the day of their file, newest last, or without one when no file could
  be opened.\<close>

definition handled_day :: "log_state \<Rightarrow> instant \<Rightarrow> bool \<Rightarrow> string option" where
  "handled_day s now ok =
     (case ls_file s of
        Some (d, _) \<Rightarrow> if format_date now = d then Some d else if ok then Some (format_date now) else None
      | None \<Rightarrow> if ok then Some (format_date now) else None)"

fun log_handles :: "log_event \<Rightarrow> log_state \<Rightarrow> (string option \<times> string) list" where
  "log_handles (TakeOne now ok) s = (case ls_ch s of [] \<Rightarrow> [] | b # _ \<Rightarrow> [(handled_day s now ok, b)])"
| "log_handles _ s = []"

text \<open>The text due in a day's file.\<close>

definition due :: "string \<Rightarrow> (string option \<times> string) list \<Rightarrow> string" where
  "due day hs = concat (map (with_newline \<circ> snd) (filter (\<lambda>h. fst h = Some day) hs))"

definition in_buffer :: "string \<Rightarrow> log_state \<Rightarrow> string" where
  "in_buffer day s = (case ls_file s of Some (d, buf) \<Rightarrow> if d = day then buf else [] | None \<Rightarrow> [])"

text \<open>The contents of a day's file together with the buffer bound for it.\<close>

definition day_text :: "dailyLog \<Rightarrow> string \<Rightarrow> log_state \<Rightarrow> string option" where
  "day_text l day s = map_option (\<lambda>c. c @ in_buffer day s) (ls_dir s (file_name l day))"

definition open_exists :: "dailyLog \<Rightarrow> string \<Rightarrow> log_state \<Rightarrow> bool" where
  "open_exists l day s \<longleftrightarrow> (\<forall>buf. ls_file s = Some (day, buf) \<longrightarrow> ls_dir s (file_name l day) \<noteq> None)"

lemma file_name_inj [simp]: "file_name l a = file_name l b \<longleftrightarrow> a = b"
  by (simp add: file_name_def)

lemma flush_text:
  assumes "open_exists l day s"
  shows "day_text l day (flush l s) = day_text l day s" and "open_exists l day (flush l s)"
    and "in_buffer day (flush l s) = []" and "ls_ch (flush l s) = ls_ch s"
  using assms by (auto simp: flush_def day_text_def in_buffer_def open_exists_def append_file_def
      split: option.splits prod.splits)

lemma closeFile_text:
  assumes "open_exists l day s"
  shows "day_text l day (closeFile l s) = day_text l day s" and "ls_file (closeFile l s) = None"
    and "ls_ch (closeFile l s) = ls_ch s"
  using flush_text [OF assms] by (auto simp: closeFile_def day_text_def in_buffer_def split: option.splits)

lemma openFile_text:
  assumes "ls_file s = None"
  shows "open_exists l day (openFile l ok d s)" and "ls_ch (openFile l ok d s) = ls_ch s"
    and "map_option fst (ls_file (openFile l ok d s)) = (if ok then Some d else None)"
    and "day_text l day (openFile l ok d s) =
      (if ok \<and> d = day then Some (case day_text l day s of None \<Rightarrow> [] | Some c \<Rightarrow> c) else day_text l day s)"
  using assms by (auto simp: openFile_def open_exists_def day_text_def in_buffer_def create_file_def split: option.splits)

text \<open>The file is the one a record handled now goes to.\<close>

lemma select_file_text:
  assumes "open_exists l day s"
    and "s1 = (case ls_file s of
      None \<Rightarrow> openFile l ok (format_date now) s
    | Some (d, _) \<Rightarrow> if format_date now \<noteq> d then openFile l ok (format_date now) (closeFile l s) else s)"
  shows "open_exists l day s1 \<and> ls_ch s1 = ls_ch s \<and> map_option fst (ls_file s1) = handled_day s now ok \<and>
      (case day_text l day s1 of None \<Rightarrow> [] | Some c \<Rightarrow> c) = (case day_text l day s of None \<Rightarrow> [] | Some c \<Rightarrow> c) \<and>
      (handled_day s now ok = Some day \<longrightarrow> day_text l day s1 \<noteq> None)"
proof (cases "ls_file s")
  case None
  with openFile_text [OF None] show ?thesis by (auto simp: assms(2) handled_day_def)
next
  case (Some f)
  obtain d buf where f: "f = (d, buf)" by (cases f)
  show ?thesis
  proof (cases "format_date now = d")
    case True
    with Some f assms(1) show ?thesis by (auto simp: assms(2) handled_day_def open_exists_def day_text_def)
  next
    case False
    note cl = closeFile_text [OF assms(1)]
    from False Some f have "s1 = openFile l ok (format_date now) (closeFile l s)" by (simp add: assms(2))
    with openFile_text [OF cl(2)] cl(1,3) Some f False show ?thesis by (auto simp: handled_day_def)
  qed
qed

definition text_of :: "dailyLog \<Rightarrow> string \<Rightarrow> log_state \<Rightarrow> string" where
  "text_of l day s = (case day_text l day s of None \<Rightarrow> [] | Some c \<Rightarrow> c)"

lemma text_of_cong:
  "ls_file s = ls_file s' \<Longrightarrow> ls_dir s (file_name l day) = ls_dir s' (file_name l day) \<Longrightarrow>
   text_of l day s = text_of l day s'"
  by (simp add: text_of_def day_text_def in_buffer_def)

lemma open_exists_cong:
  "ls_file s = ls_file s' \<Longrightarrow> ls_dir s (file_name l day) = ls_dir s' (file_name l day) \<Longrightarrow>
   open_exists l day s = open_exists l day s'"
  by (simp add: open_exists_def)

lemma write_record_text:
  assumes "open_exists l day s"
  shows "open_exists l day (write_record l now ok b s)" and "ls_ch (write_record l now ok b s) = ls_ch s"
    and "text_of l day (write_record l now ok b s) = text_of l day s @ due day [(handled_day s now ok, b)]"
proof -
  define s1 where "s1 = (case ls_file s of
      None \<Rightarrow> openFile l ok (format_date now) s
    | Some (d, _) \<Rightarrow> if format_date now \<noteq> d then openFile l ok (format_date now) (closeFile l s) else s)"
  note s1 = select_file_text [OF assms s1_def]
  have w: "write_record l now ok b s = (case ls_file s1 of None \<Rightarrow> s1 | Some (d, buf) \<Rightarrow>
      (case bufio_write buf (with_newline b) of (out, buf') \<Rightarrow>
         s1\<lparr>ls_file := Some (d, buf'), ls_dir := append_file (file_name l d) out (ls_dir s1)\<rparr>))"
    unfolding write_record_def Let_def s1_def by simp
  have "open_exists l day (write_record l now ok b s) \<and> ls_ch (write_record l now ok b s) = ls_ch s \<and>
    text_of l day (write_record l now ok b s) = text_of l day s @ due day [(handled_day s now ok, b)]"
  proof (cases "ls_file s1")
    case None
    with s1 w show ?thesis by (auto simp: text_of_def due_def)
  next
    case (Some f)
    obtain d buf where f: "f = (d, buf)" by (cases f)
    obtain out buf' where bw: "bufio_write buf (with_newline b) = (out, buf')" by fastforce
    with bufio_write_keeps [of buf "with_newline b"] have cat: "out @ buf' = buf @ with_newline b" by simp
    from s1 Some f have h: "handled_day s now ok = Some d" by simp
    have w2: "write_record l now ok b s =
        s1\<lparr>ls_file := Some (d, buf'), ls_dir := append_file (file_name l d) out (ls_dir s1)\<rparr>"
      using w Some f bw by simp
    show ?thesis
    proof (cases "d = day")
      case True
      with s1 Some f obtain c where c: "ls_dir s1 (file_name l day) = Some c" by (auto simp: open_exists_def)
      have "text_of l day s = c @ buf"
        using s1 Some f True c by (auto simp: text_of_def day_text_def in_buffer_def)
      then show ?thesis
        using s1 True c cat h unfolding w2
        by (auto simp: text_of_def day_text_def in_buffer_def append_file_def open_exists_def due_def)
    next
      case False
      then show ?thesis
        using s1 Some f h unfolding w2
        by (auto simp: text_of_def day_text_def in_buffer_def append_file_def open_exists_def due_def split: option.split)
    qed
  qed
  then show "open_exists l day (write_record l now ok b s)" "ls_ch (write_record l now ok b s) = ls_ch s"
    "text_of l day (write_record l now ok b s) = text_of l day s @ due day [(handled_day s now ok, b)]"
    by blast+
qed

lemma due_append [simp]: "due day (a @ b) = due day a @ due day b"
  by (simp add: due_def)

lemma due_Nil [simp]: "due day [] = []"
  by (simp add: due_def)

text \<open>Which files retention spares.\<close>

definition retained :: "dailyLog \<Rightarrow> string \<Rightarrow> instant \<Rightarrow> bool" where
  "retained l day now \<longleftrightarrow>
     (\<forall>t. parse_date day = Some t \<longrightarrow> dl_retentionDays l \<le> 0 \<or> now - dl_retentionDays l * day_ns \<le> t)"

lemma log_date_file_name:
  assumes "log_date l e = Some (file_name l day, t)"
  shows "parse_date day = Some t"
  using assms by (cases e) (auto simp: log_date_def file_name_def split: if_splits)

lemma cleanup_spares:
  assumes "retained l day now"
  shows "cleanup le l now d (file_name l day) = d (file_name l day)"
proof -
  have "file_name l day \<notin> set (cleanup_removes l now listing)" for listing
  proof
    assume a: "file_name l day \<in> set (cleanup_removes l now listing)"
    then obtain entries where e: "listing = Some entries" "\<not> dl_retentionDays l \<le> 0"
      by (auto simp: cleanup_removes_def Let_def split: if_splits option.splits)
    with a obtain f where f: "f \<in> set (logFiles l entries)" "fst f = file_name l day"
        "snd f < now - dl_retentionDays l * day_ns"
      by (auto simp: cleanup_removes_def Let_def)
    then obtain x where "log_date l x = Some f" by (auto simp: logFiles_def List.map_filter_def)
    with f(2) have "parse_date day = Some (snd f)" using log_date_file_name [of l x day "snd f"] by (cases f) simp
    with assms e(2) f(3) show False by (auto simp: retained_def)
  qed
  moreover have "fold (\<lambda>f d. if le_remove le f then d(f := None) else d) fs d n = d n" if "n \<notin> set fs" for fs n
    using that by (induction fs arbitrary: d) auto
  ultimately show ?thesis by (simp add: cleanup_def)
qed

lemma tick_text:
  assumes "open_exists l day s" and "retained l day now"
  shows "open_exists l day (tick le l now s)" and "ls_ch (tick le l now s) = ls_ch s"
    and "text_of l day (tick le l now s) = text_of l day s"
proof -
  let ?s = "flush l s"
  have f: "ls_file (tick le l now s) = ls_file ?s \<and> ls_ch (tick le l now s) = ls_ch ?s \<and>
      ls_dir (tick le l now s) (file_name l day) = ls_dir ?s (file_name l day)"
    using cleanup_spares [OF assms(2)] by (simp add: tick_def Let_def)
  then show "open_exists l day (tick le l now s)" "ls_ch (tick le l now s) = ls_ch s"
    using flush_text [OF assms(1)] open_exists_cong [of "tick le l now s" ?s] by auto
  have "text_of l day ?s = text_of l day s" using flush_text(1) [OF assms(1)] by (simp add: text_of_def)
  with f show "text_of l day (tick le l now s) = text_of l day s"
    using text_of_cong [of "tick le l now s" ?s] by simp
qed

fun spared :: "dailyLog \<Rightarrow> string \<Rightarrow> log_event \<Rightarrow> bool" where
  "spared l day (Tick now) = retained l day now"
| "spared l day _ = True"

lemma log_step_text:
  assumes "open_exists l day s" and "spared l day e"
  shows "open_exists l day (log_step le l e s)"
    and "text_of l day (log_step le l e s) = text_of l day s @ due day (log_handles e s)"
proof -
  have q: "text_of l day (s\<lparr>ls_ch := x\<rparr>) = text_of l day s" "handled_day (s\<lparr>ls_ch := x\<rparr>) now ok = handled_day s now ok"
    "open_exists l day (s\<lparr>ls_ch := x\<rparr>)" for x now ok
    using assms(1) by (simp_all add: text_of_def day_text_def in_buffer_def handled_day_def open_exists_def)
  have "open_exists l day (log_step le l e s) \<and>
    text_of l day (log_step le l e s) = text_of l day s @ due day (log_handles e s)"
  proof (cases e)
    case (Enqueue b)
    have "ls_file (enqueue b s) = ls_file s" "ls_dir (enqueue b s) = ls_dir s" by (simp_all add: enqueue_def)
    with Enqueue assms(1) show ?thesis
      using text_of_cong [of "enqueue b s" s] open_exists_cong [of "enqueue b s" s] by simp
  next
    case (TakeOne now ok)
    with assms(1) q write_record_text [OF q(3)] show ?thesis by (cases "ls_ch s") simp_all
  next
    case (Tick now)
    with assms tick_text [OF assms(1)] show ?thesis by simp
  qed
  then show "open_exists l day (log_step le l e s)"
    "text_of l day (log_step le l e s) = text_of l day s @ due day (log_handles e s)" by blast+
qed

fun run_handles :: "log_env \<Rightarrow> dailyLog \<Rightarrow> log_event list \<Rightarrow> log_state \<Rightarrow> (string option \<times> string) list" where
  "run_handles le l [] s = []"
| "run_handles le l (e # es) s = log_handles e s @ run_handles le l es (log_step le l e s)"

fun drain_handles :: "dailyLog \<Rightarrow> (nat \<Rightarrow> instant \<times> bool) \<Rightarrow> nat \<Rightarrow> string list \<Rightarrow> log_state \<Rightarrow> (string option \<times> string) list" where
  "drain_handles l clock i [] s = []"
| "drain_handles l clock i (b # bs) s =
     (handled_day s (fst (clock i)) (snd (clock i)), b) #
     drain_handles l clock (Suc i) bs (write_record l (fst (clock i)) (snd (clock i)) b s)"

definition all_handles :: "log_env \<Rightarrow> dailyLog \<Rightarrow> (nat \<Rightarrow> instant \<times> bool) \<Rightarrow> log_event list \<Rightarrow> log_state \<Rightarrow>
    (string option \<times> string) list" where
  "all_handles le l clock es s =
     run_handles le l es s @
     (let s' = log_run le l es s in drain_handles l clock 0 (ls_ch s') (s'\<lparr>ls_ch := [], ls_closed := True\<rparr>))"

text \<open>The records that found room in the channel, in the order they were offered.\<close>

fun accepted :: "log_env \<Rightarrow> dailyLog \<Rightarrow> log_event list \<Rightarrow> log_state \<Rightarrow> string list" where
  "accepted le l [] s = []"
| "accepted le l (e # es) s =
     (case e of Enqueue b \<Rightarrow> if int (length (ls_ch s)) < channel_size \<and> \<not> ls_closed s then [b] else [] | _ \<Rightarrow> []) @
     accepted le l es (log_step le l e s)"

lemma run_text:
  "open_exists l day s \<Longrightarrow> (\<forall>e\<in>set es. spared l day e) \<Longrightarrow>
   open_exists l day (log_run le l es s) \<and>
   text_of l day (log_run le l es s) = text_of l day s @ due day (run_handles le l es s)"
  by (induction es arbitrary: s) (auto simp: log_run_def log_step_text)

lemma drain_text:
  "open_exists l day s \<Longrightarrow>
   open_exists l day (drain l clock i bs s) \<and>
   text_of l day (drain l clock i bs s) = text_of l day s @ due day (drain_handles l clock i bs s)"
proof (induction bs arbitrary: i s)
  case (Cons b bs)
  note w = write_record_text [OF Cons.prems, of "fst (clock i)" "snd (clock i)" b]
  have "due day (drain_handles l clock i (b # bs) s) = due day [(handled_day s (fst (clock i)) (snd (clock i)), b)] @
      due day (drain_handles l clock (Suc i) bs (write_record l (fst (clock i)) (snd (clock i)) b s))"
    by (simp add: due_def)
  with Cons.IH [OF w(1)] w(3) show ?case by simp
qed simp

lemma log_step_ch:
  "ls_ch s @ (case e of Enqueue b \<Rightarrow> if int (length (ls_ch s)) < channel_size \<and> \<not> ls_closed s then [b] else [] | _ \<Rightarrow> []) =
   map snd (log_handles e s) @ ls_ch (log_step le l e s)"
proof (cases e)
  case (TakeOne now ok)
  have "ls_ch (write_record l now ok b x) = ls_ch x" for b x
  proof -
    have "ls_ch (openFile l ok d y) = ls_ch y" "ls_ch (closeFile l y) = ls_ch y" for d y
      by (simp_all add: openFile_def closeFile_def flush_def split: option.split prod.split)
    then show ?thesis by (simp add: write_record_def Let_def split: option.split prod.split)
  qed
  with TakeOne show ?thesis by (cases "ls_ch s") simp_all
next
  case (Tick now)
  then show ?thesis by (simp add: tick_def Let_def flush_def split: option.split prod.split)
qed (simp add: enqueue_def)

lemma run_ch: "ls_ch s @ accepted le l es s = map snd (run_handles le l es s) @ ls_ch (log_run le l es s)"
proof (induction es arbitrary: s)
  case (Cons e es)
  let ?s = "log_step le l e s"
  have "ls_ch s @ accepted le l (e # es) s = map snd (log_handles e s) @ ls_ch ?s @ accepted le l es ?s"
    using log_step_ch [of s e le l] by simp
  also have "\<dots> = map snd (log_handles e s) @ map snd (run_handles le l es ?s) @ ls_ch (log_run le l es ?s)"
    using Cons.IH [of ?s] by simp
  finally show ?case by (simp add: log_run_def)
qed (simp add: log_run_def)

lemma drain_all: "map snd (drain_handles l clock i bs s) = bs"
  by (induction bs arbitrary: i s) simp_all

text \<open>A log that is closed after any run has handled exactly the accepted records, once each and in
  order, and every one of them for which a file could be opened is a line of the file of the day it was
  handled on, behind what that file held before, as long as retention does not reach that day.\<close>

theorem closed_log_holds_every_record:
  assumes "s0 = newDailyLog le l now d0" and "\<forall>e\<in>set es. spared l day e"
    and "hs = all_handles le l clock es s0" and "s = stop_writer l clock (log_run le l es s0)"
  shows "map snd hs = accepted le l es s0 \<and>
    (case ls_dir s (file_name l day) of None \<Rightarrow> [] | Some c \<Rightarrow> c) =
    (case ls_dir s0 (file_name l day) of None \<Rightarrow> [] | Some c \<Rightarrow> c) @ due day hs"
proof
  let ?s1 = "log_run le l es s0"
  let ?s2 = "?s1\<lparr>ls_ch := [], ls_closed := True\<rparr>"
  have ch: "ls_ch s0 = []" "ls_file s0 = None" by (simp_all add: assms(1) newDailyLog_def)
  show "map snd hs = accepted le l es s0"
    using run_ch [of s0 le l es] ch(1) by (simp add: assms(3) all_handles_def Let_def drain_all)
  have "open_exists l day s0" by (simp add: open_exists_def ch)
  with run_text [OF _ assms(2), of s0 le] have r: "open_exists l day ?s1"
    "text_of l day ?s1 = text_of l day s0 @ due day (run_handles le l es s0)" by auto
  have "open_exists l day ?s2" "text_of l day ?s2 = text_of l day ?s1"
    using r(1) by (auto simp: open_exists_def text_of_def day_text_def in_buffer_def)
  note d = drain_text [OF this(1), of clock 0 "ls_ch ?s1"] this(2)
  let ?s3 = "drain l clock 0 (ls_ch ?s1) ?s2"
  have "text_of l day s = text_of l day ?s3"
    using closeFile_text [OF conjunct1 [OF d(1)]] by (simp add: assms(4) stop_writer_def text_of_def)
  then have "text_of l day s = text_of l day s0 @ due day hs"
    using d r(2) by (simp add: assms(3) all_handles_def Let_def)
  moreover have "ls_file s = None"
    using closeFile_text(2) [OF conjunct1 [OF d(1)]] by (simp add: assms(4) stop_writer_def)
  ultimately show "(case ls_dir s (file_name l day) of None \<Rightarrow> [] | Some c \<Rightarrow> c) =
      (case ls_dir s0 (file_name l day) of None \<Rightarrow> [] | Some c \<Rightarrow> c) @ due day hs"
    using ch(2) by (auto simp: text_of_def day_text_def in_buffer_def split: option.splits)
qed

lemma removed_iff:
  assumes "\<forall>f. le_remove le f"
  shows "cleanup le l now d name = (if name \<in> set (cleanup_removes l now (le_listing le d)) then None else d name)"
proof -
  have "fold (\<lambda>f d. if le_remove le f then d(f := None) else d) fs d name = (if name \<in> set fs then None else d name)" for fs
    using assms by (induction fs arbitrary: d) auto
  then show ?thesis by (simp add: cleanup_def)
qed

definition ex_log :: dailyLog where
  "ex_log = access_log 2"

definition ex_log_env :: log_env where
  "ex_log_env = \<lparr>le_listing = (\<lambda>d. Some [(''access-1970-01-01.jsonl'', False), (''notes'', False)]), le_remove = (\<lambda>_. True)\<rparr>"

theorem closed_log_holds_every_record_example:
  "(case ls_dir (stop_writer ex_log (\<lambda>_. (day_ns * 10, True)) (log_run ex_log_env ex_log
      [Enqueue ''a'', Enqueue ''b'', TakeOne (day_ns * 9) True] (newDailyLog ex_log_env ex_log (day_ns * 9) Map.empty)))
      (file_name ex_log (format_date (day_ns * 10))) of None \<Rightarrow> [] | Some c \<Rightarrow> c) = [CHR ''b'', CHR 0x0A]"
proof -
  let ?es = "[Enqueue ''a'', Enqueue ''b'', TakeOne (day_ns * 9) True]"
  let ?s0 = "newDailyLog ex_log_env ex_log (day_ns * 9) Map.empty"
  have sp: "\<forall>e\<in>set ?es. spared ex_log (format_date (day_ns * 10)) e" by simp
  have d: "format_date (day_ns * 10) = ''1970-01-11''" "format_date (day_ns * 9) = ''1970-01-10''" by code_simp+
  have e: "ls_dir ?s0 (file_name ex_log (format_date (day_ns * 10))) = None"
    by (simp add: newDailyLog_def removed_iff ex_log_env_def)
  have h: "due (format_date (day_ns * 10)) (all_handles ex_log_env ex_log (\<lambda>_. (day_ns * 10, True)) ?es ?s0) = [CHR ''b'', CHR 0x0A]"
    using d by (simp add: all_handles_def log_run_def newDailyLog_def enqueue_def channel_size_def write_record_def
        openFile_def closeFile_def flush_def handled_day_def with_newline_def due_def bufio_write_def buffer_size_def Let_def)
  from conjunct2 [OF closed_log_holds_every_record [OF refl sp refl refl, where clock = "\<lambda>_. (day_ns * 10, True)"]] e h
  show ?thesis by simp
qed

subsection \<open>Retention of log files\<close>

text \<open>At a cleanup the file of a record of the last \<open>retention_days - 1\<close> days is still there, and one
  of a record more than \<open>retention_days\<close> old is gone if it can be removed, for every record of a year of
  four digits; files that are no logs of this prefix are never touched.\<close>

theorem log_retention_window:
  assumes "four_digit_year t" and "dl_retentionDays l > 0"
  shows "(now - (dl_retentionDays l - 1) * day_ns \<le> t \<longrightarrow>
      cleanup le l now d (file_name l (format_date t)) = d (file_name l (format_date t))) \<and>
    (t < now - dl_retentionDays l * day_ns \<longrightarrow> (\<forall>f. le_remove le f) \<longrightarrow>
      (\<forall>entries. le_listing le d = Some entries \<longrightarrow> (file_name l (format_date t), False) \<in> set entries \<longrightarrow>
         cleanup le l now d (file_name l (format_date t)) = None)) \<and>
    (\<not> HasPrefix name (dl_prefix l) \<longrightarrow> cleanup le l now d name = d name)"
proof (intro conjI impI allI)
  note p = parse_format_date [OF assms(1)]
  have "day_ns > 0" by (simp add: day_ns_def second_def)
  note b = div_bounds [OF this, of t]
  {
    assume "now - (dl_retentionDays l - 1) * day_ns \<le> t"
    then have "now - dl_retentionDays l * day_ns \<le> t div day_ns * day_ns" using b by (simp add: algebra_simps)
    then have "retained l (format_date t) now" using p by (simp add: retained_def)
    then show "cleanup le l now d (file_name l (format_date t)) = d (file_name l (format_date t))"
      by (rule cleanup_spares)
  next
    fix entries
    assume a: "t < now - dl_retentionDays l * day_ns" "\<forall>f. le_remove le f" "le_listing le d = Some entries"
      "(file_name l (format_date t), False) \<in> set entries"
    have "log_date l (file_name l (format_date t), False) =
        Some (file_name l (format_date t), t div day_ns * day_ns)"
      by (simp add: log_date_def file_name_def p HasSuffix_iff)
    with a(3,4) have "(file_name l (format_date t), t div day_ns * day_ns) \<in> set (logFiles l entries)"
      by (force simp: logFiles_def List.map_filter_def)
    moreover have "t div day_ns * day_ns < now - dl_retentionDays l * day_ns" using a(1) b by (simp add: mult.commute)
    ultimately have "file_name l (format_date t) \<in> set (cleanup_removes l now (le_listing le d))"
      using assms(2) a(3) by (force simp: cleanup_removes_def Let_def)
    with removed_iff [OF a(2)] show "cleanup le l now d (file_name l (format_date t)) = None" by simp
  next
    assume n: "\<not> HasPrefix name (dl_prefix l)"
    have "name \<notin> set (cleanup_removes l now listing)" for listing
      using n by (auto simp: cleanup_removes_def Let_def logFiles_def List.map_filter_def log_date_def
          split: option.splits if_splits)
    moreover have "fold (\<lambda>f d. if le_remove le f then d(f := None) else d) fs d name = d name" if "name \<notin> set fs" for fs
      using that by (induction fs arbitrary: d) auto
    ultimately show "cleanup le l now d name = d name" by (simp add: cleanup_def)
  }
qed

theorem log_retention_window_example:
  "cleanup ex_log_env ex_log (3 * day_ns) [''access-1970-01-01.jsonl'' \<mapsto> [], ''notes'' \<mapsto> []]
     ''access-1970-01-01.jsonl'' = None"
proof -
  have y: "four_digit_year 5" by code_simp
  have r: "dl_retentionDays ex_log > 0" by (simp add: ex_log_def access_log_def)
  have n: "file_name ex_log (format_date 5) = ''access-1970-01-01.jsonl''" by code_simp
  have t: "5 < 3 * day_ns - dl_retentionDays ex_log * day_ns"
    by (simp add: ex_log_def access_log_def day_ns_def second_def)
  from log_retention_window [OF y r, of "3 * day_ns" ex_log_env "[''access-1970-01-01.jsonl'' \<mapsto> [], ''notes'' \<mapsto> []]"] t n
  show ?thesis by (simp add: ex_log_env_def)
qed

end
