(* ===== verification/UrlMaint.thy ===== *)
theory UrlMaint
  imports UrlStatus
begin

text \<open>
  Automatic backups of the URL shortener: \<open>urlshort/maintenance.go\<close>. The backup directory maps names to
  a content and a modification time. What the file system and the database do (which step fails, what
  a compaction leaves in its file) is the environment of a run; a content is checked by \<open>verify\<close>, for
  which \<open>verifyBoltFile\<close> of the store stands in the program.
\<close>

subsection \<open>Files\<close>

type_synonym 'f bdir = "string \<rightharpoonup> 'f \<times> instant"

datatype trigger = Startup | Scheduled

record backup_cfg =
  bc_Enabled :: bool
  bc_HourUTC :: int
  bc_RunOnStart :: bool
  bc_RetentionDays :: int
  bc_StartupRetentionCount :: int

text \<open>\<open>me_compact\<close> takes what the part file already holds and answers an error and what it leaves there.\<close>

record 'f maint_env =
  me_now :: instant
  me_cleanup_now :: instant
  me_record_now :: instant
  me_mkdir :: "string option"
  me_remove :: "string \<Rightarrow> bool"
  me_compact :: "'f option \<Rightarrow> (string option) \<times> 'f option"
  me_verify :: "'f \<Rightarrow> verify_error + nat \<times> nat"
  me_rename :: "string option"
  me_stat :: "string option"
  me_readdir :: "'f bdir \<Rightarrow> (string \<times> bool) list option"
  me_size :: "'f \<Rightarrow> int"

definition filePrefix :: string where "filePrefix = ''links-''"

definition final_name :: "trigger \<Rightarrow> instant \<Rightarrow> string" where
  "final_name tr now =
     filePrefix @ (case tr of Startup \<Rightarrow> format_stamp now | Scheduled \<Rightarrow> format_date now) @ ''.db''"

definition remove_file :: "'f maint_env \<Rightarrow> string \<Rightarrow> 'f bdir \<Rightarrow> 'f bdir" where
  "remove_file me name d = (if me_remove me name then d(name := None) else d)"

definition verified :: "('f \<Rightarrow> verify_error + nat \<times> nat) \<Rightarrow> 'f bdir \<Rightarrow> string \<Rightarrow> bool" where
  "verified verify d name \<longleftrightarrow> (case d name of None \<Rightarrow> False | Some (c, _) \<Rightarrow> is_ok (verify c))"

subsection \<open>One backup\<close>

definition backup :: "'f maint_env \<Rightarrow> trigger \<Rightarrow> 'f bdir \<Rightarrow> backup_error option \<times> 'f bdir" where
  "backup me tr d =
     (case me_mkdir me of
        Some e \<Rightarrow> (Some (CreateBackupDir e), d)
      | None \<Rightarrow>
          (let final = final_name tr (me_now me); part = final @ ''.part''
           in if tr = Scheduled \<and> verified (me_verify me) d final then (None, d)
              else
                (let d1 = remove_file me part d
                 in case me_compact me (map_option fst (d1 part)) of
                      (Some e, left) \<Rightarrow>
                        (Some (CompactFailed e),
                         remove_file me part (case left of None \<Rightarrow> d1 | Some c \<Rightarrow> d1(part \<mapsto> (c, me_now me))))
                    | (None, None) \<Rightarrow>
                        (Some (VerifyFailed (OpenFailed [])), remove_file me part d1)
                    | (None, Some c) \<Rightarrow>
                        (let d2 = d1(part \<mapsto> (c, me_now me))
                         in case me_verify me c of
                              Inl e \<Rightarrow> (Some (VerifyFailed e), remove_file me part d2)
                            | Inr _ \<Rightarrow>
                                (case me_rename me of
                                   Some e \<Rightarrow> (Some (PublishFailed e), remove_file me part d2)
                                 | None \<Rightarrow>
                                     (map_option StatFailed (me_stat me), d2(part := None, final \<mapsto> (c, me_now me))))))))"

subsection \<open>Listing and retention\<close>

record backupFile =
  bf_path :: string
  bf_date :: instant
  bf_startup :: bool

definition backup_entry :: "string \<times> bool \<Rightarrow> backupFile option" where
  "backup_entry e =
     (case e of
        (name, isDir) \<Rightarrow>
          if isDir \<or> \<not> HasPrefix name filePrefix \<or> \<not> HasSuffix name ''.db'' then None
          else
            (let rest = TrimSuffix (TrimPrefix name filePrefix) ''.db'';
                 startup = (length rest > 10 \<and> rest ! 10 = CHR ''T'')
             in case (if startup then parse_stamp rest else parse_date rest) of
                  None \<Rightarrow> None
                | Some t \<Rightarrow> Some \<lparr>bf_path = name, bf_date = t, bf_startup = startup\<rparr>))"

definition listBackups :: "(string \<times> bool) list \<Rightarrow> backupFile list" where
  "listBackups entries = sort_key bf_date (List.map_filter backup_entry entries)"

text \<open>The files the two retention rules delete, in order: those past \<open>retention_days\<close>, then the oldest
  startup backups among the others.\<close>

definition expired :: "backup_cfg \<Rightarrow> instant \<Rightarrow> backupFile \<Rightarrow> bool" where
  "expired cfg now f \<longleftrightarrow> bc_RetentionDays cfg > 0 \<and> bf_date f < now - bc_RetentionDays cfg * day_ns"

definition excess_startups :: "backup_cfg \<Rightarrow> backupFile list \<Rightarrow> backupFile list" where
  "excess_startups cfg kept =
     (let n = bc_StartupRetentionCount cfg; startups = filter bf_startup kept
      in if n > 0 then take (nat (int (length startups) - n)) startups else [])"

definition retention_removes :: "backup_cfg \<Rightarrow> instant \<Rightarrow> backupFile list \<Rightarrow> string list" where
  "retention_removes cfg now files =
     map bf_path (filter (expired cfg now) files) @
     map bf_path (excess_startups cfg (filter (\<lambda>f. \<not> expired cfg now f) files))"

definition stale_parts :: "instant \<Rightarrow> 'f bdir \<Rightarrow> (string \<times> bool) list \<Rightarrow> string list" where
  "stale_parts now d entries =
     map fst (filter (\<lambda>(name, isDir). \<not> isDir \<and> HasSuffix name ''.part'' \<and>
       (case d name of None \<Rightarrow> False | Some (_, mtime) \<Rightarrow> now - mtime > 24 * 3600 * second)) entries)"

definition backup_cleanup :: "backup_cfg \<Rightarrow> 'f maint_env \<Rightarrow> instant \<Rightarrow> 'f bdir \<Rightarrow> 'f bdir" where
  "backup_cleanup cfg me now d =
     (if me_mkdir me \<noteq> None then d
      else
        (case me_readdir me d of
           None \<Rightarrow> d
         | Some entries \<Rightarrow>
             (let d1 = fold (remove_file me) (retention_removes cfg now (listBackups entries)) d
              in case me_readdir me d1 of
                   None \<Rightarrow> d1
                 | Some entries1 \<Rightarrow> fold (remove_file me) (stale_parts now d1 entries1) d1)))"

subsection \<open>The job and its status\<close>

definition record_run :: "'f maint_env \<Rightarrow> backup_error option \<Rightarrow> 'f bdir \<Rightarrow> MaintenanceStatus \<Rightarrow> MaintenanceStatus" where
  "record_run me err d st =
     (case err of
        Some e \<Rightarrow> st\<lparr>ms_LastBackupOK := False, ms_LastBackupError := Some e\<rparr>
      | None \<Rightarrow>
          (let st1 = st\<lparr>ms_LastBackupOK := True, ms_LastBackupError := None,
                        ms_LastBackupAt := Some (me_record_now me)\<rparr>
           in case me_readdir me d of
                None \<Rightarrow> st1
              | Some entries \<Rightarrow>
                  (let files = listBackups entries
                   in if files = [] then st1
                      else
                        (let p = bf_path (last files); st2 = st1\<lparr>ms_LastBackupFile := p\<rparr>
                         in case d p of None \<Rightarrow> st2 | Some (c, _) \<Rightarrow> st2\<lparr>ms_LastBackupSizeBytes := me_size me c\<rparr>))))"

definition RunOnce :: "backup_cfg \<Rightarrow> 'f maint_env \<Rightarrow> trigger \<Rightarrow> 'f bdir \<times> MaintenanceStatus \<Rightarrow>
    backup_error option \<times> 'f bdir \<times> MaintenanceStatus" where
  "RunOnce cfg me tr s =
     (case s of
        (d, st) \<Rightarrow>
          if \<not> bc_Enabled cfg then (None, d, st)
          else
            (case backup me tr d of
               (err, d1) \<Rightarrow>
                 (let d2 = backup_cleanup cfg me (me_cleanup_now me) d1
                  in (err, d2, record_run me err d2 st))))"

text \<open>The \<open>loop\<close>: a cleanup, the startup backup if wanted, then the scheduled ones until it is cancelled.\<close>

definition maint_loop :: "backup_cfg \<Rightarrow> 'f maint_env \<Rightarrow> 'f maint_env list \<Rightarrow> 'f bdir \<times> MaintenanceStatus \<Rightarrow>
    'f bdir \<times> MaintenanceStatus" where
  "maint_loop cfg me0 mes s =
     (let s1 = (backup_cleanup cfg me0 (me_cleanup_now me0) (fst s), snd s);
          s2 = (if bc_RunOnStart cfg then snd (RunOnce cfg me0 Startup s1) else s1)
      in fold (\<lambda>me s. snd (RunOnce cfg me Scheduled s)) mes s2)"

definition next_run :: "backup_cfg \<Rightarrow> instant \<Rightarrow> instant" where
  "next_run cfg now =
     (let t = now div day_ns * day_ns + bc_HourUTC cfg * 3600 * second
      in if t > now then t else t + 24 * 3600 * second)"

definition BackupFiles :: "'f maint_env \<Rightarrow> 'f bdir \<Rightarrow> nat option" where
  "BackupFiles me d = map_option (length \<circ> listBackups) (me_readdir me d)"

definition Status :: "'f maint_env \<Rightarrow> 'f bdir \<Rightarrow> MaintenanceStatus \<Rightarrow> MaintenanceStatus" where
  "Status me d st = (case BackupFiles me d of None \<Rightarrow> st | Some n \<Rightarrow> st\<lparr>ms_BackupFiles := n\<rparr>)"

subsection \<open>What is published verifies\<close>

definition published :: "string \<Rightarrow> bool" where
  "published name \<longleftrightarrow> HasPrefix name filePrefix \<and> HasSuffix name ''.db''"

definition all_verified :: "('f \<Rightarrow> verify_error + nat \<times> nat) \<Rightarrow> 'f bdir \<Rightarrow> bool" where
  "all_verified verify d \<longleftrightarrow> (\<forall>name c m. d name = Some (c, m) \<longrightarrow> published name \<longrightarrow> is_ok (verify c))"

lemma part_not_published: "\<not> published (x @ ''.part'')"
  by (auto simp: published_def HasSuffix_def)

lemma all_verified_remove [simp]: "all_verified v d \<Longrightarrow> all_verified v (remove_file me n d)"
  by (auto simp: all_verified_def remove_file_def)

lemma all_verified_fold_remove: "all_verified v d \<Longrightarrow> all_verified v (fold (remove_file me) ns d)"
  by (induction ns arbitrary: d) auto

lemma all_verified_put:
  "all_verified v d \<Longrightarrow> published n \<longrightarrow> is_ok (v c) \<Longrightarrow> all_verified v (d(n \<mapsto> (c, m)))"
  by (auto simp: all_verified_def)

lemma backup_all_verified:
  assumes "all_verified (me_verify me) d"
  shows "all_verified (me_verify me) (snd (backup me tr d))"
proof -
  let ?part = "final_name tr (me_now me) @ ''.part''"
  have part: "all_verified (me_verify me) (e(?part \<mapsto> (c, m)))" if "all_verified (me_verify me) e" for e c m
    using that part_not_published by (intro all_verified_put) auto
  have un: "all_verified (me_verify me) (e(?part := None))" if "all_verified (me_verify me) e" for e
    using that by (auto simp: all_verified_def)
  show ?thesis
    using assms
    by (auto simp: backup_def Let_def simp del: fun_upd_apply intro!: part un all_verified_remove all_verified_put
        split: option.split sum.split prod.split)
qed

lemma cleanup_all_verified:
  "all_verified v d \<Longrightarrow> all_verified v (backup_cleanup cfg me now d)"
  by (auto simp: backup_cleanup_def Let_def intro!: all_verified_fold_remove split: option.split)

lemma RunOnce_all_verified:
  "all_verified (me_verify me) (fst s) \<Longrightarrow> all_verified (me_verify me) (fst (snd (RunOnce cfg me tr s)))"
  using backup_all_verified [of me "fst s" tr]
  by (auto simp: RunOnce_def Let_def intro!: cleanup_all_verified split: prod.splits)

text \<open>C38: whatever fails, in whatever order startup and scheduled runs happen, every file under the name of
  a backup passes verification: an unverified compaction never gets such a name.\<close>

theorem published_backups_verify:
  assumes "all_verified verify (fst s)" and "\<forall>me\<in>set (me0 # mes). me_verify me = verify"
  shows "all_verified verify (fst (maint_loop cfg me0 mes s))"
proof -
  have "all_verified verify (fst (fold (\<lambda>me s. snd (RunOnce cfg me Scheduled s)) mes s2))"
    if "all_verified verify (fst s2)" for s2
    using that assms(2)
  proof (induction mes arbitrary: s2)
    case (Cons me mes)
    have "all_verified verify (fst (snd (RunOnce cfg me Scheduled s2)))"
      using RunOnce_all_verified [of me s2] Cons.prems by simp
    with Cons show ?case by simp
  qed simp
  moreover have "all_verified verify (fst (if bc_RunOnStart cfg then snd (RunOnce cfg me0 Startup s1) else s1))"
    if "all_verified verify (fst s1)" for s1
    using RunOnce_all_verified [of me0 s1] that assms(2) by simp
  ultimately show ?thesis
    using cleanup_all_verified [OF assms(1)] by (simp add: maint_loop_def Let_def)
qed

subsection \<open>What retention deletes\<close>

lemma length_format_stamp: "length (format_stamp t) = 17"
  by (simp add: format_stamp_def length_format_date split: prod.split)

lemma nth_format_stamp: "format_stamp t ! 10 = CHR ''T''"
  by (simp add: format_stamp_def nth_append length_format_date split: prod.split)

definition final_entry :: "trigger \<Rightarrow> instant \<Rightarrow> backupFile" where
  "final_entry tr now =
     \<lparr>bf_path = final_name tr now,
      bf_date = (case tr of Startup \<Rightarrow> now div second * second | Scheduled \<Rightarrow> now div day_ns * day_ns),
      bf_startup = (tr = Startup)\<rparr>"

lemma backup_entry_final:
  "four_digit_year now \<Longrightarrow> backup_entry (final_name tr now, False) = Some (final_entry tr now)"
  by (cases tr) (simp_all add: backup_entry_def final_name_def final_entry_def HasSuffix_iff Let_def
      length_format_stamp nth_format_stamp length_format_date parse_format_stamp parse_format_date)

lemma backup_entry_path: "backup_entry e = Some f \<Longrightarrow> fst e = bf_path f \<and> \<not> snd e \<and> published (bf_path f)"
  by (cases e) (auto simp: backup_entry_def published_def Let_def split: if_splits option.splits)

lemma set_listBackups: "set (listBackups entries) = {f. \<exists>e\<in>set entries. backup_entry e = Some f}"
  by (force simp: listBackups_def List.map_filter_def)

lemma listBackups_path_inj:
  assumes "f \<in> set (listBackups entries)" and "g \<in> set (listBackups entries)" and "bf_path f = bf_path g"
  shows "f = g"
proof -
  from assms(1,2) obtain e e' where e: "backup_entry e = Some f" "backup_entry e' = Some g"
    by (auto simp: set_listBackups)
  from backup_entry_path [OF e(1)] backup_entry_path [OF e(2)] assms(3) have "e = e'" by (simp add: prod_eq_iff)
  with e show ?thesis by simp
qed

lemma map_filter_paths: "set (map bf_path (List.map_filter backup_entry es)) \<subseteq> fst ` set es"
proof (induction es)
  case (Cons e es)
  then show ?case using backup_entry_path [of e] by (cases "backup_entry e") (auto simp: map_filter_simps)
qed (simp add: map_filter_simps)

lemma distinct_listBackups: "distinct (map fst entries) \<Longrightarrow> distinct (listBackups entries)"
proof -
  assume d: "distinct (map fst entries)"
  have "distinct (map bf_path (List.map_filter backup_entry es))" if "distinct (map fst es)" for es
    using that
  proof (induction es)
    case (Cons e es)
    show ?case
    proof (cases "backup_entry e")
      case None
      with Cons show ?thesis by (simp add: map_filter_simps)
    next
      case (Some f)
      with Cons.prems have "bf_path f \<notin> fst ` set es" using backup_entry_path [OF Some] by auto
      with map_filter_paths [of es] Some Cons show ?thesis by (auto simp: map_filter_simps)
    qed
  qed (simp add: map_filter_simps)
  with d have "distinct (List.map_filter backup_entry entries)" using distinct_map by blast
  then show ?thesis by (simp add: listBackups_def)
qed

lemma sorted_listBackups: "sorted (map bf_date (listBackups entries))"
  by (simp add: listBackups_def)

lemma fold_remove:
  "fold (remove_file me) ns d n = (if n \<in> set ns \<and> me_remove me n then None else d n)"
  by (induction ns arbitrary: d) (auto simp: remove_file_def)

lemma stale_parts_names: "n \<in> set (stale_parts now d entries) \<Longrightarrow> \<not> published n"
  by (auto simp: stale_parts_def HasSuffix_iff part_not_published)

text \<open>On names of backups a cleanup does what the two retention rules say.\<close>

lemma backup_cleanup_published:
  assumes "me_mkdir me = None" and "me_readdir me d = Some entries" and "published n"
  shows "backup_cleanup cfg me now d n =
    (if n \<in> set (retention_removes cfg now (listBackups entries)) \<and> me_remove me n then None else d n)"
proof -
  have "n \<notin> set (stale_parts now e es)" for e :: "'a bdir" and es using assms(3) stale_parts_names by blast
  then show ?thesis using assms(1,2) by (simp add: backup_cleanup_def Let_def fold_remove split: option.split)
qed

lemma excess_startups_in: "f \<in> set (excess_startups cfg kept) \<Longrightarrow> f \<in> set kept \<and> bf_startup f"
  by (auto simp: excess_startups_def Let_def split: if_splits dest!: in_set_takeD)

lemma retention_removesE:
  assumes "n \<in> set (retention_removes cfg now files)"
  obtains g where "g \<in> set files" and "bf_path g = n"
    and "expired cfg now g \<or> g \<in> set (excess_startups cfg (filter (\<lambda>f. \<not> expired cfg now f) files))"
proof -
  let ?kept = "filter (\<lambda>f. \<not> expired cfg now f) files"
  from assms obtain g where "bf_path g = n" "g \<in> set (filter (expired cfg now) files) \<or> g \<in> set (excess_startups cfg ?kept)"
    unfolding retention_removes_def set_append set_map by blast
  with that excess_startups_in [of g cfg ?kept] show ?thesis by (cases "expired cfg now g") auto
qed

lemma retention_removesI:
  assumes "f \<in> set files"
    and "expired cfg now f \<or> f \<in> set (excess_startups cfg (filter (\<lambda>f. \<not> expired cfg now f) files))"
  shows "bf_path f \<in> set (retention_removes cfg now files)"
  using assms by (elim disjE) (simp_all add: retention_removes_def)

text \<open>A cleanup never deletes a daily backup within \<open>retention_days\<close>, whatever cap there is on startup
  backups; it deletes every backup past them and leaves no more startup backups than the cap, when the
  files can be removed.\<close>

theorem backup_retention:
  assumes "me_mkdir me = None" and "me_readdir me d = Some entries" and "d' = backup_cleanup cfg me now d"
  shows "(\<forall>f\<in>set (listBackups entries). \<not> bf_startup f \<longrightarrow> \<not> expired cfg now f \<longrightarrow> d' (bf_path f) = d (bf_path f)) \<and>
    ((\<forall>n. me_remove me n) \<longrightarrow>
      (\<forall>f\<in>set (listBackups entries). expired cfg now f \<longrightarrow> d' (bf_path f) = None) \<and>
      (bc_StartupRetentionCount cfg > 0 \<longrightarrow>
        int (card {f \<in> set (listBackups entries). bf_startup f \<and> d' (bf_path f) \<noteq> None}) \<le> bc_StartupRetentionCount cfg))"
proof -
  let ?fs = "listBackups entries"
  let ?kept = "filter (\<lambda>f. \<not> expired cfg now f) ?fs"
  let ?st = "filter bf_startup ?kept"
  let ?k = "nat (int (length ?st) - bc_StartupRetentionCount cfg)"
  have pub: "published (bf_path f)" if "f \<in> set ?fs" for f using that backup_entry_path by (auto simp: set_listBackups)
  have d': "d' (bf_path f) = (if bf_path f \<in> set (retention_removes cfg now ?fs) \<and> me_remove me (bf_path f) then None
      else d (bf_path f))" if "f \<in> set ?fs" for f
    unfolding assms(3) by (rule backup_cleanup_published [OF assms(1,2) pub [OF that]])
  have mem: "bf_path f \<in> set (retention_removes cfg now ?fs) \<longleftrightarrow>
      expired cfg now f \<or> f \<in> set (excess_startups cfg ?kept)" if "f \<in> set ?fs" for f
  proof -
    have "g = f" if "g \<in> set ?fs" "bf_path g = bf_path f" for g
      using listBackups_path_inj [OF that(1) \<open>f \<in> set ?fs\<close> that(2)] .
    then have "expired cfg now f \<or> f \<in> set (excess_startups cfg ?kept)"
      if "bf_path f \<in> set (retention_removes cfg now ?fs)"
      using that by (metis retention_removesE)
    then show ?thesis using retention_removesI [OF that] by blast
  qed
  have 1: "d' (bf_path f) = d (bf_path f)" if "f \<in> set ?fs" "\<not> bf_startup f" "\<not> expired cfg now f" for f
    using d' [OF that(1)] mem [OF that(1)] that excess_startups_in [of f cfg ?kept] by auto
  have 2: "int (card {f \<in> set ?fs. bf_startup f \<and> d' (bf_path f) \<noteq> None}) \<le> bc_StartupRetentionCount cfg"
    if "\<forall>n. me_remove me n" "bc_StartupRetentionCount cfg > 0"
  proof -
    have "{f \<in> set ?fs. bf_startup f \<and> d' (bf_path f) \<noteq> None} \<subseteq> set (drop ?k ?st)"
    proof
      fix f
      assume f: "f \<in> {f \<in> set ?fs. bf_startup f \<and> d' (bf_path f) \<noteq> None}"
      then have "\<not> expired cfg now f" "f \<notin> set (excess_startups cfg ?kept)"
        using d' mem that(1) by (auto split: if_splits)
      with f that(2) have "f \<in> set ?st" "f \<notin> set (take ?k ?st)" by (auto simp: excess_startups_def Let_def)
      then show "f \<in> set (drop ?k ?st)" by (metis Un_iff append_take_drop_id set_append)
    qed
    then have "card {f \<in> set ?fs. bf_startup f \<and> d' (bf_path f) \<noteq> None} \<le> length (drop ?k ?st)"
      by (meson card_length card_mono le_trans List.finite_set)
    with that(2) show ?thesis by simp
  qed
  have 3: "d' (bf_path f) = None" if "\<forall>n. me_remove me n" "f \<in> set ?fs" "expired cfg now f" for f
    using d' [OF that(2)] mem [OF that(2)] that by simp
  show ?thesis using 1 2 3 by (intro conjI ballI impI) blast+
qed

lemma backup_ok:
  assumes "backup me tr d = (None, d1)"
  shows "verified (me_verify me) d1 (final_name tr (me_now me)) \<and> me_mkdir me = None"
  using assms by (auto simp: backup_def verified_def Let_def split: option.splits sum.splits if_splits prod.splits)

lemma newest_not_in_excess:
  assumes "sorted (map bf_date kept)" and "distinct kept"
    and "\<forall>g\<in>set kept. bf_startup g \<longrightarrow> g \<noteq> f \<longrightarrow> bf_date g < bf_date f"
  shows "f \<notin> set (excess_startups cfg kept)"
proof
  assume f: "f \<in> set (excess_startups cfg kept)"
  let ?st = "filter bf_startup kept"
  let ?k = "nat (int (length ?st) - bc_StartupRetentionCount cfg)"
  from f have n: "bc_StartupRetentionCount cfg > 0" and t: "f \<in> set (take ?k ?st)"
    by (auto simp: excess_startups_def Let_def split: if_splits)
  from t obtain i where i: "i < ?k" "i < length ?st" "?st ! i = f" by (auto simp: in_set_conv_nth)
  let ?j = "length ?st - 1"
  from i n have j: "i < ?j" "?j < length ?st" by linarith+
  have "sorted (map bf_date ?st)" using assms(1) by (rule sorted_filter)
  then have "bf_date (?st ! i) \<le> bf_date (?st ! ?j)"
    using sorted_nth_mono [of "map bf_date ?st" i ?j] j by simp
  moreover have "?st ! ?j \<noteq> f" using i j assms(2) nth_eq_iff_index_eq [of ?st ?j i] by simp
  moreover have "?st ! ?j \<in> set ?st" using j by (intro nth_mem)
  ultimately show False using assms(3) i(3) by fastforce
qed

text \<open>A run that reports success leaves a verified file under its name, also after the cleanup that
  ends it: retention spares it as long as the cleanup is not delayed past the retention of its day and,
  for a startup backup, no other one carries a later or equal time.\<close>

theorem new_backup_survives:
  assumes "RunOnce cfg me tr (d, st) = (None, d', st')" and "bc_Enabled cfg" and "four_digit_year (me_now me)"
    and "bc_RetentionDays cfg > 0 \<longrightarrow>
      me_cleanup_now me \<le> (me_now me div day_ns + bc_RetentionDays cfg) * day_ns"
    and "\<forall>e entries. me_readdir me e = Some entries \<longrightarrow> distinct (map fst entries) \<and>
      (tr = Startup \<longrightarrow> (\<forall>g\<in>set (listBackups entries). bf_startup g \<longrightarrow> bf_path g \<noteq> final_name tr (me_now me) \<longrightarrow>
        bf_date g < me_now me div second * second))"
  shows "verified (me_verify me) d' (final_name tr (me_now me))"
proof -
  let ?n = "final_name tr (me_now me)" and ?f = "final_entry tr (me_now me)" and ?now = "me_cleanup_now me"
  obtain d1 where b: "backup me tr d = (None, d1)" and d': "d' = backup_cleanup cfg me ?now d1"
    using assms(1,2) by (auto simp: RunOnce_def Let_def split: prod.splits)
  note ok = backup_ok [OF b]
  note fe = backup_entry_final [OF assms(3), of tr]
  have pub: "published ?n" using backup_entry_path [OF fe] by (simp add: final_entry_def)
  show ?thesis
  proof (cases "me_readdir me d1")
    case None
    with ok show ?thesis by (simp add: d' backup_cleanup_def)
  next
    case (Some entries)
    let ?fs = "listBackups entries"
    have own: "g = ?f" if "g \<in> set ?fs" "bf_path g = ?n" for g
    proof -
      from that(1) obtain e where "e \<in> set entries" "backup_entry e = Some g" by (auto simp: set_listBackups)
      with backup_entry_path [OF this(2)] that(2) fe show ?thesis by (cases e) auto
    qed
    have day: "me_now me div day_ns * day_ns \<le> bf_date ?f"
    proof (cases tr)
      case Startup
      have "me_now me div (second * 86400) = me_now me div second div 86400" by (rule zdiv_zmult2_eq) simp
      then have "me_now me div day_ns * 86400 \<le> me_now me div second"
        using div_bounds(1) [of 86400 "me_now me div second"] by (simp add: day_ns_def mult.commute)
      then have "me_now me div day_ns * 86400 * second \<le> me_now me div second * second"
        by (rule mult_right_mono) (simp add: second_def)
      with Startup show ?thesis by (simp add: final_entry_def day_ns_def mult.assoc)
    qed (simp add: final_entry_def)
    have live: "\<not> expired cfg ?now ?f" using assms(4) day by (auto simp: expired_def algebra_simps)
    let ?kept = "filter (\<lambda>f. \<not> expired cfg ?now f) ?fs"
    have "?f \<notin> set (excess_startups cfg ?kept)"
    proof (cases tr)
      case Startup
      show ?thesis
      proof (rule newest_not_in_excess)
        show "sorted (map bf_date ?kept)" using sorted_listBackups by (rule sorted_filter)
        show "distinct ?kept" using assms(5) Some by (simp add: distinct_listBackups)
        show "\<forall>g\<in>set ?kept. bf_startup g \<longrightarrow> g \<noteq> ?f \<longrightarrow> bf_date g < bf_date ?f"
          using assms(5) Some Startup own by (auto simp: final_entry_def)
      qed
    next
      case Scheduled
      then show ?thesis using excess_startups_in [of ?f cfg ?kept] by (auto simp: final_entry_def)
    qed
    then have "?n \<notin> set (retention_removes cfg ?now ?fs)"
    proof -
      assume x: "?f \<notin> set (excess_startups cfg ?kept)"
      have "False" if "g \<in> set ?fs" "bf_path g = ?n" "expired cfg ?now g \<or> g \<in> set (excess_startups cfg ?kept)" for g
        using own [OF that(1,2)] that(3) live x by simp
      then show ?thesis by (blast elim: retention_removesE)
    qed
    with backup_cleanup_published [OF _ Some pub, of cfg ?now] ok show ?thesis by (simp add: d' verified_def)
  qed
qed

text \<open>The scheduler waits for the next instant whose time of day is the configured hour, never longer
  than a day.\<close>

theorem next_backup_within_a_day:
  assumes "0 \<le> bc_HourUTC cfg" and "bc_HourUTC cfg < 24"
  shows "now < next_run cfg now \<and> next_run cfg now \<le> now + day_ns \<and>
    next_run cfg now mod day_ns = bc_HourUTC cfg * 3600 * second"
proof -
  have s: "second > 0" "day_ns > 0" "24 * 3600 * second = day_ns" by (simp_all add: second_def day_ns_def)
  define q where "q = now div day_ns"
  define h where "h = bc_HourUTC cfg * 3600 * second"
  have q: "day_ns * q \<le> now" "now < day_ns * q + day_ns" unfolding q_def by (rule div_bounds [OF s(2)])+
  have h: "0 \<le> h" "h < day_ns" using assms s(1) by (simp_all add: h_def flip: s(3))
  have m: "(q * day_ns + h) mod day_ns = h" "(q * day_ns + h + day_ns) mod day_ns = h" using h by simp_all
  have n: "next_run cfg now = (if q * day_ns + h > now then q * day_ns + h else q * day_ns + h + day_ns)"
    by (simp add: next_run_def Let_def q_def h_def day_ns_def)
  show ?thesis
    unfolding n h_def [symmetric] using q h m by (simp add: mult.commute)
qed

definition ex_maint_env :: "nat maint_env" where
  "ex_maint_env = \<lparr>me_now = 5 * day_ns + 7, me_cleanup_now = 5 * day_ns + 9, me_record_now = 5 * day_ns + 9,
     me_mkdir = None, me_remove = (\<lambda>_. True), me_compact = (\<lambda>_. (None, Some 4)),
     me_verify = (\<lambda>c. if c = 4 then Inr (c, c) else Inl MissingBucket), me_rename = None, me_stat = None,
     me_readdir = (\<lambda>d. Some [(''links-1970-01-06.db'', False)]), me_size = int\<rparr>"

definition ex_backup_cfg :: backup_cfg where
  "ex_backup_cfg = \<lparr>bc_Enabled = True, bc_HourUTC = 3, bc_RunOnStart = False, bc_RetentionDays = 1,
     bc_StartupRetentionCount = 1\<rparr>"

definition ex_status :: MaintenanceStatus where
  "ex_status = \<lparr>ms_BackupDir = ''backup'', ms_LastBackupAt = None, ms_LastBackupOK = False, ms_LastBackupFile = [], ms_LastBackupSizeBytes = 0,
     ms_BackupFiles = 0, ms_LastBackupError = None\<rparr>"

theorem published_backups_verify_example:
  "all_verified (me_verify ex_maint_env)
     (fst (maint_loop ex_backup_cfg ex_maint_env [ex_maint_env] (Map.empty, ex_status)))"
  by (rule published_backups_verify) (simp_all add: all_verified_def)

theorem backup_retention_example:
  "backup_cleanup ex_backup_cfg ex_maint_env (5 * day_ns) [''links-1970-01-06.db'' \<mapsto> (4, 0)] ''links-1970-01-06.db'' =
     Some (4, 0)"
proof -
  have y: "four_digit_year (5 * day_ns)" "final_name Scheduled (5 * day_ns) = ''links-1970-01-06.db''" by code_simp+
  then have e: "backup_entry (''links-1970-01-06.db'', False) = Some (final_entry Scheduled (5 * day_ns))"
    using backup_entry_final [of "5 * day_ns" Scheduled] by simp
  have f: "final_entry Scheduled (5 * day_ns) \<in> set (listBackups [(''links-1970-01-06.db'', False)])"
    by (simp add: set_listBackups e)
  have x: "\<not> bf_startup (final_entry Scheduled (5 * day_ns))"
    "\<not> expired ex_backup_cfg (5 * day_ns) (final_entry Scheduled (5 * day_ns))"
    "bf_path (final_entry Scheduled (5 * day_ns)) = ''links-1970-01-06.db''"
    using y(2) by (simp_all add: final_entry_def expired_def ex_backup_cfg_def day_ns_def second_def)
  have "me_mkdir ex_maint_env = None"
    "me_readdir ex_maint_env [''links-1970-01-06.db'' \<mapsto> (4, 0)] = Some [(''links-1970-01-06.db'', False)]"
    by (simp_all add: ex_maint_env_def)
  from conjunct1 [OF backup_retention [OF this refl]] f x show ?thesis by force
qed

theorem new_backup_survives_example:
  "verified (me_verify ex_maint_env) (fst (snd (RunOnce ex_backup_cfg ex_maint_env Scheduled (Map.empty, ex_status))))
     ''links-1970-01-06.db''"
proof -
  have n: "final_name Scheduled (me_now ex_maint_env) = ''links-1970-01-06.db''" by code_simp
  have y: "four_digit_year (me_now ex_maint_env)" by code_simp
  have "fst (backup ex_maint_env Scheduled Map.empty) = None" by code_simp
  then have "fst (RunOnce ex_backup_cfg ex_maint_env Scheduled (Map.empty, ex_status)) = None"
    by (cases "backup ex_maint_env Scheduled Map.empty") (simp add: RunOnce_def Let_def ex_backup_cfg_def)
  then obtain d st where r: "RunOnce ex_backup_cfg ex_maint_env Scheduled (Map.empty, ex_status) = (None, d, st)"
    by (cases "RunOnce ex_backup_cfg ex_maint_env Scheduled (Map.empty, ex_status)") auto
  from new_backup_survives [OF r _ y] n r show ?thesis
    by (simp add: ex_backup_cfg_def ex_maint_env_def day_ns_def second_def)
qed

theorem next_backup_within_a_day_example:
  "next_run ex_backup_cfg (5 * day_ns) = 5 * day_ns + 3 * 3600 * second \<and> 5 * day_ns < next_run ex_backup_cfg (5 * day_ns)"
proof -
  have "0 \<le> bc_HourUTC ex_backup_cfg" "bc_HourUTC ex_backup_cfg < 24" by (simp_all add: ex_backup_cfg_def)
  from next_backup_within_a_day [OF this, of "5 * day_ns"] show ?thesis
    by (simp add: next_run_def ex_backup_cfg_def day_ns_def second_def)
qed

end
