(* ===== verification/UrlTls.thy ===== *)
theory UrlTls
  imports UrlServer UrlConfig
begin

text \<open>
  Certificates and logging of the URL shortener: \<open>urlshort/tls.go\<close> and \<open>urlshort/logging.go\<close>. What
  autocert, \<open>crypto/tls\<close> and \<open>crypto/x509\<close> answer is a parameter; a log handler is its level test and
  its answer to a record, and a handler that fans out returns the destinations it reached.
\<close>

subsection \<open>Certificates\<close>

text \<open>\<open>x509\<close> certificates are parsed by \<open>parse\<close>; a TLS certificate is its chain.\<close>

record leaf =
  lf_Subject :: string
  lf_Issuer :: string
  lf_NotBefore :: int
  lf_NotAfter :: int

datatype cert_error = EmptyCertificate | BadLeaf string

definition certInfo :: "('c \<Rightarrow> string + leaf) \<Rightarrow> int \<Rightarrow> 'c list option \<Rightarrow> cert_error + CertInfo" where
  "certInfo parse now cert =
     (case cert of
        None \<Rightarrow> Inl EmptyCertificate
      | Some [] \<Rightarrow> Inl EmptyCertificate
      | Some (c # _) \<Rightarrow>
          (case parse c of
             Inl e \<Rightarrow> Inl (BadLeaf e)
           | Inr l \<Rightarrow>
               Inr \<lparr>ci_Subject = lf_Subject l, ci_Issuer = lf_Issuer l, ci_NotBefore = lf_NotBefore l,
                    ci_NotAfter = lf_NotAfter l,
                    ci_DaysLeft = quot (lf_NotAfter l - now) (24 * 3600 * 10 ^ 9)\<rparr>))"

record hello =
  he_ServerName :: string
  he_SupportedProtos :: "string list"
  he_ecdsa :: bool

definition ALPNProto :: string where "ALPNProto = ''acme-tls/1''"

definition is_challenge :: "hello option \<Rightarrow> bool" where
  "is_challenge h = (case h of None \<Rightarrow> False | Some x \<Rightarrow> he_SupportedProtos x = [ALPNProto])"

text \<open>\<open>recordingCertManager.GetCertificate\<close>.\<close>

definition GetCertificate :: "('c \<Rightarrow> string + leaf) \<Rightarrow> (hello option \<Rightarrow> string + 'c list option) \<Rightarrow> int \<Rightarrow>
    hello option \<Rightarrow> StatusState \<Rightarrow> (string + 'c list option) \<times> StatusState" where
  "GetCertificate parse inner now h st =
     (case inner h of
        Inl e \<Rightarrow> (Inl e, SetError now (Some (CertError e)) st)
      | Inr cert \<Rightarrow>
          if is_challenge h then (Inr cert, st)
          else
            (case certInfo parse now cert of
               Inl _ \<Rightarrow> (Inr cert, st)
             | Inr info \<Rightarrow> (Inr cert, SetCert (Some info) st)))"

definition prewarmHello :: "string \<Rightarrow> hello" where
  "prewarmHello domain = \<lparr>he_ServerName = domain, he_SupportedProtos = [''h2'', ''http/1.1''], he_ecdsa = True\<rparr>"

text \<open>\<open>prewarm\<close> with the manager the configuration gave, if any; \<open>panic\<close> is what a panic says.\<close>

definition prewarm :: "('c \<Rightarrow> string + leaf) \<Rightarrow> (hello option \<Rightarrow> string + 'c list option) option \<Rightarrow> string option \<Rightarrow>
    int \<Rightarrow> int \<Rightarrow> string \<Rightarrow> StatusState \<Rightarrow> StatusState" where
  "prewarm parse m panic now1 now2 domain st =
     (case m of
        None \<Rightarrow> st
      | Some inner \<Rightarrow>
          if domain = [] then st
          else
            (case panic of
               Some p \<Rightarrow> SetPrewarm now2 False (Some (''panic: '' @ p)) st
             | None \<Rightarrow>
                 (case GetCertificate parse inner now1 (Some (prewarmHello domain)) st of
                    (Inl e, st') \<Rightarrow> SetPrewarm now2 False (Some e) st'
                  | (Inr _, st') \<Rightarrow> SetPrewarm now2 True None st')))"

text \<open>\<open>buildCertManager\<close>: the inner manager that the recording one wraps.\<close>

datatype 'c cert_manager = ACMEManager "string list" int | ManualManager "'c list"

datatype build_error = CacheDirFailed string | KeyPairFailed string

definition newACMEManager :: "(string \<Rightarrow> string option) \<Rightarrow> string \<Rightarrow> Config \<Rightarrow> build_error + 'c cert_manager" where
  "newACMEManager mkdir publicHost cfg =
     (case mkdir (ac_CacheDir (cf_ACME cfg)) of
        Some e \<Rightarrow> Inl (CacheDirFailed e)
      | None \<Rightarrow> Inr (ACMEManager (AllowedHosts publicHost cfg) (ac_RenewBeforeDays (cf_ACME cfg))))"

definition buildCertManager :: "('c \<Rightarrow> string + leaf) \<Rightarrow> (string \<Rightarrow> string option) \<Rightarrow> (string \<Rightarrow> string \<Rightarrow> string + 'c list) \<Rightarrow>
    int \<Rightarrow> string \<Rightarrow> Config \<Rightarrow> StatusState \<Rightarrow> (build_error + 'c cert_manager option) \<times> StatusState" where
  "buildCertManager parse mkdir load now publicHost cfg st =
     (if sc_HTTPSPort (cf_Server cfg) = 0 then (Inr None, st)
      else if ac_Enabled (cf_ACME cfg) then
        (case newACMEManager mkdir publicHost cfg of
           Inl e \<Rightarrow> (Inl e, st)
         | Inr m \<Rightarrow> (Inr (Some m), st))
      else
        (case load (sc_CertFile (cf_Server cfg)) (sc_KeyFile (cf_Server cfg)) of
           Inl e \<Rightarrow> (Inl (KeyPairFailed e), st)
         | Inr cert \<Rightarrow>
             (Inr (Some (ManualManager cert)),
              case certInfo parse now (Some cert) of Inl _ \<Rightarrow> st | Inr info \<Rightarrow> SetCert (Some info) st)))"

definition manual_GetCertificate :: "'c list \<Rightarrow> hello option \<Rightarrow> string + 'c list option" where
  "manual_GetCertificate cert h = Inr (Some cert)"

text \<open>A sequence of handshakes, each at its instant.\<close>

definition handshakes :: "('c \<Rightarrow> string + leaf) \<Rightarrow> (int \<times> hello option \<times> (string + 'c list option)) list \<Rightarrow>
    StatusState \<Rightarrow> StatusState" where
  "handshakes parse hs st = fold (\<lambda>(now, h, ans) st. snd (GetCertificate parse (\<lambda>_. ans) now h st)) hs st"

text \<open>The last certificate served to a client, challenges aside.\<close>

definition served_info :: "('c \<Rightarrow> string + leaf) \<Rightarrow> int \<times> hello option \<times> (string + 'c list option) \<Rightarrow> CertInfo option" where
  "served_info parse x =
     (case x of
        (now, h, Inr cert) \<Rightarrow>
          if is_challenge h then None
          else (case certInfo parse now cert of Inl _ \<Rightarrow> None | Inr i \<Rightarrow> Some i)
      | (now, h, Inl e) \<Rightarrow> None)"

lemma GetCertificate_cert:
  "ss_cert (snd (GetCertificate parse (\<lambda>_. ans) now h st)) =
     (case served_info parse (now, h, ans) of None \<Rightarrow> ss_cert st | Some i \<Rightarrow> Some i)"
  by (simp add: GetCertificate_def served_info_def SetError_def SetCert_def split: sum.split)

text \<open>The certificate in the status is the one last served to a client: challenge handshakes, failed
  ones and certificates that do not parse leave it alone.\<close>

theorem status_shows_the_last_served_certificate:
  "ss_cert (handshakes parse hs st) =
     (case List.map_filter (served_info parse) (rev hs) of [] \<Rightarrow> ss_cert st | i # _ \<Rightarrow> Some i)"
proof (induction hs rule: rev_induct)
  case Nil
  then show ?case by (simp add: handshakes_def map_filter_simps)
next
  case (snoc x hs)
  obtain now h ans where x: "x = (now, h, ans)" by (cases x)
  have "ss_cert (handshakes parse (hs @ [x]) st) =
      (case served_info parse x of None \<Rightarrow> ss_cert (handshakes parse hs st) | Some i \<Rightarrow> Some i)"
    unfolding handshakes_def by (simp add: x GetCertificate_cert)
  with snoc.IH show ?case by (cases "served_info parse x") (simp_all add: map_filter_simps)
qed

subsection \<open>Log handlers\<close>

definition console_level :: "string \<Rightarrow> int" where
  "console_level s =
     (if s = ''debug'' then -4 else if s = ''warn'' then 4 else if s = ''error'' then 8 else 0)"

record 'r handler =
  hd_enabled :: "int \<Rightarrow> bool"
  hd_handle :: "'r \<Rightarrow> string option"

definition multi_Enabled :: "'r handler list \<Rightarrow> int \<Rightarrow> bool" where
  "multi_Enabled hs level \<longleftrightarrow> list_ex (\<lambda>x. hd_enabled x level) hs"

text \<open>The handlers reached, by position, and the first error.\<close>

fun multi_Handle :: "nat \<Rightarrow> 'r handler list \<Rightarrow> int \<Rightarrow> 'r \<Rightarrow> nat list \<times> string option" where
  "multi_Handle i [] level r = ([], None)"
| "multi_Handle i (x # xs) level r =
     (if \<not> hd_enabled x level then multi_Handle (Suc i) xs level r
      else (case multi_Handle (Suc i) xs level r of
              (reached, err) \<Rightarrow> (i # reached, (case hd_handle x r of Some e \<Rightarrow> Some e | None \<Rightarrow> err))))"

datatype log_dest = ToConsole | ToFile

definition serverError_Enabled :: "'r handler \<Rightarrow> 'r handler option \<Rightarrow> int \<Rightarrow> bool" where
  "serverError_Enabled console file level \<longleftrightarrow>
     (case file of Some f \<Rightarrow> hd_enabled f level | None \<Rightarrow> False) \<or> hd_enabled console level"

definition serverError_Handle :: "('r \<Rightarrow> string) \<Rightarrow> 'r handler \<Rightarrow> 'r handler option \<Rightarrow> 'r \<Rightarrow>
    log_dest list \<times> string option" where
  "serverError_Handle msg console file r =
     (let toConsole = (\<lambda>err. case hd_handle console r of
            Some e \<Rightarrow> (case err of None \<Rightarrow> Some e | Some x \<Rightarrow> Some x) | None \<Rightarrow> err)
      in case file of
           None \<Rightarrow> ([ToConsole], toConsole None)
         | Some f \<Rightarrow>
             (let err = hd_handle f r
              in if HasPrefix (msg r) ''http: TLS handshake error'' then ([ToFile], err)
                 else ([ToFile, ToConsole], toConsole err)))"

text \<open>Every server error is recorded somewhere, on the console unless it is handshake noise kept in the file.\<close>

lemma server_errors_are_recorded:
  "fst (serverError_Handle msg console file r) \<noteq> [] \<and>
   (ToConsole \<in> set (fst (serverError_Handle msg console file r)) \<longleftrightarrow>
      file = None \<or> \<not> HasPrefix (msg r) ''http: TLS handshake error'')"
  by (simp add: serverError_Handle_def Let_def split: option.split)

text \<open>A record reaches some handler exactly when \<open>Enabled\<close> says so.\<close>

lemma multi_Handle_reached: "fst (multi_Handle i hs level r) \<noteq> [] \<longleftrightarrow> multi_Enabled hs level"
  by (induction i hs level r rule: multi_Handle.induct) (auto simp: multi_Enabled_def split: prod.split)

end
