(* ===== verification/UrlBuild.thy ===== *)
theory UrlBuild
  imports UrlServerProps UrlTls UrlLogs UrlMaint
begin

text \<open>
  How the URL shortener is put together: \<open>NewRuleset\<close> of \<open>urlshort/rules.go\<close>, \<open>NewServer\<close> and the
  server settings of \<open>urlshort/server.go\<close>, \<open>newLogging\<close> of \<open>urlshort/logging.go\<close> and \<open>run\<close> of
  \<open>urlshort/main.go\<close>. A constructor answers with its result and the resources it opened and closed, in
  order; \<open>run\<close> answers with its error, all such actions and the server it ran, if it came so far. The
  compilers of patterns and templates are a parameter; the file system, the network and the
  certificate libraries answer through the record \<open>main_env\<close>.
\<close>

subsection \<open>Compiling the rules\<close>

text \<open>A compiled pattern: \<open>FindStringSubmatchIndex\<close> and \<open>SubexpNames\<close>. A pattern matches a string
  somewhere exactly when the former finds something.\<close>

record regexp =
  re_find :: "string \<Rightarrow> int list option"
  re_names :: "string list"

definition MatchString :: "regexp \<Rightarrow> string \<Rightarrow> bool" where
  "MatchString re s \<longleftrightarrow> re_find re s \<noteq> None"

type_synonym key_exec = "(string \<rightharpoonup> string) \<Rightarrow> string + string"

record compile_lib =
  cp_regexp :: "string \<Rightarrow> string + regexp"
  cp_template :: "string \<Rightarrow> func_map \<Rightarrow> string \<Rightarrow> string + key_exec"

datatype rule_error = MatchError string string | MatchesEmpty string | KeyError string string

definition compile_rule :: "compile_lib \<Rightarrow> (string \<times> string) list \<Rightarrow> RuleConfig \<Rightarrow> rule_error + Rule" where
  "compile_rule cl abbrev cfg =
     (case cp_regexp cl (ru_Match cfg) of
        Inl e \<Rightarrow> Inl (MatchError (ru_Name cfg) e)
      | Inr re \<Rightarrow>
          if MatchString re [] then Inl (MatchesEmpty (ru_Name cfg))
          else
            (case parseKeyTemplate (cp_template cl) (ru_Name cfg) (ru_Key cfg) abbrev of
               Inl e \<Rightarrow> Inl (KeyError (ru_Name cfg) e)
             | Inr tmpl \<Rightarrow>
                 Inr \<lparr>rule_Name = ru_Name cfg, rule_find = re_find re, rule_names = re_names re,
                      rule_exec = tmpl, rule_hash = ru_Hash cfg, rule_hashMinlen = ru_HashMinlen cfg\<rparr>))"

fun NewRuleset :: "compile_lib \<Rightarrow> (string \<times> string) list \<Rightarrow> RuleConfig list \<Rightarrow> Rule list \<Rightarrow>
    rule_error + Rule list" where
  "NewRuleset cl abbrev [] rules = Inr rules"
| "NewRuleset cl abbrev (cfg # cfgs) rules =
     (case compile_rule cl abbrev cfg of
        Inl e \<Rightarrow> Inl e
      | Inr r \<Rightarrow> NewRuleset cl abbrev cfgs (rules @ [r]))"

text \<open>The validator asks the same compilers.\<close>

definition with_compiler :: "compile_lib \<Rightarrow> cfg_env \<Rightarrow> cfg_env" where
  "with_compiler cl ce = ce
     \<lparr>ce_regexp := (\<lambda>s. case cp_regexp cl s of Inl e \<Rightarrow> Inl e | Inr re \<Rightarrow> Inr (MatchString re [], re_names re)),
      ce_template := (\<lambda>abbrev name t. case parseKeyTemplate (cp_template cl) name t abbrev of
                                 Inl e \<Rightarrow> Some e | Inr _ \<Rightarrow> None)\<rparr>"

subsection \<open>Building the server\<close>

text \<open>What opens and closes, starts and stops.\<close>

datatype action =
    OpenErrorLog | CloseErrorLog | OpenAccessLog | CloseAccessLog | OpenStore | CloseStore
  | Warned "string \<times> string list" | WatchSignals | StopSignals | StartMaintenance | StopMaintenance
  | Prewarmed | Served serve_action

datatype start_error =
    LoadFailed load_error
  | DirFailed "string \<times> string"
  | LogDirFailed string
  | CertFailed build_error
  | StoreOpenFailed string
  | SchemaFailed open_error
  | NoCertManager
  | RulesFailed rule_error
  | AuthFailed auth_error
  | ServeFailed serve_error

text \<open>A \<open>time.Duration\<close> of whole seconds, in 64 bits.\<close>

definition seconds :: "int \<Rightarrow> int" where
  "seconds n = sint (word_of_int (n * second) :: 64 word)"

record http_settings =
  ht_shutdownTimeout :: int
  ht_ReadTimeout :: int
  ht_WriteTimeout :: int
  ht_IdleTimeout :: int
  ht_MaxHeaderBytes :: int

definition server_settings :: "ServerConfig \<Rightarrow> http_settings" where
  "server_settings sc =
     \<lparr>ht_shutdownTimeout = seconds (sc_ShutdownTimeout sc), ht_ReadTimeout = seconds (sc_ReadTimeout sc),
      ht_WriteTimeout = seconds (sc_WriteTimeout sc), ht_IdleTimeout = seconds (sc_IdleTimeout sc),
      ht_MaxHeaderBytes = sc_MaxHeaderBytes sc\<rparr>"

text \<open>The parts \<open>NewServer\<close> is given or fills in from libraries: \<open>base\<close> carries the store, the hash, the
  URL library, the public URL, the token buckets; \<open>ips\<close> and \<open>trusted\<close> are the address library, with the size of a written
  body, and the prefixes validation parsed; \<open>certs\<close> is the certificate manager's challenge handler.\<close>

type_synonym ('l, 't, 'd, 'r, 'lim, 'ip) built =
  "('l, 't, 'd, 'r, 'lim) server \<times> 'ip middleware \<times> ('l, 't, 'lim) state \<times> http_settings"

definition PublicHost :: "cfg_env \<Rightarrow> Config \<Rightarrow> string" where
  "PublicHost ce cfg = (case ce_url ce (sc_PublicURL (cf_Server cfg)) of Inr u \<Rightarrow> pu_Hostname u | Inl _ \<Rightarrow> [])"

definition new_limiters :: "'lim bucket_lib \<Rightarrow> RateLimitConfig \<Rightarrow>
    'lim RateLimiter \<times> 'lim RateLimiter \<times> 'lim RateLimiter" where
  "new_limiters bl rc =
     (NewRateLimiter bl (rc_RedirectRate rc) (rc_RedirectBurst rc) 10000,
      NewRateLimiter bl (rc_APIIPRate rc) (rc_APIIPBurst rc) 10000,
      NewRateLimiter bl (rc_APIRate rc) (rc_APIBurst rc) 10000)"

definition new_middleware :: "'ip ip_lib \<Rightarrow> (resp_body \<Rightarrow> int) \<Rightarrow> ('ip \<Rightarrow> bool) list \<Rightarrow> string \<Rightarrow>
    (http_request \<Rightarrow> response option) option \<Rightarrow> Config \<Rightarrow> 'ip middleware" where
  "new_middleware ips bytes trusted host certs cfg =
     \<lparr>mw_ip = ips, mw_trusted = trusted, mw_allowedHosts = AllowedHosts host cfg,
      mw_hsts = (if hs_Enabled (sc_HSTS (cf_Server cfg)) then HeaderValue (sc_HSTS (cf_Server cfg)) else []),
      mw_HTTPSPort = sc_HTTPSPort (cf_Server cfg),
      mw_bytes = bytes,
      mw_ACMEHandler = (if ac_Enabled (cf_ACME cfg) \<and> ac_HTTP01Fallback (cf_ACME cfg) then certs else None)\<rparr>"

definition NewServer :: "compile_lib \<Rightarrow> ('l, 't, 'd, 'r, 'lim) server \<Rightarrow> 'ip ip_lib \<times> (resp_body \<Rightarrow> int) \<Rightarrow> ('ip \<Rightarrow> bool) list \<Rightarrow> string \<Rightarrow>
    (http_request \<Rightarrow> response option) option \<Rightarrow> string option \<Rightarrow> Config \<Rightarrow> ('l, 't) db \<Rightarrow> StatusState \<Rightarrow>
    (start_error + ('l, 't, 'd, 'r, 'lim, 'ip) built) \<times> action list" where
  "NewServer cl base ips trusted host certs mkdir cfg db status =
     (if sc_HTTPSPort (cf_Server cfg) > 0 \<and> certs = None then (Inl NoCertManager, [])
      else
        (case mkdir of
           Some e \<Rightarrow> (Inl (LogDirFailed e), [])
         | None \<Rightarrow>
             (case NewRuleset cl (cf_Abbreviations cfg) (cf_Rules cfg) [] of
                Inl e \<Rightarrow> (Inl (RulesFailed e), [OpenAccessLog, CloseAccessLog])
              | Inr rules \<Rightarrow>
                  (case NewAuthenticator (sv_sha base) (cf_Clients cfg) of
                     Inl e \<Rightarrow> (Inl (AuthFailed e), [OpenAccessLog, CloseAccessLog])
                   | Inr clients \<Rightarrow>
                       (case new_limiters (sv_buckets base) (cf_RateLimit cfg) of
                          (redirect, apiIP, api) \<Rightarrow>
                            (Inr (base\<lparr>sv_rules := rules, sv_clients := clients, sv_cfg := cfg\<rparr>,
                                  new_middleware (fst ips) (snd ips) trusted host certs cfg,
                                  \<lparr>st_db = db, st_status = status, st_apiIPLimiter = apiIP,
                                   st_apiLimiter = api, st_redirectLimiter = redirect\<rparr>,
                                  server_settings (cf_Server cfg)),
                             [OpenAccessLog]))))))"

subsection \<open>The program\<close>

text \<open>\<open>rn_manager\<close> answers \<open>GetCertificate\<close> for the manager the configuration gave, \<open>rn_panic\<close> is what it
  panics with during the pre-warm; \<open>rn_sawSignal\<close> says which branch the final \<open>select\<close> took and
  \<open>rn_canceled\<close> which errors are \<open>context.Canceled\<close>.\<close>

record ('c, 'l, 't, 'd, 'r, 'lim, 'ip) main_env =
  rn_readFile :: "string \<Rightarrow> string + string"
  rn_decode :: "string \<Rightarrow> Config \<Rightarrow> string + Config \<times> string list"
  rn_join :: "string \<Rightarrow> string \<Rightarrow> string"
  rn_ce :: cfg_env
  rn_cl :: compile_lib
  rn_dirs :: dir_ops
  rn_mkdirErrorLog :: "string option"
  rn_mkdirAccessLog :: "string option"
  rn_now :: "nat \<Rightarrow> int"
  rn_parse :: "'c \<Rightarrow> string + leaf"
  rn_mkdirCache :: "string \<Rightarrow> string option"
  rn_keyPair :: "string \<Rightarrow> string \<Rightarrow> string + 'c list"
  rn_manager :: "'c cert_manager \<Rightarrow> hello option \<Rightarrow> string + 'c list option"
  rn_challenge :: "http_request \<Rightarrow> response option"
  rn_panic :: "string option"
  rn_boltOpen :: "string option"
  rn_metaPut :: "string option"
  rn_schema :: "8 word list option"
  rn_base :: "('l, 't, 'd, 'r, 'lim) server"
  rn_ips :: "'ip ip_lib \<times> (resp_body \<Rightarrow> int)"
  rn_trusted :: "('ip \<Rightarrow> bool) list"
  rn_db :: "('l, 't) db"
  rn_bind :: "string \<Rightarrow> int \<Rightarrow> string option"
  rn_ending :: serve_end
  rn_shutdown :: "nat \<Rightarrow> string option"
  rn_sawSignal :: bool
  rn_canceled :: "serve_error \<Rightarrow> bool"

definition when_do :: "bool \<Rightarrow> 'a \<Rightarrow> 'a list" where
  "when_do b a = (if b then [a] else [])"

text \<open>\<open>newLogging\<close>: the error log, when it is enabled.\<close>

definition newLogging :: "string option \<Rightarrow> Config \<Rightarrow> string option \<times> action list" where
  "newLogging mkdir cfg =
     (if \<not> el_Enabled (cf_ErrorLog cfg) then (None, [])
      else (case mkdir of Some e \<Rightarrow> (Some e, []) | None \<Rightarrow> (None, [OpenErrorLog])))"

text \<open>\<open>OpenBoltStore\<close>: a database whose schema is refused is closed again.\<close>

definition OpenBoltStore :: "string option \<Rightarrow> string option \<Rightarrow> 8 word list option \<Rightarrow> start_error option \<times> action list" where
  "OpenBoltStore bopen put raw =
     (case bopen of
        Some e \<Rightarrow> (Some (StoreOpenFailed e), [])
      | None \<Rightarrow>
          (case open_schema put raw of
             Inl e \<Rightarrow> (Some (SchemaFailed e), [OpenStore, CloseStore])
           | Inr _ \<Rightarrow> (None, [OpenStore])))"

text \<open>From \<open>signal.NotifyContext\<close> to the end, with the deferred stops of the maintenance and the signals.\<close>

definition serve_phase :: "('c, 'l, 't, 'd, 'r, 'lim, 'ip) main_env \<Rightarrow> Config \<Rightarrow> start_error option \<times> action list" where
  "serve_phase me cfg =
     (let sc = cf_Server cfg; backups = bk_Enabled (cf_Backup cfg)
      in case Serve (rn_bind me) (sc_HTTPPort sc) (sc_HTTPSPort sc) (sc_ListenAddresses sc) (rn_ending me)
                (rn_shutdown me) of
           (err, acts) \<Rightarrow>
             (case err of
                None \<Rightarrow> None
              | Some e \<Rightarrow> if rn_canceled me e then None else Some (ServeFailed e),
              WatchSignals # when_do backups StartMaintenance @ when_do (ac_Enabled (cf_ACME cfg)) Prewarmed @
              map Served acts @ when_do (\<not> rn_sawSignal me) StopSignals @
              when_do backups StopMaintenance @ [StopSignals]))"

text \<open>From the certificate manager to the end, with the deferred closing of the store and the server. The
  status state is shared, so the pre-warm shows in the server's.\<close>

definition with_prewarm :: "('c, 'l, 't, 'd, 'r, 'lim, 'ip) main_env \<Rightarrow> Config \<Rightarrow> 'c cert_manager option \<Rightarrow>
    ('l, 't, 'd, 'r, 'lim, 'ip) built \<Rightarrow> ('l, 't, 'd, 'r, 'lim, 'ip) built" where
  "with_prewarm me cfg m srv =
     (case srv of
        (sv, mw, st, ht) \<Rightarrow>
          (sv, mw,
           if ac_Enabled (cf_ACME cfg)
           then st\<lparr>st_status := prewarm (rn_parse me) (map_option (rn_manager me) m) (rn_panic me) (rn_now me 2)
                  (rn_now me 3) (PublicHost (rn_ce me) cfg) (st_status st)\<rparr>
           else st, ht))"

definition start_phase :: "('c, 'l, 't, 'd, 'r, 'lim, 'ip) main_env \<Rightarrow> Config \<Rightarrow>
    start_error option \<times> action list \<times> ('l, 't, 'd, 'r, 'lim, 'ip) built option" where
  "start_phase me cfg =
     (let host = PublicHost (rn_ce me) cfg
      in case buildCertManager (rn_parse me) (rn_mkdirCache me) (rn_keyPair me) (rn_now me 1) host cfg
                (NewStatusState (rn_now me 0)) of
           (Inl e, status) \<Rightarrow> (Some (CertFailed e), [], None)
         | (Inr certs, status) \<Rightarrow>
             (case OpenBoltStore (rn_boltOpen me) (rn_metaPut me) (rn_schema me) of
                (Some e, acts) \<Rightarrow> (Some e, acts, None)
              | (None, acts) \<Rightarrow>
                  (case NewServer (rn_cl me) (rn_base me) (rn_ips me) (rn_trusted me) host
                          (map_option (\<lambda>_. rn_challenge me) certs) (rn_mkdirAccessLog me) cfg (rn_db me) status of
                     (Inl e, acts2) \<Rightarrow> (Some e, acts @ acts2 @ [CloseStore], None)
                   | (Inr srv, acts2) \<Rightarrow>
                       (case serve_phase me cfg of
                          (err, acts3) \<Rightarrow>
                            (err, acts @ acts2 @ acts3 @ [CloseStore, CloseAccessLog],
                             Some (with_prewarm me cfg certs srv))))))"

definition run_urlshort :: "('c, 'l, 't, 'd, 'r, 'lim, 'ip) main_env \<Rightarrow> string \<Rightarrow>
    start_error option \<times> action list \<times> ('l, 't, 'd, 'r, 'lim, 'ip) built option" where
  "run_urlshort me path =
     (case LoadConfig (rn_readFile me) (rn_decode me) (rn_join me) (with_compiler (rn_cl me) (rn_ce me)) path of
        Inl e \<Rightarrow> (Some (LoadFailed e), [], None)
      | Inr (cfg, warnings) \<Rightarrow>
          (case EnsureDirs (ensureDir (rn_dirs me)) (rn_join me (cf_DataDir cfg) ''logs'') cfg of
             Some d \<Rightarrow> (Some (DirFailed d), [], None)
           | None \<Rightarrow>
               (case newLogging (rn_mkdirErrorLog me) cfg of
                  (Some e, acts) \<Rightarrow> (Some (LogDirFailed e), acts, None)
                | (None, acts) \<Rightarrow>
                    (case start_phase me cfg of
                       (err, acts2, srv) \<Rightarrow>
                         (err, acts @ map Warned warnings @ acts2 @
                            when_do (el_Enabled (cf_ErrorLog cfg)) CloseErrorLog, srv)))))"

subsection \<open>A validated configuration builds a server\<close>

text \<open>What compilation makes of a validated rule.\<close>

definition compiled_as :: "RuleConfig \<Rightarrow> Rule \<Rightarrow> bool" where
  "compiled_as cfg r \<longleftrightarrow>
     rule_Name r = ru_Name cfg \<and> rule_hash r = ru_Hash cfg \<and> rule_hashMinlen r = ru_HashMinlen cfg \<and>
     rule_find r [] = None \<and>
     (rule_hash r \<noteq> [] \<longrightarrow> rule_hash r \<in> set (rule_names r) \<and> hashMinLen \<le> rule_hashMinlen r)"

lemma compile_rule_ok:
  assumes "rule_problems (with_compiler cl ce) abbrev ctx cfg = []"
  obtains r where "compile_rule cl abbrev cfg = Inr r" and "compiled_as cfg r"
proof -
  from assms obtain re tmpl where "cp_regexp cl (ru_Match cfg) = Inr re" "\<not> MatchString re []"
    "parseKeyTemplate (cp_template cl) (ru_Name cfg) (ru_Key cfg) abbrev = Inr tmpl"
    "ru_Hash cfg \<noteq> [] \<longrightarrow> ru_Hash cfg \<in> set (re_names re) \<and> hashMinLen \<le> ru_HashMinlen cfg"
    by (auto simp: rule_problems_def with_compiler_def split: if_splits sum.splits)
  then show thesis by (intro that) (auto simp: compile_rule_def compiled_as_def MatchString_def)
qed

lemma NewRuleset_ok:
  "rules_loop (with_compiler cl ce) abbrev i seen cfgs = [] \<Longrightarrow>
   \<exists>rs. NewRuleset cl abbrev cfgs rules = Inr (rules @ rs) \<and> list_all2 compiled_as cfgs rs"
proof (induction cfgs arbitrary: i seen rules)
  case (Cons cfg cfgs)
  then have p: "rule_problems (with_compiler cl ce) abbrev (rule_ctx i cfg) cfg = []"
    "rules_loop (with_compiler cl ce) abbrev (Suc i) (ru_Name cfg # seen) cfgs = []" by simp_all
  from p(1) obtain r where r: "compile_rule cl abbrev cfg = Inr r" "compiled_as cfg r" by (rule compile_rule_ok)
  from Cons.IH [OF p(2), of "rules @ [r]"] r show ?case by auto
qed simp

lemma compiled_refuse_empty: "list_all2 compiled_as cfgs rs \<Longrightarrow> MatchRules rs [] = None"
  by (induction rule: list_all2_induct) (auto simp: compiled_as_def)


definition ex_compile :: compile_lib where
  "ex_compile = \<lparr>cp_regexp = (\<lambda>p. Inr \<lparr>re_find = (\<lambda>s. if HasPrefix s p then Some [0, int (length s)] else None), re_names = [[]]\<rparr>),
     cp_template = (\<lambda>name funcs t. Inr (\<lambda>vars. Inr t))\<rparr>"

definition ex_rule :: RuleConfig where
  "ex_rule = \<lparr>ru_Name = ''bugs'', ru_Match = ''http://b/'', ru_Key = ''/a/bug'', ru_Hash = [], ru_HashMinlen = 0\<rparr>"

definition ex_rules_config :: Config where
  "ex_rules_config = ex_config\<lparr>cf_Rules := [ex_rule]\<rparr>"

lemma with_compiler_frame:
  "validateServer (with_compiler cl ce) c = validateServer ce c" "validateACME (with_compiler cl ce) c = validateACME ce c"
  by (simp_all add: with_compiler_def validateServer_def validateACME_def validateTrustedProxies_def Let_def
      cong: if_cong option.case_cong)

lemma rules_frame:
  "validateServer ce (c\<lparr>cf_Rules := rs\<rparr>) = validateServer ce c" "validateACME ce (c\<lparr>cf_Rules := rs\<rparr>) = validateACME ce c"
  "validateLogLevel (c\<lparr>cf_Rules := rs\<rparr>) = validateLogLevel c" "validateAccess (c\<lparr>cf_Rules := rs\<rparr>) = validateAccess c"
  "validateAccessLog (c\<lparr>cf_Rules := rs\<rparr>) = validateAccessLog c" "validateErrorLog (c\<lparr>cf_Rules := rs\<rparr>) = validateErrorLog c"
  "validateBackup (c\<lparr>cf_Rules := rs\<rparr>) = validateBackup c" "validateClients (c\<lparr>cf_Rules := rs\<rparr>) = validateClients c"
  by (simp_all add: validateLogLevel_def validateAccess_def validateAccessLog_def validateErrorLog_def validateBackup_def
      validateClients_def validateACME_def validateServer_def validateTrustedProxies_def validateHSTS_def
      validatePublicURL_def Let_def cong: if_cong option.case_cong sum.case_cong)

lemma ex_rules_config_ok: "fst (Validate (with_compiler ex_compile ex_cfg_env) ex_rules_config) = []"
proof -
  have "validateRules (with_compiler ex_compile ex_cfg_env) ex_rules_config = []" by code_simp
  with ex_config_ok show ?thesis
    unfolding Validate_def Let_def by (simp add: ex_rules_config_def with_compiler_frame rules_frame)
qed


subsection \<open>What is opened is closed\<close>

text \<open>The life of the program's resources: an action is allowed or not in a state, and changes it. A
  listener needs the store and the access log; the store outlives the listeners and the backups; a
  log outlives what writes to it.\<close>

record life =
  li_errorLog :: bool
  li_accessLog :: bool
  li_store :: bool
  li_backups :: bool
  li_signals :: bool
  li_bound :: nat
  li_live :: "nat list"

fun life_step :: "action \<Rightarrow> life \<Rightarrow> life option" where
  "life_step OpenErrorLog s = (if li_errorLog s then None else Some (s\<lparr>li_errorLog := True\<rparr>))"
| "life_step CloseErrorLog s =
     (if li_errorLog s \<and> \<not> li_store s \<and> \<not> li_accessLog s \<and> \<not> li_backups s \<and> li_live s = []
      then Some (s\<lparr>li_errorLog := False\<rparr>) else None)"
| "life_step OpenAccessLog s = (if li_accessLog s then None else Some (s\<lparr>li_accessLog := True\<rparr>))"
| "life_step CloseAccessLog s =
     (if li_accessLog s \<and> li_live s = [] then Some (s\<lparr>li_accessLog := False\<rparr>) else None)"
| "life_step OpenStore s = (if li_store s then None else Some (s\<lparr>li_store := True\<rparr>))"
| "life_step CloseStore s =
     (if li_store s \<and> \<not> li_backups s \<and> li_live s = [] then Some (s\<lparr>li_store := False\<rparr>) else None)"
| "life_step (Warned w) s = Some s"
| "life_step WatchSignals s = (if li_signals s then None else Some (s\<lparr>li_signals := True\<rparr>))"
| "life_step StopSignals s = Some (s\<lparr>li_signals := False\<rparr>)"
| "life_step StartMaintenance s =
     (if li_store s \<and> li_signals s \<and> \<not> li_backups s then Some (s\<lparr>li_backups := True\<rparr>) else None)"
| "life_step StopMaintenance s = (if li_store s \<and> li_backups s then Some (s\<lparr>li_backups := False\<rparr>) else None)"
| "life_step Prewarmed s = (if li_live s = [] then Some s else None)"
| "life_step (Served (Bound l)) s =
     (if li_store s \<and> li_accessLog s then Some (s\<lparr>li_bound := Suc (li_bound s), li_live := li_live s @ [li_bound s]\<rparr>)
      else None)"
| "life_step (Served (CloseServer i)) s =
     (if i \<in> set (li_live s) then Some (s\<lparr>li_live := removeAll i (li_live s)\<rparr>) else None)"
| "life_step (Served (ShutdownServer i)) s =
     (if i \<in> set (li_live s) then Some (s\<lparr>li_live := removeAll i (li_live s)\<rparr>) else None)"

fun life_run :: "action list \<Rightarrow> life \<Rightarrow> life option" where
  "life_run [] s = Some s"
| "life_run (a # acts) s = (case life_step a s of None \<Rightarrow> None | Some s' \<Rightarrow> life_run acts s')"

definition at_rest :: life where
  "at_rest = \<lparr>li_errorLog = False, li_accessLog = False, li_store = False, li_backups = False, li_signals = False,
     li_bound = 0, li_live = []\<rparr>"

lemma life_run_append [simp]:
  "life_run (xs @ ys) s = (case life_run xs s of None \<Rightarrow> None | Some s' \<Rightarrow> life_run ys s')"
  by (induction xs arbitrary: s) (auto split: option.split)

lemma life_run_Warned [simp]: "life_run (map Warned ws) s = Some s"
  by (induction ws) auto

lemma life_run_Bound:
  "li_store s \<Longrightarrow> li_accessLog s \<Longrightarrow> li_bound s = length (li_live s) \<Longrightarrow> li_live s = [0..<length (li_live s)] \<Longrightarrow>
   life_run (map Served (map Bound ls)) s =
     Some (s\<lparr>li_bound := li_bound s + length ls, li_live := [0..<length (li_live s) + length ls]\<rparr>)"
proof (induction ls arbitrary: s)
  case (Cons l ls)
  let ?s = "s\<lparr>li_bound := Suc (li_bound s), li_live := li_live s @ [li_bound s]\<rparr>"
  have live: "[0..<Suc (length (li_live s))] = li_live s @ [length (li_live s)]"
    using Cons.prems(4) by (metis upt_Suc_append zero_le)
  have "life_run (map Served (map Bound ls)) ?s =
      Some (?s\<lparr>li_bound := li_bound ?s + length ls, li_live := [0..<length (li_live ?s) + length ls]\<rparr>)"
    by (rule Cons.IH) (use Cons.prems(1-3) live in \<open>simp_all del: upt_Suc\<close>)
  with Cons.prems show ?case by simp
qed simp

lemma life_run_ended:
  assumes "f = CloseServer \<or> f = ShutdownServer"
  shows "li_live s = [k..<k + n] \<Longrightarrow> life_run (map Served (map f [k..<k + n])) s = Some (s\<lparr>li_live := []\<rparr>)"
proof (induction n arbitrary: k s)
  case (Suc n)
  let ?s = "s\<lparr>li_live := [Suc k..<Suc k + n]\<rparr>"
  have u: "[k..<k + Suc n] = k # [Suc k..<Suc k + n]" by (simp add: upt_conv_Cons del: upt_Suc)
  have "life_step (Served (f k)) s = Some ?s"
    using assms Suc.prems unfolding u by auto
  with Suc.IH [of ?s "Suc k"] show ?case unfolding u by simp
qed simp

lemma life_run_Serve:
  assumes "Serve bind http https addrs ending ans = (err, acts)"
    and "li_store s" and "li_accessLog s" and "li_bound s = 0" and "li_live s = []"
  shows "\<exists>n. life_run (map Served acts) s = Some (s\<lparr>li_bound := n\<rparr>)"
proof -
  obtain e ls where b: "bind_listeners bind http https addrs [] = (e, ls)" by fastforce
  let ?s = "s\<lparr>li_bound := length ls, li_live := [0..<length ls]\<rparr>"
  have bound: "life_run (map Served (map Bound ls)) s = Some ?s"
    using life_run_Bound [of s ls] assms(2-5) by simp
  have ended: "life_run (map Served (map f [0..<length ls])) ?s = Some (?s\<lparr>li_live := []\<rparr>)"
    if "f = CloseServer \<or> f = ShutdownServer" for f
    using life_run_ended [OF that, of ?s 0 "length ls"] by simp
  have id: "?s\<lparr>li_live := []\<rparr> = s\<lparr>li_bound := length ls\<rparr>" using assms(5) by simp
  from assms(1) b consider "acts = map Bound ls @ map CloseServer [0..<length ls]"
    | "acts = map Bound ls @ map ShutdownServer [0..<length ls]" | "acts = []"
    by (auto simp: Serve_def split: option.splits if_splits)
  then show ?thesis
  proof cases
    case 3
    then show ?thesis by (intro exI [of _ "li_bound s"]) simp
  qed (use bound ended id in \<open>simp_all only: map_append life_run_append option.case, blast+\<close>)
qed

lemma life_run_when_do:
  "life_run (when_do b a) s = (if b then life_step a s else Some s)"
  by (simp add: when_do_def split: option.split)

text \<open>Each phase leaves the resources as it found them, but for the count of listeners.\<close>

definition idle :: "life \<Rightarrow> bool" where
  "idle s \<longleftrightarrow> \<not> li_accessLog s \<and> \<not> li_store s \<and> \<not> li_backups s \<and> \<not> li_signals s \<and> li_bound s = 0 \<and> li_live s = []"

lemma serve_phase_life:
  assumes "serve_phase me cfg = (err, acts)"
    and "li_store s" and "li_accessLog s" and "\<not> li_backups s" and "\<not> li_signals s" and "li_bound s = 0" and "li_live s = []"
  shows "\<exists>n. life_run acts s = Some (s\<lparr>li_bound := n\<rparr>)"
proof -
  let ?sc = "cf_Server cfg"
  obtain e sacts where sv: "Serve (rn_bind me) (sc_HTTPPort ?sc) (sc_HTTPSPort ?sc) (sc_ListenAddresses ?sc)
      (rn_ending me) (rn_shutdown me) = (e, sacts)" by fastforce
  let ?s = "s\<lparr>li_backups := bk_Enabled (cf_Backup cfg), li_signals := True\<rparr>"
  obtain n where n: "life_run (map Served sacts) ?s = Some (?s\<lparr>li_bound := n\<rparr>)"
    using life_run_Serve [OF sv, of ?s] assms(2-7) by auto
  obtain el al st bk sg bd lv where
    s: "s = \<lparr>li_errorLog = el, li_accessLog = al, li_store = st, li_backups = bk, li_signals = sg, li_bound = bd, li_live = lv\<rparr>"
    by (rule life.cases)
  have a: "acts = WatchSignals # when_do (bk_Enabled (cf_Backup cfg)) StartMaintenance @
      when_do (ac_Enabled (cf_ACME cfg)) Prewarmed @ map Served sacts @ when_do (\<not> rn_sawSignal me) StopSignals @
      when_do (bk_Enabled (cf_Backup cfg)) StopMaintenance @ [StopSignals]"
    using assms(1) by (simp add: serve_phase_def Let_def sv)
  have "life_run acts s = Some (s\<lparr>li_bound := n\<rparr>)"
    using assms(2-7) n by (cases "bk_Enabled (cf_Backup cfg)") (simp_all add: a s life_run_when_do)
  then show ?thesis ..
qed

lemma start_phase_life:
  assumes "start_phase me cfg = (err, acts, srv)" and "idle s"
  shows "\<exists>n. life_run acts s = Some (s\<lparr>li_bound := n\<rparr>)"
proof -
  let ?host = "PublicHost (rn_ce me) cfg" and ?open = "s\<lparr>li_store := True, li_accessLog := True\<rparr>"
  obtain certs status where c: "buildCertManager (rn_parse me) (rn_mkdirCache me) (rn_keyPair me) (rn_now me 1) ?host cfg
      (NewStatusState (rn_now me 0)) = (certs, status)" by fastforce
  obtain e oacts where o: "OpenBoltStore (rn_boltOpen me) (rn_metaPut me) (rn_schema me) = (e, oacts)" by fastforce
  obtain perr pacts where p: "serve_phase me cfg = (perr, pacts)" by fastforce
  obtain n where n: "life_run pacts ?open = Some (?open\<lparr>li_bound := n\<rparr>)"
    using serve_phase_life [OF p, of ?open] assms(2) by (auto simp: idle_def)
  have "life_run acts s = Some s \<or> life_run acts s = Some (s\<lparr>li_bound := n\<rparr>)"
    using assms c o p n
    by (auto simp: start_phase_def Let_def OpenBoltStore_def NewServer_def idle_def
        split: sum.splits option.splits if_splits prod.splits)
  then show ?thesis by (auto intro: exI [of _ "li_bound s"])
qed

lemma start_phase_cases:
  assumes "start_phase me cfg = (err, acts, srv)"
  obtains (failed) e where "err = Some e" and "srv = None" and "\<forall>x. Served x \<notin> set acts"
    | (started) certs status built nacts where
        "NewServer (rn_cl me) (rn_base me) (rn_ips me) (rn_trusted me) (PublicHost (rn_ce me) cfg)
           (map_option (\<lambda>_. rn_challenge me) certs) (rn_mkdirAccessLog me) cfg (rn_db me) status = (Inr built, nacts)"
        and "srv = Some (with_prewarm me cfg certs built)"
proof -
  let ?host = "PublicHost (rn_ce me) cfg"
  obtain cm status where c: "buildCertManager (rn_parse me) (rn_mkdirCache me) (rn_keyPair me) (rn_now me 1) ?host cfg
      (NewStatusState (rn_now me 0)) = (cm, status)" by fastforce
  obtain e oacts where o: "OpenBoltStore (rn_boltOpen me) (rn_metaPut me) (rn_schema me) = (e, oacts)" by fastforce
  have oq: "Served x \<notin> set oacts" for x
    using o by (auto simp: OpenBoltStore_def split: option.splits sum.splits)
  show thesis
  proof (cases cm)
    case (Inl x)
    with assms c show thesis by (intro failed) (auto simp: start_phase_def Let_def)
  next
    case certs: (Inr certs)
    show thesis
    proof (cases e)
      case (Some x)
      with assms c o certs oq show thesis by (intro failed) (auto simp: start_phase_def Let_def)
    next
      case None
      obtain r nacts where n: "NewServer (rn_cl me) (rn_base me) (rn_ips me) (rn_trusted me) ?host
          (map_option (\<lambda>_. rn_challenge me) certs) (rn_mkdirAccessLog me) cfg (rn_db me) status = (r, nacts)" by fastforce
      have nq: "Served x \<notin> set nacts" for x
        using n by (auto simp: NewServer_def new_limiters_def split: if_splits option.splits sum.splits)
      show thesis
      proof (cases r)
        case (Inl x)
        with assms c o certs None n oq nq show thesis by (intro failed) (auto simp: start_phase_def Let_def)
      next
        case (Inr built)
        with assms c o certs None n show thesis
          by (intro started [of certs status built nacts]) (auto simp: start_phase_def Let_def split: prod.splits)
      qed
    qed
  qed
qed

lemma NewServer_validated:
  assumes "NewServer cl base ips trusted host certs mkdir cfg db status = (Inr (sv, mw, st, ht), nacts)"
    and "fst (Validate (with_compiler cl ce) cfg) = []"
  shows "sv_cfg sv = cfg \<and> list_all2 compiled_as (cf_Rules cfg) (sv_rules sv) \<and> (\<forall>c\<in>set (sv_clients sv). sound_client c)"
proof -
  have "rules_loop (with_compiler cl ce) (cf_Abbreviations cfg) 0 [] (cf_Rules cfg) = []"
    using assms(2) by (simp add: Validate_def validateRules_def Let_def)
  from NewRuleset_ok [OF this, of "[]"] obtain rs where
    rs: "NewRuleset cl (cf_Abbreviations cfg) (cf_Rules cfg) [] = Inr rs" "list_all2 compiled_as (cf_Rules cfg) rs" by auto
  from assms(1) rs(1) obtain cs where cs: "NewAuthenticator (sv_sha base) (cf_Clients cfg) = Inr cs"
    and sv: "sv = base\<lparr>sv_rules := rs, sv_clients := cs, sv_cfg := cfg\<rparr>"
    by (auto simp: NewServer_def new_limiters_def split: if_splits option.splits sum.splits)
  have "\<forall>c\<in>set cs. sound_client c" using authenticated_clients_sound [OF assms(2) cs] by blast
  with rs(2) sv show ?thesis by simp
qed

lemma start_phase_server:
  assumes "start_phase me cfg = (err, acts, srv)" and "fst (Validate (with_compiler (rn_cl me) (rn_ce me)) cfg) = []"
  shows "(err = None \<longrightarrow> srv \<noteq> None) \<and> (srv = None \<longrightarrow> (\<forall>x. Served x \<notin> set acts)) \<and>
    (\<forall>sv mw st ht. srv = Some (sv, mw, st, ht) \<longrightarrow> sv_cfg sv = cfg \<and>
       list_all2 compiled_as (cf_Rules cfg) (sv_rules sv) \<and> (\<forall>c\<in>set (sv_clients sv). sound_client c))"
  using assms(1)
proof (cases rule: start_phase_cases)
  case (started certs status built nacts)
  obtain sv mw st ht where b: "built = (sv, mw, st, ht)" by (cases built)
  note v = NewServer_validated [OF started(1) [unfolded b] assms(2)]
  have "\<exists>st'. srv = Some (sv, mw, st', ht)" using started(2) by (simp add: b with_prewarm_def)
  with v show ?thesis by auto
qed simp

text \<open>C17: the program starts and ends in order. On every path, whatever fails, what it opened is closed
  again, each thing once: every listener is closed or shut down before the store and the access log
  are closed, the backups are stopped before the store is closed, no listener is bound without both,
  and the error log outlives everything. It serves only with a server that a configuration without
  problems gave: its rules are compiled as configured and its clients are sound.\<close>

theorem program_is_orderly:
  assumes "run_urlshort me path = (err, acts, srv)"
  shows "(\<exists>n. life_run acts at_rest = Some (at_rest\<lparr>li_bound := n\<rparr>)) \<and>
    (err = None \<longrightarrow> srv \<noteq> None) \<and> (srv = None \<longrightarrow> (\<forall>x. Served x \<notin> set acts)) \<and>
    (\<forall>sv mw st ht. srv = Some (sv, mw, st, ht) \<longrightarrow>
       fst (Validate (with_compiler (rn_cl me) (rn_ce me)) (sv_cfg sv)) = [] \<and>
       list_all2 compiled_as (cf_Rules (sv_cfg sv)) (sv_rules sv) \<and> (\<forall>c\<in>set (sv_clients sv). sound_client c))"
proof -
  let ?load = "LoadConfig (rn_readFile me) (rn_decode me) (rn_join me) (with_compiler (rn_cl me) (rn_ce me)) path"
  consider e where "err = Some e" "acts = []" "srv = None"
    | cfg ws acts2 where "?load = Inr (cfg, ws)" "start_phase me cfg = (err, acts2, srv)"
        "acts = when_do (el_Enabled (cf_ErrorLog cfg)) OpenErrorLog @ map Warned ws @ acts2 @
          when_do (el_Enabled (cf_ErrorLog cfg)) CloseErrorLog"
    using assms
    by (auto simp: run_urlshort_def newLogging_def when_do_def split: sum.splits prod.splits option.splits if_splits)
  then show ?thesis
  proof cases
    case 1
    then show ?thesis by (auto intro!: exI [of _ 0] simp: at_rest_def)
  next
    case 2
    have v: "fst (Validate (with_compiler (rn_cl me) (rn_ce me)) cfg) = []"
      using 2(1) by (auto simp: LoadConfig_def split: sum.splits prod.splits if_splits)
    note srv = start_phase_server [OF 2(2) v]
    let ?s = "at_rest\<lparr>li_errorLog := el_Enabled (cf_ErrorLog cfg)\<rparr>"
    obtain n where n: "life_run acts2 ?s = Some (?s\<lparr>li_bound := n\<rparr>)"
      using start_phase_life [OF 2(2), of ?s] by (auto simp: idle_def at_rest_def)
    have "life_run acts at_rest = Some (at_rest\<lparr>li_bound := n\<rparr>)"
      using n unfolding 2(3) by (cases "el_Enabled (cf_ErrorLog cfg)") (simp_all add: life_run_when_do at_rest_def)
    moreover have "(\<forall>x. Served x \<notin> set acts) \<longleftrightarrow> (\<forall>x. Served x \<notin> set acts2)" unfolding 2(3) by (auto simp: when_do_def)
    ultimately show ?thesis using srv v by blast
  qed
qed

definition ex_main :: "(string, (string \<times> raw) list, (string \<times> string) list, string, string, nat, string) main_env" where
  "ex_main = \<lparr>rn_readFile = (\<lambda>_. Inr []), rn_decode = (\<lambda>_ _. Inr (ex_rules_config, [])), rn_join = (\<lambda>d n. d @ ''/'' @ n),
     rn_ce = ex_cfg_env, rn_cl = ex_compile,
     rn_dirs = \<lparr>do_MkdirAll = (\<lambda>_. None), do_CreateTemp = (\<lambda>_. None), do_Close = (\<lambda>_. None), do_Remove = (\<lambda>_. None)\<rparr>,
     rn_mkdirErrorLog = None, rn_mkdirAccessLog = None, rn_now = int, rn_parse = Inl, rn_mkdirCache = (\<lambda>_. None),
     rn_keyPair = (\<lambda>_ _. Inr []), rn_manager = (\<lambda>_ _. Inr None), rn_challenge = (\<lambda>_. None), rn_panic = None,
     rn_boltOpen = None, rn_metaPut = None, rn_schema = None, rn_base = ex_server, rn_ips = (ex_ip, \<lambda>_. 0), rn_trusted = [],
     rn_db = ex_two, rn_bind = (\<lambda>addr port. if addr = ''::'' \<and> port = 443 then Some ''in use'' else None),
     rn_ending = Cancelled, rn_shutdown = (\<lambda>_. None), rn_sawSignal = False, rn_canceled = (\<lambda>_. False)\<rparr>"

text \<open>A run in which the fourth listener cannot be bound.\<close>

theorem program_is_orderly_example:
  "\<exists>err acts srv. run_urlshort ex_main ''urlshort.toml'' = (err, acts, srv) \<and>
     (\<exists>n. life_run acts at_rest = Some (at_rest\<lparr>li_bound := n\<rparr>))"
proof -
  obtain err acts srv where r: "run_urlshort ex_main ''urlshort.toml'' = (err, acts, srv)"
    by (cases "run_urlshort ex_main ''urlshort.toml''")
  from program_is_orderly [OF r] r show ?thesis by blast
qed

end
