(* ===== verification/UrlParts.thy ===== *)
theory UrlParts
  imports UrlBuild
begin

text \<open>
  Two parts of the URL shortener around their core: the TLS settings that the certificate managers hand to
  the HTTPS listeners (\<open>urlshort/tls.go\<close>), and the start and stop of the backup job (\<open>urlshort/maintenance.go\<close>).
\<close>

subsection \<open>TLS settings\<close>

text \<open>\<open>tl_recorded\<close> says that the certificates served are recorded in the status. Versions are those of the protocol.\<close>

record 'c tls_settings =
  tl_Certificates :: "'c list list"
  tl_MinVersion :: int
  tl_NextProtos :: "string list"
  tl_recorded :: bool

definition VersionTLS12 :: int where "VersionTLS12 = 0x0303"

definition manual_TLSConfig :: "'c list \<Rightarrow> 'c tls_settings" where
  "manual_TLSConfig cert =
     \<lparr>tl_Certificates = [cert], tl_MinVersion = VersionTLS12, tl_NextProtos = [''h2'', ''http/1.1''], tl_recorded = False\<rparr>"

text \<open>The settings of autocert are a parameter.\<close>

definition inner_TLSConfig :: "'c tls_settings \<Rightarrow> 'c cert_manager \<Rightarrow> 'c tls_settings" where
  "inner_TLSConfig autocert m = (case m of ACMEManager _ _ \<Rightarrow> autocert | ManualManager cert \<Rightarrow> manual_TLSConfig cert)"

definition recording_TLSConfig :: "'c tls_settings \<Rightarrow> 'c cert_manager \<Rightarrow> 'c tls_settings" where
  "recording_TLSConfig autocert m = (inner_TLSConfig autocert m)\<lparr>tl_recorded := True, tl_MinVersion := VersionTLS12\<rparr>"

text \<open>What \<open>httpsServer\<close> makes of it.\<close>

definition https_TLSConfig :: "bool \<Rightarrow> 'c tls_settings \<Rightarrow> 'c cert_manager \<Rightarrow> 'c tls_settings" where
  "https_TLSConfig http2 autocert m =
     (let t = recording_TLSConfig autocert m in t\<lparr>tl_NextProtos := https_protos http2 (tl_NextProtos t)\<rparr>)"

text \<open>Only the autocert manager answers challenges of the HTTP listener.\<close>

definition challenge_handler :: "('h \<Rightarrow> 'h) \<Rightarrow> 'c cert_manager \<Rightarrow> 'h \<Rightarrow> 'h" where
  "challenge_handler autocert m fallback = (case m of ACMEManager _ _ \<Rightarrow> autocert fallback | ManualManager _ \<Rightarrow> fallback)"

theorem listeners_refuse_old_tls:
  "tl_MinVersion (https_TLSConfig http2 autocert m) = VersionTLS12 \<and> tl_recorded (https_TLSConfig http2 autocert m) \<and>
   (http2 \<longrightarrow> ''h2'' \<in> set (tl_NextProtos (https_TLSConfig http2 autocert m))) \<and>
   (\<not> http2 \<longrightarrow> distinct (tl_NextProtos (inner_TLSConfig autocert m)) \<longrightarrow>
      ''h2'' \<notin> set (tl_NextProtos (https_TLSConfig http2 autocert m)))"
  by (simp add: https_TLSConfig_def recording_TLSConfig_def Let_def https_protos_def)

subsection \<open>The backup job\<close>

text \<open>\<open>mj_started\<close>: the scheduler runs, so there is a context to cancel. It is never cleared.\<close>

record maintenance_job =
  mj_prefix :: string
  mj_status :: MaintenanceStatus
  mj_started :: bool

definition NewMaintenance :: "string \<Rightarrow> maintenance_job" where
  "NewMaintenance dir =
     \<lparr>mj_prefix = ''links-'',
      mj_status = \<lparr>ms_BackupDir = dir, ms_LastBackupAt = None, ms_LastBackupOK = False, ms_LastBackupFile = [],
        ms_LastBackupSizeBytes = 0, ms_BackupFiles = 0, ms_LastBackupError = None\<rparr>,
      mj_started = False\<rparr>"

definition maint_Start :: "bool \<Rightarrow> maintenance_job \<Rightarrow> maintenance_job" where
  "maint_Start enabled m = (if \<not> enabled then m else m\<lparr>mj_started := True\<rparr>)"

text \<open>\<open>Stop\<close>: the time it waits for a job that needs \<open>busy\<close> more, and whether it gave up.\<close>

definition maint_Stop :: "int \<Rightarrow> int \<Rightarrow> maintenance_job \<Rightarrow> int \<times> bool" where
  "maint_Stop timeout0 busy m =
     (if \<not> mj_started m then (0, False)
      else
        (let timeout = shutdown_timeout (seconds timeout0)
         in if busy \<le> timeout then (busy, False) else (timeout, True)))"

lemma maint_Stop_bounded:
  "0 \<le> busy \<Longrightarrow> 0 \<le> fst (maint_Stop timeout0 busy m) \<and> fst (maint_Stop timeout0 busy m) \<le> shutdown_timeout (seconds timeout0) \<and>
   (snd (maint_Stop timeout0 busy m) \<longleftrightarrow> mj_started m \<and> shutdown_timeout (seconds timeout0) < busy)"
  by (auto simp: maint_Stop_def Let_def shutdown_timeout_def)

end
