(* ===== verification/UrlLogging.thy ===== *)
theory UrlLogging
  imports UrlTls
begin

text \<open>
  The loggers of the URL shortener with their attributes and groups: the rest of \<open>urlshort/logging.go\<close>. A handler of
  \<open>log/slog\<close> is its destination, its level and the attributes and groups given to it so far; \<open>multiHandler\<close> and
  \<open>serverErrorHandler\<close> are trees over these.
\<close>

datatype log_ctx = AttrsGiven "(string \<times> string) list" | GroupOpened string

datatype slog_handler =
    LibHandler log_dest int "log_ctx list"
  | MultiHandler "slog_handler list"
  | ServerErrorHandler slog_handler "slog_handler option"

text \<open>\<open>Enabled\<close>, \<open>Handle\<close> and the \<open>With\<close> methods. \<open>slog_emits\<close> lists where a record goes, with what it carries; the
  handlers of the library do not look at the level themselves.\<close>

fun slog_Enabled :: "slog_handler \<Rightarrow> int \<Rightarrow> bool" where
  "slog_Enabled (LibHandler d lv cs) level = (lv \<le> level)"
| "slog_Enabled (MultiHandler hs) level = list_ex (\<lambda>h. slog_Enabled h level) hs"
| "slog_Enabled (ServerErrorHandler console file) level =
     ((case file of Some f \<Rightarrow> slog_Enabled f level | None \<Rightarrow> False) \<or> slog_Enabled console level)"

definition tls_noise :: "string \<Rightarrow> bool" where
  "tls_noise msg \<longleftrightarrow> HasPrefix msg ''http: TLS handshake error''"

fun slog_emits :: "slog_handler \<Rightarrow> int \<Rightarrow> string \<Rightarrow> (log_dest \<times> log_ctx list) list" where
  "slog_emits (LibHandler d lv cs) level msg = [(d, cs)]"
| "slog_emits (MultiHandler hs) level msg = concat (map (\<lambda>h. if slog_Enabled h level then slog_emits h level msg else []) hs)"
| "slog_emits (ServerErrorHandler console file) level msg =
     (case file of
        None \<Rightarrow> slog_emits console level msg
      | Some f \<Rightarrow> slog_emits f level msg @ (if tls_noise msg then [] else slog_emits console level msg))"

fun slog_With :: "log_ctx \<Rightarrow> slog_handler \<Rightarrow> slog_handler" where
  "slog_With c (LibHandler d lv cs) = LibHandler d lv (cs @ [c])"
| "slog_With c (MultiHandler hs) = MultiHandler (map (slog_With c) hs)"
| "slog_With c (ServerErrorHandler console file) = ServerErrorHandler (slog_With c console) (map_option (slog_With c) file)"

text \<open>A logger asks its handler first.\<close>

definition slog_log :: "slog_handler \<Rightarrow> int \<Rightarrow> string \<Rightarrow> (log_dest \<times> log_ctx list) list" where
  "slog_log h level msg = (if slog_Enabled h level then slog_emits h level msg else [])"

text \<open>The two destinations, and the loggers made of them.\<close>

record logging =
  lo_level :: int
  lo_console :: slog_handler
  lo_file :: "slog_handler option"

definition newConsoleLogging :: "string \<Rightarrow> logging" where
  "newConsoleLogging level =
     (let lv = console_level level in \<lparr>lo_level = lv, lo_console = LibHandler ToConsole lv [], lo_file = None\<rparr>)"

definition with_error_log :: "logging \<Rightarrow> logging" where
  "with_error_log l = l\<lparr>lo_file := Some (LibHandler ToFile (lo_level l) [])\<rparr>"

definition logger :: "logging \<Rightarrow> slog_handler" where
  "logger l = (case lo_file l of None \<Rightarrow> lo_console l | Some f \<Rightarrow> MultiHandler [lo_console l, f])"

definition serverErrorLog :: "logging \<Rightarrow> slog_handler" where
  "serverErrorLog l = slog_With (AttrsGiven [(''comp'', ''http_server'')]) (ServerErrorHandler (lo_console l) (lo_file l))"

definition log_server_error :: "logging \<Rightarrow> string \<Rightarrow> (log_dest \<times> log_ctx list) list" where
  "log_server_error l msg = slog_log (serverErrorLog l) 4 msg"

text \<open>Attributes and groups are invisible to the routing, and every destination gets them, after those it had.\<close>

lemma slog_With_Enabled [simp]: "slog_Enabled (slog_With c h) level = slog_Enabled h level"
  by (induction h level rule: slog_Enabled.induct) (auto simp: list_ex_iff split: option.split)

lemma slog_With_emits:
  "slog_emits (slog_With c h) level msg = map (\<lambda>(d, cs). (d, cs @ [c])) (slog_emits h level msg)"
proof (induction h level msg rule: slog_emits.induct)
  case (2 hs level msg)
  then have "map (\<lambda>h. if slog_Enabled h level then slog_emits (slog_With c h) level msg else []) hs =
      map (map (\<lambda>(d, cs). (d, cs @ [c])) \<circ> (\<lambda>h. if slog_Enabled h level then slog_emits h level msg else [])) hs"
    by (intro map_cong) auto
  then show ?case by (simp add: map_concat comp_def del: map_eq_conv)
next
  case (3 console fl level msg)
  then show ?case by (cases fl) auto
qed simp

theorem contexts_do_not_change_the_routing:
  "slog_log (fold slog_With cs h) level msg = map (\<lambda>(d, cs0). (d, cs0 @ cs)) (slog_log h level msg)"
proof (induction cs arbitrary: h)
  case (Cons c cs)
  have "slog_log (fold slog_With (c # cs) h) level msg = map (\<lambda>(d, cs0). (d, cs0 @ cs)) (slog_log (slog_With c h) level msg)"
    using Cons.IH [of "slog_With c h"] by simp
  then show ?case by (simp add: slog_log_def slog_With_emits comp_def split_def)
qed (simp add: slog_log_def case_prod_unfold)

text \<open>What becomes of the records of the program and of the HTTP servers, for every configured level: with an error
  log, the program's go to both places, the servers' to the file, and to the console unless it is the noise of a TLS handshake;
  without one everything goes to the console; the level \<open>error\<close> silences the servers.\<close>

theorem records_go_where_they_should:
  "slog_log (logger (newConsoleLogging name)) level msg = (if console_level name \<le> level then [(ToConsole, [])] else [])"
  "slog_log (logger (with_error_log (newConsoleLogging name))) level msg =
     (if console_level name \<le> level then [(ToConsole, []), (ToFile, [])] else [])"
  "log_server_error (newConsoleLogging name) msg =
     (if name = ''error'' then [] else [(ToConsole, [AttrsGiven [(''comp'', ''http_server'')]])])"
  "log_server_error (with_error_log (newConsoleLogging name)) msg =
     (if name = ''error'' then []
      else (ToFile, [AttrsGiven [(''comp'', ''http_server'')]]) #
        (if tls_noise msg then [] else [(ToConsole, [AttrsGiven [(''comp'', ''http_server'')]])]))"
  by (auto simp: slog_log_def logger_def with_error_log_def newConsoleLogging_def log_server_error_def serverErrorLog_def
      console_level_def Let_def)

end
