(* ===== verification/BotSeen.thy ===== *)
theory BotSeen
  imports GoTime "HOL-Library.Multiset"
begin

text \<open>
  The "seen" database of the IRC bot: \<open>seen.go\<close>. A channel's nicks are an association list in an
  iteration order of Go's map; times are Unix seconds. The files are a map from channels to what
  \<open>encoding/json\<close> made of a database (a channel name is one path element); reading a directory and
  writing a file may fail. Every method runs under the lock, so the operations are atomic.
\<close>

subsection \<open>Entries and databases\<close>

record SeenEntry =
  se_Join :: int
  se_Exit :: int
  se_Message :: int

definition no_entry :: SeenEntry where
  "no_entry = \<lparr>se_Join = 0, se_Exit = 0, se_Message = 0\<rparr>"

definition Last :: "SeenEntry \<Rightarrow> int" where
  "Last e =
     (if se_Join e \<ge> se_Exit e \<and> se_Join e \<ge> se_Message e then se_Join e
      else if se_Exit e \<ge> se_Message e then se_Exit e
      else se_Message e)"

lemma Last_max: "Last e \<in> {se_Join e, se_Exit e, se_Message e} \<and> se_Join e \<le> Last e \<and> se_Exit e \<le> Last e \<and>
    se_Message e \<le> Last e"
  by (auto simp: Last_def)

definition seenVersion :: int where "seenVersion = 1"

record SeenData =
  sd_Version :: int
  sd_Channel :: string
  sd_UpdatedAt :: int
  sd_Nicks :: "(string \<times> SeenEntry) list"

definition Snapshot :: "int \<Rightarrow> SeenData \<Rightarrow> SeenData" where
  "Snapshot now d = d\<lparr>sd_UpdatedAt := now\<rparr>"

record SeenStore =
  ss_data :: "string \<rightharpoonup> SeenData"
  ss_dirty :: "string \<Rightarrow> bool"

text \<open>\<open>ciKey\<close>: the first key equal under case folding, or the empty string.\<close>

fun ciKey :: "(string \<times> SeenEntry) list \<Rightarrow> string \<Rightarrow> string" where
  "ciKey [] nick = []"
| "ciKey ((k, e) # m) nick = (if EqualFold k nick then k else ciKey m nick)"

definition entry_at :: "(string \<times> SeenEntry) list \<Rightarrow> string \<Rightarrow> SeenEntry" where
  "entry_at m k = (case map_of m k of None \<Rightarrow> no_entry | Some e \<Rightarrow> e)"

definition new_data :: "string \<Rightarrow> SeenData" where
  "new_data ch = \<lparr>sd_Version = seenVersion, sd_Channel = ch, sd_UpdatedAt = 0, sd_Nicks = []\<rparr>"

definition put_data :: "string \<Rightarrow> SeenData \<Rightarrow> SeenStore \<Rightarrow> SeenStore" where
  "put_data ch d s = s\<lparr>ss_data := (ss_data s)(ch \<mapsto> d), ss_dirty := (ss_dirty s)(ch := True)\<rparr>"

subsection \<open>Recording events\<close>

definition set_entry :: "string \<Rightarrow> string \<Rightarrow> (SeenEntry \<Rightarrow> SeenEntry) \<Rightarrow> SeenStore \<Rightarrow> SeenStore" where
  "set_entry ch nick apply s =
     (if ch = [] \<or> nick = [] then s
      else
        (let d = (case ss_data s ch of None \<Rightarrow> new_data ch | Some d \<Rightarrow> d);
             key = (if ciKey (sd_Nicks d) nick = [] then nick else ciKey (sd_Nicks d) nick)
         in put_data ch (d\<lparr>sd_Nicks := al_put key (apply (entry_at (sd_Nicks d) key)) (sd_Nicks d)\<rparr>) s))"

definition seen_Join :: "string \<Rightarrow> string \<Rightarrow> int \<Rightarrow> SeenStore \<Rightarrow> SeenStore" where
  "seen_Join ch nick t = set_entry ch nick (\<lambda>e. e\<lparr>se_Join := t\<rparr>)"

definition seen_Leave :: "string \<Rightarrow> string \<Rightarrow> int \<Rightarrow> SeenStore \<Rightarrow> SeenStore" where
  "seen_Leave ch nick t = set_entry ch nick (\<lambda>e. e\<lparr>se_Exit := t\<rparr>)"

definition seen_Message :: "string \<Rightarrow> string \<Rightarrow> int \<Rightarrow> SeenStore \<Rightarrow> SeenStore" where
  "seen_Message ch nick t = set_entry ch nick (\<lambda>e. e\<lparr>se_Message := t\<rparr>)"

text \<open>\<open>Quit\<close> and \<open>Rename\<close> treat every channel by itself.\<close>

definition quit_nicks :: "string \<Rightarrow> int \<Rightarrow> (string \<times> SeenEntry) list \<Rightarrow> (string \<times> SeenEntry) list option" where
  "quit_nicks nick u m =
     (let key = ciKey m nick
      in if key = [] then None else Some (al_put key ((entry_at m key)\<lparr>se_Exit := u\<rparr>) m))"

definition merge_entry :: "SeenEntry \<Rightarrow> SeenEntry \<Rightarrow> SeenEntry" where
  "merge_entry ne e =
     \<lparr>se_Join = (if se_Join ne = 0 then se_Join e else se_Join ne),
      se_Exit = (if se_Exit ne = 0 then se_Exit e else se_Exit ne),
      se_Message = (if se_Message ne = 0 then se_Message e else se_Message ne)\<rparr>"

definition rename_nicks :: "string \<Rightarrow> string \<Rightarrow> (string \<times> SeenEntry) list \<Rightarrow> (string \<times> SeenEntry) list option" where
  "rename_nicks old neu m =
     (let key = ciKey m old
      in if key = [] then None
         else
           (let e = entry_at m key; m1 = al_del key m;
                dest = (if ciKey m1 neu = [] then neu else ciKey m1 neu)
            in Some (al_put dest (merge_entry (entry_at m1 dest) e) m1)))"

text \<open>Apply a change to every channel it concerns and mark those dirty.\<close>

definition each_channel :: "((string \<times> SeenEntry) list \<Rightarrow> (string \<times> SeenEntry) list option) \<Rightarrow> SeenStore \<Rightarrow> SeenStore" where
  "each_channel f s =
     s\<lparr>ss_data := (\<lambda>ch. case ss_data s ch of
           None \<Rightarrow> None
         | Some d \<Rightarrow> Some (case f (sd_Nicks d) of None \<Rightarrow> d | Some m \<Rightarrow> d\<lparr>sd_Nicks := m\<rparr>)),
       ss_dirty := (\<lambda>ch. case ss_data s ch of
           None \<Rightarrow> ss_dirty s ch
         | Some d \<Rightarrow> if f (sd_Nicks d) \<noteq> None then True else ss_dirty s ch)\<rparr>"

definition Quit :: "string \<Rightarrow> int \<Rightarrow> SeenStore \<Rightarrow> SeenStore" where
  "Quit nick u s = (if nick = [] then s else each_channel (quit_nicks nick u) s)"

definition Rename :: "string \<Rightarrow> string \<Rightarrow> SeenStore \<Rightarrow> SeenStore" where
  "Rename old neu s =
     (if old = [] \<or> neu = [] \<or> EqualFold old neu then s else each_channel (rename_nicks old neu) s)"

definition Get_seen :: "string \<Rightarrow> string \<Rightarrow> SeenStore \<Rightarrow> SeenEntry option" where
  "Get_seen ch nick s =
     (case ss_data s ch of
        None \<Rightarrow> None
      | Some d \<Rightarrow>
          (let key = ciKey (sd_Nicks d) nick in if key = [] then None else map_of (sd_Nicks d) key))"

definition Nicks :: "string \<Rightarrow> SeenStore \<Rightarrow> (string \<times> SeenEntry) list" where
  "Nicks ch s = (case ss_data s ch of None \<Rightarrow> [] | Some d \<Rightarrow> sd_Nicks d)"

subsection \<open>Files\<close>

text \<open>\<open>'b\<close> are file contents. \<open>fs_write\<close> tells whether writing a channel's file succeeds; it replaces the
  file as a whole, by way of a temporary one.\<close>

record 'b seen_fs =
  fs_marshal :: "SeenData \<Rightarrow> 'b option"
  fs_unmarshal :: "'b \<Rightarrow> SeenData option"
  fs_write :: "string \<Rightarrow> bool"

definition writeFile :: "'b seen_fs \<Rightarrow> string \<Rightarrow> SeenData \<Rightarrow> (string \<rightharpoonup> 'b) \<Rightarrow> (string \<rightharpoonup> 'b)" where
  "writeFile fs ch d disk =
     (case fs_marshal fs d of None \<Rightarrow> disk | Some b \<Rightarrow> if fs_write fs ch then disk(ch \<mapsto> b) else disk)"

definition write_channel :: "'b seen_fs \<Rightarrow> int \<Rightarrow> string \<Rightarrow> SeenStore \<times> (string \<rightharpoonup> 'b) \<Rightarrow> SeenStore \<times> (string \<rightharpoonup> 'b)" where
  "write_channel fs now ch x =
     (case x of
        (s, disk) \<Rightarrow>
          (case ss_data s ch of
             None \<Rightarrow> (s, disk)
           | Some d \<Rightarrow> (s\<lparr>ss_dirty := (ss_dirty s)(ch := False)\<rparr>, writeFile fs ch (Snapshot now d) disk)))"

definition saveAll :: "'b seen_fs \<Rightarrow> int \<Rightarrow> string list \<Rightarrow> SeenStore \<times> (string \<rightharpoonup> 'b) \<Rightarrow> SeenStore \<times> (string \<rightharpoonup> 'b)" where
  "saveAll fs now chs x = fold (write_channel fs now) chs x"

text \<open>\<open>flushDirty\<close>: while some channel is dirty, write one; \<open>pick\<close> is the map's choice among those. The
  fuel bounds the rounds.\<close>

fun flushDirty :: "'b seen_fs \<Rightarrow> int \<Rightarrow> ((string \<Rightarrow> bool) \<Rightarrow> string option) \<Rightarrow> nat \<Rightarrow>
    SeenStore \<times> (string \<rightharpoonup> 'b) \<Rightarrow> (SeenStore \<times> (string \<rightharpoonup> 'b)) option" where
  "flushDirty fs now pick 0 x = None"
| "flushDirty fs now pick (Suc n) x =
     (case pick (ss_dirty (fst x)) of
        None \<Rightarrow> Some x
      | Some ch \<Rightarrow> flushDirty fs now pick n (write_channel fs now ch x))"

text \<open>\<open>loadAll\<close> over the entries of the directory: those that are no directory, hold no readable file, do
  not parse or have another version are skipped. A null \<open>nicks\<close> object reads as the empty list.\<close>

definition load_channel :: "'b seen_fs \<Rightarrow> (string \<rightharpoonup> 'b) \<Rightarrow> string \<times> bool \<Rightarrow> (string \<rightharpoonup> SeenData) \<Rightarrow> (string \<rightharpoonup> SeenData)" where
  "load_channel fs disk e data =
     (case e of
        (ch, isDir) \<Rightarrow>
          if \<not> isDir then data
          else
            (case disk ch of
               None \<Rightarrow> data
             | Some b \<Rightarrow>
                 (case fs_unmarshal fs b of
                    None \<Rightarrow> data
                  | Some d \<Rightarrow> if sd_Version d \<noteq> seenVersion then data else data(ch \<mapsto> d))))"

definition loadAll :: "'b seen_fs \<Rightarrow> (string \<times> bool) list option \<Rightarrow> (string \<rightharpoonup> 'b) \<Rightarrow> (string \<rightharpoonup> SeenData)" where
  "loadAll fs entries disk =
     (case entries of None \<Rightarrow> Map.empty | Some es \<Rightarrow> fold (load_channel fs disk) es Map.empty)"

definition NewSeenStore :: "'b seen_fs \<Rightarrow> (string \<times> bool) list option \<Rightarrow> (string \<rightharpoonup> 'b) \<Rightarrow> SeenStore" where
  "NewSeenStore fs entries disk = \<lparr>ss_data = loadAll fs entries disk, ss_dirty = (\<lambda>_. False)\<rparr>"

subsection \<open>A table of entries\<close>

text \<open>The abstract database: an entry for a channel and a folded nick.\<close>

definition folded :: "(string \<times> SeenEntry) list \<Rightarrow> string \<Rightarrow> SeenEntry option" where
  "folded m n = map_of (map (\<lambda>(k, e). (ToLower k, e)) m) (ToLower n)"

definition nicks_ok :: "(string \<times> SeenEntry) list \<Rightarrow> bool" where
  "nicks_ok m \<longleftrightarrow> distinct (map (ToLower \<circ> fst) m) \<and> [] \<notin> fst ` set m"

definition seen_ok :: "SeenStore \<Rightarrow> bool" where
  "seen_ok s \<longleftrightarrow> (\<forall>ch d. ss_data s ch = Some d \<longrightarrow> sd_Version d = seenVersion \<and> nicks_ok (sd_Nicks d)) \<and>
     (\<forall>ch. ss_dirty s ch \<longrightarrow> ss_data s ch \<noteq> None)"

definition table :: "SeenStore \<Rightarrow> string \<Rightarrow> string \<Rightarrow> SeenEntry option" where
  "table s ch n = (case ss_data s ch of None \<Rightarrow> None | Some d \<Rightarrow> folded (sd_Nicks d) n)"

lemma nicks_ok_keys: "nicks_ok m \<Longrightarrow> distinct (map fst m)"
  by (metis nicks_ok_def distinct_map map_map)

lemma ciKey_cases:
  assumes "nicks_ok m"
  obtains (none) "ciKey m n = []" and "folded m n = None" and "\<forall>k\<in>fst ` set m. ToLower k \<noteq> ToLower n"
    | (some) k e where "ciKey m n = k" and "k \<noteq> []" and "(k, e) \<in> set m" and "ToLower k = ToLower n"
        and "folded m n = Some e" and "map_of m k = Some e"
proof -
  have "(ciKey m n = [] \<and> folded m n = None \<and> (\<forall>k\<in>fst ` set m. ToLower k \<noteq> ToLower n)) \<or>
      (\<exists>k e. ciKey m n = k \<and> k \<noteq> [] \<and> (k, e) \<in> set m \<and> ToLower k = ToLower n \<and> folded m n = Some e)"
    using assms by (induction m n rule: ciKey.induct) (auto simp: EqualFold_def folded_def nicks_ok_def)
  with that nicks_ok_keys [OF assms] show ?thesis by (metis map_of_is_SomeI)
qed

lemma folded_append:
  "folded (m @ [(n, e)]) x =
     (case folded m x of None \<Rightarrow> if ToLower x = ToLower n then Some e else None | Some v \<Rightarrow> Some v)"
  by (simp add: folded_def map_add_def split: option.split)

lemma folded_Cons: "folded ((k, e) # m) x = (if ToLower x = ToLower k then Some e else folded m x)"
  by (auto simp: folded_def)

lemma folded_cong: "ToLower x = ToLower y \<Longrightarrow> folded m x = folded m y"
  by (simp add: folded_def)

text \<open>Putting an entry under the key that \<open>ciKey\<close> finds, or under the nick itself when it finds none.\<close>

definition key_for :: "(string \<times> SeenEntry) list \<Rightarrow> string \<Rightarrow> string" where
  "key_for m n = (if ciKey m n = [] then n else ciKey m n)"

lemma al_put_append: "k \<notin> fst ` set m \<Longrightarrow> al_put k v m = m @ [(k, v)]"
  by (induction k v m rule: al_put.induct) auto

lemma al_put_update: "distinct (map fst m) \<Longrightarrow> k \<in> fst ` set m \<Longrightarrow>
    al_put k v m = map (\<lambda>p. if fst p = k then (k, v) else p) m"
proof (induction k v m rule: al_put.induct)
  case (2 k v k' v' m)
  show ?case
  proof (cases "k' = k")
    case True
    with 2(2) have "map (\<lambda>p. if fst p = k then (k, v) else p) m = m" by (intro map_idI) force
    with True show ?thesis by simp
  qed (use 2 in auto)
qed simp

lemma key_for_put:
  assumes "nicks_ok m" and "n \<noteq> []"
  shows "nicks_ok (al_put (key_for m n) e m)"
    and "folded (al_put (key_for m n) e m) x = (if ToLower x = ToLower n then Some e else folded m x)"
    and "entry_at m (key_for m n) = (case folded m n of None \<Rightarrow> no_entry | Some e0 \<Rightarrow> e0)"
proof -
  have "nicks_ok (al_put (key_for m n) e m) \<and>
    folded (al_put (key_for m n) e m) x = (if ToLower x = ToLower n then Some e else folded m x) \<and>
    entry_at m (key_for m n) = (case folded m n of None \<Rightarrow> no_entry | Some e0 \<Rightarrow> e0)"
    using assms(1)
  proof (cases rule: ciKey_cases [of m n])
    case none
    then have k: "key_for m n = n" "n \<notin> fst ` set m" by (auto simp: key_for_def)
    then have "map_of m n = None" by (simp add: map_of_eq_None_iff)
    moreover have "nicks_ok (m @ [(n, e)])" using assms none(3) by (force simp: nicks_ok_def)
    moreover have "folded (m @ [(n, e)]) x = (if ToLower x = ToLower n then Some e else folded m x)"
      using none(2) folded_cong [of x n m] by (simp add: folded_append split: option.split)
    ultimately show ?thesis using k none(2) by (simp add: al_put_append entry_at_def)
  next
    case (some k e0)
    then have k: "key_for m n = k" by (simp add: key_for_def)
    have p: "al_put k e m = map (\<lambda>p. if fst p = k then (k, e) else p) m"
      by (rule al_put_update [OF nicks_ok_keys [OF assms(1)]]) (use some(3) in force)
    have keys: "map fst (al_put k e m) = map fst m" by (simp add: p comp_def if_distrib cong: if_cong)
    then have "map (ToLower \<circ> fst) (al_put k e m) = map (ToLower \<circ> fst) m" by (metis map_map)
    moreover have "fst ` set (al_put k e m) = fst ` set m" using keys by (metis list.set_map)
    ultimately have ok: "nicks_ok (al_put k e m)" using assms(1) by (simp add: nicks_ok_def)
    have "folded (al_put k e m) x = (if ToLower x = ToLower k then Some e else folded m x)"
      using assms(1) some(3) unfolding p
    proof (induction m)
      case (Cons a m)
      obtain k' e' where a: "a = (k', e')" by (cases a)
      show ?case
      proof (cases "k' = k")
        case True
        with Cons.prems a have "k \<notin> fst ` set m" by (force simp: nicks_ok_def)
        then have "map (\<lambda>p. if fst p = k then (k, e) else p) m = m" by (intro map_idI) force
        with a True show ?thesis by (simp add: folded_def)
      next
        case False
        with Cons.prems a have m: "(k, e0) \<in> set m" "nicks_ok m" by (auto simp: nicks_ok_def)
        then have "ToLower k \<in> set (map (ToLower \<circ> fst) m)" by force
        with Cons.prems(1) a have "ToLower k' \<noteq> ToLower k" by (force simp: nicks_ok_def)
        with Cons.IH [OF m(2,1)] a False show ?thesis by (simp add: folded_Cons)
      qed
    qed simp
    with ok some k show ?thesis by (simp add: entry_at_def)
  qed
  then show "nicks_ok (al_put (key_for m n) e m)"
    "folded (al_put (key_for m n) e m) x = (if ToLower x = ToLower n then Some e else folded m x)"
    "entry_at m (key_for m n) = (case folded m n of None \<Rightarrow> no_entry | Some e0 \<Rightarrow> e0)" by blast+
qed

lemma nicks_ok_al_del: "nicks_ok m \<Longrightarrow> nicks_ok (al_del k m)"
  by (auto simp: nicks_ok_def al_del_def distinct_map_filter)

lemma folded_al_del:
  assumes "nicks_ok m" and "(k, e) \<in> set m"
  shows "folded (al_del k m) x = (if ToLower x = ToLower k then None else folded m x)"
  using assms
proof (induction m)
  case (Cons a m)
  obtain k' e' where a: "a = (k', e')" by (cases a)
  show ?case
  proof (cases "k' = k")
    case True
    with Cons.prems a have n: "ToLower k \<notin> set (map (ToLower \<circ> fst) m)" by (auto simp: nicks_ok_def)
    then have "k \<notin> fst ` set m" by force
    then have "al_del k m = m" unfolding al_del_def by (intro filter_True) force
    moreover have "folded m x = None" if "ToLower x = ToLower k"
      using n that by (force simp: folded_def map_of_eq_None_iff)
    ultimately show ?thesis using a True by (simp add: al_del_def folded_def)
  next
    case False
    with Cons.prems a have m: "(k, e) \<in> set m" "nicks_ok m" by (auto simp: nicks_ok_def)
    then have "ToLower k \<in> set (map (ToLower \<circ> fst) m)" by force
    with Cons.prems(1) a have "ToLower k' \<noteq> ToLower k" by (force simp: nicks_ok_def)
    with Cons.IH [OF m(2,1)] a False show ?thesis by (simp add: al_del_def folded_Cons)
  qed
qed simp

datatype seen_event =
    SJoin string string int
  | SLeave string string int
  | SMessage string string int
  | SQuit string int
  | SRename string string

fun seen_step :: "seen_event \<Rightarrow> SeenStore \<Rightarrow> SeenStore" where
  "seen_step (SJoin ch n t) s = seen_Join ch n t s"
| "seen_step (SLeave ch n t) s = seen_Leave ch n t s"
| "seen_step (SMessage ch n t) s = seen_Message ch n t s"
| "seen_step (SQuit n t) s = Quit n t s"
| "seen_step (SRename old neu) s = Rename old neu s"

text \<open>The same events on the table.\<close>

definition or_none :: "SeenEntry option \<Rightarrow> SeenEntry" where
  "or_none x = (case x of None \<Rightarrow> no_entry | Some e \<Rightarrow> e)"

definition table_set :: "string \<Rightarrow> string \<Rightarrow> (SeenEntry \<Rightarrow> SeenEntry) \<Rightarrow> (string \<Rightarrow> string \<Rightarrow> SeenEntry option) \<Rightarrow>
    string \<Rightarrow> string \<Rightarrow> SeenEntry option" where
  "table_set ch n f T =
     (if ch = [] \<or> n = [] then T
      else (\<lambda>c x. if c = ch \<and> ToLower x = ToLower n then Some (f (or_none (T ch n))) else T c x))"

fun table_step :: "seen_event \<Rightarrow> (string \<Rightarrow> string \<Rightarrow> SeenEntry option) \<Rightarrow> string \<Rightarrow> string \<Rightarrow> SeenEntry option" where
  "table_step (SJoin ch n t) T = table_set ch n (\<lambda>e. e\<lparr>se_Join := t\<rparr>) T"
| "table_step (SLeave ch n t) T = table_set ch n (\<lambda>e. e\<lparr>se_Exit := t\<rparr>) T"
| "table_step (SMessage ch n t) T = table_set ch n (\<lambda>e. e\<lparr>se_Message := t\<rparr>) T"
| "table_step (SQuit n t) T =
     (\<lambda>c x. if n \<noteq> [] \<and> ToLower x = ToLower n then map_option (\<lambda>e. e\<lparr>se_Exit := t\<rparr>) (T c x) else T c x)"
| "table_step (SRename old neu) T =
     (if old = [] \<or> neu = [] \<or> EqualFold old neu then T
      else (\<lambda>c x. if ToLower x = ToLower old then None
        else if ToLower x = ToLower neu then
          (case T c old of None \<Rightarrow> T c x | Some e \<Rightarrow> Some (merge_entry (or_none (T c neu)) e))
        else T c x))"

lemma set_entry_refines:
  assumes "seen_ok s"
  shows "seen_ok (set_entry ch n f s) \<and> table (set_entry ch n f s) = table_set ch n f (table s)"
proof (cases "ch = [] \<or> n = []")
  case True
  with assms show ?thesis by (simp add: set_entry_def table_set_def)
next
  case False
  define d where "d = (case ss_data s ch of None \<Rightarrow> new_data ch | Some d \<Rightarrow> d)"
  let ?m = "sd_Nicks d"
  have ok: "nicks_ok ?m" "sd_Version d = seenVersion"
    using assms by (auto simp: d_def seen_ok_def new_data_def nicks_ok_def split: option.splits)
  have T: "table s ch x = folded ?m x" for x
    by (simp add: table_def d_def new_data_def folded_def split: option.split)
  have e: "set_entry ch n f s = put_data ch (d\<lparr>sd_Nicks := al_put (key_for ?m n) (f (or_none (folded ?m n))) ?m\<rparr>) s"
    using False key_for_put(3) [OF ok(1), of n]
    by (simp add: set_entry_def d_def key_for_def Let_def or_none_def)
  note k = key_for_put(1,2) [OF ok(1), of n]
  show ?thesis
  proof
    show "seen_ok (set_entry ch n f s)" unfolding e using assms k(1) ok(2) False by (simp add: seen_ok_def put_data_def)
    show "table (set_entry ch n f s) = table_set ch n f (table s)"
      unfolding e using k(2) False T by (intro ext) (auto simp: table_def put_data_def table_set_def)
  qed
qed

lemma each_channel_refines:
  assumes "seen_ok s"
    and "\<And>m. nicks_ok m \<Longrightarrow> case f m of
      None \<Rightarrow> folded m = F (folded m) | Some m' \<Rightarrow> nicks_ok m' \<and> folded m' = F (folded m)"
    and "F (\<lambda>_. None) = (\<lambda>_. None)"
  shows "seen_ok (each_channel f s) \<and> table (each_channel f s) = (\<lambda>c. F (table s c))"
proof
  show "seen_ok (each_channel f s)"
    unfolding seen_ok_def
  proof (intro conjI allI impI)
    fix ch d
    assume "ss_data (each_channel f s) ch = Some d"
    then obtain d0 where d0: "ss_data s ch = Some d0" "d = (case f (sd_Nicks d0) of None \<Rightarrow> d0 | Some m \<Rightarrow> d0\<lparr>sd_Nicks := m\<rparr>)"
      by (auto simp: each_channel_def split: option.splits)
    with assms(1) have "nicks_ok (sd_Nicks d0)" "sd_Version d0 = seenVersion" by (auto simp: seen_ok_def)
    with assms(2) [of "sd_Nicks d0"] d0(2) show "sd_Version d = seenVersion" "nicks_ok (sd_Nicks d)"
      by (auto split: option.splits)
  next
    fix ch
    assume "ss_dirty (each_channel f s) ch"
    with assms(1) show "ss_data (each_channel f s) ch \<noteq> None"
      by (auto simp: each_channel_def seen_ok_def split: option.splits)
  qed
  have T: "table s c = (case ss_data s c of None \<Rightarrow> (\<lambda>_. None) | Some d \<Rightarrow> folded (sd_Nicks d))" for c
    by (auto simp: table_def split: option.split)
  show "table (each_channel f s) = (\<lambda>c. F (table s c))"
  proof
    fix c
    show "table (each_channel f s) c = F (table s c)"
    proof (cases "ss_data s c")
      case None
      then have "ss_data (each_channel f s) c = None" by (simp add: each_channel_def)
      then show ?thesis unfolding T None using assms(3) by (auto simp: table_def)
    next
      case (Some d)
      with assms(1) have "nicks_ok (sd_Nicks d)" by (auto simp: seen_ok_def)
      from assms(2) [OF this] Some show ?thesis
        unfolding T by (auto simp: table_def each_channel_def split: option.splits)
    qed
  qed
qed

lemma quit_nicks_folded:
  assumes "nicks_ok m" and "n \<noteq> []"
  shows "case quit_nicks n u m of
      None \<Rightarrow> folded m = (\<lambda>x. if ToLower x = ToLower n then map_option (\<lambda>e. e\<lparr>se_Exit := u\<rparr>) (folded m x) else folded m x)
    | Some m' \<Rightarrow> nicks_ok m' \<and>
        folded m' = (\<lambda>x. if ToLower x = ToLower n then map_option (\<lambda>e. e\<lparr>se_Exit := u\<rparr>) (folded m x) else folded m x)"
  using assms(1)
proof (cases rule: ciKey_cases [of m n])
  case none
  have "folded m x = None" if "ToLower x = ToLower n" for x using none(2) that by (simp add: folded_def)
  with none(1) show ?thesis by (auto simp: quit_nicks_def)
next
  case (some k e)
  have x: "folded m x = Some e" if "ToLower x = ToLower n" for x using some(5) that by (simp add: folded_def)
  have "key_for m n = k" using some(1,2) by (simp add: key_for_def)
  with key_for_put(1,2) [OF assms, of "(entry_at m k)\<lparr>se_Exit := u\<rparr>"] some x show ?thesis
    by (auto simp: quit_nicks_def Let_def entry_at_def)
qed

lemma rename_nicks_folded:
  assumes "nicks_ok m" and "old \<noteq> []" and "neu \<noteq> []" and "ToLower old \<noteq> ToLower neu"
  defines "F \<equiv> \<lambda>T x. if ToLower x = ToLower old then None
        else if ToLower x = ToLower neu then
          (case T old of None \<Rightarrow> T x | Some e \<Rightarrow> Some (merge_entry (or_none (T neu)) e))
        else T x"
  shows "case rename_nicks old neu m of
      None \<Rightarrow> folded m = F (folded m) | Some m' \<Rightarrow> nicks_ok m' \<and> folded m' = F (folded m)"
  using assms(1)
proof (cases rule: ciKey_cases [of m old])
  case none
  have "folded m x = None" if "ToLower x = ToLower old" for x using none(2) that by (simp add: folded_def)
  with none(1,2) show ?thesis by (auto simp: rename_nicks_def F_def)
next
  case (some k e)
  let ?m1 = "al_del k m"
  have ok: "nicks_ok ?m1" by (rule nicks_ok_al_del [OF assms(1)])
  note del = folded_al_del [OF assms(1) some(3)]
  note p = key_for_put(1,2) [OF ok assms(3), of "merge_entry (entry_at ?m1 (key_for ?m1 neu)) e"]
  note p3 = key_for_put(3) [OF ok assms(3)]
  have "rename_nicks old neu m = Some (al_put (key_for ?m1 neu) (merge_entry (entry_at ?m1 (key_for ?m1 neu)) e) ?m1)"
    using some(1,2,6) by (simp add: rename_nicks_def Let_def key_for_def entry_at_def)
  moreover have "folded (al_put (key_for ?m1 neu) (merge_entry (entry_at ?m1 (key_for ?m1 neu)) e) ?m1) x = F (folded m) x" for x
    unfolding p(2) using some(4,5) assms(4) del by (auto simp: F_def p3 or_none_def)
  ultimately show ?thesis using p(1) by auto
qed

lemma seen_step_refines:
  assumes "seen_ok s"
  shows "seen_ok (seen_step ev s) \<and> table (seen_step ev s) = table_step ev (table s)"
proof (cases ev)
  case (SQuit n t)
  show ?thesis
  proof (cases "n = []")
    case True
    with SQuit assms show ?thesis by (simp add: Quit_def)
  next
    case False
    have "seen_ok (each_channel (quit_nicks n t) s) \<and> table (each_channel (quit_nicks n t) s) =
        (\<lambda>c. (\<lambda>T x. if ToLower x = ToLower n then map_option (\<lambda>e. e\<lparr>se_Exit := t\<rparr>) (T x) else T x) (table s c))"
      by (rule each_channel_refines [OF assms quit_nicks_folded [OF _ False]]) auto
    with SQuit False show ?thesis by (simp add: Quit_def)
  qed
next
  case (SRename old neu)
  show ?thesis
  proof (cases "old = [] \<or> neu = [] \<or> EqualFold old neu")
    case True
    with SRename assms show ?thesis by (auto simp: Rename_def)
  next
    case False
    then have n: "old \<noteq> []" "neu \<noteq> []" "ToLower old \<noteq> ToLower neu" by (simp_all add: EqualFold_def)
    have "seen_ok (each_channel (rename_nicks old neu) s) \<and> table (each_channel (rename_nicks old neu) s) =
        (\<lambda>c. (\<lambda>T x. if ToLower x = ToLower old then None
          else if ToLower x = ToLower neu then
            (case T old of None \<Rightarrow> T x | Some e \<Rightarrow> Some (merge_entry (or_none (T neu)) e))
          else T x) (table s c))"
      by (rule each_channel_refines [OF assms rename_nicks_folded [OF _ n]]) auto
    with SRename False show ?thesis by (auto simp: Rename_def)
  qed
qed (use set_entry_refines [OF assms] in \<open>simp_all add: seen_Join_def seen_Leave_def seen_Message_def\<close>)

text \<open>C28: the database is a table from channels and folded nicks to entries, on which a join, a leave, a
  message, a quit and a change of nick do what they say; spellings of one nick never get two entries.\<close>

theorem seen_refines_a_table:
  assumes "seen_ok s"
  shows "seen_ok (fold seen_step evs s) \<and> table (fold seen_step evs s) = fold table_step evs (table s)"
  using assms
proof (induction evs arbitrary: s)
  case (Cons ev evs)
  from seen_step_refines [OF Cons.prems, of ev] Cons.IH [of "seen_step ev s"] show ?case by simp
qed simp

definition empty_seen :: SeenStore where
  "empty_seen = \<lparr>ss_data = Map.empty, ss_dirty = (\<lambda>_. False)\<rparr>"

theorem seen_refines_a_table_example:
  "table (fold seen_step [SJoin ''#a'' ''Bob'' 5, SMessage ''#a'' ''bOB'' 7, SRename ''bob'' ''Al'', SQuit ''AL'' 9] empty_seen)
     ''#a'' ''al'' = Some \<lparr>se_Join = 5, se_Exit = 9, se_Message = 7\<rparr>"
proof -
  have "seen_ok empty_seen" by (simp add: seen_ok_def empty_seen_def)
  note T = conjunct2 [OF seen_refines_a_table [OF this]]
  show ?thesis unfolding T by code_simp
qed

subsection \<open>Saving and loading\<close>

lemma nicks_ok_folded_keys: "nicks_ok m \<Longrightarrow> distinct (map fst (map (\<lambda>(k, e). (ToLower k, e)) m))"
  by (simp add: nicks_ok_def comp_def case_prod_beta)

lemma map_of_set_eq:
  assumes "distinct (map fst a)" and "distinct (map fst b)" and "set a = set b"
  shows "map_of a = map_of b"
proof
  fix k
  have h: "map_of a k = Some v \<longleftrightarrow> map_of b k = Some v" for v using assms by simp
  show "map_of a k = map_of b k"
  proof (cases "map_of a k")
    case None
    then have n: "map_of b k \<noteq> Some v" for v using h [of v] by simp
    show ?thesis
    proof (cases "map_of b k")
      case (Some v)
      with n [of v] show ?thesis by simp
    qed (simp add: None)
  next
    case (Some v)
    with h [of v] show ?thesis by simp
  qed
qed

lemma folded_mset:
  assumes "nicks_ok m" and "mset m = mset m'"
  shows "nicks_ok m' \<and> folded m' = folded m"
proof
  have e: "set m = set m'" using assms(2) by (rule mset_eq_setD)
  have "distinct (map (ToLower \<circ> fst) m') = distinct (map (ToLower \<circ> fst) m)"
    by (rule mset_eq_imp_distinct_iff) (simp add: assms(2))
  with assms(1) e show ok: "nicks_ok m'" by (simp add: nicks_ok_def)
  have "map_of (map (\<lambda>(k, e). (ToLower k, e)) m) = map_of (map (\<lambda>(k, e). (ToLower k, e)) m')"
    by (rule map_of_set_eq [OF nicks_ok_folded_keys [OF assms(1)] nicks_ok_folded_keys [OF ok]]) (simp add: e)
  then show "folded m' = folded m" by (auto simp: folded_def)
qed

text \<open>The encoding keeps a database, up to the order of its nicks.\<close>

definition encodes :: "'b seen_fs \<Rightarrow> SeenData \<Rightarrow> bool" where
  "encodes fs d \<longleftrightarrow> (\<exists>b d'. fs_marshal fs d = Some b \<and> fs_unmarshal fs b = Some d' \<and>
     sd_Version d' = sd_Version d \<and> mset (sd_Nicks d') = mset (sd_Nicks d))"

lemma write_channel_data: "ss_data (fst (write_channel fs now ch x)) = ss_data (fst x)"
  by (simp add: write_channel_def split: prod.split option.split)

lemma saveAll_disk:
  "ss_data (fst (saveAll fs now chs (s, disk))) = ss_data s \<and>
   (\<forall>ch. snd (saveAll fs now chs (s, disk)) ch =
      (case ss_data s ch of
         None \<Rightarrow> disk ch
       | Some d \<Rightarrow> if ch \<in> set chs then writeFile fs ch (Snapshot now d) disk ch else disk ch))"
proof (induction chs arbitrary: s disk)
  case Nil
  then show ?case by (simp add: saveAll_def split: option.split)
next
  case (Cons c chs)
  obtain s1 disk1 where w: "write_channel fs now c (s, disk) = (s1, disk1)" by fastforce
  have d: "ss_data s1 = ss_data s" using write_channel_data [of fs now c "(s, disk)"] w by simp
  have disk1: "disk1 ch = (case ss_data s ch of None \<Rightarrow> disk ch
      | Some d \<Rightarrow> if ch = c then writeFile fs ch (Snapshot now d) disk ch else disk ch)" for ch
    using w by (auto simp: write_channel_def writeFile_def split: option.splits)
  have twice: "writeFile fs ch x disk1 ch = writeFile fs ch x disk ch" if "ss_data s ch = Some y" "x = Snapshot now y" for ch x y
    using disk1 [of ch] that by (auto simp: writeFile_def split: option.splits)
  have "saveAll fs now (c # chs) (s, disk) = saveAll fs now chs (s1, disk1)" by (simp add: saveAll_def w)
  then have ih: "ss_data (fst (saveAll fs now (c # chs) (s, disk))) = ss_data s"
    "snd (saveAll fs now (c # chs) (s, disk)) ch = (case ss_data s ch of None \<Rightarrow> disk1 ch
       | Some d \<Rightarrow> if ch \<in> set chs then writeFile fs ch (Snapshot now d) disk1 ch else disk1 ch)" for ch
    using Cons.IH [of s1 disk1] d by simp_all
  show ?case
  proof (intro conjI allI)
    fix ch
    show "snd (saveAll fs now (c # chs) (s, disk)) ch = (case ss_data s ch of None \<Rightarrow> disk ch
        | Some d \<Rightarrow> if ch \<in> set (c # chs) then writeFile fs ch (Snapshot now d) disk ch else disk ch)"
    proof (cases "ss_data s ch")
      case (Some x)
      with ih(2) [of ch] disk1 [of ch] twice [OF Some refl] show ?thesis by (cases "ch = c") simp_all
    qed (use ih(2) [of ch] disk1 [of ch] in simp)
  qed (rule ih(1))
qed

lemma loadAll_fold:
  "fold (load_channel fs disk) es data ch =
     (if (ch, True) \<in> set es then
        (case disk ch of
           None \<Rightarrow> data ch
         | Some b \<Rightarrow> (case fs_unmarshal fs b of
              None \<Rightarrow> data ch | Some d \<Rightarrow> if sd_Version d \<noteq> seenVersion then data ch else Some d))
      else data ch)"
proof (induction es arbitrary: data)
  case (Cons e es)
  obtain c isDir where e: "e = (c, isDir)" by (cases e)
  show ?case
    using Cons.IH [of "load_channel fs disk e data"]
    by (cases "c = ch"; cases isDir) (auto simp: e load_channel_def split: option.split)
qed simp

text \<open>C29: what \<open>Stop\<close> saves a restarted bot has again, up to the order of the nicks, when the files of all
  channels could be written and the encoding keeps their databases.\<close>

theorem seen_survives_restart:
  assumes "seen_ok s" and "set chs = dom (ss_data s)" and "\<forall>ch d. ss_data s ch = Some d \<longrightarrow> fs_write fs ch \<and> encodes fs (Snapshot now d)"
    and "\<forall>ch. ss_data s ch = None \<longrightarrow> disk ch = None" and "\<forall>ch\<in>set chs. (ch, True) \<in> set es"
    and "snd (saveAll fs now chs (s, disk)) = disk'"
  shows "seen_ok (NewSeenStore fs (Some es) disk') \<and> table (NewSeenStore fs (Some es) disk') = table s"
proof -
  let ?s' = "NewSeenStore fs (Some es) disk'"
  have eq: "ss_data ?s' ch = None" if "ss_data s ch = None" for ch
    using that assms(4,6) saveAll_disk [of fs now chs s disk] by (auto simp: NewSeenStore_def loadAll_def loadAll_fold)
  have some: "\<exists>d'. ss_data ?s' ch = Some d' \<and> sd_Version d' = seenVersion \<and> nicks_ok (sd_Nicks d') \<and>
      folded (sd_Nicks d') = folded (sd_Nicks d)" if "ss_data s ch = Some d" for ch d
  proof -
    from assms(3) that have w: "fs_write fs ch" and "encodes fs (Snapshot now d)" by blast+
    then obtain b d' where b: "fs_marshal fs (Snapshot now d) = Some b" "fs_unmarshal fs b = Some d'"
      "sd_Version d' = sd_Version d" "mset (sd_Nicks d') = mset (sd_Nicks d)"
      by (auto simp: encodes_def Snapshot_def)
    from assms(1) that have ok: "sd_Version d = seenVersion" "nicks_ok (sd_Nicks d)" by (auto simp: seen_ok_def)
    have ch: "ch \<in> set chs" using assms(2) that by auto
    have "disk' ch = Some b"
      using saveAll_disk [of fs now chs s disk] assms(6) that ch b(1) w by (auto simp: writeFile_def)
    then have "ss_data ?s' ch = Some d'"
      using assms(5) ch b(2,3) ok(1) by (auto simp: NewSeenStore_def loadAll_def loadAll_fold)
    with folded_mset [OF ok(2), of "sd_Nicks d'"] b(3,4) ok(1) show ?thesis by auto
  qed
  have "seen_ok ?s'"
    unfolding seen_ok_def using eq some by (auto simp: NewSeenStore_def) (metis option.distinct(1) option.exhaust option.inject)+
  moreover have "table ?s' = table s"
  proof (intro ext)
    fix ch x
    show "table ?s' ch x = table s ch x"
    proof (cases "ss_data s ch")
      case (Some d)
      with some [OF Some] show ?thesis by (auto simp: table_def)
    qed (use eq in \<open>simp add: table_def\<close>)
  qed
  ultimately show ?thesis by blast
qed

lemma flushDirty_all:
  assumes "\<And>D. \<forall>c. D c \<longrightarrow> allowed c \<Longrightarrow> pick D = None \<Longrightarrow> \<forall>c. \<not> D c"
    and "\<And>D c. \<forall>c. D c \<longrightarrow> allowed c \<Longrightarrow> pick D = Some c \<Longrightarrow> D c"
  shows "\<forall>ch. ss_dirty s ch \<longrightarrow> allowed ch \<Longrightarrow> \<forall>ch. ss_dirty s ch \<longrightarrow> ss_data s ch \<noteq> None \<Longrightarrow> finite {ch. ss_dirty s ch} \<Longrightarrow> card {ch. ss_dirty s ch} < n \<Longrightarrow>
    \<exists>s' disk'. flushDirty fs now pick n (s, disk) = Some (s', disk') \<and> ss_data s' = ss_data s \<and> (\<forall>ch. \<not> ss_dirty s' ch) \<and>
      (\<forall>ch d. ss_data s ch = Some d \<longrightarrow> disk' ch = (if ss_dirty s ch then writeFile fs ch (Snapshot now d) disk ch else disk ch))"
proof (induction n arbitrary: s disk)
  case (Suc n)
  show ?case
  proof (cases "pick (ss_dirty s)")
    case None
    with assms(1) [OF Suc.prems(1)] show ?thesis by auto
  next
    case (Some c)
    with assms(2) [OF Suc.prems(1)] have c: "ss_dirty s c" by blast
    with Suc.prems(2) obtain d where d: "ss_data s c = Some d" by blast
    let ?s = "s\<lparr>ss_dirty := (ss_dirty s)(c := False)\<rparr>" and ?disk = "writeFile fs c (Snapshot now d) disk"
    have w: "write_channel fs now c (s, disk) = (?s, ?disk)" by (simp add: write_channel_def d)
    have dirty: "{ch. ss_dirty ?s ch} = {ch. ss_dirty s ch} - {c}" by auto
    have "card ({ch. ss_dirty s ch} - {c}) < card {ch. ss_dirty s ch}"
      by (rule card_Diff1_less [OF Suc.prems(3)]) (simp add: c)
    then have "card {ch. ss_dirty ?s ch} < n" unfolding dirty using Suc.prems(4) by linarith
    moreover have "\<forall>ch. ss_dirty ?s ch \<longrightarrow> allowed ch" "\<forall>ch. ss_dirty ?s ch \<longrightarrow> ss_data ?s ch \<noteq> None"
      "finite {ch. ss_dirty ?s ch}" unfolding dirty using Suc.prems by simp_all
    ultimately have ih: "\<exists>s' disk'. flushDirty fs now pick n (?s, ?disk) = Some (s', disk') \<and> ss_data s' = ss_data ?s \<and>
        (\<forall>ch. \<not> ss_dirty s' ch) \<and> (\<forall>ch d. ss_data ?s ch = Some d \<longrightarrow>
          disk' ch = (if ss_dirty ?s ch then writeFile fs ch (Snapshot now d) ?disk ch else ?disk ch))"
      by (intro Suc.IH)
    have same: "ss_data ?s = ss_data s" by simp
    note ih = ih [unfolded same]
    then obtain s' disk' where r: "flushDirty fs now pick n (?s, ?disk) = Some (s', disk')" "ss_data s' = ss_data s"
      "\<forall>ch. \<not> ss_dirty s' ch" "\<forall>ch d. ss_data s ch = Some d \<longrightarrow>
        disk' ch = (if ss_dirty ?s ch then writeFile fs ch (Snapshot now d) ?disk ch else ?disk ch)"
      using ih by blast
    have "disk' ch = (if ss_dirty s ch then writeFile fs ch (Snapshot now x) disk ch else disk ch)"
      if "ss_data s ch = Some x" for ch x
      using r(4) that d c by (cases "ch = c") (auto simp: writeFile_def split: option.split)
    with r Some w show ?thesis by auto
  qed
qed simp

text \<open>A flush ends after as many rounds as there are dirty channels, and leaves none dirty and each of
  them written, if its file can be written.\<close>

theorem flush_terminates:
  assumes "seen_ok s" and "finite {ch. ss_dirty s ch}"
    and "\<And>D. \<forall>c. D c \<longrightarrow> ss_dirty s c \<Longrightarrow> pick D = None \<Longrightarrow> \<forall>c. \<not> D c"
    and "\<And>D c. \<forall>c. D c \<longrightarrow> ss_dirty s c \<Longrightarrow> pick D = Some c \<Longrightarrow> D c"
  shows "\<exists>s' disk'. flushDirty fs now pick (Suc (card {ch. ss_dirty s ch})) (s, disk) = Some (s', disk') \<and>
    ss_data s' = ss_data s \<and> (\<forall>ch. \<not> ss_dirty s' ch) \<and>
    (\<forall>ch d b. ss_dirty s ch \<longrightarrow> ss_data s ch = Some d \<longrightarrow> fs_marshal fs (Snapshot now d) = Some b \<longrightarrow> fs_write fs ch \<longrightarrow>
       disk' ch = Some b)"
proof -
  have "\<forall>ch. ss_dirty s ch \<longrightarrow> ss_data s ch \<noteq> None" using assms(1) by (simp add: seen_ok_def)
  have "\<exists>s' disk'. flushDirty fs now pick (Suc (card {ch. ss_dirty s ch})) (s, disk) = Some (s', disk') \<and>
      ss_data s' = ss_data s \<and> (\<forall>ch. \<not> ss_dirty s' ch) \<and>
      (\<forall>ch d. ss_data s ch = Some d \<longrightarrow> disk' ch = (if ss_dirty s ch then writeFile fs ch (Snapshot now d) disk ch else disk ch))"
    by (rule flushDirty_all [where allowed = "ss_dirty s"]) (use assms \<open>\<forall>ch. ss_dirty s ch \<longrightarrow> ss_data s ch \<noteq> None\<close> in blast)+
  then show ?thesis by (auto simp: writeFile_def)
qed

definition ex_seen_fs :: "SeenData seen_fs" where
  "ex_seen_fs = \<lparr>fs_marshal = Some, fs_unmarshal = Some, fs_write = (\<lambda>_. True)\<rparr>"

definition ex_seen :: SeenStore where
  "ex_seen = seen_Join ''#a'' ''Bob'' 5 empty_seen"

lemma ex_seen_ok: "seen_ok ex_seen"
proof -
  have "seen_ok empty_seen" by (simp add: seen_ok_def empty_seen_def)
  then show ?thesis by (simp add: ex_seen_def seen_Join_def set_entry_refines)
qed

lemma ex_seen_simps: "ss_data ex_seen = [''#a'' \<mapsto> (new_data ''#a'')\<lparr>sd_Nicks := [(''Bob'', no_entry\<lparr>se_Join := 5\<rparr>)]\<rparr>]"
  "ss_dirty ex_seen = (\<lambda>_. False)(''#a'' := True)"
  by (simp_all add: ex_seen_def seen_Join_def set_entry_def Let_def put_data_def empty_seen_def new_data_def entry_at_def)

theorem seen_survives_restart_example:
  "table (NewSeenStore ex_seen_fs (Some [(''#a'', True), (''logs'', False)])
     (snd (saveAll ex_seen_fs 9 [''#a''] (ex_seen, Map.empty)))) = table ex_seen"
proof -
  have "set [''#a''] = dom (ss_data ex_seen)" by (simp add: ex_seen_simps)
  from seen_survives_restart [OF ex_seen_ok this, of ex_seen_fs 9 Map.empty "[(''#a'', True), (''logs'', False)]", OF _ _ _ refl]
  show ?thesis by (auto simp: encodes_def ex_seen_fs_def Snapshot_def)
qed

theorem flush_terminates_example:
  "\<exists>s' disk'. flushDirty ex_seen_fs 9 (\<lambda>D. if D ''#a'' then Some ''#a'' else None) 2 (ex_seen, Map.empty) = Some (s', disk') \<and>
     (\<forall>ch. \<not> ss_dirty s' ch)"
proof -
  let ?pick = "\<lambda>D. if D ''#a'' then Some ''#a'' else None"
  have d: "{ch. ss_dirty ex_seen ch} = {''#a''}" by (auto simp: ex_seen_simps)
  have f: "finite {ch. ss_dirty ex_seen ch}" by (simp add: d)
  have "\<exists>s' disk'. flushDirty ex_seen_fs 9 ?pick (Suc (card {ch. ss_dirty ex_seen ch})) (ex_seen, Map.empty) = Some (s', disk') \<and>
    ss_data s' = ss_data ex_seen \<and> (\<forall>ch. \<not> ss_dirty s' ch) \<and>
    (\<forall>ch d b. ss_dirty ex_seen ch \<longrightarrow> ss_data ex_seen ch = Some d \<longrightarrow> fs_marshal ex_seen_fs (Snapshot 9 d) = Some b \<longrightarrow>
       fs_write ex_seen_fs ch \<longrightarrow> disk' ch = Some b)"
  proof (rule flush_terminates [OF ex_seen_ok f])
    fix D :: "string \<Rightarrow> bool"
    assume "\<forall>c. D c \<longrightarrow> ss_dirty ex_seen c" "(if D ''#a'' then Some ''#a'' else None) = None"
    then have "\<not> D ''#a''" "\<And>c. D c \<Longrightarrow> c = ''#a''" using d by (auto split: if_splits)
    then show "\<forall>c. \<not> D c" by blast
  qed (simp split: if_splits)
  then obtain s' disk' where r: "flushDirty ex_seen_fs 9 ?pick (Suc (card {ch. ss_dirty ex_seen ch})) (ex_seen, Map.empty) =
      Some (s', disk')" "\<forall>ch. \<not> ss_dirty s' ch" by blast
  have c: "Suc (card {ch. ss_dirty ex_seen ch}) = 2" by (simp add: d)
  show ?thesis using r unfolding c by blast
qed

end
