(* ===== verification/BotSeenLookup.thy ===== *)
theory BotSeenLookup
  imports BotSeen
begin

text \<open>
  The \<open>!seen\<close> query of the IRC bot: \<open>Lookup\<close>, the reply text and the relative times of \<open>seen.go\<close>. The
  code ranges over three maps, in orders Go does not fix: the recorded nicks come as an association
  list in some order, and a record \<open>ranges\<close> reorders the two maps the lookup builds.
\<close>

subsection \<open>Lookup\<close>

record seenMatch =
  sm_nick :: string
  sm_entry :: SeenEntry
  sm_present :: bool

record SeenResult =
  sr_query :: string
  sr_found :: bool
  sr_present :: bool
  sr_nick :: string
  sr_entry :: SeenEntry
  sr_others :: "string list"

record ranges =
  rg_pres :: "(string \<times> string) list \<Rightarrow> (string \<times> string) list"
  rg_matches :: "(string \<times> seenMatch) list \<Rightarrow> (string \<times> seenMatch) list"

definition fair :: "ranges \<Rightarrow> bool" where
  "fair rg \<longleftrightarrow> (\<forall>xs. mset (rg_pres rg xs) = mset xs) \<and> (\<forall>xs. mset (rg_matches rg xs) = mset xs)"

definition pres_map :: "string list \<Rightarrow> (string \<times> string) list" where
  "pres_map present =
     fold (\<lambda>n m. if map_of m (ToLower n) = None then al_put (ToLower n) n m else m) present []"

fun ci :: "(string \<times> SeenEntry) list \<Rightarrow> string \<Rightarrow> SeenEntry option" where
  "ci [] n = None"
| "ci ((k, v) # m) n = (if EqualFold k n then Some v else ci m n)"

definition update_match :: "string \<Rightarrow> SeenEntry \<Rightarrow> bool \<Rightarrow> seenMatch option \<Rightarrow> seenMatch" where
  "update_match nick entry present m0 =
     (let m = (case m0 of None \<Rightarrow> \<lparr>sm_nick = nick, sm_entry = no_entry, sm_present = False\<rparr> | Some m \<Rightarrow> m);
          m1 = m\<lparr>sm_present := sm_present m \<or> present\<rparr>
      in if Last (sm_entry m1) = 0 then m1\<lparr>sm_entry := entry\<rparr> else m1)"

definition add_match :: "string \<Rightarrow> string \<Rightarrow> SeenEntry \<Rightarrow> bool \<Rightarrow> (string \<times> seenMatch) list \<Rightarrow> (string \<times> seenMatch) list" where
  "add_match lq nick entry present ms =
     (let ln = ToLower nick
      in if ln = lq \<or> \<not> HasPrefix ln lq then ms
         else al_put ln (update_match nick entry present (map_of ms ln)) ms)"

definition not_found :: "string \<Rightarrow> SeenResult" where
  "not_found query = \<lparr>sr_query = query, sr_found = False, sr_present = False, sr_nick = [], sr_entry = no_entry, sr_others = []\<rparr>"

definition found_one :: "string \<Rightarrow> bool \<Rightarrow> string \<Rightarrow> SeenEntry \<Rightarrow> SeenResult" where
  "found_one query present nick entry = \<lparr>sr_query = query, sr_found = True, sr_present = present, sr_nick = nick,
     sr_entry = entry, sr_others = []\<rparr>"

text \<open>The end of \<open>Lookup\<close>, from the candidates in their order.\<close>

definition resolve_matches :: "string \<Rightarrow> (string \<times> seenMatch) list \<Rightarrow> SeenResult" where
  "resolve_matches query ms =
     (if ms = [] then not_found query
      else
        (let pm = filter (\<lambda>x. sm_present (snd x)) ms
         in if length pm = 1 then found_one query True (sm_nick (snd (hd pm))) (sm_entry (snd (hd pm)))
            else if length ms = 1 then found_one query False (sm_nick (snd (hd ms))) (sm_entry (snd (hd ms)))
            else
              \<lparr>sr_query = query, sr_found = True, sr_present = False, sr_nick = [], sr_entry = no_entry,
               sr_others = sort (map (sm_nick \<circ> snd) (if pm \<noteq> [] then pm else ms))\<rparr>))"

definition all_matches :: "ranges \<Rightarrow> string \<Rightarrow> (string \<times> string) list \<Rightarrow> (string \<times> SeenEntry) list \<Rightarrow> (string \<times> seenMatch) list" where
  "all_matches rg lq pres nicks =
     fold (\<lambda>(n, e). add_match lq n e False) nicks
       (fold (\<lambda>(ln, n). add_match lq n no_entry True) (rg_pres rg pres) [])"

definition Lookup :: "ranges \<Rightarrow> (string \<times> SeenEntry) list \<Rightarrow> string \<Rightarrow> string list \<Rightarrow> SeenResult" where
  "Lookup rg nicks query present =
     (let lq = ToLower query; pres = pres_map present
      in case map_of pres lq of
           Some nick \<Rightarrow>
             found_one query True nick (case ci nicks nick of None \<Rightarrow> no_entry | Some e \<Rightarrow> e)
         | None \<Rightarrow>
             (case ci nicks query of
                Some entry \<Rightarrow> found_one query False query entry
              | None \<Rightarrow> resolve_matches query (rg_matches rg (all_matches rg lq pres nicks))))"

subsection \<open>The reply\<close>

text \<open>\<open>%q\<close> of a byte string: quotes, backslashes and control characters are escaped; bytes above 127 are
  those of printable characters.\<close>

definition hex_digit :: "nat \<Rightarrow> char" where
  "hex_digit n = (if n < 10 then char_of (48 + n) else char_of (87 + n))"

definition quote_char :: "char \<Rightarrow> string" where
  "quote_char c =
     (if c = CHR 0x22 \<or> c = CHR 0x5C then [CHR 0x5C, c]
      else if c = CHR 0x07 then [CHR 0x5C, CHR ''a''] else if c = CHR 0x08 then [CHR 0x5C, CHR ''b'']
      else if c = CHR 0x09 then [CHR 0x5C, CHR ''t''] else if c = CHR 0x0A then [CHR 0x5C, CHR ''n'']
      else if c = CHR 0x0B then [CHR 0x5C, CHR ''v''] else if c = CHR 0x0C then [CHR 0x5C, CHR ''f'']
      else if c = CHR 0x0D then [CHR 0x5C, CHR ''r'']
      else if c < CHR '' '' \<or> c = CHR 0x7F
      then [CHR 0x5C, CHR ''x'', hex_digit (of_char c div 16), hex_digit (of_char c mod 16)]
      else [c])"

definition quoted :: "string \<Rightarrow> string" where
  "quoted s = [CHR 0x22] @ concat (map quote_char s) @ [CHR 0x22]"

text \<open>The age of an event: one or two numbers with their units.\<close>

definition age_parts :: "int \<Rightarrow> (int \<times> string) list" where
  "age_parts d =
     (let minute = 60; hour = 60 * minute; day = 24 * hour; month = 30 * day; year = 365 * day;
          two = (\<lambda>a u b v. if b > 0 then [(a, u), (b, v)] else [(a, u)])
      in if d < minute then [(d, ''s'')]
         else if d < hour then [(d div minute, ''m'')]
         else if d < day then two (d div hour) ''h'' (d mod hour div minute) ''m''
         else if d < month then two (d div day) ''d'' (d mod day div hour) ''h''
         else if d < year then two (d div month) ''mo'' (d mod month div day) ''d''
         else two (d div year) ''y'' (d mod year div month) ''mo'')"

definition seenTimeText :: "int \<Rightarrow> int \<Rightarrow> string" where
  "seenTimeText u now =
     (let d = (if now - u < 0 then 0 else now - u)
      in format_datetime (u * second) @ '' UTC, '' @ concat (map (\<lambda>(n, x). itoa n @ x) (age_parts d)) @ '' ago'')"

definition fact :: "string \<Rightarrow> int \<Rightarrow> int \<Rightarrow> string list" where
  "fact what t now = (if t > 0 then [what @ seenTimeText t now] else [])"

definition result_Text :: "int \<Rightarrow> SeenResult \<Rightarrow> string" where
  "result_Text now r =
     (if \<not> sr_found r then ''no record of '' @ quoted (sr_query r)
      else if length (sr_others r) > 1 then
        ''multiple nicks matching '' @ quoted (sr_query r) @ '' are available: '' @ Join (sr_others r) '', '' @
        ''; please be more specific''
      else
        (let e = sr_entry r;
             facts =
               (if sr_present r then fact ''joined '' (se_Join e) now @ fact ''last message '' (se_Message e) now
                else fact ''left '' (se_Exit e) now @ fact ''joined '' (se_Join e) now @
                  fact ''last message '' (se_Message e) now)
         in (if \<not> EqualFold (sr_nick r) (sr_query r) then ''no exact '' @ quoted (sr_query r) @ ''; '' else []) @
            sr_nick r @ (if sr_present r then '' is present'' else '' is not present'') @
            (if facts \<noteq> [] then '' ('' @ Join facts ''; '' @ '')'' else [])))"

subsection \<open>The order of the maps does not matter\<close>

lemma ci_folded: "ci m n = folded m n"
  by (induction m n rule: ci.induct) (auto simp: folded_Cons folded_def EqualFold_def)

lemma pres_map_eq: "distinct (map ToLower present) \<Longrightarrow> pres_map present = map (\<lambda>n. (ToLower n, n)) present"
proof -
  have "fold (\<lambda>n m. if map_of m (ToLower n) = None then al_put (ToLower n) n m else m) xs acc =
      acc @ map (\<lambda>n. (ToLower n, n)) xs"
    if "distinct (map ToLower xs)" "\<forall>n\<in>set xs. ToLower n \<notin> fst ` set acc" for xs acc
    using that
  proof (induction xs arbitrary: acc)
    case (Cons x xs)
    have "map_of acc (ToLower x) = None" using Cons.prems(2) by (simp add: map_of_eq_None_iff)
    moreover have "al_put (ToLower x) x acc = acc @ [(ToLower x, x)]"
      using Cons.prems(2) by (intro al_put_append) simp
    moreover have "\<forall>n\<in>set xs. ToLower n \<notin> fst ` set (acc @ [(ToLower x, x)])"
    proof
      fix n assume n: "n \<in> set xs"
      then have "ToLower n \<in> ToLower ` set xs" by (rule imageI)
      then have "ToLower n \<noteq> ToLower x" using Cons.prems(1) by auto
      moreover have "ToLower n \<notin> fst ` set acc" using Cons.prems(2) n by simp
      ultimately show "ToLower n \<notin> fst ` set (acc @ [(ToLower x, x)])" by simp
    qed
    ultimately show ?case using Cons.IH [of "acc @ [(ToLower x, x)]"] Cons.prems(1) by simp
  qed simp
  from this [of present "[]"] show "distinct (map ToLower present) \<Longrightarrow> ?thesis" by (simp add: pres_map_def)
qed

text \<open>A candidate map as a function; adding for different folded nicks commutes.\<close>

definition add_fun :: "string \<Rightarrow> bool \<Rightarrow> string \<times> SeenEntry \<Rightarrow> (string \<rightharpoonup> seenMatch) \<Rightarrow> (string \<rightharpoonup> seenMatch)" where
  "add_fun lq present x M =
     (let ln = ToLower (fst x)
      in if ln = lq \<or> \<not> HasPrefix ln lq then M
         else M(ln \<mapsto> update_match (fst x) (snd x) present (M ln)))"

lemma add_match_fun: "map_of (add_match lq n e p ms) = add_fun lq p (n, e) (map_of ms)"
  by (simp add: add_match_def add_fun_def Let_def)

lemma add_match_nodup: "nodup_keys ms \<Longrightarrow> nodup_keys (add_match lq n e p ms)"
  by (simp add: add_match_def Let_def)

lemma add_fun_commute:
  "ToLower (fst x) \<noteq> ToLower (fst y) \<Longrightarrow> add_fun lq p x (add_fun lq p y M) = add_fun lq p y (add_fun lq p x M)"
  by (auto simp: add_fun_def Let_def fun_upd_twist)

lemma fold_add_fun:
  assumes "distinct (map (ToLower \<circ> fst) xs)" and "mset xs = mset ys"
  shows "fold (add_fun lq p) xs M = fold (add_fun lq p) ys M"
proof -
  have "add_fun lq p x \<circ> add_fun lq p y = add_fun lq p y \<circ> add_fun lq p x" if "x \<in> set xs" "y \<in> set xs" for x y
  proof (cases "x = y")
    case False
    with assms(1) that have "ToLower (fst x) \<noteq> ToLower (fst y)" by (auto simp: distinct_map inj_on_def)
    then show ?thesis by (auto simp: add_fun_commute)
  qed simp
  then have "fold (add_fun lq p) xs = fold (add_fun lq p) ys"
    using assms(2) by (intro fold_multiset_equiv) auto
  then show ?thesis by simp
qed

lemma all_matches_fun:
  "map_of (all_matches rg lq pres nicks) =
     fold (add_fun lq False) nicks (fold (add_fun lq True) (map (\<lambda>(ln, n). (n, no_entry)) (rg_pres rg pres)) Map.empty) \<and>
   nodup_keys (all_matches rg lq pres nicks)"
proof -
  have 1: "map_of (fold (\<lambda>(ln, n). add_match lq n no_entry True) xs ms) =
      fold (add_fun lq True) (map (\<lambda>(ln, n). (n, no_entry)) xs) (map_of ms) \<and>
      (nodup_keys ms \<longrightarrow> nodup_keys (fold (\<lambda>(ln, n). add_match lq n no_entry True) xs ms))" for xs :: "(string \<times> string) list" and ms
    by (induction xs arbitrary: ms) (auto simp: add_match_fun add_match_nodup)
  have 2: "map_of (fold (\<lambda>(n, e). add_match lq n e False) xs ms) = fold (add_fun lq False) xs (map_of ms) \<and>
      (nodup_keys ms \<longrightarrow> nodup_keys (fold (\<lambda>(n, e). add_match lq n e False) xs ms))" for xs ms
    by (induction xs arbitrary: ms) (auto simp: add_match_fun add_match_nodup)
  show ?thesis unfolding all_matches_def using 1 [of "rg_pres rg pres" "[]"] 2 by simp
qed

lemma resolve_matches_mset:
  assumes "mset xs = mset ys"
  shows "resolve_matches q xs = resolve_matches q ys"
proof -
  have single: "as = bs" if "mset as = mset bs" "length as = 1" for as bs :: "(string \<times> seenMatch) list"
  proof -
    from that obtain a where "as = [a]" by (cases as) auto
    with that show ?thesis by (metis mset_single_iff)
  qed
  have srt: "sort as = sort bs" if "mset as = mset bs" for as bs :: "string list"
    using that by (metis sorted_list_of_multiset_mset)
  let ?p = "\<lambda>x. sm_present (snd x)"
  have f: "mset (filter ?p xs) = mset (filter ?p ys)" using assms by simp
  have len: "length xs = length ys" "length (filter ?p xs) = length (filter ?p ys)"
    using assms f by (metis mset_eq_length)+
  have nil: "xs = [] \<longleftrightarrow> ys = []" "filter ?p xs = [] \<longleftrightarrow> filter ?p ys = []" using len by (metis length_0_conv)+
  have srt1: "sort (map (sm_nick \<circ> snd) (filter ?p xs)) = sort (map (sm_nick \<circ> snd) (filter ?p ys))"
    "sort (map (sm_nick \<circ> snd) xs) = sort (map (sm_nick \<circ> snd) ys)"
    using f assms by (intro srt, simp)+
  show ?thesis
  proof (cases "length (filter ?p xs) = 1")
    case True
    from single [OF f True] True nil len show ?thesis by (simp add: resolve_matches_def Let_def)
  next
    case np: False
    show ?thesis
    proof (cases "length xs = 1")
      case True
      from single [OF assms True] show ?thesis by simp
    next
      case False
      with np nil len srt1 show ?thesis by (simp add: resolve_matches_def Let_def del: map_eq_conv)
    qed
  qed
qed

text \<open>C30: the answer to a query depends on which nicks are recorded and present, not on the orders in which
  Go ranges over its maps.\<close>

theorem lookup_is_deterministic:
  assumes "nicks_ok nicks" and "mset nicks = mset nicks'"
    and "distinct (map ToLower present)" and "mset present = mset present'" and "fair rg" and "fair rg'"
  shows "Lookup rg nicks query present = Lookup rg' nicks' query present'"
proof -
  have n': "nicks_ok nicks'" "folded nicks' = folded nicks" using folded_mset [OF assms(1,2)] by simp_all
  have d': "distinct (map ToLower present')" using assms(3,4) by (metis mset_eq_imp_distinct_iff mset_map)
  note pm = pres_map_eq [OF assms(3)] and pm' = pres_map_eq [OF d']
  let ?f = "\<lambda>n. (ToLower n, n)"
  have keys: "distinct (map fst (map ?f present))" "distinct (map fst (map ?f present'))"
    using assms(3) d' by (simp_all add: comp_def)
  have set: "set present = set present'" using assms(4) by (rule mset_eq_setD)
  have exact: "map_of (map ?f present) = map_of (map ?f present')"
    by (rule map_of_set_eq [OF keys]) (simp add: set)
  let ?g = "\<lambda>(ln :: string, n :: string). (n, no_entry)"
  have mp: "mset (map ?g (rg_pres rg (map ?f present))) = mset (map ?g (rg_pres rg' (map ?f present')))"
    using assms(4-6) by (simp add: fair_def)
  have "mset (map (ToLower \<circ> fst) (map ?g (rg_pres rg (map ?f present)))) = mset (map ToLower present)"
    using assms(5) by (simp add: fair_def multiset.map_comp comp_def)
  from iffD2 [OF mset_eq_imp_distinct_iff [OF this] assms(3)]
  have dp: "distinct (map (ToLower \<circ> fst) (map ?g (rg_pres rg (map ?f present))))" .
  have dn: "distinct (map (ToLower \<circ> fst) nicks)" using assms(1) by (simp add: nicks_ok_def)
  let ?lq = "ToLower query"
  let ?a = "all_matches rg ?lq (map ?f present) nicks" and ?b = "all_matches rg' ?lq (map ?f present') nicks'"
  have eq: "map_of ?a = map_of ?b"
    unfolding all_matches_fun [THEN conjunct1] fold_add_fun [OF dp mp] fold_add_fun [OF dn assms(2)] ..
  have na: "distinct (map fst ?a)" "distinct (map fst ?b)"
    using all_matches_fun [THEN conjunct2] unfolding nodup_keys_def by this+
  from iffD1 [OF map_of_inject_set [OF na] eq] have "set ?a = set ?b" .
  moreover have "distinct ?a" "distinct ?b" using na by (simp_all add: distinct_map)
  ultimately have "mset ?a = mset ?b" by (simp add: set_eq_iff_mset_eq_distinct)
  then have "mset (rg_matches rg ?a) = mset (rg_matches rg' ?b)" using assms(5,6) by (simp add: fair_def)
  note res = resolve_matches_mset [OF this, of query]
  show ?thesis unfolding Lookup_def Let_def pm pm' exact ci_folded n'(2) res ..
qed

definition unit_seconds :: "string \<Rightarrow> int" where
  "unit_seconds u =
     (if u = ''s'' then 1 else if u = ''m'' then 60 else if u = ''h'' then 3600 else if u = ''d'' then 86400
      else if u = ''mo'' then 2592000 else 31536000)"

definition granularity :: "int \<Rightarrow> int" where
  "granularity d =
     (if d < 60 then 1 else if d < 86400 then 60 else if d < 2592000 then 3600 else if d < 31536000 then 86400 else 2592000)"

text \<open>The age in a reply is the time passed rounded down to its last unit, and its numbers stay within
  their units: below 60 seconds or minutes, 24 hours, 30 days and 13 months.\<close>

theorem age_is_rounded_down:
  assumes "0 \<le> d"
  shows "(\<Sum>(n, u)\<leftarrow>age_parts d. n * unit_seconds u) \<le> d \<and>
    d < (\<Sum>(n, u)\<leftarrow>age_parts d. n * unit_seconds u) + granularity d \<and>
    (\<forall>(n, u)\<in>set (age_parts d). 0 \<le> n \<and> (u = ''s'' \<or> u = ''m'' \<longrightarrow> n < 60) \<and> (u = ''h'' \<longrightarrow> n < 24) \<and>
       (u = ''d'' \<longrightarrow> n < 30) \<and> (u = ''mo'' \<longrightarrow> n < 13))"
proof -
  have two: "(\<Sum>(n, u)\<leftarrow>(if b > 0 then [(a, u1), (b, u2)] else [(a, u1)]). n * unit_seconds u) =
      a * unit_seconds u1 + b * unit_seconds u2" if "0 \<le> b" for a b :: int and u1 u2
    using that by simp
  have split: "d div p * p + d mod p div q * q \<le> d \<and> d < d div p * p + d mod p div q * q + q \<and>
      0 \<le> d mod p div q \<and> 0 \<le> d div p" if "0 < p" "0 < q" for p q :: int
  proof -
    have "q * (d mod p div q) \<le> d mod p" "d mod p < q * (d mod p div q) + q" using div_bounds [OF that(2), of "d mod p"] by auto
    moreover have "d div p * p + d mod p = d" by (rule div_mult_mod_eq)
    moreover have "q * (d mod p div q) = d mod p div q * q" by (rule mult.commute)
    moreover have "0 \<le> d mod p div q" "0 \<le> d div p"
      using that assms by (simp_all add: pos_imp_zdiv_nonneg_iff)
    ultimately show ?thesis by linarith
  qed
  have b: "d mod p div q < k" if "0 < p" "0 < q" "p \<le> k * q" for p q k :: int
  proof -
    have "q * (d mod p div q) \<le> d mod p" "d mod p < p" using div_bounds(1) [OF that(2)] that(1) by simp_all
    then have "q * (d mod p div q) < q * k" using that(3) by (simp add: mult.commute)
    then show ?thesis using that(2) by simp
  qed
  have q: "d div p < k" if "0 < p" "d < k * p" for p k :: int
  proof -
    have "p * (d div p) < p * k" using div_bounds(1) [OF that(1), of d] that(2) by (simp add: mult.commute)
    then show ?thesis using that(1) by simp
  qed
  consider "d < 60" | "60 \<le> d" "d < 3600" | "3600 \<le> d" "d < 86400" | "86400 \<le> d" "d < 2592000"
    | "2592000 \<le> d" "d < 31536000" | "31536000 \<le> d" by linarith
  then show ?thesis
  proof cases
    case 1
    then show ?thesis using assms by (simp add: age_parts_def Let_def unit_seconds_def granularity_def)
  next
    case 2
    then show ?thesis using assms div_bounds [of 60 d] q [of 60 60]
      by (simp add: age_parts_def Let_def unit_seconds_def granularity_def mult.commute)
  next
    case 3
    then show ?thesis using split [of 3600 60] b [of 3600 60 60] q [of 3600 24]
      by (auto simp: age_parts_def Let_def unit_seconds_def granularity_def)
  next
    case 4
    then show ?thesis using split [of 86400 3600] b [of 86400 3600 24] q [of 86400 30]
      by (auto simp: age_parts_def Let_def unit_seconds_def granularity_def)
  next
    case 5
    then show ?thesis using split [of 2592000 86400] b [of 2592000 86400 30] q [of 2592000 13]
      by (auto simp: age_parts_def Let_def unit_seconds_def granularity_def)
  next
    case 6
    then show ?thesis using split [of 31536000 2592000] b [of 31536000 2592000 13]
      by (auto simp: age_parts_def Let_def unit_seconds_def granularity_def)
  qed
qed

theorem lookup_is_deterministic_example:
  "Lookup \<lparr>rg_pres = \<lambda>xs. xs, rg_matches = \<lambda>xs. xs\<rparr>
     [(''Anna'', \<lparr>se_Join = 5, se_Exit = 9, se_Message = 7\<rparr>), (''anton'', \<lparr>se_Join = 6, se_Exit = 0, se_Message = 0\<rparr>)]
     ''an'' [''bob'', ''anton''] =
   Lookup \<lparr>rg_pres = rev, rg_matches = rev\<rparr>
     [(''anton'', \<lparr>se_Join = 6, se_Exit = 0, se_Message = 0\<rparr>), (''Anna'', \<lparr>se_Join = 5, se_Exit = 9, se_Message = 7\<rparr>)]
     ''an'' [''anton'', ''bob'']"
  by (rule lookup_is_deterministic) (simp_all add: nicks_ok_def fair_def ToLower_def lower_char_def)

theorem age_is_rounded_down_example:
  "(\<Sum>(n, u)\<leftarrow>age_parts 100000. n * unit_seconds u) \<le> 100000 \<and> age_parts 100000 = [(1, ''d''), (3, ''h'')]"
  using age_is_rounded_down [of 100000] by (simp add: age_parts_def)

end
