(* ===== verification/BotBus.thy ===== *)
theory BotBus
  imports GoTime
begin

text \<open>
  The message bus of the bot and its ends outside IRC: \<open>bus.go\<close>, \<open>format.go\<close>, \<open>webhook.go\<close> and
  \<open>telegram.go\<close>. A Go channel is its buffered contents with its capacity; an operation that would
  block is \<open>None\<close>. The dispatcher, the subscribers and the producers interleave as events. JSON decoding
  and the execution of a configured template are parameters; the built-in templates are written out.
\<close>

subsection \<open>Messages\<close>

definition SourceIRC :: string where "SourceIRC = ''irc''"
definition SourceWebhook :: string where "SourceWebhook = ''webhook''"

record Message =
  mg_Source :: string
  mg_Timestamp :: instant
  mg_Event :: string
  mg_From :: string
  mg_Target :: string
  mg_Text :: string

text \<open>The \<open>validate\<close> tags of \<open>Message\<close>.\<close>

definition valid_Message :: "Message \<Rightarrow> bool" where
  "valid_Message m \<longleftrightarrow>
     (mg_Source m = SourceIRC \<or> mg_Source m = SourceWebhook) \<and> mg_Timestamp m \<noteq> zero_time \<and>
     mg_From m \<noteq> [] \<and> mg_Target m \<noteq> [] \<and> mg_Text m \<noteq> []"

subsection \<open>The bus\<close>

record Subscriber =
  su_name :: string
  su_cap :: nat
  su_queue :: "Message list"
  su_closed :: bool

text \<open>Subscribers by a number given at subscription; \<open>bu_panic\<close> is set when the dispatcher sends on a
  closed channel.\<close>

record Bus =
  bu_in :: "Message list"
  bu_cap :: nat
  bu_subs :: "(nat \<times> Subscriber) list"
  bu_next :: nat
  bu_panic :: bool

definition map_vals :: "('k \<Rightarrow> 'v \<Rightarrow> 'v) \<Rightarrow> ('k \<times> 'v) list \<Rightarrow> ('k \<times> 'v) list" where
  "map_vals f xs = map (\<lambda>(k, v). (k, f k v)) xs"

lemma map_of_map_vals [simp]: "map_of (map_vals f xs) k = map_option (f k) (map_of xs k)"
  by (induction xs) (auto simp: map_vals_def)

lemma keys_map_vals [simp]: "map fst (map_vals f xs) = map fst xs"
  by (induction xs) (auto simp: map_vals_def)

lemma key_set_map_vals [simp]: "fst ` set (map_vals f xs) = fst ` set xs"
  by (metis keys_map_vals set_map)

definition NewBus :: "nat \<Rightarrow> Bus" where
  "NewBus buffer = \<lparr>bu_in = [], bu_cap = buffer, bu_subs = [], bu_next = 0, bu_panic = False\<rparr>"

datatype produce_error = InvalidMessage

text \<open>\<open>Produce\<close>: an error, or the bus with the message queued; \<open>None\<close> while the bus is full.\<close>

definition Produce :: "Message \<Rightarrow> Bus \<Rightarrow> (produce_error + Bus) option" where
  "Produce m b =
     (if \<not> valid_Message m then Some (Inl InvalidMessage)
      else if length (bu_in b) < bu_cap b then Some (Inr (b\<lparr>bu_in := bu_in b @ [m]\<rparr>))
      else None)"

text \<open>The \<open>select\<close> of the dispatcher for one subscriber: a full one misses the message.\<close>

definition offer :: "Message \<Rightarrow> Subscriber \<Rightarrow> Subscriber" where
  "offer m s = (if length (su_queue s) < su_cap s then s\<lparr>su_queue := su_queue s @ [m]\<rparr> else s)"

text \<open>One round of \<open>start\<close>.\<close>

definition dispatch :: "Bus \<Rightarrow> Bus option" where
  "dispatch b =
     (case bu_in b of
        [] \<Rightarrow> None
      | m # ms \<Rightarrow>
          if bu_panic b then None
          else if list_ex (\<lambda>(i, s). su_closed s) (bu_subs b) then Some (b\<lparr>bu_in := ms, bu_panic := True\<rparr>)
          else Some (b\<lparr>bu_in := ms, bu_subs := map_vals (\<lambda>_. offer m) (bu_subs b)\<rparr>))"

definition Subscribe :: "string \<Rightarrow> nat \<Rightarrow> Bus \<Rightarrow> nat \<times> Bus" where
  "Subscribe name buffer b =
     (bu_next b,
      b\<lparr>bu_subs := bu_subs b @ [(bu_next b, \<lparr>su_name = name, su_cap = buffer, su_queue = [], su_closed = False\<rparr>)],
        bu_next := bu_next b + 1\<rparr>)"

text \<open>The goroutine of \<open>Subscribe\<close> after \<open>Close\<close>: it closes the channel, and later takes the lock and
  removes the subscriber.\<close>

definition close_chan :: "nat \<Rightarrow> Bus \<Rightarrow> Bus" where
  "close_chan i b = b\<lparr>bu_subs := map_vals (\<lambda>j s. if j = i then s\<lparr>su_closed := True\<rparr> else s) (bu_subs b)\<rparr>"

definition remove_sub :: "nat \<Rightarrow> Bus \<Rightarrow> Bus" where
  "remove_sub i b = b\<lparr>bu_subs := filter (\<lambda>(j, s). j \<noteq> i) (bu_subs b)\<rparr>"

text \<open>A subscriber takes a message from its channel.\<close>

definition receive :: "nat \<Rightarrow> Bus \<Rightarrow> (Message \<times> Bus) option" where
  "receive i b =
     (case map_of (bu_subs b) i of
        None \<Rightarrow> None
      | Some s \<Rightarrow>
          (case su_queue s of
             [] \<Rightarrow> None
           | m # ms \<Rightarrow>
               Some (m, b\<lparr>bu_subs := map_vals (\<lambda>j x. if j = i then s\<lparr>su_queue := ms\<rparr> else x) (bu_subs b)\<rparr>)))"

datatype bus_event =
    EvProduce Message
  | EvDispatch
  | EvSubscribe string nat
  | EvReceive nat
  | EvClose nat
  | EvRemove nat

text \<open>An event that would block, or has nothing to do, leaves the bus as it is.\<close>

fun bus_step :: "bus_event \<Rightarrow> Bus \<Rightarrow> Bus" where
  "bus_step (EvProduce m) b = (case Produce m b of Some (Inr b') \<Rightarrow> b' | _ \<Rightarrow> b)"
| "bus_step EvDispatch b = (case dispatch b of Some b' \<Rightarrow> b' | None \<Rightarrow> b)"
| "bus_step (EvSubscribe n k) b = snd (Subscribe n k b)"
| "bus_step (EvReceive i) b = (case receive i b of Some (_, b') \<Rightarrow> b' | None \<Rightarrow> b)"
| "bus_step (EvClose i) b = close_chan i b"
| "bus_step (EvRemove i) b = remove_sub i b"

definition bus_run :: "bus_event list \<Rightarrow> Bus \<Rightarrow> Bus" where
  "bus_run es b = fold bus_step es b"

subsection \<open>Message templates\<close>

record MessageView =
  mv_Source :: string
  mv_Target :: string
  mv_From :: string
  mv_Text :: string
  mv_Event :: string
  mv_IsAction :: bool
  mv_IsPrivate :: bool

definition message_view :: "Message \<Rightarrow> MessageView" where
  "message_view m =
     \<lparr>mv_Source = mg_Source m, mv_Target = mg_Target m, mv_From = mg_From m, mv_Text = mg_Text m,
      mv_Event = mg_Event m, mv_IsAction = (mg_Event m = ''ACTION''),
      mv_IsPrivate = (\<not> HasPrefix (mg_Target m) ''#'')\<rparr>"

text \<open>The pictographs of the built-in templates in UTF-8.\<close>

definition balloon :: string where "balloon = [CHR 0xF0, CHR 0x9F, CHR 0x92, CHR 0xAC]"
definition speaker :: string where "speaker = [CHR 0xF0, CHR 0x9F, CHR 0x93, CHR 0xA2]"
definition query_mark :: string where "query_mark = [CHR 0xE2, CHR 0x9D, CHR 0x93]"
definition pointer :: string where "pointer = [CHR 0xF0, CHR 0x9F, CHR 0x91, CHR 0x89]"

fun html_char :: "char \<Rightarrow> string" where
  "html_char c =
     (if c = CHR ''&'' then ''&amp;'' else if c = CHR ''<'' then ''&lt;'' else if c = CHR ''>'' then ''&gt;'' else [c])"

definition html :: "string \<Rightarrow> string" where
  "html s = concat (map html_char s)"

definition ircDefaultTemplate :: "MessageView \<Rightarrow> string" where
  "ircDefaultTemplate v =
     (if mv_Source v = ''irc'' then ''[IRC '' @ mv_From v @ '']'' @ balloon
      else if mv_Source v = ''webhook'' then ''[Webhook '' @ mv_From v @ '']'' @ speaker
      else ''['' @ query_mark @ '' '' @ mv_From v @ '']'') @ '' '' @ mv_Text v"

definition telegramDefaultTemplate :: "MessageView \<Rightarrow> string" where
  "telegramDefaultTemplate v =
     (if mv_Source v = ''irc'' then
        ''<b>[IRC '' @ mv_Target v @ '']</b> '' @
        (if mv_IsAction v then pointer @ '' <code>'' @ mv_From v @ ''</code>''
         else ''<code>'' @ mv_From v @ ''</code>'' @ balloon)
      else if mv_Source v = ''webhook'' then
        ''<b>[Webhook '' @ mv_Target v @ '']</b> <code>'' @ mv_From v @ ''</code>'' @ speaker
      else ''<b>['' @ query_mark @ '' '' @ mv_Target v @ '']</b> <code>'' @ mv_From v @ ''</code>'') @
     '' '' @ html (mv_Text v)"

text \<open>\<open>parseFormat\<close>: the template of a sink. \<open>compile\<close> is \<open>text/template\<close>, whose templates answer a view
  with a text or an error.\<close>

type_synonym tmpl = "MessageView \<Rightarrow> string + string"

definition parseFormat :: "(string \<Rightarrow> string + tmpl) \<Rightarrow> string \<Rightarrow> string \<Rightarrow> string + tmpl" where
  "parseFormat compile name text0 =
     (let text = TrimSpace text0
      in if text \<noteq> [] then compile text
         else if name = ''irc'' then Inr (Inr \<circ> ircDefaultTemplate)
         else if name = ''telegram'' then Inr (Inr \<circ> telegramDefaultTemplate)
         else compile [])"

definition renderFormat :: "tmpl \<Rightarrow> Message \<Rightarrow> string + string" where
  "renderFormat tpl m = tpl (message_view m)"

text \<open>Both sinks fall back to the raw text.\<close>

definition rendered :: "tmpl \<Rightarrow> Message \<Rightarrow> string" where
  "rendered tpl m = (case renderFormat tpl m of Inl _ \<Rightarrow> mg_Text m | Inr t \<Rightarrow> t)"

subsection \<open>Webhook\<close>

record hook_request =
  hr_Method :: string
  hr_Path :: string
  hr_ContentType :: string
  hr_Authorization :: string
  hr_Body :: string

record WebhookMessage =
  wm_From :: string
  wm_Target :: string
  wm_Text :: string

definition valid_hook :: "WebhookMessage \<Rightarrow> bool" where
  "valid_hook m \<longleftrightarrow> wm_From m \<noteq> [] \<and> wm_Target m \<noteq> [] \<and> wm_Text m \<noteq> []"

definition media_type :: "string \<Rightarrow> string" where
  "media_type ct = (if ct \<noteq> [] then ToLower (TrimSpace (hd (SplitChar (CHR '';'') ct))) else [])"

text \<open>The status of the answer and the message handed to the bus.\<close>

definition handleNotify :: "(string \<Rightarrow> string + WebhookMessage) \<Rightarrow> instant \<Rightarrow> hook_request \<Rightarrow> int \<times> Message option" where
  "handleNotify decode now r =
     (if hr_Method r \<noteq> ''POST'' then (405, None)
      else if media_type (hr_ContentType r) \<noteq> ''application/json'' then (400, None)
      else
        (case decode (hr_Body r) of
           Inl _ \<Rightarrow> (400, None)
         | Inr m \<Rightarrow>
             if \<not> valid_hook m then (400, None)
             else (200, Some \<lparr>mg_Source = SourceWebhook, mg_Timestamp = now, mg_Event = [],
                              mg_From = wm_From m, mg_Target = wm_Target m, mg_Text = wm_Text m\<rparr>)))"

text \<open>The mux serves one path.\<close>

definition hook_mux :: "(string \<Rightarrow> string + WebhookMessage) \<Rightarrow> instant \<Rightarrow> hook_request \<Rightarrow> int \<times> Message option" where
  "hook_mux decode now r = (if hr_Path r = ''/webhook'' then handleNotify decode now r else (404, None))"

definition bearer_ok :: "string \<Rightarrow> string \<Rightarrow> bool" where
  "bearer_ok token header \<longleftrightarrow> token = [] \<or> TrimSpace (TrimPrefix header ''Bearer '') = token"

definition authMiddleware :: "string \<Rightarrow> (hook_request \<Rightarrow> int \<times> Message option) \<Rightarrow> hook_request \<Rightarrow> int \<times> Message option" where
  "authMiddleware token serve r = (if \<not> bearer_ok token (hr_Authorization r) then (401, None) else serve r)"

definition webhook_handler :: "string \<Rightarrow> (string \<Rightarrow> string + WebhookMessage) \<Rightarrow> instant \<Rightarrow> hook_request \<Rightarrow>
    int \<times> Message option" where
  "webhook_handler token decode now = authMiddleware token (hook_mux decode now)"

subsection \<open>Telegram\<close>

text \<open>What \<open>Post\<close> sends: the chats and the text.\<close>

definition tg_Post :: "bool \<Rightarrow> int list \<Rightarrow> tmpl \<Rightarrow> Message \<Rightarrow> (int \<times> string) list" where
  "tg_Post started chats tpl m =
     (if \<not> HasPrefix (mg_Target m) ''#'' then []
      else if \<not> started then []
      else map (\<lambda>c. (c, rendered tpl m)) chats)"

text \<open>The answers of the three registered handlers; which one gets a text is the library's choice.\<close>

definition tg_start :: "int \<Rightarrow> string" where
  "tg_start chat = ''The Chat ID is <code>'' @ itoa chat @ ''</code>.''"

definition tg_whoami :: "int \<Rightarrow> string" where
  "tg_whoami chat = ''You are in Chat ID: <code>'' @ itoa chat @ ''</code>.''"

definition tg_other :: "string \<Rightarrow> string option" where
  "tg_other text =
     (if \<not> HasPrefix text ''/'' then None
      else Some (''Sorry, I don'' @ [CHR 0x27] @ ''t know that command.''))"

subsection \<open>Delivery\<close>

text \<open>What one event produces, dispatches and hands to subscriber \<open>i\<close>, and whether \<open>i\<close> misses a message.\<close>

fun produced1 :: "bus_event \<Rightarrow> Bus \<Rightarrow> Message list" where
  "produced1 (EvProduce m) b = (case Produce m b of Some (Inr _) \<Rightarrow> [m] | _ \<Rightarrow> [])"
| "produced1 _ b = []"

fun dispatched1 :: "bus_event \<Rightarrow> Bus \<Rightarrow> Message list" where
  "dispatched1 EvDispatch b = (case dispatch b of Some _ \<Rightarrow> take 1 (bu_in b) | None \<Rightarrow> [])"
| "dispatched1 _ b = []"

fun received1 :: "nat \<Rightarrow> bus_event \<Rightarrow> Bus \<Rightarrow> Message list" where
  "received1 i (EvReceive j) b =
     (if i = j then (case receive i b of Some (m, _) \<Rightarrow> [m] | None \<Rightarrow> []) else [])"
| "received1 i _ b = []"

fun misses1 :: "nat \<Rightarrow> bus_event \<Rightarrow> Bus \<Rightarrow> bool" where
  "misses1 i EvDispatch b =
     (dispatch b \<noteq> None \<and> (case map_of (bu_subs b) i of Some s \<Rightarrow> su_cap s \<le> length (su_queue s) | None \<Rightarrow> False))"
| "misses1 i _ b = False"

fun over_run :: "(bus_event \<Rightarrow> Bus \<Rightarrow> 'a list) \<Rightarrow> bus_event list \<Rightarrow> Bus \<Rightarrow> 'a list" where
  "over_run f [] b = []"
| "over_run f (e # es) b = f e b @ over_run f es (bus_step e b)"

fun never_misses :: "nat \<Rightarrow> bus_event list \<Rightarrow> Bus \<Rightarrow> bool" where
  "never_misses i [] b = True"
| "never_misses i (e # es) b = (\<not> misses1 i e b \<and> never_misses i es (bus_step e b))"

definition bus_ok :: "Bus \<Rightarrow> bool" where
  "bus_ok b \<longleftrightarrow> distinct (map fst (bu_subs b)) \<and> list_all (\<lambda>i. i < bu_next b) (map fst (bu_subs b))"

lemma keys_filter: "map fst (filter (\<lambda>(j, s). j \<noteq> k) xs) = filter (\<lambda>j. j \<noteq> k) (map fst xs)"
  by (induction xs) auto

lemma map_of_filter_key: "i \<noteq> k \<Longrightarrow> map_of (filter (\<lambda>(j, s). j \<noteq> k) xs) i = map_of xs i"
  by (induction xs) auto

lemma bus_step_ok: "bus_ok b \<Longrightarrow> bus_ok (bus_step e b)"
  by (cases e) (auto simp: bus_ok_def Subscribe_def remove_sub_def Produce_def dispatch_def receive_def close_chan_def
    keys_filter list_all_iff simp del: set_map split: list.split option.split)

lemma bus_step_delivers:
  assumes "bus_ok b" and "map_of (bu_subs b) i = Some s" and "e \<noteq> EvRemove i" and "\<not> bu_panic (bus_step e b)"
  shows "\<exists>s'. map_of (bu_subs (bus_step e b)) i = Some s' \<and>
    bu_in b @ produced1 e b = dispatched1 e b @ bu_in (bus_step e b) \<and>
    (if misses1 i e b then received1 i e b = [] \<and> su_queue s' = su_queue s
     else received1 i e b @ su_queue s' = su_queue s @ dispatched1 e b)"
proof (cases e)
  case (EvProduce m)
  then show ?thesis using assms(2) by (simp add: Produce_def)
next
  case EvDispatch
  show ?thesis
  proof (cases "dispatch b")
    case None
    then show ?thesis using assms(2) EvDispatch by simp
  next
    case (Some b')
    then obtain m ms where "bu_in b = m # ms" by (auto simp: dispatch_def split: list.splits)
    moreover from this Some assms(4) EvDispatch
    have "b' = b\<lparr>bu_in := ms, bu_subs := map_vals (\<lambda>_. offer m) (bu_subs b)\<rparr>"
      by (auto simp: dispatch_def split: if_splits)
    ultimately show ?thesis using assms(2) EvDispatch Some by (simp add: offer_def)
  qed
next
  case (EvSubscribe n k)
  have "i \<noteq> bu_next b" using assms(1,2) by (auto simp: bus_ok_def list_all_iff dest!: map_of_SomeD)
  then show ?thesis using assms(2) EvSubscribe by (simp add: Subscribe_def map_add_def)
next
  case (EvReceive j)
  then show ?thesis using assms(2) by (auto simp: receive_def split: option.split list.split)
next
  case (EvClose j)
  then show ?thesis using assms(2) by (simp add: close_chan_def)
next
  case (EvRemove j)
  then show ?thesis using assms(2,3) by (simp add: remove_sub_def map_of_filter_key)
qed

lemma panic_stays: "bu_panic b \<Longrightarrow> bu_panic (bus_step e b)"
  by (cases e) (auto simp: Produce_def dispatch_def Subscribe_def receive_def close_chan_def remove_sub_def
    split: list.split option.split)

lemma bus_run_Cons [simp]: "bus_run (e # es) b = bus_run es (bus_step e b)"
  by (simp add: bus_run_def)

lemma panic_stays_run: "bu_panic b \<Longrightarrow> bu_panic (bus_run es b)"
  by (induction es arbitrary: b) (auto simp: bus_run_def panic_stays)

lemma bus_delivers_queue:
  assumes "bus_ok b" and "map_of (bu_subs b) i = Some s" and "EvRemove i \<notin> set es" and "\<not> bu_panic (bus_run es b)"
  shows "\<exists>s'. map_of (bu_subs (bus_run es b)) i = Some s' \<and>
    bu_in b @ over_run produced1 es b = over_run dispatched1 es b @ bu_in (bus_run es b) \<and>
    subseq (over_run (received1 i) es b @ su_queue s') (su_queue s @ over_run dispatched1 es b) \<and>
    (never_misses i es b \<longrightarrow>
      over_run (received1 i) es b @ su_queue s' = su_queue s @ over_run dispatched1 es b)"
  using assms
proof (induction es arbitrary: b s)
  case Nil
  then show ?case by (simp add: bus_run_def)
next
  case (Cons e es)
  let ?b = "bus_step e b"
  have np: "\<not> bu_panic ?b" using Cons.prems(4) panic_stays_run [of ?b es] by auto
  from Cons.prems(3) have "e \<noteq> EvRemove i" by auto
  from bus_step_delivers [OF Cons.prems(1,2) this np] obtain s1 where
    s1: "map_of (bu_subs ?b) i = Some s1" and i1: "bu_in b @ produced1 e b = dispatched1 e b @ bu_in ?b" and
    q1: "if misses1 i e b then received1 i e b = [] \<and> su_queue s1 = su_queue s
      else received1 i e b @ su_queue s1 = su_queue s @ dispatched1 e b" by blast
  from Cons.IH [OF bus_step_ok [OF Cons.prems(1)] s1] Cons.prems(3,4) obtain s' where
    s': "map_of (bu_subs (bus_run es ?b)) i = Some s'" and
    i2: "bu_in ?b @ over_run produced1 es ?b = over_run dispatched1 es ?b @ bu_in (bus_run es ?b)" and
    sub: "subseq (over_run (received1 i) es ?b @ su_queue s') (su_queue s1 @ over_run dispatched1 es ?b)" and
    eq: "never_misses i es ?b \<longrightarrow>
      over_run (received1 i) es ?b @ su_queue s' = su_queue s1 @ over_run dispatched1 es ?b" by auto
  have "bu_in b @ over_run produced1 (e # es) b = over_run dispatched1 (e # es) b @ bu_in (bus_run (e # es) b)"
    using i1 i2 by (metis append_assoc bus_run_Cons over_run.simps(2))
  moreover have "subseq (over_run (received1 i) (e # es) b @ su_queue s') (su_queue s @ over_run dispatched1 (e # es) b)"
  proof (cases "misses1 i e b")
    case True
    then have "subseq (over_run (received1 i) (e # es) b @ su_queue s') (su_queue s @ over_run dispatched1 es ?b)"
      using sub q1 by simp
    also have "subseq (su_queue s @ over_run dispatched1 es ?b) (su_queue s @ over_run dispatched1 (e # es) b)"
      by (intro list_emb_append_mono) (simp_all add: subseq_order.order_refl list_emb_append2)
    finally show ?thesis .
  next
    case False
    then have "su_queue s @ over_run dispatched1 (e # es) b = received1 i e b @ su_queue s1 @ over_run dispatched1 es ?b"
      using q1 by (metis append_assoc over_run.simps(2))
    then show ?thesis using sub by (simp only: over_run.simps append_assoc subseq_append')
  qed
  moreover have "never_misses i (e # es) b \<longrightarrow>
      over_run (received1 i) (e # es) b @ su_queue s' = su_queue s @ over_run dispatched1 (e # es) b"
    using q1 eq by (metis append_assoc never_misses.simps(2) over_run.simps(2))
  ultimately show ?case using s' by auto
qed

text \<open>What waits for a subscriber.\<close>

definition waiting :: "nat \<Rightarrow> Bus \<Rightarrow> Message list" where
  "waiting i b = (case map_of (bu_subs b) i of None \<Rightarrow> [] | Some u \<Rightarrow> su_queue u)"

lemma bus_delivers:
  assumes "bus_ok b" and "map_of (bu_subs b) i = Some s" and "EvRemove i \<notin> set es" and "\<not> bu_panic (bus_run es b)"
  shows "bu_in b @ over_run produced1 es b = over_run dispatched1 es b @ bu_in (bus_run es b) \<and>
    subseq (over_run (received1 i) es b @ waiting i (bus_run es b)) (su_queue s @ over_run dispatched1 es b) \<and>
    (never_misses i es b \<longrightarrow>
      over_run (received1 i) es b @ waiting i (bus_run es b) = su_queue s @ over_run dispatched1 es b)"
  using bus_delivers_queue [OF assms] by (auto simp: waiting_def)

text \<open>A subscriber gets the messages dispatched since then in order, possibly with gaps, and without any
  gap if its buffer had room each time; the messages dispatched are the ones produced, in order. Other
  subscribers, slow or closing, have no influence unless the dispatcher panics.\<close>

theorem bus_delivers_in_order:
  assumes "bus_ok b" and "map_of (bu_subs b) i = Some s" and "EvRemove i \<notin> set es" and "\<not> bu_panic (bus_run es b)"
  shows "\<exists>s'. map_of (bu_subs (bus_run es b)) i = Some s' \<and>
    bu_in b @ over_run produced1 es b = over_run dispatched1 es b @ bu_in (bus_run es b) \<and>
    subseq (over_run (received1 i) es b @ su_queue s') (su_queue s @ over_run dispatched1 es b) \<and>
    (never_misses i es b \<longrightarrow>
      over_run (received1 i) es b @ su_queue s' = su_queue s @ over_run dispatched1 es b)"
  using assms by (rule bus_delivers_queue)

text \<open>A dispatch between the closing of a subscriber's channel and its removal panics.\<close>

lemma closing_subscriber_panics:
  "length (bu_in b) = 1 \<Longrightarrow> map_of (bu_subs b) i \<noteq> None \<Longrightarrow> \<not> bu_panic b \<Longrightarrow>
   bu_panic (bus_run [EvClose i, EvDispatch] b)"
proof -
  assume a: "length (bu_in b) = 1" "map_of (bu_subs b) i \<noteq> None" "\<not> bu_panic b"
  then obtain s where s: "map_of (bu_subs b) i = Some s" by auto
  have "map_of (bu_subs (close_chan i b)) i = Some (s\<lparr>su_closed := True\<rparr>)" by (simp add: close_chan_def s)
  from map_of_SomeD [OF this] have "list_ex (\<lambda>(i, s). su_closed s) (bu_subs (close_chan i b))"
    by (force simp: list_ex_iff)
  moreover from a(1) obtain m where "bu_in b = [m]" by (auto simp: length_Suc_conv)
  ultimately show ?thesis using a(3) by (simp add: bus_run_def dispatch_def close_chan_def)
qed

subsection \<open>Webhook and Telegram\<close>

text \<open>C32: a request without the configured token produces nothing and is answered 401; the message of an
  accepted one is always valid for the bus, comes from the webhook and carries the fields of the body.\<close>

theorem webhook_is_authorised:
  assumes "token \<noteq> []" and "now \<noteq> zero_time" and "webhook_handler token decode now r = (st, out)"
  shows "(TrimSpace (TrimPrefix (hr_Authorization r) ''Bearer '') \<noteq> token \<longrightarrow> st = 401 \<and> out = None) \<and>
    (st = 200 \<longleftrightarrow> out \<noteq> None) \<and>
    (\<forall>m. out = Some m \<longrightarrow> Produce m b \<noteq> Some (Inl e) \<and> mg_Source m = SourceWebhook \<and>
       decode (hr_Body r) = Inr \<lparr>wm_From = mg_From m, wm_Target = mg_Target m, wm_Text = mg_Text m\<rparr>)"
  using assms
  by (auto simp: webhook_handler_def authMiddleware_def bearer_ok_def hook_mux_def handleNotify_def Produce_def
      valid_Message_def valid_hook_def split: if_splits sum.splits)

function unescape :: "string \<Rightarrow> string" where
  "unescape s =
     (if HasPrefix s ''&amp;'' then CHR ''&'' # unescape (drop 5 s)
      else if HasPrefix s ''&lt;'' then CHR ''<'' # unescape (drop 4 s)
      else if HasPrefix s ''&gt;'' then CHR ''>'' # unescape (drop 4 s)
      else (case s of [] \<Rightarrow> [] | c # t \<Rightarrow> c # unescape t))"
  by pat_completeness auto
termination by (relation "measure length") (auto simp: HasPrefix_iff)

declare unescape.simps [simp del]

lemma html_Cons [simp]: "html (c # s) = html_char c @ html s"
  by (simp add: html_def)

lemma unescape_html [simp]: "unescape (html s) = s"
proof (induction s)
  case Nil
  then show ?case by (simp add: html_def unescape.simps [of "[]"] HasPrefix_iff)
next
  case (Cons c s)
  then show ?case
    by (subst unescape.simps) (simp add: HasPrefix_Cons)
qed

lemma html_no_tags: "CHR ''<'' \<notin> set (html s) \<and> CHR ''>'' \<notin> set (html s)"
  by (induction s) (simp_all add: html_def)

text \<open>With the built-in template Telegram gets, in every chat, a head that does not depend on the text
  followed by the text without any tag, and unescaping gives the text back; private messages go nowhere.\<close>

theorem telegram_shows_the_text:
  "tg_Post True chats (Inr \<circ> telegramDefaultTemplate) m =
     (if HasPrefix (mg_Target m) ''#''
      then map (\<lambda>c. (c, telegramDefaultTemplate (message_view (m\<lparr>mg_Text := []\<rparr>)) @ html (mg_Text m))) chats else []) \<and>
   CHR ''<'' \<notin> set (html (mg_Text m)) \<and> CHR ''>'' \<notin> set (html (mg_Text m)) \<and>
   unescape (html (mg_Text m)) = mg_Text m"
proof -
  have nil: "html [] = []" by (simp add: html_def)
  show ?thesis using html_no_tags [of "mg_Text m"]
    by (simp add: tg_Post_def rendered_def renderFormat_def telegramDefaultTemplate_def message_view_def nil)
qed

subsection \<open>Examples\<close>

definition ex_msg :: "string \<Rightarrow> Message" where
  "ex_msg t = \<lparr>mg_Source = ''webhook'', mg_Timestamp = 5, mg_Event = [], mg_From = ''ci'', mg_Target = ''#c'', mg_Text = t\<rparr>"

definition ex_events :: "bus_event list" where
  "ex_events = [EvProduce (ex_msg ''a''), EvDispatch, EvProduce (ex_msg ''b''), EvReceive 0, EvDispatch]"

theorem bus_delivers_in_order_example:
  "over_run (received1 0) ex_events (snd (Subscribe ''irc'' 1 (NewBus 4))) = [ex_msg ''a''] \<and>
   over_run dispatched1 ex_events (snd (Subscribe ''irc'' 1 (NewBus 4))) = [ex_msg ''a'', ex_msg ''b''] \<and>
   (\<exists>s'. map_of (bu_subs (bus_run ex_events (snd (Subscribe ''irc'' 1 (NewBus 4))))) 0 = Some s' \<and>
     su_queue s' = [ex_msg ''b''])"
proof -
  let ?b = "snd (Subscribe ''irc'' 1 (NewBus 4))"
  have 1: "bus_ok ?b" "map_of (bu_subs ?b) 0 = Some \<lparr>su_name = ''irc'', su_cap = 1, su_queue = [], su_closed = False\<rparr>"
    "EvRemove 0 \<notin> set ex_events"
    by (simp_all add: bus_ok_def Subscribe_def NewBus_def ex_events_def)
  have 2: "\<not> bu_panic (bus_run ex_events ?b)" "never_misses 0 ex_events ?b"
    "over_run (received1 0) ex_events ?b = [ex_msg ''a'']" "over_run dispatched1 ex_events ?b = [ex_msg ''a'', ex_msg ''b'']"
    by code_simp+
  from bus_delivers_in_order [OF 1 2(1)] 2 show ?thesis by auto
qed

theorem webhook_is_authorised_example:
  "webhook_handler ''secret'' (\<lambda>_. Inr \<lparr>wm_From = ''ci'', wm_Target = ''#c'', wm_Text = ''ok''\<rparr>) 5
     \<lparr>hr_Method = ''POST'', hr_Path = ''/webhook'', hr_ContentType = ''application/json; charset=utf-8'',
      hr_Authorization = ''Bearer wrong'', hr_Body = []\<rparr> = (401, None) \<and>
   webhook_handler ''secret'' (\<lambda>_. Inr \<lparr>wm_From = ''ci'', wm_Target = ''#c'', wm_Text = ''ok''\<rparr>) 5
     \<lparr>hr_Method = ''POST'', hr_Path = ''/webhook'', hr_ContentType = ''application/json; charset=utf-8'',
      hr_Authorization = ''Bearer secret'', hr_Body = []\<rparr> = (200, Some (ex_msg ''ok''))"
proof -
  let ?d = "\<lambda>_. Inr \<lparr>wm_From = ''ci'', wm_Target = ''#c'', wm_Text = ''ok''\<rparr>"
  let ?r = "\<lparr>hr_Method = ''POST'', hr_Path = ''/webhook'', hr_ContentType = ''application/json; charset=utf-8'',
      hr_Authorization = ''Bearer wrong'', hr_Body = []\<rparr>"
  obtain st out where w: "webhook_handler ''secret'' ?d 5 ?r = (st, out)" by fastforce
  have "(5 :: int) \<noteq> zero_time" by (simp add: zero_time_def second_def)
  moreover have "TrimSpace (TrimPrefix (hr_Authorization ?r) ''Bearer '') \<noteq> ''secret''" by code_simp
  ultimately have "st = 401" "out = None" using webhook_is_authorised [OF _ _ w] by blast+
  moreover have "webhook_handler ''secret'' ?d 5 (?r\<lparr>hr_Authorization := ''Bearer secret''\<rparr>) = (200, Some (ex_msg ''ok''))"
    by code_simp
  ultimately show ?thesis using w by simp
qed

end
