(* ===== verification/BotLog.thy ===== *)
theory BotLog
  imports Files BotBus
begin

text \<open>
  The channel logs of the bot: \<open>log.go\<close>. A file is named by its channel and its day; the store keeps, for
  each channel, the day of its open file and the bytes not yet written to it. The lock makes every
  operation atomic; \<open>encoding/json\<close> and the success of opening a file are parameters.
\<close>

subsection \<open>Records and the store\<close>

record LogRecord =
  lr_Timestamp :: instant
  lr_Type :: string
  lr_Channel :: string
  lr_Nick :: string
  lr_User :: string
  lr_Host :: string
  lr_Target :: string
  lr_Text :: string
  lr_From :: string
  lr_To :: string
  lr_Modes :: string
  lr_Targets :: "string list"
  lr_Self :: bool

record channelLog =
  cl_day :: string
  cl_buf :: string

record LogStore =
  st_writers :: "string \<rightharpoonup> channelLog"
  st_closed :: bool
  st_files :: "string \<times> string \<rightharpoonup> string"

definition NewLogStore :: "(string \<times> string \<rightharpoonup> string) \<Rightarrow> LogStore" where
  "NewLogStore files = \<lparr>st_writers = Map.empty, st_closed = False, st_files = files\<rparr>"

text \<open>\<open>open\<close>, \<open>closeLocked\<close> and the flush of one writer.\<close>

definition open_log :: "bool \<Rightarrow> string \<Rightarrow> string \<Rightarrow> LogStore \<Rightarrow> channelLog option \<times> LogStore" where
  "open_log ok ch day s =
     (if \<not> ok then (None, s)
      else (Some \<lparr>cl_day = day, cl_buf = []\<rparr>,
            s\<lparr>st_files := (st_files s)((ch, day) \<mapsto> (case st_files s (ch, day) of None \<Rightarrow> [] | Some c \<Rightarrow> c))\<rparr>))"

definition append_log :: "string \<Rightarrow> string \<Rightarrow> string \<Rightarrow> LogStore \<Rightarrow> LogStore" where
  "append_log ch day t s =
     s\<lparr>st_files := (case st_files s (ch, day) of
         None \<Rightarrow> st_files s | Some c \<Rightarrow> (st_files s)((ch, day) \<mapsto> c @ t))\<rparr>"

definition closeLocked :: "string \<Rightarrow> channelLog \<Rightarrow> LogStore \<Rightarrow> LogStore" where
  "closeLocked ch cl s =
     (append_log ch (cl_day cl) (cl_buf cl) s)\<lparr>st_writers := (st_writers s)(ch := None)\<rparr>"

text \<open>\<open>Record\<close> with the clock and the answer of the file system.\<close>

definition stamped :: "instant \<Rightarrow> LogRecord \<Rightarrow> LogRecord" where
  "stamped now r = (if lr_Timestamp r = zero_time then r\<lparr>lr_Timestamp := now\<rparr> else r)"

definition write_line :: "string \<Rightarrow> channelLog \<Rightarrow> string \<Rightarrow> LogStore \<Rightarrow> LogStore" where
  "write_line ch cl b s =
     (case bufio_write (cl_buf cl) b of
        (out, buf) \<Rightarrow>
          (append_log ch (cl_day cl) out s)\<lparr>st_writers := (st_writers s)(ch \<mapsto> cl\<lparr>cl_buf := buf\<rparr>)\<rparr>)"

definition log_record :: "(LogRecord \<Rightarrow> string option) \<Rightarrow> instant \<Rightarrow> bool \<Rightarrow> LogRecord \<Rightarrow> LogStore \<Rightarrow> LogStore" where
  "log_record marshal now ok r0 s =
     (if lr_Channel r0 = [] \<or> lr_Type r0 = [] then s
      else
        (let r = stamped now r0; ch = lr_Channel r
         in case marshal r of
              None \<Rightarrow> s
            | Some b0 \<Rightarrow>
                (let b = b0 @ [CHR 0x0A]; day = format_date (lr_Timestamp r)
                 in if st_closed s then s
                    else
                      (case st_writers s ch of
                         Some cl \<Rightarrow>
                           if cl_day cl = day then write_line ch cl b s
                           else
                             (case open_log ok ch day (closeLocked ch cl s) of
                                (None, s1) \<Rightarrow> s1
                              | (Some cl1, s1) \<Rightarrow> write_line ch cl1 b s1)
                       | None \<Rightarrow>
                           (case open_log ok ch day s of
                              (None, s1) \<Rightarrow> s1
                            | (Some cl1, s1) \<Rightarrow> write_line ch cl1 b s1)))))"

text \<open>A tick of \<open>flushLoop\<close>, and \<open>Stop\<close>: every open file gets its pending bytes.\<close>

definition flushed_files :: "LogStore \<Rightarrow> (string \<times> string \<rightharpoonup> string)" where
  "flushed_files s =
     (\<lambda>(ch, day). case st_writers s ch of
        Some cl \<Rightarrow> (if cl_day cl = day then map_option (\<lambda>c. c @ cl_buf cl) (st_files s (ch, day)) else st_files s (ch, day))
      | None \<Rightarrow> st_files s (ch, day))"

definition flush_logs :: "LogStore \<Rightarrow> LogStore" where
  "flush_logs s =
     s\<lparr>st_files := flushed_files s,
       st_writers := (\<lambda>ch. map_option (\<lambda>cl. cl\<lparr>cl_buf := []\<rparr>) (st_writers s ch))\<rparr>"

definition stop_logs :: "LogStore \<Rightarrow> LogStore" where
  "stop_logs s = s\<lparr>st_files := flushed_files s, st_writers := Map.empty, st_closed := True\<rparr>"

datatype log_store_event = RecordAt instant bool LogRecord | FlushTick

fun log_store_step :: "(LogRecord \<Rightarrow> string option) \<Rightarrow> log_store_event \<Rightarrow> LogStore \<Rightarrow> LogStore" where
  "log_store_step marshal (RecordAt now ok r) s = log_record marshal now ok r s"
| "log_store_step marshal FlushTick s = flush_logs s"

subsection \<open>Every record is in the file of its channel and day\<close>

text \<open>The line a record becomes, and whether the store keeps it: its file is open or can be opened.\<close>

definition line_of :: "(LogRecord \<Rightarrow> string option) \<Rightarrow> instant \<Rightarrow> LogRecord \<Rightarrow> string option" where
  "line_of marshal now r =
     (if lr_Channel r = [] \<or> lr_Type r = [] then None
      else map_option (\<lambda>b. b @ [CHR 0x0A]) (marshal (stamped now r)))"

definition file_of :: "instant \<Rightarrow> LogRecord \<Rightarrow> string \<times> string" where
  "file_of now r = (lr_Channel r, format_date (lr_Timestamp (stamped now r)))"

definition is_open :: "LogStore \<Rightarrow> string \<times> string \<Rightarrow> bool" where
  "is_open s k \<longleftrightarrow> (case st_writers s (fst k) of None \<Rightarrow> False | Some cl \<Rightarrow> cl_day cl = snd k)"

text \<open>The text kept for a file by an event.\<close>

fun kept :: "(LogRecord \<Rightarrow> string option) \<Rightarrow> string \<times> string \<Rightarrow> log_store_event \<Rightarrow> LogStore \<Rightarrow> string option" where
  "kept marshal k (RecordAt now ok r) s =
     (if k = file_of now r \<and> (ok \<or> is_open s k) then line_of marshal now r else None)"
| "kept marshal k FlushTick s = None"

fun kept_all :: "(LogRecord \<Rightarrow> string option) \<Rightarrow> string \<times> string \<Rightarrow> log_store_event list \<Rightarrow> LogStore \<Rightarrow> string list" where
  "kept_all marshal k [] s = []"
| "kept_all marshal k (e # es) s =
     (case kept marshal k e s of None \<Rightarrow> [] | Some t \<Rightarrow> [t]) @ kept_all marshal k es (log_store_step marshal e s)"

definition store_ok :: "LogStore \<Rightarrow> bool" where
  "store_ok s \<longleftrightarrow> \<not> st_closed s \<and> (\<forall>k. is_open s k \<longrightarrow> st_files s k \<noteq> None)"

lemma flushed_at [simp]:
  "st_writers s ch = None \<Longrightarrow> flushed_files s (ch, day) = st_files s (ch, day)"
  "st_writers s ch = Some cl \<Longrightarrow> flushed_files s (ch, day) =
     (if cl_day cl = day then map_option (\<lambda>c. c @ cl_buf cl) (st_files s (ch, day)) else st_files s (ch, day))"
  by (simp_all add: flushed_files_def)

lemma files_eqI: "(\<And>a b. f (a, b) = g (a, b)) \<Longrightarrow> f = g"
  by (rule ext) auto

text \<open>Opening a file changes no contents but that it makes the file; closing one moves its pending bytes.\<close>

lemma stamped_channel [simp]: "lr_Channel (stamped now r) = lr_Channel r"
  by (simp add: stamped_def)

lemma closeLocked_files:
  assumes "store_ok s" and "st_writers s ch = Some cl"
  shows "flushed_files (closeLocked ch cl s) = flushed_files s" and "store_ok (closeLocked ch cl s)"
    and "st_writers (closeLocked ch cl s) ch = None" and "\<not> is_open (closeLocked ch cl s) (ch, day)"
proof -
  have "is_open s (ch, cl_day cl)" using assms(2) by (simp add: is_open_def)
  then obtain c where c: "st_files s (ch, cl_day cl) = Some c" using assms(1) by (auto simp: store_ok_def)
  show "flushed_files (closeLocked ch cl s) = flushed_files s"
  proof (rule files_eqI)
    fix a b
    show "flushed_files (closeLocked ch cl s) (a, b) = flushed_files s (a, b)"
      by (cases "st_writers s a"; cases "a = ch") (use assms(2) c in \<open>auto simp: closeLocked_def append_log_def\<close>)
  qed
  show "store_ok (closeLocked ch cl s)"
    using assms(1) by (auto simp: store_ok_def closeLocked_def append_log_def is_open_def c split: option.splits if_splits)
  show "st_writers (closeLocked ch cl s) ch = None" "\<not> is_open (closeLocked ch cl s) (ch, day)"
    by (simp_all add: closeLocked_def append_log_def is_open_def)
qed

lemma write_line_files:
  assumes "store_ok s" and "st_writers s ch = Some cl \<or> st_writers s ch = None \<and> cl_buf cl = []"
    and "st_files s (ch, cl_day cl) = Some c"
  shows "flushed_files (write_line ch cl b s) =
      (flushed_files s)((ch, cl_day cl) \<mapsto> c @ cl_buf cl @ b)" and "store_ok (write_line ch cl b s)"
proof -
  obtain out buf where w: "bufio_write (cl_buf cl) b = (out, buf)" by (cases "bufio_write (cl_buf cl) b")
  then have keep: "out @ buf = cl_buf cl @ b" using bufio_write_keeps [of "cl_buf cl" b] by simp
  have wl: "write_line ch cl b s =
      (append_log ch (cl_day cl) out s)\<lparr>st_writers := (st_writers s)(ch \<mapsto> cl\<lparr>cl_buf := buf\<rparr>)\<rparr>"
    by (simp add: write_line_def w)
  show "flushed_files (write_line ch cl b s) = (flushed_files s)((ch, cl_day cl) \<mapsto> c @ cl_buf cl @ b)"
  proof (rule files_eqI)
    fix x y
    show "flushed_files (write_line ch cl b s) (x, y) = ((flushed_files s)((ch, cl_day cl) \<mapsto> c @ cl_buf cl @ b)) (x, y)"
      by (cases "st_writers s x"; cases "x = ch") (use assms(2) keep in \<open>auto simp: wl append_log_def assms(3)\<close>)
  qed
  show "store_ok (write_line ch cl b s)"
    using assms(1) by (auto simp: store_ok_def wl append_log_def is_open_def assms(3)
      split: option.splits if_splits)
qed

lemma open_write_files:
  assumes "store_ok s" and "st_writers s ch = None"
  obtains "\<not> ok" "open_log ok ch day s = (None, s)"
  | cl s1 where "ok" "open_log ok ch day s = (Some cl, s1)" "store_ok (write_line ch cl b s1)"
      "flushed_files (write_line ch cl b s1) =
         (flushed_files s)((ch, day) \<mapsto> (case flushed_files s (ch, day) of None \<Rightarrow> [] | Some c \<Rightarrow> c) @ b)"
proof (cases ok)
  case True
  let ?s = "snd (open_log True ch day s)" and ?cl = "\<lparr>cl_day = day, cl_buf = []\<rparr>"
  have ok1: "store_ok ?s" using assms(1) by (auto simp: store_ok_def open_log_def is_open_def)
  have c: "st_files ?s (ch, cl_day ?cl) = Some (case st_files s (ch, day) of None \<Rightarrow> [] | Some c \<Rightarrow> c)"
    by (simp add: open_log_def)
  have w: "st_writers ?s ch = Some ?cl \<or> st_writers ?s ch = None \<and> cl_buf ?cl = []"
    using assms(2) by (simp add: open_log_def)
  have f: "(flushed_files ?s)((ch, day) := x) = (flushed_files s)((ch, day) := x)" for x
  proof (rule files_eqI)
    fix x' y'
    show "((flushed_files ?s)((ch, day) := x)) (x', y') = ((flushed_files s)((ch, day) := x)) (x', y')"
      by (cases "st_writers s x'") (simp_all add: open_log_def)
  qed
  have "open_log ok ch day s = (Some ?cl, ?s)" using True by (simp add: open_log_def)
  moreover note write_line_files(2) [OF ok1 w c, of b]
  moreover have "flushed_files (write_line ch ?cl b ?s) =
         (flushed_files s)((ch, day) \<mapsto> (case flushed_files s (ch, day) of None \<Rightarrow> [] | Some c \<Rightarrow> c) @ b)"
    unfolding write_line_files(1) [OF ok1 w c, of b] using assms(2) f by simp
  ultimately show ?thesis using that(2) True by blast
qed (use that(1) in \<open>simp add: open_log_def\<close>)

lemma log_record_files:
  assumes "store_ok s"
  shows "store_ok (log_record marshal now ok r s) \<and>
    flushed_files (log_record marshal now ok r s) =
      (case kept marshal (file_of now r) (RecordAt now ok r) s of
         None \<Rightarrow> flushed_files s
       | Some b \<Rightarrow> (flushed_files s)(file_of now r \<mapsto>
           (case flushed_files s (file_of now r) of None \<Rightarrow> [] | Some c \<Rightarrow> c) @ b))"
proof (cases "line_of marshal now r")
  case None
  then show ?thesis using assms by (auto simp: log_record_def line_of_def Let_def)
next
  case (Some b)
  then obtain b0 where b0: "lr_Channel r \<noteq> []" "lr_Type r \<noteq> []" "marshal (stamped now r) = Some b0" "b = b0 @ [CHR 0x0A]"
    by (auto simp: line_of_def split: if_splits)
  let ?ch = "lr_Channel r" and ?day = "format_date (lr_Timestamp (stamped now r))"
  have nc: "\<not> st_closed s" using assms by (simp add: store_ok_def)
  have lr: "log_record marshal now ok r s =
      (case st_writers s ?ch of
         Some cl \<Rightarrow>
           if cl_day cl = ?day then write_line ?ch cl b s
           else (case open_log ok ?ch ?day (closeLocked ?ch cl s) of (None, s1) \<Rightarrow> s1 | (Some cl1, s1) \<Rightarrow> write_line ?ch cl1 b s1)
       | None \<Rightarrow> (case open_log ok ?ch ?day s of (None, s1) \<Rightarrow> s1 | (Some cl1, s1) \<Rightarrow> write_line ?ch cl1 b s1))"
    unfolding log_record_def Let_def stamped_channel b0(4) using b0(1-3) nc by simp
  show ?thesis
  proof (cases "st_writers s ?ch")
    case None
    then have no: "\<not> is_open s (file_of now r)" by (simp add: is_open_def file_of_def)
    have k: "file_of now r = (?ch, ?day)" by (simp add: file_of_def)
    show ?thesis
    proof (cases rule: open_write_files [OF assms None, where ok = ok and day = ?day and b = b])
      case 1
      then show ?thesis unfolding lr using None no Some assms k by simp
    next
      case (2 cl s1)
      then show ?thesis unfolding lr using None Some k by simp
    qed
  next
    case w: (Some cl)
    show ?thesis
    proof (cases "cl_day cl = ?day")
      case True
      then have o: "is_open s (file_of now r)" using w by (simp add: is_open_def file_of_def)
      then obtain c where c: "st_files s (?ch, cl_day cl) = Some c"
        using assms True by (auto simp: store_ok_def file_of_def)
      have f: "flushed_files s (?ch, ?day) = Some (c @ cl_buf cl)" using w c True by simp
      have k: "file_of now r = (?ch, cl_day cl)" using True by (simp add: file_of_def)
      show ?thesis using write_line_files [OF assms _ c, of b] w f True o Some
        by (simp add: lr k)
    next
      case False
      then have no: "\<not> is_open s (file_of now r)" using w by (simp add: is_open_def file_of_def)
      note cl = closeLocked_files [OF assms w]
      have k: "file_of now r = (?ch, ?day)" by (simp add: file_of_def)
      show ?thesis
      proof (cases rule: open_write_files [OF cl(2) cl(3), where ok = ok and day = ?day and b = b])
        case 1
        then show ?thesis unfolding lr using w False no Some cl(1,2) k by simp
      next
        case (2 cl1 s1)
        then show ?thesis unfolding lr using w False Some cl(1) k by simp
      qed
    qed
  qed
qed

lemma log_store_step_files:
  assumes "store_ok s"
  shows "store_ok (log_store_step marshal e s)" and
    "flushed_files (log_store_step marshal e s) k =
      (case kept marshal k e s of
         None \<Rightarrow> flushed_files s k
       | Some b \<Rightarrow> Some ((case flushed_files s k of None \<Rightarrow> [] | Some c \<Rightarrow> c) @ b))"
proof -
  show "store_ok (log_store_step marshal e s)"
  proof (cases e)
    case FlushTick
    then show ?thesis using assms
      by (auto simp: store_ok_def flush_logs_def is_open_def flushed_files_def split: option.splits)
  qed (use log_record_files [OF assms] in simp)
  show "flushed_files (log_store_step marshal e s) k =
      (case kept marshal k e s of
         None \<Rightarrow> flushed_files s k
       | Some b \<Rightarrow> Some ((case flushed_files s k of None \<Rightarrow> [] | Some c \<Rightarrow> c) @ b))"
  proof (cases e)
    case FlushTick
    then show ?thesis by (cases k) (auto simp: flush_logs_def flushed_files_def option.map_comp comp_def split: option.split)
  next
    case (RecordAt now ok r)
    then show ?thesis using log_record_files [OF assms, of marshal now ok r]
      by (cases "k = file_of now r") (auto split: option.split)
  qed
qed

text \<open>C25: after \<open>Stop\<close> the file of a channel and day holds what it held before followed by the lines of the
  records of that channel and day, in order; nothing is missing or in another file, except records whose
  file could not be opened.\<close>

theorem channel_log_holds_every_record:
  assumes "store_ok s"
  shows "st_files (stop_logs (fold (log_store_step marshal) es s)) k =
    (if kept_all marshal k es s = [] then flushed_files s k
     else Some ((case flushed_files s k of None \<Rightarrow> [] | Some c \<Rightarrow> c) @ concat (kept_all marshal k es s)))"
  using assms
proof (induction es arbitrary: s)
  case Nil
  then show ?case by (simp add: stop_logs_def)
next
  case (Cons e es)
  from Cons.IH [OF log_store_step_files(1) [OF Cons.prems]] log_store_step_files(2) [OF Cons.prems, of marshal e k]
  show ?case by (cases "kept marshal k e s") simp_all
qed

definition ex_record :: "instant \<Rightarrow> string \<Rightarrow> LogRecord" where
  "ex_record t x = \<lparr>lr_Timestamp = t, lr_Type = ''message'', lr_Channel = ''#c'', lr_Nick = [], lr_User = [], lr_Host = [],
     lr_Target = [], lr_Text = x, lr_From = [], lr_To = [], lr_Modes = [], lr_Targets = [], lr_Self = False\<rparr>"

definition ex_log_events :: "log_store_event list" where
  "ex_log_events = [RecordAt 0 True (ex_record 5 ''a''), FlushTick, RecordAt 0 False (ex_record 6 ''b'')]"

definition ex_log_store :: LogStore where
  "ex_log_store = NewLogStore [(''#c'', ''1970-01-01'') \<mapsto> ''old '']"

theorem channel_log_holds_every_record_example:
  "st_files (stop_logs (fold (log_store_step (\<lambda>r. Some (lr_Text r))) ex_log_events ex_log_store)) (''#c'', ''1970-01-01'') =
     Some (''old a'' @ [CHR 0x0A] @ ''b'' @ [CHR 0x0A])"
proof -
  have ok: "store_ok ex_log_store" by (simp add: store_ok_def ex_log_store_def NewLogStore_def is_open_def)
  have k: "kept_all (\<lambda>r. Some (lr_Text r)) (''#c'', ''1970-01-01'') ex_log_events ex_log_store =
      [''a'' @ [CHR 0x0A], ''b'' @ [CHR 0x0A]]" by code_simp
  have f: "flushed_files ex_log_store (''#c'', ''1970-01-01'') = Some ''old ''"
    by (simp add: flushed_files_def ex_log_store_def NewLogStore_def)
  show ?thesis unfolding channel_log_holds_every_record [OF ok] k f by simp
qed

end
