(* ===== verification/TtlCache.thy ===== *)
theory TtlCache
  imports Prelude
begin

text \<open>
  The TTL cache of the bot: \<open>ttlcache/ttlcache.go\<close>. Times are nanoseconds; every operation takes the
  reading of the clock that the code makes under the lock. The eviction callbacks of an operation are
  returned as the list of the pairs they get. The item pool only recycles memory and is left out.
  Readings stay below \<open>2 ^ 63\<close> nanoseconds (the year 2262), so they are not wrapped.
\<close>

subsection \<open>The cache\<close>

definition DefaultTTL :: int where "DefaultTTL = 0"
definition NoTTL :: int where "NoTTL = -1"
definition defaultInterval :: int where "defaultInterval = 5 * 10 ^ 9"

record 'v cacheItem =
  it_value :: 'v
  it_expireAt :: int

definition isExpired :: "int \<Rightarrow> 'v cacheItem \<Rightarrow> bool" where
  "isExpired now i \<longleftrightarrow> it_expireAt i > 0 \<and> it_expireAt i < now"

record 'v Cache =
  ca_items :: "string \<rightharpoonup> 'v cacheItem"
  ca_defaultTTL :: int

text \<open>The cleanup interval \<open>New\<close> settles on.\<close>

definition clean_interval :: "int \<Rightarrow> int \<Rightarrow> int" where
  "clean_interval defaultTTL interval =
     (if interval = 0 then
        (let i = quot defaultTTL 2 in if i = 0 then defaultInterval else i)
      else interval)"

definition New_cache :: "int \<Rightarrow> int \<Rightarrow> 'v Cache \<times> int" where
  "New_cache defaultTTL interval =
     (\<lparr>ca_items = Map.empty, ca_defaultTTL = defaultTTL\<rparr>, clean_interval defaultTTL interval)"

definition getExpireAt :: "'v Cache \<Rightarrow> int \<Rightarrow> int \<Rightarrow> int" where
  "getExpireAt c now ttl0 =
     (if ttl0 < 0 then NoTTL
      else (let ttl = (if ttl0 = DefaultTTL then ca_defaultTTL c else ttl0) in now + ttl))"

definition store_item :: "string \<Rightarrow> 'v \<Rightarrow> int \<Rightarrow> 'v Cache \<Rightarrow> 'v Cache" where
  "store_item key v e c = c\<lparr>ca_items := (ca_items c)(key \<mapsto> \<lparr>it_value = v, it_expireAt = e\<rparr>)\<rparr>"

text \<open>\<open>Add\<close> answers whether it failed with \<open>ErrKeyExists\<close>.\<close>

definition Add :: "int \<Rightarrow> string \<Rightarrow> 'v \<Rightarrow> int \<Rightarrow> 'v Cache \<Rightarrow> bool \<times> 'v Cache" where
  "Add now key v ttl c =
     (case ca_items c key of
        Some item \<Rightarrow>
          if \<not> isExpired now item then (True, c) else (False, store_item key v (getExpireAt c now ttl) c)
      | None \<Rightarrow> (False, store_item key v (getExpireAt c now ttl) c))"

definition Set_item :: "int \<Rightarrow> string \<Rightarrow> 'v \<Rightarrow> int \<Rightarrow> 'v Cache \<Rightarrow> 'v Cache" where
  "Set_item now key v ttl c = store_item key v (getExpireAt c now ttl) c"

definition Get_item :: "int \<Rightarrow> string \<Rightarrow> 'v Cache \<Rightarrow> 'v option" where
  "Get_item now key c =
     (case ca_items c key of
        None \<Rightarrow> None
      | Some item \<Rightarrow> if isExpired now item then None else Some (it_value item))"

definition Pop :: "int \<Rightarrow> string \<Rightarrow> 'v Cache \<Rightarrow> 'v option \<times> 'v Cache" where
  "Pop now key c =
     (case ca_items c key of
        None \<Rightarrow> (None, c)
      | Some item \<Rightarrow>
          (if isExpired now item then None else Some (it_value item), c\<lparr>ca_items := (ca_items c)(key := None)\<rparr>))"

definition Delete_item :: "string \<Rightarrow> 'v Cache \<Rightarrow> (string \<times> 'v) list \<times> 'v Cache" where
  "Delete_item key c =
     (case ca_items c key of
        None \<Rightarrow> ([], c)
      | Some item \<Rightarrow> ([(key, it_value item)], c\<lparr>ca_items := (ca_items c)(key := None)\<rparr>))"

text \<open>One round of \<open>clean\<close>; its callbacks run over the evicted items in the order of the map's iteration,
  of which only the set is fixed.\<close>

definition clean :: "int \<Rightarrow> 'v Cache \<Rightarrow> (string \<times> 'v) set \<times> 'v Cache" where
  "clean now c =
     ({(k, v). \<exists>i. ca_items c k = Some i \<and> isExpired now i \<and> v = it_value i},
      c\<lparr>ca_items := (\<lambda>k. case ca_items c k of
          None \<Rightarrow> None | Some i \<Rightarrow> if isExpired now i then None else Some i)\<rparr>)"

subsection \<open>Clients and the cleaner\<close>

datatype 'v cache_op =
    OpAdd string 'v int
  | OpSet string 'v int
  | OpGet string
  | OpPop string
  | OpDelete string
  | OpClean

datatype 'v cache_answer = AddFailed bool | Found "'v option" | Done

fun cache_step :: "int \<Rightarrow> 'v cache_op \<Rightarrow> 'v Cache \<Rightarrow> 'v cache_answer \<times> 'v Cache" where
  "cache_step now (OpAdd k v ttl) c = map_prod AddFailed id (Add now k v ttl c)"
| "cache_step now (OpSet k v ttl) c = (Done, Set_item now k v ttl c)"
| "cache_step now (OpGet k) c = (Found (Get_item now k c), c)"
| "cache_step now (OpPop k) c = map_prod Found id (Pop now k c)"
| "cache_step now (OpDelete k) c = (Done, snd (Delete_item k c))"
| "cache_step now OpClean c = (Done, snd (clean now c))"

text \<open>The answers the clients get in a run; the cleaner's rounds answer nobody.\<close>

fun cache_run :: "(int \<times> 'v cache_op) list \<Rightarrow> 'v Cache \<Rightarrow> 'v cache_answer list" where
  "cache_run [] c = []"
| "cache_run ((now, op) # ops) c =
     (case cache_step now op c of (a, c') \<Rightarrow> (if op = OpClean then [] else [a]) @ cache_run ops c')"

fun cache_after :: "(int \<times> 'v cache_op) list \<Rightarrow> 'v Cache \<Rightarrow> 'v Cache" where
  "cache_after [] c = c"
| "cache_after ((now, op) # ops) c = cache_after ops (snd (cache_step now op c))"

subsection \<open>What is visible\<close>

lemma isExpired_mono: "isExpired now i \<Longrightarrow> now \<le> t \<Longrightarrow> isExpired t i"
  by (auto simp: isExpired_def)

text \<open>\<open>d\<close> holds what \<open>c\<close> holds and, besides, only what is expired at \<open>now\<close>.\<close>

definition lags :: "int \<Rightarrow> 'v Cache \<Rightarrow> 'v Cache \<Rightarrow> bool" where
  "lags now c d \<longleftrightarrow> ca_defaultTTL c = ca_defaultTTL d \<and>
     (\<forall>k. ca_items c k = ca_items d k \<or> ca_items c k = None \<and> (\<exists>i. ca_items d k = Some i \<and> isExpired now i))"

lemma lags_refl [simp]: "lags now c c"
  by (simp add: lags_def)

lemma lags_mono: "lags now c d \<Longrightarrow> now \<le> t \<Longrightarrow> lags t c d"
  unfolding lags_def using isExpired_mono by blast

lemma lags_step:
  assumes "lags now c d" and "op \<noteq> OpClean"
  shows "fst (cache_step now op c) = fst (cache_step now op d)"
    and "lags now (snd (cache_step now op c)) (snd (cache_step now op d))"
proof -
  have k: "ca_items c k = ca_items d k \<or> ca_items c k = None \<and> (\<exists>i. ca_items d k = Some i \<and> isExpired now i)" for k
    using assms(1) by (simp add: lags_def)
  have e: "getExpireAt c now ttl = getExpireAt d now ttl" for ttl
    using assms(1) by (simp add: lags_def getExpireAt_def)
  have s: "lags now (store_item key v x c) (store_item key v x d)" for key v x
    using assms(1) by (simp add: lags_def store_item_def)
  have r: "lags now (c\<lparr>ca_items := (ca_items c)(key := None)\<rparr>) (d\<lparr>ca_items := (ca_items d)(key := None)\<rparr>)" for key
    using assms(1) by (simp add: lags_def)
  have r1: "lags now c (d\<lparr>ca_items := (ca_items d)(key := None)\<rparr>)" if "ca_items c key = None" for key
    using assms(1) that by (auto simp: lags_def)
  show "fst (cache_step now op c) = fst (cache_step now op d)"
  proof (cases op)
    case (OpAdd key v ttl)
    with k [of key] show ?thesis by (cases "ca_items d key") (auto simp: Add_def)
  next
    case (OpGet key)
    with k [of key] show ?thesis by (cases "ca_items d key") (auto simp: Get_item_def)
  next
    case (OpPop key)
    with k [of key] show ?thesis by (cases "ca_items d key") (auto simp: Pop_def)
  qed (use assms(2) in simp_all)
  show "lags now (snd (cache_step now op c)) (snd (cache_step now op d))"
  proof (cases op)
    case (OpAdd key v ttl)
    with k [of key] assms(1) s show ?thesis by (auto simp: Add_def e split: option.split)
  next
    case (OpPop key)
    with k [of key] assms(1) r r1 show ?thesis by (auto simp: Pop_def split: option.split)
  next
    case (OpDelete key)
    with k [of key] assms(1) r r1 show ?thesis by (auto simp: Delete_item_def split: option.split)
  qed (use assms s e in \<open>simp_all add: Set_item_def\<close>)
qed

lemma lags_clean: "lags now c d \<Longrightarrow> lags now (snd (clean now c)) d"
  unfolding lags_def clean_def by (auto split: option.split) (metis option.inject option.distinct(1))+

lemma lags_run:
  "lags now c d \<Longrightarrow> sorted (map fst ops) \<Longrightarrow> (\<forall>x\<in>set ops. now \<le> fst x) \<Longrightarrow>
   cache_run ops c = cache_run (filter (\<lambda>x. snd x \<noteq> OpClean) ops) d"
proof (induction ops arbitrary: now c d)
  case (Cons x ops)
  obtain t op where x: "x = (t, op)" by (cases x)
  with Cons.prems have l: "lags t c d" by (auto intro: lags_mono)
  have rec: "cache_run ops c' = cache_run (filter (\<lambda>x. snd x \<noteq> OpClean) ops) d'" if "lags t c' d'" for c' d'
    by (rule Cons.IH [OF that]) (use Cons.prems x in auto)
  show ?case
  proof (cases "op = OpClean")
    case True
    with x rec [OF lags_clean [OF l]] show ?thesis by (simp add: split: prod.split)
  next
    case False
    with lags_step [OF l False] rec [of "snd (cache_step t op c)" "snd (cache_step t op d)"] x
    show ?thesis by (auto split: prod.split)
  qed
qed simp

text \<open>When the clock does not run backwards, the answers of \<open>Add\<close>, \<open>Get\<close> and \<open>Pop\<close> in any run are
  those of the same run without its cleanup rounds: the cleaner only frees memory.\<close>

theorem cleaning_is_invisible:
  assumes "sorted (map fst ops)"
  shows "cache_run ops c = cache_run (filter (\<lambda>x. snd x \<noteq> OpClean) ops) c"
proof (cases ops)
  case (Cons x xs)
  with assms have "\<forall>y\<in>set ops. fst x \<le> fst y" by auto
  with assms show ?thesis by (intro lags_run [of "fst x"]) simp_all
qed simp

definition ex_ops :: "(int \<times> nat cache_op) list" where
  "ex_ops = [(1, OpAdd ''a'' 7 10), (5, OpClean), (11, OpGet ''a''), (12, OpClean), (12, OpAdd ''a'' 8 0)]"

theorem cleaning_is_invisible_example:
  "cache_run ex_ops (fst (New_cache 3 0)) = [AddFailed False, Found (Some 7), AddFailed False]"
proof -
  have s: "sorted (map fst ex_ops)" by (simp add: ex_ops_def)
  have "cache_run (filter (\<lambda>x. snd x \<noteq> OpClean) ex_ops) (fst (New_cache 3 0)) =
      [AddFailed False, Found (Some 7), AddFailed False]"
    by (simp add: ex_ops_def New_cache_def Add_def Get_item_def store_item_def getExpireAt_def isExpired_def
        DefaultTTL_def)
  with cleaning_is_invisible [OF s] show ?thesis by simp
qed

subsection \<open>Lifetime\<close>

text \<open>An entry that is not expired at a time survives every operation up to then but \<open>Set\<close>, \<open>Pop\<close> and
  \<open>Delete\<close> of its key.\<close>

definition keeps :: "string \<Rightarrow> 'v cache_op \<Rightarrow> bool" where
  "keeps key op \<longleftrightarrow> (case op of OpSet k _ _ \<Rightarrow> k \<noteq> key | OpPop k \<Rightarrow> k \<noteq> key | OpDelete k \<Rightarrow> k \<noteq> key | _ \<Rightarrow> True)"

lemma step_survives:
  assumes "ca_items c key = Some i" and "\<not> isExpired t i" and "now \<le> t" and "keeps key op"
  shows "ca_items (snd (cache_step now op c)) key = Some i"
proof -
  have "\<not> isExpired now i" using assms(2,3) isExpired_mono by blast
  with assms(1,4) show ?thesis
    by (cases op) (auto simp: keeps_def Add_def Set_item_def Pop_def Delete_item_def clean_def store_item_def
        split: option.split)
qed

lemma run_survives:
  "ca_items c key = Some i \<Longrightarrow> \<not> isExpired t i \<Longrightarrow> (\<forall>x\<in>set ops. fst x \<le> t \<and> keeps key (snd x)) \<Longrightarrow>
   ca_items (cache_after ops c) key = Some i"
  by (induction ops arbitrary: c) (auto simp: step_survives)

lemma Add_new:
  "Add now key v ttl c = (False, c') \<Longrightarrow>
   ca_items c' key = Some \<lparr>it_value = v, it_expireAt = getExpireAt c now ttl\<rparr>"
  by (auto simp: Add_def store_item_def split: option.splits if_splits)

lemma cache_step_ttl [simp]: "ca_defaultTTL (snd (cache_step now op c)) = ca_defaultTTL c"
  by (cases op) (auto simp: Add_def Set_item_def Pop_def Delete_item_def clean_def store_item_def split: option.split)

text \<open>A value added with a time to live can be got back until exactly that much time has passed, and
  no longer, whatever else is done to other keys, with this key's \<open>Add\<close> or by the cleaner; a value
  without one stays until it is replaced or removed.\<close>

theorem added_value_lives_its_time:
  assumes "Add now key v ttl c = (False, c')" and "0 < now"
    and "\<forall>x\<in>set ops. fst x \<le> t \<and> keeps key (snd x)" and "now \<le> t"
  shows "(ttl < 0 \<longrightarrow> Get_item t key (cache_after ops c') = Some v) \<and>
    (0 < ttl \<longrightarrow> t \<le> now + ttl \<longrightarrow> Get_item t key (cache_after ops c') = Some v) \<and>
    (0 < ttl \<longrightarrow> now + ttl < t \<longrightarrow> Get_item t key c' = None)"
proof (intro conjI impI)
  let ?i = "\<lparr>it_value = v, it_expireAt = getExpireAt c now ttl\<rparr>"
  note n = Add_new [OF assms(1)]
  have live: "Get_item t key (cache_after ops c') = Some v" if "\<not> isExpired t ?i"
    using run_survives [OF n that assms(3)] that by (simp add: Get_item_def)
  show "Get_item t key (cache_after ops c') = Some v" if "ttl < 0"
    using that by (intro live) (simp add: isExpired_def getExpireAt_def NoTTL_def)
  show "Get_item t key (cache_after ops c') = Some v" if "0 < ttl" "t \<le> now + ttl"
    using that by (intro live) (simp add: isExpired_def getExpireAt_def DefaultTTL_def)
  show "Get_item t key c' = None" if "0 < ttl" "now + ttl < t"
    using that n assms(2) by (simp add: Get_item_def isExpired_def getExpireAt_def DefaultTTL_def)
qed

theorem added_value_lives_its_time_example:
  "Get_item 11 ''a'' (cache_after [(5, OpClean), (6, OpAdd ''a'' 9 1)] (snd (Add 1 ''a'' (7 :: nat) 10 (fst (New_cache 3 0))))) =
     Some 7"
proof -
  have "Add 1 ''a'' (7 :: nat) 10 (fst (New_cache 3 0)) = (False, snd (Add 1 ''a'' (7 :: nat) 10 (fst (New_cache 3 0))))"
    by (simp add: Add_def New_cache_def)
  from added_value_lives_its_time [OF this, of "[(5, OpClean), (6, OpAdd ''a'' 9 1)]" 11] show ?thesis
    by (simp add: keeps_def)
qed

end
