(* ===== verification/BotIrc.thy ===== *)
theory BotIrc
  imports BotSeenLookup BotLog TtlCache
begin

text \<open>
  The IRC side of the bot: \<open>irc.go\<close>. The goirc library is a parameter: a line comes with what its
  \<open>Target\<close> and \<open>Text\<close> methods answer, and the state tracker answers who is where. A handler is a function
  on the state of the bot, its seen database, channel logs, cache of used \<open>!opme\<close> credentials and mirror of
  the channel members; what it sends goes to the list of effects. A handler reads the clock once, but the
  checks of \<open>!opme\<close> each have their own reading. Ranges over a Go map follow the order of a list.
\<close>

subsection \<open>Configuration, lines and the state tracker\<close>

definition baseBackoff :: int where "baseBackoff = 5 * second"
definition maxBackoff :: int where "maxBackoff = 5 * 60 * second"
definition pingFreq :: int where "pingFreq = 60 * second"
definition opmeLeeway :: int where "opmeLeeway = 60 * second"

record IrcChannel =
  ic_Name :: string
  ic_OpMe :: "(string \<times> string) list option"

record IrcConfig =
  ic_Nick :: string
  ic_Channels :: "IrcChannel list"

record Line =
  li_Nick :: string
  li_Ident :: string
  li_Host :: string
  li_Target :: string
  li_Text :: string
  li_Args :: "string list"

text \<open>The tracker: the own nick, the nicks of a channel with their operator status, and the nicks known.\<close>

record Tracker =
  tk_me :: string
  tk_channel :: "string \<Rightarrow> (string \<times> bool) list option"
  tk_nick :: "string \<Rightarrow> bool"

record irc_env =
  ie_now :: instant
  ie_since :: instant
  ie_get :: instant
  ie_add :: instant
  ie_tracker :: Tracker
  ie_marshal :: "LogRecord \<Rightarrow> string option"
  ie_open :: "LogRecord \<Rightarrow> bool"
  ie_hmac :: "string \<Rightarrow> string \<Rightarrow> string"
  ie_ranges :: ranges

datatype irc_effect =
    Privmsg string string
  | ModeCmd string string string
  | NickCmd string
  | JoinCmd string
  | ProduceMsg Message
  | HandlerPanic

record IrcBot =
  ib_seen :: SeenStore
  ib_log :: LogStore
  ib_cache :: "unit Cache"
  ib_members :: "(string \<times> string set) list"
  ib_out :: "irc_effect list"

definition NewIrcBot :: "SeenStore \<Rightarrow> LogStore \<Rightarrow> IrcBot" where
  "NewIrcBot seen log =
     \<lparr>ib_seen = seen, ib_log = log, ib_cache = fst (New_cache (opmeLeeway * 2) 0), ib_members = [], ib_out = []\<rparr>"

definition emit :: "irc_effect \<Rightarrow> IrcBot \<Rightarrow> IrcBot" where
  "emit e b = b\<lparr>ib_out := ib_out b @ [e]\<rparr>"

definition record_log :: "irc_env \<Rightarrow> LogRecord \<Rightarrow> IrcBot \<Rightarrow> IrcBot" where
  "record_log env r b =
     b\<lparr>ib_log := log_record (ie_marshal env) (ie_now env) (ie_open env r) r (ib_log b)\<rparr>"

definition on_seen :: "(SeenStore \<Rightarrow> SeenStore) \<Rightarrow> IrcBot \<Rightarrow> IrcBot" where
  "on_seen f b = b\<lparr>ib_seen := f (ib_seen b)\<rparr>"

definition unix :: "instant \<Rightarrow> int" where "unix t = t div second"

text \<open>A record of an event by the actor of a line.\<close>

definition line_record :: "irc_env \<Rightarrow> string \<Rightarrow> string \<Rightarrow> Line \<Rightarrow> LogRecord" where
  "line_record env ty ch l =
     \<lparr>lr_Timestamp = ie_now env, lr_Type = ty, lr_Channel = ch, lr_Nick = li_Nick l, lr_User = li_Ident l,
      lr_Host = li_Host l, lr_Target = [], lr_Text = [], lr_From = [], lr_To = [], lr_Modes = [], lr_Targets = [],
      lr_Self = False\<rparr>"

text \<open>\<open>say\<close>: a message, and its own line in the log of a channel.\<close>

definition say :: "irc_env \<Rightarrow> string \<Rightarrow> string \<Rightarrow> IrcBot \<Rightarrow> IrcBot" where
  "say env target text b =
     (let b1 = emit (Privmsg target text) b
      in if HasPrefix target ''#'' then
           record_log env
             \<lparr>lr_Timestamp = ie_now env, lr_Type = ''message'', lr_Channel = target, lr_Nick = tk_me (ie_tracker env),
              lr_User = [], lr_Host = [], lr_Target = [], lr_Text = text, lr_From = [], lr_To = [], lr_Modes = [],
              lr_Targets = [], lr_Self = True\<rparr> b1
         else b1)"

subsection \<open>The mirror of the channel members\<close>

definition addMember :: "string \<Rightarrow> string \<Rightarrow> IrcBot \<Rightarrow> IrcBot" where
  "addMember ch nick b =
     (if nick = [] then b
      else b\<lparr>ib_members := al_put ch
        (insert (ToLower nick) (case map_of (ib_members b) ch of None \<Rightarrow> {} | Some s \<Rightarrow> s)) (ib_members b)\<rparr>)"

definition delMember :: "string \<Rightarrow> string \<Rightarrow> IrcBot \<Rightarrow> IrcBot" where
  "delMember ch nick b =
     (case map_of (ib_members b) ch of
        None \<Rightarrow> b | Some s \<Rightarrow> b\<lparr>ib_members := al_put ch (s - {ToLower nick}) (ib_members b)\<rparr>)"

definition memberChannels :: "string \<Rightarrow> IrcBot \<Rightarrow> string list" where
  "memberChannels nick b =
     (if nick = [] then [] else map fst (filter (\<lambda>(ch, s). ToLower nick \<in> s) (ib_members b)))"

definition renameMember :: "string \<Rightarrow> string \<Rightarrow> IrcBot \<Rightarrow> IrcBot" where
  "renameMember old neu b =
     (let lo = ToLower old; ln = ToLower neu
      in if lo = ln then b
         else b\<lparr>ib_members := map_vals (\<lambda>ch s. if lo \<in> s then insert ln (s - {lo}) else s) (ib_members b)\<rparr>)"

definition delMemberAll :: "string \<Rightarrow> IrcBot \<Rightarrow> IrcBot" where
  "delMemberAll nick b = b\<lparr>ib_members := map_vals (\<lambda>ch s. s - {ToLower nick}) (ib_members b)\<rparr>"

subsection \<open>Commands\<close>

text \<open>\<open>strings.Cut\<close> at the first space.\<close>

definition Cut_space :: "string \<Rightarrow> string \<times> string" where
  "Cut_space s = (takeWhile (\<lambda>c. c \<noteq> CHR '' '') s, drop 1 (dropWhile (\<lambda>c. c \<noteq> CHR '' '') s))"

definition tryRecoverNick :: "irc_env \<Rightarrow> IrcConfig \<Rightarrow> IrcBot \<Rightarrow> IrcBot" where
  "tryRecoverNick env cfg b =
     (if tk_me (ie_tracker env) = ic_Nick cfg then b
      else if \<not> tk_nick (ie_tracker env) (ic_Nick cfg) then emit (NickCmd (ic_Nick cfg)) b
      else b)"

definition hasModeOp :: "irc_env \<Rightarrow> string \<Rightarrow> bool" where
  "hasModeOp env ch =
     (case tk_channel (ie_tracker env) ch of
        None \<Rightarrow> False
      | Some nicks \<Rightarrow> (case map_of nicks (tk_me (ie_tracker env)) of None \<Rightarrow> False | Some op \<Rightarrow> op))"

definition opme_creds :: "IrcConfig \<Rightarrow> string \<Rightarrow> (string \<times> string) list option" where
  "opme_creds cfg channel =
     (case filter (\<lambda>c. ic_Name c = channel) (ic_Channels cfg) of [] \<Rightarrow> None | c # _ \<Rightarrow> ic_OpMe c)"

definition handleOpMe :: "irc_env \<Rightarrow> IrcConfig \<Rightarrow> string \<Rightarrow> string \<Rightarrow> string \<Rightarrow> IrcBot \<Rightarrow> IrcBot" where
  "handleOpMe env cfg channel nick arg b =
     (case opme_creds cfg channel of
        None \<Rightarrow> say env nick (''unsupported opme channel: '' @ channel) b
      | Some creds \<Rightarrow>
          let invalid = say env nick (''invalid opme argument: '' @ arg) b;
              denied = say env nick ''opme denied'' b;
              args = SplitChar (CHR '':'') arg
          in if length args \<noteq> 3 then invalid
             else
               (let username = args ! 0; timestamp = args ! 1; mac = ToLower (args ! 2);
                    authID = username @ '':'' @ timestamp
                in case parse_int64 timestamp of
                     None \<Rightarrow> invalid
                   | Some ts \<Rightarrow>
                       if \<bar>ie_since env - ts * second\<bar> > opmeLeeway then invalid
                       else
                         (let macKey = (case map_of creds username of None \<Rightarrow> [] | Some k \<Rightarrow> k)
                          in if macKey = [] then denied
                             else if ie_hmac env macKey authID \<noteq> mac then denied
                             else
                               (case Get_item (ie_get env) authID (ib_cache b) of
                                  Some _ \<Rightarrow> denied
                                | None \<Rightarrow>
                                    emit (ModeCmd channel ''+o'' nick)
                                      (b\<lparr>ib_cache := snd (Add (ie_add env) authID () DefaultTTL (ib_cache b))\<rparr>)))))"

definition handleSeen :: "irc_env \<Rightarrow> string \<Rightarrow> string \<Rightarrow> IrcBot \<Rightarrow> IrcBot" where
  "handleSeen env channel query0 b =
     (let query = TrimSpace (TrimPrefix query0 ''@'')
      in if query = [] then say env channel ''usage: !seen <nick>'' b
         else
           (let present = (case tk_channel (ie_tracker env) channel of None \<Rightarrow> [] | Some nicks \<Rightarrow> map fst nicks);
                res = Lookup (ie_ranges env) (Nicks channel (ib_seen b)) query present
            in say env channel (result_Text (unix (ie_now env)) res) b))"

definition tryCommand :: "irc_env \<Rightarrow> IrcConfig \<Rightarrow> string \<Rightarrow> string \<Rightarrow> Line \<Rightarrow> IrcBot \<Rightarrow> bool \<times> IrcBot" where
  "tryCommand env cfg text target l b =
     (if \<not> HasPrefix text ''!'' then (False, b)
      else
        (let ca = Cut_space (TrimPrefix text ''!''); cmd = ToLower (fst ca); arg = TrimSpace (snd ca)
         in if cmd = ''ping'' then (True, say env target ''pong'' b)
            else if cmd = ''opme'' then
              (True,
               if \<not> HasPrefix target ''#'' then say env target ''command opme only works in channel'' b
               else if \<not> hasModeOp env target then
                 say env target (li_Nick l @ '': I don'' @ [CHR 0x27] @ ''t have the permission yet'') b
               else handleOpMe env cfg target (li_Nick l) arg b)
            else if cmd = ''seen'' then
              (True,
               if \<not> HasPrefix target ''#'' then say env target ''command seen only works in channel'' b
               else handleSeen env target arg b)
            else (False, say env target (''unknown command: '' @ cmd) b)))"

text \<open>What the pattern \<open>^@?me\s*[:,]?\s+\<close> leaves of a text, for a nick without pattern characters: a match
  takes all the white space there is, and the punctuation only if white space follows it.\<close>

definition re_space :: "char \<Rightarrow> bool" where
  "re_space c \<longleftrightarrow> c \<in> set [CHR '' '', CHR 0x09, CHR 0x0A, CHR 0x0C, CHR 0x0D]"

definition after_nick :: "string \<Rightarrow> string option" where
  "after_nick s =
     (let s1 = dropWhile re_space s; spaced = (s1 \<noteq> s)
      in case s1 of
           c # s2 \<Rightarrow>
             if (c = CHR '':'' \<or> c = CHR '','') \<and> dropWhile re_space s2 \<noteq> s2 then Some (dropWhile re_space s2)
             else if spaced then Some s1 else None
         | [] \<Rightarrow> if spaced then Some [] else None)"

definition addressed :: "string \<Rightarrow> string \<Rightarrow> string option" where
  "addressed me text =
     (let try = (\<lambda>t. if HasPrefix t me then after_nick (TrimPrefix t me) else None)
      in case (if HasPrefix text ''@'' then try (TrimPrefix text ''@'') else None) of
           Some r \<Rightarrow> Some r
         | None \<Rightarrow> try text)"

subsection \<open>Handlers\<close>

definition on_connected :: "IrcConfig \<Rightarrow> IrcBot \<Rightarrow> IrcBot" where
  "on_connected cfg b = fold (\<lambda>ch b. emit (JoinCmd (ic_Name ch)) b) (ic_Channels cfg) b"

definition on_disconnected :: "IrcBot \<Rightarrow> IrcBot" where
  "on_disconnected b = b\<lparr>ib_members := []\<rparr>"

definition on_join :: "irc_env \<Rightarrow> Line \<Rightarrow> IrcBot \<Rightarrow> IrcBot" where
  "on_join env l b =
     (let ch = li_Target l;
          b1 = on_seen (seen_Join ch (li_Nick l) (unix (ie_now env))) b;
          b2 = (if li_Nick l = tk_me (ie_tracker env) then b1\<lparr>ib_members := al_put ch {} (ib_members b1)\<rparr> else b1);
          b3 = addMember ch (li_Nick l) b2
      in record_log env (line_record env ''join'' ch l) b3)"

definition on_part :: "irc_env \<Rightarrow> Line \<Rightarrow> IrcBot \<Rightarrow> IrcBot" where
  "on_part env l b =
     (let ch = li_Target l;
          b1 = on_seen (seen_Leave ch (li_Nick l) (unix (ie_now env))) b;
          b2 = delMember ch (li_Nick l) b1;
          rec = line_record env ''part'' ch l
      in record_log env (if length (li_Args l) > 1 then rec\<lparr>lr_Text := li_Args l ! 1\<rparr> else rec) b2)"

definition on_kick :: "irc_env \<Rightarrow> Line \<Rightarrow> IrcBot \<Rightarrow> IrcBot" where
  "on_kick env l b =
     (if length (li_Args l) < 2 then b
      else
        (let ch = li_Target l; victim = li_Args l ! 1;
             b1 = on_seen (seen_Leave ch victim (unix (ie_now env))) b;
             b2 = (if EqualFold victim (tk_me (ie_tracker env)) then b1\<lparr>ib_members := al_del ch (ib_members b1)\<rparr>
                   else delMember ch victim b1);
             rec = (line_record env ''kick'' ch l)\<lparr>lr_Target := victim\<rparr>
         in record_log env (if length (li_Args l) > 2 then rec\<lparr>lr_Text := li_Args l ! 2\<rparr> else rec) b2))"

definition irc_message :: "irc_env \<Rightarrow> string \<Rightarrow> Line \<Rightarrow> string \<Rightarrow> Message" where
  "irc_message env event l text =
     \<lparr>mg_Source = SourceIRC, mg_Timestamp = ie_now env, mg_Event = event, mg_From = li_Nick l,
      mg_Target = li_Target l, mg_Text = text\<rparr>"

text \<open>The text of a message without the address of the bot.\<close>

definition privmsg_text :: "irc_env \<Rightarrow> Line \<Rightarrow> string" where
  "privmsg_text env l =
     (let text = TrimSpace (li_Text l)
      in case addressed (tk_me (ie_tracker env)) text of Some r \<Rightarrow> r | None \<Rightarrow> text)"

definition on_privmsg :: "irc_env \<Rightarrow> IrcConfig \<Rightarrow> Line \<Rightarrow> IrcBot \<Rightarrow> IrcBot" where
  "on_privmsg env cfg l b =
     (let text = privmsg_text env l; target = li_Target l
      in if target = li_Nick l then snd (tryCommand env cfg text target l b)
         else
           (let b1 = on_seen (seen_Message target (li_Nick l) (unix (ie_now env))) b;
                b2 = record_log env ((line_record env ''message'' target l)\<lparr>lr_Text := li_Text l\<rparr>) b1
            in case tryCommand env cfg text target l b2 of
                 (handled, b3) \<Rightarrow> if \<not> handled then emit (ProduceMsg (irc_message env [] l text)) b3 else b3))"

definition on_quit :: "irc_env \<Rightarrow> IrcConfig \<Rightarrow> Line \<Rightarrow> IrcBot \<Rightarrow> IrcBot" where
  "on_quit env cfg l b =
     (let b1 = tryRecoverNick env cfg b;
          rec = (\<lambda>ch. if li_Args l \<noteq> [] then (line_record env ''quit'' ch l)\<lparr>lr_Text := li_Args l ! 0\<rparr>
                      else line_record env ''quit'' ch l);
          b2 = fold (\<lambda>ch. record_log env (rec ch)) (memberChannels (li_Nick l) b1) b1;
          b3 = delMemberAll (li_Nick l) b2
      in on_seen (Quit (li_Nick l) (unix (ie_now env))) b3)"

text \<open>A line without arguments makes the handler panic, after the nick recovery.\<close>

definition on_nick :: "irc_env \<Rightarrow> IrcConfig \<Rightarrow> Line \<Rightarrow> IrcBot \<Rightarrow> IrcBot" where
  "on_nick env cfg l b =
     (let b1 = (if li_Nick l \<noteq> tk_me (ie_tracker env) then tryRecoverNick env cfg b else b)
      in case li_Args l of
           [] \<Rightarrow> emit HandlerPanic b1
         | neu # _ \<Rightarrow>
             (let old = li_Nick l;
                  b2 = fold (\<lambda>ch. record_log env
                         ((line_record env ''nick'' ch l)\<lparr>lr_Nick := [], lr_From := old, lr_To := neu\<rparr>))
                       (memberChannels old b1) b1;
                  b3 = renameMember old neu b2
              in on_seen (Rename old neu) b3))"

definition on_action :: "irc_env \<Rightarrow> Line \<Rightarrow> IrcBot \<Rightarrow> IrcBot" where
  "on_action env l b =
     (let target = li_Target l;
          b1 = (if target \<noteq> li_Nick l then
                  on_seen (seen_Message target (li_Nick l) (unix (ie_now env)))
                    (record_log env ((line_record env ''action'' target l)\<lparr>lr_Text := li_Text l\<rparr>) b)
                else b)
      in emit (ProduceMsg (irc_message env ''ACTION'' l (li_Text l))) b1)"

definition on_notice :: "irc_env \<Rightarrow> Line \<Rightarrow> IrcBot \<Rightarrow> IrcBot" where
  "on_notice env l b =
     (if HasPrefix (li_Target l) ''#''
      then record_log env ((line_record env ''notice'' (li_Target l) l)\<lparr>lr_Text := li_Text l\<rparr>) b else b)"

definition on_mode :: "irc_env \<Rightarrow> Line \<Rightarrow> IrcBot \<Rightarrow> IrcBot" where
  "on_mode env l b =
     (if length (li_Args l) < 2 \<or> \<not> HasPrefix (li_Target l) ''#'' then b
      else record_log env
        ((line_record env ''mode'' (li_Target l) l)\<lparr>lr_Modes := li_Args l ! 1, lr_Targets := drop 2 (li_Args l)\<rparr>) b)"

definition on_topic :: "irc_env \<Rightarrow> Line \<Rightarrow> IrcBot \<Rightarrow> IrcBot" where
  "on_topic env l b = record_log env ((line_record env ''topic'' (li_Target l) l)\<lparr>lr_Text := li_Text l\<rparr>) b"

text \<open>A NAMES reply.\<close>

definition bare_nick :: "string \<Rightarrow> string" where
  "bare_nick s = dropWhile (\<lambda>c. c \<in> set ''~&@%+'') s"

definition on_names :: "Line \<Rightarrow> IrcBot \<Rightarrow> IrcBot" where
  "on_names l b =
     (if length (li_Args l) < 4 then b
      else
        (let ch = li_Args l ! 2
         in if map_of (ib_members b) ch = None then b
            else fold (\<lambda>w. addMember ch (bare_nick w)) (Fields (last (li_Args l))) b))"

datatype irc_event =
    CONNECTED
  | DISCONNECTED
  | JOIN Line
  | PART Line
  | KICK Line
  | PRIVMSG Line
  | QUIT Line
  | NICK Line
  | ACTION Line
  | NOTICE Line
  | MODE Line
  | TOPIC Line
  | NAMES Line

fun irc_handle :: "IrcConfig \<Rightarrow> irc_env \<Rightarrow> irc_event \<Rightarrow> IrcBot \<Rightarrow> IrcBot" where
  "irc_handle cfg env CONNECTED b = on_connected cfg b"
| "irc_handle cfg env DISCONNECTED b = on_disconnected b"
| "irc_handle cfg env (JOIN l) b = on_join env l b"
| "irc_handle cfg env (PART l) b = on_part env l b"
| "irc_handle cfg env (KICK l) b = on_kick env l b"
| "irc_handle cfg env (PRIVMSG l) b = on_privmsg env cfg l b"
| "irc_handle cfg env (QUIT l) b = on_quit env cfg l b"
| "irc_handle cfg env (NICK l) b = on_nick env cfg l b"
| "irc_handle cfg env (ACTION l) b = on_action env l b"
| "irc_handle cfg env (NOTICE l) b = on_notice env l b"
| "irc_handle cfg env (MODE l) b = on_mode env l b"
| "irc_handle cfg env (TOPIC l) b = on_topic env l b"
| "irc_handle cfg env (NAMES l) b = on_names l b"

subsection \<open>Posting\<close>

text \<open>\<open>Post\<close>: a message from the bus.\<close>

definition irc_Post :: "irc_env \<Rightarrow> bool \<Rightarrow> tmpl \<Rightarrow> Message \<Rightarrow> IrcBot \<Rightarrow> IrcBot" where
  "irc_Post env connected tpl m b =
     (if mg_Source m = SourceIRC then b
      else if \<not> connected then b
      else if (if HasPrefix (mg_Target m) ''#'' then tk_channel (ie_tracker env) (mg_Target m) = None
               else \<not> tk_nick (ie_tracker env) (mg_Target m)) then b
      else say env (mg_Target m) (rendered tpl m) b)"

subsection \<open>Connecting, and watching the connection\<close>

text \<open>The connection attempts of \<open>Start\<close>: for each one whether it succeeds; the answer lists the pauses
  and gives the backoff they end with.\<close>

definition next_backoff :: "int \<Rightarrow> int" where
  "next_backoff backoff = (let b = backoff * 2 in if b > maxBackoff then maxBackoff else b)"

fun connect_loop :: "bool list \<Rightarrow> int \<Rightarrow> int list \<times> int" where
  "connect_loop [] backoff = ([], backoff)"
| "connect_loop (ok # oks) backoff =
     (if \<not> ok then (case connect_loop oks (next_backoff backoff) of (ps, b) \<Rightarrow> (backoff # ps, b))
      else connect_loop oks baseBackoff)"

text \<open>The watchdog: its timeout is 1.5 times the interval in whole seconds. A tick comes with what
  \<open>Connected\<close> answers.\<close>

definition watchdog_timeout :: int where "watchdog_timeout = 90 * second"

datatype watch_event = Pong instant | WatchTick instant bool
datatype watch_action = SendPing instant | CloseConn instant

fun watch_step :: "watch_event \<Rightarrow> int \<Rightarrow> watch_action list \<times> int" where
  "watch_step (Pong now) lastPong = ([], now)"
| "watch_step (WatchTick now connected) lastPong =
     (if \<not> connected then ([], now)
      else if now - lastPong \<ge> watchdog_timeout then ([CloseConn now], now)
      else ([SendPing now], lastPong))"

fun watch_run :: "watch_event list \<Rightarrow> int \<Rightarrow> watch_action list" where
  "watch_run [] lastPong = []"
| "watch_run (e # es) lastPong =
     (case watch_step e lastPong of (as, p) \<Rightarrow> as @ watch_run es p)"

text \<open>A tick of \<open>startNickCheck\<close>.\<close>

definition nick_check :: "irc_env \<Rightarrow> IrcConfig \<Rightarrow> bool \<Rightarrow> IrcBot \<Rightarrow> IrcBot" where
  "nick_check env cfg connected b = (if \<not> connected then b else tryRecoverNick env cfg b)"

end
