(* ===== verification/BotOpMe.thy ===== *)
theory BotOpMe
  imports BotIrc
begin

text \<open>
  The operator grants of the bot: which lines make it give operator status, and that no credential is
  accepted twice.
\<close>

subsection \<open>Operations that grant nothing\<close>

lemma bot_frame [simp]:
  "ib_out (record_log env r b) = ib_out b" "ib_cache (record_log env r b) = ib_cache b"
  "ib_members (record_log env r b) = ib_members b"
  "ib_out (on_seen f b) = ib_out b" "ib_cache (on_seen f b) = ib_cache b" "ib_members (on_seen f b) = ib_members b"
  "ib_out (emit x b) = ib_out b @ [x]" "ib_cache (emit x b) = ib_cache b" "ib_members (emit x b) = ib_members b"
  "ib_out (addMember ch n b) = ib_out b" "ib_cache (addMember ch n b) = ib_cache b"
  "ib_out (delMember ch n b) = ib_out b" "ib_cache (delMember ch n b) = ib_cache b"
  "ib_out (renameMember old neu b) = ib_out b" "ib_cache (renameMember old neu b) = ib_cache b"
  "ib_out (delMemberAll n b) = ib_out b" "ib_cache (delMemberAll n b) = ib_cache b"
  "ib_out (say env t tx b) = ib_out b @ [Privmsg t tx]" "ib_cache (say env t tx b) = ib_cache b"
  "ib_members (say env t tx b) = ib_members b"
  by (simp_all add: record_log_def on_seen_def emit_def addMember_def delMember_def renameMember_def Let_def
      delMemberAll_def say_def split: option.split)

text \<open>A step that leaves the cache alone and sends no mode command.\<close>

definition quiet :: "IrcBot \<Rightarrow> IrcBot \<Rightarrow> bool" where
  "quiet b b' \<longleftrightarrow> ib_cache b' = ib_cache b \<and>
     (\<exists>es. ib_out b' = ib_out b @ es \<and> (\<forall>ch m n. ModeCmd ch m n \<notin> set es))"

lemma quietI: "ib_cache b' = ib_cache b \<Longrightarrow> ib_out b' = ib_out b @ es \<Longrightarrow> \<forall>ch m n. ModeCmd ch m n \<notin> set es \<Longrightarrow> quiet b b'"
  by (auto simp: quiet_def)

lemma quiet_refl [simp, intro]: "quiet b b"
  by (rule quietI [of _ _ "[]"]) simp_all

lemma quiet_trans: "quiet a b \<Longrightarrow> quiet b c \<Longrightarrow> quiet a c"
  by (force simp: quiet_def)

lemma quiet_ops [simp]:
  "quiet a (record_log env r b) = quiet a b" "quiet a (on_seen f b) = quiet a b"
  "quiet a (addMember ch n b) = quiet a b" "quiet a (delMember ch n b) = quiet a b"
  "quiet a (renameMember old neu b) = quiet a b" "quiet a (delMemberAll n b) = quiet a b"
  "quiet a (b\<lparr>ib_members := x\<rparr>) = quiet a b"
  by (simp_all add: quiet_def)

lemma quiet_say [simp, intro]: "quiet a b \<Longrightarrow> quiet a (say env t x b)"
  by (force simp: quiet_def)

lemma quiet_emit [simp, intro]: "quiet a b \<Longrightarrow> \<forall>ch m n. e \<noteq> ModeCmd ch m n \<Longrightarrow> quiet a (emit e b)"
  by (force simp: quiet_def)

lemma quiet_fold: "(\<And>x b. quiet a b \<Longrightarrow> quiet a (f x b)) \<Longrightarrow> quiet a b \<Longrightarrow> quiet a (fold f xs b)"
  by (induction xs arbitrary: b) auto

lemma quiet_recover [simp, intro]: "quiet a b \<Longrightarrow> quiet a (tryRecoverNick env cfg b)"
  by (simp add: tryRecoverNick_def)

lemma quiet_seen_query [simp, intro]: "quiet a b \<Longrightarrow> quiet a (handleSeen env ch q b)"
  by (simp add: handleSeen_def Let_def)

subsection \<open>What a grant requires\<close>

definition auth_id :: "string \<Rightarrow> string \<Rightarrow> string" where
  "auth_id user stamp = user @ '':'' @ stamp"

text \<open>The credentials in a line: the parts of the argument of an \<open>!opme\<close> command.\<close>

definition opme_args :: "irc_env \<Rightarrow> Line \<Rightarrow> (string \<times> string \<times> string) option" where
  "opme_args env l =
     (let text = privmsg_text env l; ca = Cut_space (TrimPrefix text ''!'')
      in if HasPrefix text ''!'' \<and> ToLower (fst ca) = ''opme'' then
           (case SplitChar (CHR '':'') (TrimSpace (snd ca)) of [u, t, mac] \<Rightarrow> Some (u, t, mac) | _ \<Rightarrow> None)
         else None)"

definition accepts :: "irc_env \<Rightarrow> IrcConfig \<Rightarrow> string \<Rightarrow> string \<times> string \<times> string \<Rightarrow> bool" where
  "accepts env cfg ch c \<longleftrightarrow>
     (case c of (user, stamp, mac) \<Rightarrow>
        \<exists>creds key ts. opme_creds cfg ch = Some creds \<and> map_of creds user = Some key \<and> key \<noteq> [] \<and>
          ie_hmac env key (auth_id user stamp) = ToLower mac \<and>
          parse_int64 stamp = Some ts \<and> \<bar>ie_since env - ts * second\<bar> \<le> opmeLeeway)"

definition grant_step :: "irc_env \<Rightarrow> IrcConfig \<Rightarrow> Line \<Rightarrow> string \<times> string \<times> string \<Rightarrow> IrcBot \<Rightarrow> IrcBot \<Rightarrow> bool" where
  "grant_step env cfg l c b b' \<longleftrightarrow>
     accepts env cfg (li_Target l) c \<and> Get_item (ie_get env) (auth_id (fst c) (fst (snd c))) (ib_cache b) = None \<and>
     ib_cache b' = snd (Add (ie_add env) (auth_id (fst c) (fst (snd c))) () DefaultTTL (ib_cache b)) \<and>
     ib_out b' = ib_out b @ [ModeCmd (li_Target l) ''+o'' (li_Nick l)]"

lemma grant_step_frame [simp]:
  "grant_step env cfg l c (record_log env' r b) b' = grant_step env cfg l c b b'"
  "grant_step env cfg l c (on_seen f b) b' = grant_step env cfg l c b b'"
  by (simp_all add: grant_step_def)

lemma three_parts: "length xs = 3 \<longleftrightarrow> (\<exists>u t m. xs = [u, t, m])"
  by (auto simp: numeral_3_eq_3 length_Suc_conv)

lemma handleOpMe_cases:
  "quiet b (handleOpMe env cfg (li_Target l) (li_Nick l) arg b) \<or>
   (\<exists>u t mac. SplitChar (CHR '':'') arg = [u, t, mac] \<and>
      grant_step env cfg l (u, t, mac) b (handleOpMe env cfg (li_Target l) (li_Nick l) arg b))"
proof (cases "opme_creds cfg (li_Target l)")
  case None
  then show ?thesis by (simp add: handleOpMe_def)
next
  case creds: (Some creds)
  show ?thesis
  proof (cases "length (SplitChar (CHR '':'') arg) = 3")
    case False
    then show ?thesis using creds by (simp add: handleOpMe_def Let_def)
  next
    case True
    then obtain u t mac where args: "SplitChar (CHR '':'') arg = [u, t, mac]" by (auto simp: three_parts)
    let ?k = "case map_of creds u of None \<Rightarrow> [] | Some k \<Rightarrow> k"
    show ?thesis
    proof (cases "\<exists>ts. parse_int64 t = Some ts \<and> \<bar>ie_since env - ts * second\<bar> \<le> opmeLeeway \<and> ?k \<noteq> [] \<and>
        ie_hmac env ?k (auth_id u t) = ToLower mac \<and> Get_item (ie_get env) (auth_id u t) (ib_cache b) = None")
      case True
      then obtain ts key where "parse_int64 t = Some ts" "\<bar>ie_since env - ts * second\<bar> \<le> opmeLeeway"
        "map_of creds u = Some key" "key \<noteq> []" "ie_hmac env key (auth_id u t) = ToLower mac"
        "Get_item (ie_get env) (auth_id u t) (ib_cache b) = None"
        by (auto split: option.splits)
      then have "grant_step env cfg l (u, t, mac) b (handleOpMe env cfg (li_Target l) (li_Nick l) arg b)"
        using creds args by (auto simp: handleOpMe_def Let_def grant_step_def accepts_def auth_id_def)
      with args show ?thesis by blast
    next
      case False
      then have "quiet b (handleOpMe env cfg (li_Target l) (li_Nick l) arg b)"
        using creds args by (auto simp: handleOpMe_def Let_def auth_id_def not_less split: option.split)
      then show ?thesis ..
    qed
  qed
qed

lemma tryCommand_cases:
  "quiet b (snd (tryCommand env cfg (privmsg_text env l) (li_Target l) l b)) \<or>
   (\<exists>c. opme_args env l = Some c \<and> HasPrefix (li_Target l) ''#'' \<and> hasModeOp env (li_Target l) \<and>
      fst (tryCommand env cfg (privmsg_text env l) (li_Target l) l b) \<and>
      grant_step env cfg l c b (snd (tryCommand env cfg (privmsg_text env l) (li_Target l) l b)))"
proof -
  let ?ca = "Cut_space (TrimPrefix (privmsg_text env l) ''!'')"
  show ?thesis
  proof (cases "HasPrefix (privmsg_text env l) ''!'' \<and> ToLower (fst ?ca) = ''opme'' \<and> HasPrefix (li_Target l) ''#'' \<and>
      hasModeOp env (li_Target l)")
    case True
    then have "tryCommand env cfg (privmsg_text env l) (li_Target l) l b =
        (True, handleOpMe env cfg (li_Target l) (li_Nick l) (TrimSpace (snd ?ca)) b)"
      by (simp add: tryCommand_def Let_def)
    with handleOpMe_cases [of b env cfg l "TrimSpace (snd ?ca)"] True show ?thesis
      by (auto simp: opme_args_def Let_def)
  next
    case False
    then have "quiet b (snd (tryCommand env cfg (privmsg_text env l) (li_Target l) l b))"
      by (auto simp: tryCommand_def Let_def)
    then show ?thesis ..
  qed
qed

lemma handle_cases:
  "quiet b (irc_handle cfg env e b) \<or>
   (\<exists>l c. e = PRIVMSG l \<and> opme_args env l = Some c \<and> HasPrefix (li_Target l) ''#'' \<and> hasModeOp env (li_Target l) \<and>
      grant_step env cfg l c b (irc_handle cfg env e b))"
proof (cases e)
  case (PRIVMSG l)
  show ?thesis
  proof (cases "li_Target l = li_Nick l")
    case True
    then have "irc_handle cfg env e b = snd (tryCommand env cfg (privmsg_text env l) (li_Target l) l b)"
      by (simp add: PRIVMSG on_privmsg_def Let_def)
    with tryCommand_cases [of b env cfg l] PRIVMSG show ?thesis by auto
  next
    case False
    let ?b = "record_log env ((line_record env ''message'' (li_Target l) l)\<lparr>lr_Text := li_Text l\<rparr>)
      (on_seen (seen_Message (li_Target l) (li_Nick l) (unix (ie_now env))) b)"
    obtain handled b3 where t: "tryCommand env cfg (privmsg_text env l) (li_Target l) l ?b = (handled, b3)"
      by fastforce
    have r: "irc_handle cfg env e b =
        (if handled then b3 else emit (ProduceMsg (irc_message env [] l (privmsg_text env l))) b3)"
      using False t by (simp add: PRIVMSG on_privmsg_def Let_def)
    have q: "quiet b ?b" by simp
    show ?thesis using tryCommand_cases [of ?b env cfg l] quiet_trans [OF q, of b3]
      unfolding t r fst_conv snd_conv grant_step_frame using PRIVMSG by auto
  qed
next
  case (QUIT l)
  then show ?thesis by (auto simp: on_quit_def Let_def intro!: quiet_fold)
next
  case (NICK l)
  then show ?thesis by (auto simp: on_nick_def Let_def intro!: quiet_fold split: list.split)
next
  case CONNECTED
  then show ?thesis by (auto simp: on_connected_def intro!: quiet_fold)
next
  case (NAMES l)
  then show ?thesis by (auto simp: on_names_def Let_def intro!: quiet_fold)
qed (simp_all add: on_disconnected_def on_join_def on_part_def on_kick_def on_action_def on_notice_def on_mode_def
    on_topic_def Let_def)

text \<open>What a handler adds to the effects.\<close>

definition new_out :: "IrcConfig \<Rightarrow> irc_env \<Rightarrow> irc_event \<Rightarrow> IrcBot \<Rightarrow> irc_effect list" where
  "new_out cfg env e b = drop (length (ib_out b)) (ib_out (irc_handle cfg env e b))"

lemma quiet_new_out: "quiet b (irc_handle cfg env e b) \<Longrightarrow> ModeCmd ch m n \<notin> set (new_out cfg env e b)"
  by (auto simp: quiet_def new_out_def)

text \<open>C11: the bot gives operator status only as the answer to an \<open>!opme\<close> command in a channel where it is an
  operator itself, to the sender, for credentials of a user configured for that channel whose keyed hash
  is right, whose timestamp is within a minute of the clock and which are not in the cache of used ones.\<close>

theorem opme_grants_are_authorised:
  assumes "ModeCmd ch m nick \<in> set (new_out cfg env e b)"
  shows "m = ''+o'' \<and> HasPrefix ch ''#'' \<and> hasModeOp env ch \<and>
    (\<exists>l c. e = PRIVMSG l \<and> li_Nick l = nick \<and> li_Target l = ch \<and> opme_args env l = Some c \<and> accepts env cfg ch c \<and>
      Get_item (ie_get env) (auth_id (fst c) (fst (snd c))) (ib_cache b) = None)"
proof -
  from assms have "\<not> quiet b (irc_handle cfg env e b)" using quiet_new_out by blast
  with handle_cases obtain l c where
    "e = PRIVMSG l" "opme_args env l = Some c" "HasPrefix (li_Target l) ''#''" "hasModeOp env (li_Target l)"
    and g: "grant_step env cfg l c b (irc_handle cfg env e b)" by blast
  moreover from g assms have "ch = li_Target l" "m = ''+o''" "nick = li_Nick l"
    by (auto simp: grant_step_def new_out_def)
  ultimately show ?thesis unfolding grant_step_def by blast
qed

subsection \<open>No credential is accepted twice\<close>

text \<open>The bot's events, between which the cleaner of the cache may run.\<close>

datatype bot_event = Handle irc_env irc_event | CleanCache instant

fun bot_step :: "IrcConfig \<Rightarrow> bot_event \<Rightarrow> IrcBot \<Rightarrow> IrcBot" where
  "bot_step cfg (Handle env e) b = irc_handle cfg env e b"
| "bot_step cfg (CleanCache now) b = b\<lparr>ib_cache := snd (clean now (ib_cache b))\<rparr>"

definition bot_run :: "IrcConfig \<Rightarrow> bot_event list \<Rightarrow> IrcBot \<Rightarrow> IrcBot" where
  "bot_run cfg es b = fold (bot_step cfg) es b"

fun event_time :: "bot_event \<Rightarrow> instant" where
  "event_time (Handle env e) = ie_add env"
| "event_time (CleanCache now) = now"

text \<open>What a run does to the cache is a sequence of cache operations that keep every entry.\<close>

lemma bot_step_cache:
  obtains ops where "ib_cache (bot_step cfg x b) = cache_after ops (ib_cache b)"
    and "\<forall>p\<in>set ops. fst p = event_time x \<and> keeps key (snd p)"
proof (cases x)
  case (CleanCache now)
  then show ?thesis by (intro that [of "[(now, OpClean)]"]) (simp_all add: keeps_def)
next
  case (Handle env e)
  from handle_cases [of b cfg env e] consider "quiet b (irc_handle cfg env e b)"
    | l c where "grant_step env cfg l c b (irc_handle cfg env e b)" by blast
  then show ?thesis
  proof cases
    case 1
    then show ?thesis using Handle by (intro that [of "[]"]) (simp_all add: quiet_def)
  next
    case 2
    then show ?thesis using Handle
      by (intro that [of "[(ie_add env, OpAdd (auth_id (fst c) (fst (snd c))) () DefaultTTL)]"])
        (simp_all add: grant_step_def keeps_def)
  qed
qed

lemma cache_after_append: "cache_after (xs @ ys) c = cache_after ys (cache_after xs c)"
  by (induction xs c rule: cache_after.induct) auto

lemma bot_run_cache:
  assumes "\<forall>x\<in>set es. event_time x \<le> t"
  obtains ops where "ib_cache (bot_run cfg es b) = cache_after ops (ib_cache b)"
    and "\<forall>p\<in>set ops. fst p \<le> t \<and> keeps key (snd p)"
  using assms
proof (induction es arbitrary: b thesis)
  case Nil
  show ?case by (rule Nil.prems(1) [of "[]"]) (simp_all add: bot_run_def)
next
  case (Cons x es)
  obtain ops1 where 1: "ib_cache (bot_step cfg x b) = cache_after ops1 (ib_cache b)"
    "\<forall>p\<in>set ops1. fst p = event_time x \<and> keeps key (snd p)" by (rule bot_step_cache)
  obtain ops2 where 2: "ib_cache (bot_run cfg es (bot_step cfg x b)) = cache_after ops2 (ib_cache (bot_step cfg x b))"
    "\<forall>p\<in>set ops2. fst p \<le> t \<and> keeps key (snd p)" using Cons.IH [of "bot_step cfg x b"] Cons.prems(2) by auto
  show ?case
  proof (rule Cons.prems(1) [of "ops1 @ ops2"])
    show "ib_cache (bot_run cfg (x # es) b) = cache_after (ops1 @ ops2) (ib_cache b)"
      using 1(1) 2(1) by (simp add: bot_run_def cache_after_append)
    show "\<forall>p\<in>set (ops1 @ ops2). fst p \<le> t \<and> keeps key (snd p)" using 1(2) 2(2) Cons.prems(2) by auto
  qed
qed

definition grants :: "IrcConfig \<Rightarrow> irc_env \<Rightarrow> irc_event \<Rightarrow> IrcBot \<Rightarrow> string \<Rightarrow> string \<Rightarrow> bool" where
  "grants cfg env e b user stamp \<longleftrightarrow>
     (\<exists>ch m n. ModeCmd ch m n \<in> set (new_out cfg env e b)) \<and>
     (\<exists>l mac. e = PRIVMSG l \<and> opme_args env l = Some (user, stamp, mac))"

lemma grants_step:
  assumes "grants cfg env e b user stamp"
  obtains l mac where "grant_step env cfg l (user, stamp, mac) b (irc_handle cfg env e b)"
proof -
  from assms have "\<not> quiet b (irc_handle cfg env e b)" using quiet_new_out by (auto simp: grants_def)
  with handle_cases [of b cfg env e] assms that show ?thesis by (auto simp: grants_def)
qed

lemma cache_after_ttl: "ca_defaultTTL (cache_after ops c) = ca_defaultTTL c"
  by (induction ops c rule: cache_after.induct) auto

lemma bot_run_ttl: "ca_defaultTTL (ib_cache (bot_run cfg es (NewIrcBot seen log))) = 2 * opmeLeeway"
proof -
  have "ca_defaultTTL (ib_cache (bot_run cfg es b)) = ca_defaultTTL (ib_cache b)" for b
  proof (induction es arbitrary: b)
    case (Cons x es)
    obtain ops where "ib_cache (bot_step cfg x b) = cache_after ops (ib_cache b)" by (rule bot_step_cache)
    then show ?case using Cons.IH [of "bot_step cfg x b"] by (simp add: bot_run_def cache_after_ttl)
  qed (simp add: bot_run_def)
  then show ?thesis by (simp add: NewIrcBot_def New_cache_def)
qed


subsection \<open>Examples\<close>

definition ex_irc_env :: "instant \<Rightarrow> irc_env" where
  "ex_irc_env t =
     \<lparr>ie_now = t, ie_since = t, ie_get = t, ie_add = t,
      ie_tracker = \<lparr>tk_me = ''bot'', tk_channel = [''#c'' \<mapsto> [(''bot'', True), (''joe'', False)]], tk_nick = (\<lambda>n. n = ''joe'')\<rparr>,
      ie_marshal = (\<lambda>r. Some (lr_Text r)), ie_open = (\<lambda>r. True), ie_hmac = (\<lambda>k m. k @ ReplaceChar (CHR '':'') (CHR ''x'') m),
      ie_ranges = \<lparr>rg_pres = (\<lambda>xs. xs), rg_matches = (\<lambda>xs. xs)\<rparr>\<rparr>"

definition ex_irc_cfg :: IrcConfig where
  "ex_irc_cfg = \<lparr>ic_Nick = ''bot'', ic_Channels = [\<lparr>ic_Name = ''#c'', ic_OpMe = Some [(''joe'', ''k'')]\<rparr>]\<rparr>"

definition ex_opme :: irc_event where
  "ex_opme = PRIVMSG \<lparr>li_Nick = ''joe'', li_Ident = [], li_Host = [], li_Target = ''#c'', li_Text = ''bot: !opme joe:9:Kjoex9'',
     li_Args = []\<rparr>"

definition ex_bot :: IrcBot where
  "ex_bot = NewIrcBot empty_seen (NewLogStore Map.empty)"

lemma ex_opme_grants:
  "new_out ex_irc_cfg (ex_irc_env (20 * second)) ex_opme ex_bot = [ModeCmd ''#c'' ''+o'' ''joe'']"
  "\<exists>l mac. ex_opme = PRIVMSG l \<and> opme_args (ex_irc_env (20 * second)) l = Some (''joe'', ''9'', mac)"
proof -
  show "new_out ex_irc_cfg (ex_irc_env (20 * second)) ex_opme ex_bot = [ModeCmd ''#c'' ''+o'' ''joe'']" by code_simp
  have "opme_args (ex_irc_env (20 * second)) \<lparr>li_Nick = ''joe'', li_Ident = [], li_Host = [], li_Target = ''#c'',
     li_Text = ''bot: !opme joe:9:Kjoex9'', li_Args = []\<rparr> = Some (''joe'', ''9'', ''Kjoex9'')" by code_simp
  then show "\<exists>l mac. ex_opme = PRIVMSG l \<and> opme_args (ex_irc_env (20 * second)) l = Some (''joe'', ''9'', mac)"
    unfolding ex_opme_def by blast
qed

theorem opme_grants_are_authorised_example:
  "hasModeOp (ex_irc_env (20 * second)) ''#c'' \<and>
   (\<exists>c. accepts (ex_irc_env (20 * second)) ex_irc_cfg ''#c'' c)"
  using opme_grants_are_authorised [of "''#c''" "''+o''" "''joe''" ex_irc_cfg "ex_irc_env (20 * second)" ex_opme ex_bot]
  by (auto simp: ex_opme_grants(1))


end
