(* ===== verification/BotMirror.thy ===== *)
theory BotMirror
  imports BotOpMe
begin

text \<open>
  The bot's mirror of the channel members against the server's own membership, and the timing of its
  connection: the pauses between attempts and the watchdog. The server is a step relation that says which
  line each change of the membership sends to the bot.
\<close>

subsection \<open>The server\<close>

text \<open>The server knows the members (folded nicks) of the channels the bot is in. \<open>sv_unlisted\<close> are those that
  were there when the bot joined and that no NAMES reply has listed yet.\<close>

record Server =
  sv_me :: string
  sv_members :: "string \<rightharpoonup> string set"
  sv_unlisted :: "string \<Rightarrow> string set"

definition rename_in :: "string \<Rightarrow> string \<Rightarrow> string set \<Rightarrow> string set" where
  "rename_in lo ln s = (if lo \<in> s then insert ln (s - {lo}) else s)"

definition leave_all :: "string \<Rightarrow> Server \<Rightarrow> Server" where
  "leave_all n w = w\<lparr>sv_members := (\<lambda>ch. map_option (\<lambda>s. s - {n}) (sv_members w ch)),
    sv_unlisted := (\<lambda>ch. sv_unlisted w ch - {n})\<rparr>"

definition leave_one :: "string \<Rightarrow> string \<Rightarrow> Server \<Rightarrow> Server" where
  "leave_one ch n w = w\<lparr>sv_members := (sv_members w)(ch := map_option (\<lambda>s. s - {n}) (sv_members w ch)),
    sv_unlisted := (sv_unlisted w)(ch := sv_unlisted w ch - {n})\<rparr>"

text \<open>One change of the membership and the event the bot gets; lines carry nicks that are not empty.\<close>

inductive server_step :: "Server \<Rightarrow> irc_event \<Rightarrow> Server \<Rightarrow> bool" where
  own_join: "li_Nick l = sv_me w \<Longrightarrow> sv_me w \<noteq> [] \<Longrightarrow>
    server_step w (JOIN l)
      (w\<lparr>sv_members := (sv_members w)(li_Target l \<mapsto> insert (ToLower (sv_me w)) others),
         sv_unlisted := (sv_unlisted w)(li_Target l := others)\<rparr>)"
| other_join: "li_Nick l \<noteq> sv_me w \<Longrightarrow> li_Nick l \<noteq> [] \<Longrightarrow> sv_members w (li_Target l) = Some s \<Longrightarrow>
    server_step w (JOIN l) (w\<lparr>sv_members := (sv_members w)(li_Target l \<mapsto> insert (ToLower (li_Nick l)) s)\<rparr>)"
| own_part: "EqualFold (li_Nick l) (sv_me w) \<Longrightarrow>
    server_step w (PART l) (w\<lparr>sv_members := (sv_members w)(li_Target l := None)\<rparr>)"
| other_part: "\<not> EqualFold (li_Nick l) (sv_me w) \<Longrightarrow>
    server_step w (PART l) (leave_one (li_Target l) (ToLower (li_Nick l)) w)"
| own_kick: "2 \<le> length (li_Args l) \<Longrightarrow> EqualFold (li_Args l ! 1) (sv_me w) \<Longrightarrow>
    server_step w (KICK l) (w\<lparr>sv_members := (sv_members w)(li_Target l := None)\<rparr>)"
| other_kick: "2 \<le> length (li_Args l) \<Longrightarrow> \<not> EqualFold (li_Args l ! 1) (sv_me w) \<Longrightarrow>
    server_step w (KICK l) (leave_one (li_Target l) (ToLower (li_Args l ! 1)) w)"
| quit: "\<not> EqualFold (li_Nick l) (sv_me w) \<Longrightarrow>
    server_step w (QUIT l) (leave_all (ToLower (li_Nick l)) w)"
| nick: "li_Args l = neu # rest \<Longrightarrow> neu \<noteq> [] \<Longrightarrow>
    server_step w (NICK l)
      (w\<lparr>sv_me := (if li_Nick l = sv_me w then neu else sv_me w),
         sv_members := (\<lambda>ch. map_option (rename_in (ToLower (li_Nick l)) (ToLower neu)) (sv_members w ch)),
         sv_unlisted := (\<lambda>ch. rename_in (ToLower (li_Nick l)) (ToLower neu) (sv_unlisted w ch))\<rparr>)"
| names: "4 \<le> length (li_Args l) \<Longrightarrow> sv_members w (li_Args l ! 2) = Some s \<Longrightarrow>
    L = ToLower ` (bare_nick ` set (Fields (last (li_Args l)))) - {[]} \<Longrightarrow> L \<subseteq> s \<Longrightarrow>
    server_step w (NAMES l) (w\<lparr>sv_unlisted := (sv_unlisted w)(li_Args l ! 2 := sv_unlisted w (li_Args l ! 2) - L)\<rparr>)"
| names_other: "4 \<le> length (li_Args l) \<Longrightarrow> sv_members w (li_Args l ! 2) = None \<Longrightarrow> server_step w (NAMES l) w"
| disconnect: "server_step w DISCONNECTED (w\<lparr>sv_members := Map.empty\<rparr>)"
| other: "e \<in> {CONNECTED, PRIVMSG l, ACTION l, NOTICE l, MODE l, TOPIC l} \<Longrightarrow> server_step w e w"

text \<open>Runs of the server with the bot. The tracker knows the bot's own nick.\<close>

inductive with_server :: "IrcConfig \<Rightarrow> Server \<Rightarrow> IrcBot \<Rightarrow> bool" for cfg where
  start: "sv_members w = Map.empty \<Longrightarrow> with_server cfg w (NewIrcBot seen log)"
| event: "with_server cfg w b \<Longrightarrow> server_step w e w' \<Longrightarrow> tk_me (ie_tracker env) = sv_me w \<Longrightarrow>
    with_server cfg w' (irc_handle cfg env e b)"
| clean: "with_server cfg w b \<Longrightarrow> with_server cfg w (bot_step cfg (CleanCache now) b)"

subsection \<open>The mirror\<close>

text \<open>What each handler does to the mirror.\<close>

lemma members_fold: "(\<And>x b. ib_members (f x b) = ib_members b) \<Longrightarrow> ib_members (fold f xs b) = ib_members b"
  by (induction xs arbitrary: b) auto

lemma members_log_fold [simp]: "ib_members (fold (\<lambda>ch. record_log env (f ch)) xs b) = ib_members b"
  by (rule members_fold) simp

lemma members_recover [simp]: "ib_members (tryRecoverNick env cfg b) = ib_members b"
  by (simp add: tryRecoverNick_def)

lemma members_opme [simp]: "ib_members (handleOpMe env cfg ch n arg b) = ib_members b"
  by (auto simp: handleOpMe_def Let_def split: option.split)

lemma members_command [simp]: "ib_members (snd (tryCommand env cfg t target l b)) = ib_members b"
  by (simp add: tryCommand_def Let_def handleSeen_def)

lemma members_privmsg [simp]: "ib_members (on_privmsg env cfg l b) = ib_members b"
proof -
  have "ib_members b' = ib_members b1" if "tryCommand env cfg t target l b1 = (h, b')" for t target b1 h b'
    using members_command [of env cfg t target l b1] that by simp
  then show ?thesis by (auto simp: on_privmsg_def Let_def split: prod.split)
qed

lemma members_map_step:
  "map_of (ib_members (addMember ch n b)) =
     (if n = [] then map_of (ib_members b)
      else (map_of (ib_members b))(ch \<mapsto> insert (ToLower n) (case map_of (ib_members b) ch of None \<Rightarrow> {} | Some s \<Rightarrow> s)))"
  "map_of (ib_members (delMember ch n b)) =
     (map_of (ib_members b))(ch := map_option (\<lambda>s. s - {ToLower n}) (map_of (ib_members b) ch))"
  "map_of (ib_members (renameMember old neu b)) =
     (\<lambda>ch. map_option (rename_in (ToLower old) (ToLower neu)) (map_of (ib_members b) ch))"
  "map_of (ib_members (delMemberAll n b)) = (\<lambda>ch. map_option (\<lambda>s. s - {ToLower n}) (map_of (ib_members b) ch))"
proof -
  show "map_of (ib_members (addMember ch n b)) =
     (if n = [] then map_of (ib_members b)
      else (map_of (ib_members b))(ch \<mapsto> insert (ToLower n) (case map_of (ib_members b) ch of None \<Rightarrow> {} | Some s \<Rightarrow> s)))"
    by (simp add: addMember_def)
  show "map_of (ib_members (delMember ch n b)) =
     (map_of (ib_members b))(ch := map_option (\<lambda>s. s - {ToLower n}) (map_of (ib_members b) ch))"
    by (auto simp: delMember_def split: option.split)
  have same: "rename_in x x = (\<lambda>s. s)" for x by (rule ext) (auto simp: rename_in_def)
  have rn: "rename_in lo ln = (\<lambda>s. if lo \<in> s then insert ln (s - {lo}) else s)" for lo ln
    by (rule ext) (simp add: rename_in_def)
  show "map_of (ib_members (renameMember old neu b)) =
     (\<lambda>ch. map_option (rename_in (ToLower old) (ToLower neu)) (map_of (ib_members b) ch))"
  proof (cases "ToLower old = ToLower neu")
    case True
    then show ?thesis by (simp add: renameMember_def same option.map_ident)
  next
    case False
    then show ?thesis by (intro ext) (simp add: renameMember_def Let_def rn)
  qed
  show "map_of (ib_members (delMemberAll n b)) = (\<lambda>ch. map_option (\<lambda>s. s - {ToLower n}) (map_of (ib_members b) ch))"
    by (rule ext) (simp add: delMemberAll_def)
qed

lemma addMembers_map:
  assumes "map_of (ib_members b) ch = Some s"
  shows "map_of (ib_members (fold (\<lambda>w. addMember ch (f w)) ws b)) =
    (map_of (ib_members b))(ch \<mapsto> s \<union> (ToLower ` (f ` set ws) - {[]}))"
  using assms
proof (induction ws arbitrary: b s)
  case (Cons w ws)
  show ?case
  proof (cases "f w = []")
    case True
    then have "addMember ch (f w) b = b" by (simp add: addMember_def)
    with Cons True show ?thesis by simp
  next
    case False
    have "map_of (ib_members (addMember ch (f w) b)) ch = Some (insert (ToLower (f w)) s)"
      using Cons.prems False by (simp add: members_map_step(1))
    from Cons.IH [OF this] have "map_of (ib_members (fold (\<lambda>w. addMember ch (f w)) (w # ws) b)) =
        (map_of (ib_members (addMember ch (f w) b)))(ch \<mapsto> insert (ToLower (f w)) s \<union> (ToLower ` (f ` set ws) - {[]}))"
      by (simp only: fold_simps(2))
    moreover have "insert (ToLower (f w)) s \<union> (ToLower ` (f ` set ws) - {[]}) =
        s \<union> (ToLower ` (f ` set (w # ws)) - {[]})" using False by auto
    ultimately show ?thesis using False by (simp add: members_map_step(1))
  qed
qed (auto simp: fun_upd_idem)

text \<open>For every channel the bot is in, the mirror and the nicks not yet listed make up the members.\<close>

definition mirrors :: "Server \<Rightarrow> IrcBot \<Rightarrow> bool" where
  "mirrors w b \<longleftrightarrow>
     (\<forall>ch s. sv_members w ch = Some s \<longrightarrow>
        (\<exists>m. map_of (ib_members b) ch = Some m \<and> m \<union> sv_unlisted w ch = s))"

lemma mirrorsD: "mirrors w b \<Longrightarrow> sv_members w ch = Some s \<Longrightarrow>
    \<exists>m. map_of (ib_members b) ch = Some m \<and> m \<union> sv_unlisted w ch = s"
  by (simp add: mirrors_def)

lemma rename_in_Un: "rename_in lo ln m \<union> rename_in lo ln u = rename_in lo ln (m \<union> u)"
  by (auto simp: rename_in_def)

lemma mirrors_map:
  assumes "mirrors w b" and "sv_members w' = (\<lambda>ch. map_option g (sv_members w ch))"
    and "sv_unlisted w' = (\<lambda>ch. g (sv_unlisted w ch))"
    and "map_of (ib_members b') = (\<lambda>ch. map_option g (map_of (ib_members b) ch))" and "\<And>m u. g m \<union> g u = g (m \<union> u)"
  shows "mirrors w' b'"
  unfolding mirrors_def
proof (intro allI impI)
  fix ch s
  assume "sv_members w' ch = Some s"
  then obtain s0 where s0: "sv_members w ch = Some s0" "s = g s0" by (auto simp: assms(2))
  from mirrorsD [OF assms(1) s0(1)] obtain m where "map_of (ib_members b) ch = Some m" "m \<union> sv_unlisted w ch = s0"
    by blast
  then show "\<exists>m. map_of (ib_members b') ch = Some m \<and> m \<union> sv_unlisted w' ch = s"
    by (simp add: assms(3-5) s0(2))
qed

lemma mirrors_step:
  assumes "server_step w e w'" and "mirrors w b" and "tk_me (ie_tracker env) = sv_me w"
  shows "mirrors w' (irc_handle cfg env e b)"
  using assms(1)
proof cases
  case (own_join l others)
  then show ?thesis using assms(2,3)
    by (auto simp: mirrors_def on_join_def Let_def members_map_step)
next
  case (other_join l s)
  from mirrorsD [OF assms(2) other_join(5)] obtain m where
    "map_of (ib_members b) (li_Target l) = Some m" "m \<union> sv_unlisted w (li_Target l) = s" by blast
  then show ?thesis using other_join assms(2,3)
    by (auto simp: mirrors_def on_join_def Let_def members_map_step)
next
  case (own_part l)
  then show ?thesis using assms(2) by (auto simp: mirrors_def on_part_def Let_def members_map_step)
next
  case (other_part l)
  then show ?thesis using assms(2)
    by (fastforce simp: mirrors_def on_part_def Let_def members_map_step leave_one_def)
next
  case (own_kick l)
  then show ?thesis using assms(2,3) by (auto simp: mirrors_def on_kick_def Let_def)
next
  case (other_kick l)
  then show ?thesis using assms(2,3)
    by (fastforce simp: mirrors_def on_kick_def Let_def members_map_step leave_one_def)
next
  case (quit l)
  have "map_of (ib_members (irc_handle cfg env e b)) =
      (\<lambda>ch. map_option (\<lambda>s. s - {ToLower (li_Nick l)}) (map_of (ib_members b) ch))"
    by (simp add: quit(1) on_quit_def Let_def members_map_step)
  then show ?thesis by (intro mirrors_map [OF assms(2), where g = "\<lambda>s. s - {ToLower (li_Nick l)}"]) (auto simp: quit leave_all_def)
next
  case (nick l neu rest)
  have "map_of (ib_members (irc_handle cfg env e b)) =
      (\<lambda>ch. map_option (rename_in (ToLower (li_Nick l)) (ToLower neu)) (map_of (ib_members b) ch))"
    by (simp add: nick(1,3) on_nick_def Let_def members_map_step)
  then show ?thesis by (intro mirrors_map [OF assms(2), where g = "rename_in (ToLower (li_Nick l)) (ToLower neu)"])
      (simp_all add: nick(2) rename_in_Un)
next
  case (names l s L)
  from mirrorsD [OF assms(2) names(4)] obtain m where
    m: "map_of (ib_members b) (li_Args l ! 2) = Some m" "m \<union> sv_unlisted w (li_Args l ! 2) = s" by blast
  have "map_of (ib_members (irc_handle cfg env e b)) = (map_of (ib_members b))(li_Args l ! 2 \<mapsto> m \<union> L)"
    using names m(1) addMembers_map [OF m(1), of bare_nick] by (simp add: on_names_def Let_def)
  then show ?thesis using names m assms(2) by (auto simp: mirrors_def)
next
  case (names_other l)
  have "map_of (ib_members (irc_handle cfg env e b)) ch = map_of (ib_members b) ch" if "ch \<noteq> li_Args l ! 2" for ch
  proof (cases "map_of (ib_members b) (li_Args l ! 2)")
    case None
    then show ?thesis using names_other by (simp add: on_names_def Let_def)
  next
    case (Some m)
    then show ?thesis using names_other that addMembers_map [OF Some, of bare_nick] by (simp add: on_names_def Let_def)
  qed
  then show ?thesis using names_other assms(2) unfolding mirrors_def by (metis option.distinct(1))
next
  case disconnect
  then show ?thesis by (simp add: mirrors_def)
next
  case (other l)
  have "ib_members (on_connected cfg b) = ib_members b"
    unfolding on_connected_def by (rule members_fold) simp
  then have "ib_members (irc_handle cfg env e b) = ib_members b"
    using other(2) by (auto simp: on_action_def on_notice_def on_mode_def on_topic_def Let_def)
  then show ?thesis using other(1) assms(2) by (simp add: mirrors_def)
qed

lemma nodup_map_vals [simp]: "nodup_keys (map_vals f xs) = nodup_keys xs"
  by (simp add: nodup_keys_def)

lemma nodup_addMember: "nodup_keys (ib_members b) \<Longrightarrow> nodup_keys (ib_members (addMember ch n b))"
  by (simp add: addMember_def)

lemma nodup_members_fold:
  "(\<And>x b. nodup_keys (ib_members b) \<Longrightarrow> nodup_keys (ib_members (f x b))) \<Longrightarrow> nodup_keys (ib_members b) \<Longrightarrow>
   nodup_keys (ib_members (fold f xs b))"
  by (induction xs arbitrary: b) auto

lemma nodup_members:
  assumes "nodup_keys (ib_members b)"
  shows "nodup_keys (ib_members (irc_handle cfg env e b))"
proof (cases e)
  case CONNECTED
  then show ?thesis using assms by (simp add: on_connected_def nodup_members_fold)
next
  case (QUIT l)
  show ?thesis using QUIT assms by (simp add: on_quit_def Let_def delMemberAll_def)
next
  case (NICK l)
  show ?thesis using NICK assms by (simp add: on_nick_def Let_def renameMember_def split: list.split)
next
  case (NAMES l)
  then show ?thesis using assms by (simp add: on_names_def Let_def nodup_members_fold nodup_addMember)
qed (use assms in \<open>simp_all add: on_disconnected_def on_join_def on_part_def on_kick_def on_action_def on_notice_def
    on_mode_def on_topic_def Let_def nodup_addMember delMember_def split: option.split\<close>)

lemma with_server_mirrors: "with_server cfg w b \<Longrightarrow> mirrors w b \<and> nodup_keys (ib_members b)"
proof (induction rule: with_server.induct)
  case (start w seen log)
  then show ?case by (simp add: mirrors_def NewIrcBot_def)
next
  case (event w b e w' env)
  then show ?case using mirrors_step nodup_members by blast
next
  case (clean w b now)
  then show ?case by (simp add: mirrors_def)
qed


subsection \<open>Reconnecting\<close>

lemma pause_range:
  "baseBackoff \<le> p \<Longrightarrow> p \<le> maxBackoff \<Longrightarrow>
   list_all (\<lambda>p. baseBackoff \<le> p \<and> p \<le> maxBackoff) (fst (connect_loop oks p))"
proof (induction oks p rule: connect_loop.induct)
  case (2 ok oks p)
  have "baseBackoff \<le> next_backoff p \<and> next_backoff p \<le> maxBackoff"
    using 2(3) by (auto simp: next_backoff_def baseBackoff_def maxBackoff_def second_def)
  with 2 show ?case
    by (cases ok) (auto split: prod.splits simp: baseBackoff_def maxBackoff_def second_def)
qed simp

lemma pauses_double:
  "p = min (baseBackoff * 2 ^ k) maxBackoff \<Longrightarrow>
   fst (connect_loop (replicate n False) p) = map (\<lambda>i. min (baseBackoff * 2 ^ (k + i)) maxBackoff) [0..<n]"
proof (induction n arbitrary: p k)
  case (Suc n)
  have "next_backoff p = min (baseBackoff * 2 ^ Suc k) maxBackoff"
    unfolding Suc.prems next_backoff_def by (auto simp: Let_def min_def baseBackoff_def maxBackoff_def second_def)
  from Suc.IH [OF this] have "fst (connect_loop (replicate n False) (next_backoff p)) =
      map (\<lambda>i. min (baseBackoff * 2 ^ (Suc k + i)) maxBackoff) [0..<n]" .
  moreover have "[0..<Suc n] = 0 # map Suc [0..<n]" by (simp add: map_Suc_upt upt_conv_Cons del: upt_Suc)
  ultimately show ?case by (auto simp: Suc.prems split: prod.split simp del: upt_Suc)
qed simp

text \<open>The pauses between connection attempts stay between five seconds and five minutes, and double from
  five seconds up to that limit while the attempts fail.\<close>

theorem reconnect_pauses:
  "list_all (\<lambda>p. baseBackoff \<le> p \<and> p \<le> maxBackoff) (fst (connect_loop oks baseBackoff)) \<and>
   fst (connect_loop (replicate n False) baseBackoff) = map (\<lambda>i. min (baseBackoff * 2 ^ i) maxBackoff) [0..<n]"
  using pause_range [of baseBackoff oks] pauses_double [of baseBackoff 0 n]
  by (simp add: baseBackoff_def maxBackoff_def second_def)

subsection \<open>The watchdog\<close>

text \<open>Ticks at most \<open>f\<close> apart, from an instant on.\<close>

fun ticks_from :: "int \<Rightarrow> instant \<Rightarrow> instant list \<Rightarrow> bool" where
  "ticks_from f q [] = True"
| "ticks_from f q (t # ts) = (q \<le> t \<and> t \<le> q + f \<and> ticks_from f t ts)"


subsection \<open>Examples\<close>

definition ex_server :: Server where
  "ex_server = \<lparr>sv_me = ''bot'', sv_members = Map.empty, sv_unlisted = (\<lambda>_. {})\<rparr>"

definition ex_line :: "string \<Rightarrow> string list \<Rightarrow> Line" where
  "ex_line n args = \<lparr>li_Nick = n, li_Ident = [], li_Host = [], li_Target = ''#c'', li_Text = [], li_Args = args\<rparr>"



end
