(* ===== verification/BotMain.thy ===== *)
theory BotMain
  imports BotMirror UrlTarget
begin

text \<open>
  The main program of the bot, \<open>main.go\<close>, with the constructors, \<open>Start\<close> and \<open>Stop\<close> of the parts it wires together
  (\<open>webhook.go\<close>, \<open>telegram.go\<close>, \<open>irc.go\<close>). Decoding, the checks of the validator package, the file system,
  the listener and the two client libraries are parameters; a run is the list of what it does to its parts.
\<close>

subsection \<open>Configuration\<close>

record bot_webhook =
  bw_Enabled :: bool
  bw_Listen :: string
  bw_Token :: string

record bot_irc =
  bi_Nick :: string
  bi_Server :: string
  bi_Port :: nat
  bi_SSL :: bool
  bi_Template :: string
  bi_Channels :: "IrcChannel list"

record bot_telegram =
  bt_Enabled :: bool
  bt_Token :: string
  bt_Chats :: "int list"
  bt_Template :: string

record bot_config =
  bc_LogLevel :: string
  bc_DataDir :: string
  bc_FlushInterval :: int
  bc_Webhook :: bot_webhook
  bc_IRC :: bot_irc
  bc_Telegram :: bot_telegram

text \<open>The checks of the validator package on a string; \<open>required\<close> on a section refuses the zero one, and \<open>port\<close> is a range. The channels of the
  IRC section carry no tag that makes the validator descend into them.\<close>

record bot_checks =
  vl_dirpath :: "string \<Rightarrow> bool"
  vl_tcp_addr :: "string \<Rightarrow> bool"
  vl_fqdn :: "string \<Rightarrow> bool"
  vl_ip :: "string \<Rightarrow> bool"
  vl_min :: "nat \<Rightarrow> string \<Rightarrow> bool"

definition zero_webhook :: bot_webhook where
  "zero_webhook = \<lparr>bw_Enabled = False, bw_Listen = [], bw_Token = []\<rparr>"

definition zero_telegram :: bot_telegram where
  "zero_telegram = \<lparr>bt_Enabled = False, bt_Token = [], bt_Chats = [], bt_Template = []\<rparr>"

definition valid_bot_config :: "bot_checks \<Rightarrow> bot_config \<Rightarrow> bool" where
  "valid_bot_config vl c \<longleftrightarrow>
     (let w = bc_Webhook c; i = bc_IRC c; t = bc_Telegram c
      in bc_LogLevel c \<in> set [''debug'', ''info'', ''warn'', ''error''] \<and>
         bc_DataDir c \<noteq> [] \<and> vl_dirpath vl (bc_DataDir c) \<and>
         w \<noteq> zero_webhook \<and>
         (bw_Enabled w \<longrightarrow> bw_Listen w \<noteq> []) \<and> (bw_Listen w \<noteq> [] \<longrightarrow> vl_tcp_addr vl (bw_Listen w)) \<and>
         (bw_Enabled w \<longrightarrow> bw_Token w \<noteq> []) \<and> (bw_Token w \<noteq> [] \<longrightarrow> vl_min vl 20 (bw_Token w)) \<and>
         bi_Nick i \<noteq> [] \<and> (vl_fqdn vl (bi_Server i) \<or> vl_ip vl (bi_Server i)) \<and>
         1 \<le> bi_Port i \<and> bi_Port i \<le> 65535 \<and>
         t \<noteq> zero_telegram \<and> (bt_Enabled t \<longrightarrow> bt_Token t \<noteq> []))"

text \<open>The log level: the flag sets it first, then the configuration, whose level the flag replaces too.\<close>

definition bot_level :: "bool \<Rightarrow> string \<Rightarrow> int" where
  "bot_level debug name0 =
     (let lv = (if debug then -4 else 0); name = (if debug then ''debug'' else name0)
      in if name \<in> set [[], ''info''] then 0 else if name = ''debug'' then -4 else if name = ''warn'' then 4
         else if name = ''error'' then 8 else lv)"

text \<open>Both stores read the interval the same way.\<close>

definition defaultSeenFlush :: int where "defaultSeenFlush = 10 * second"

definition store_interval :: "int \<Rightarrow> int" where
  "store_interval interval = (if interval \<le> 0 then defaultSeenFlush else interval)"

subsection \<open>The parts\<close>

definition busBufferSize :: nat where "busBufferSize = 100"

text \<open>The client that \<open>NewIrcBot\<close> configures.\<close>

record irc_client =
  cl_Nick :: string
  cl_Server :: string
  cl_Timeout :: int
  cl_SSL :: "string option"
  cl_PingFreq :: int

definition new_irc_client :: "string \<Rightarrow> string \<Rightarrow> nat \<Rightarrow> bool \<Rightarrow> irc_client" where
  "new_irc_client nick server port ssl =
     \<lparr>cl_Nick = nick, cl_Server = JoinHostPort server (itoa (int port)), cl_Timeout = 30 * second,
      cl_SSL = (if ssl then Some server else None), cl_PingFreq = 0\<rparr>"

definition NewNick :: "string \<Rightarrow> string" where
  "NewNick old = old @ ''_''"

definition bot_irc_config :: "bot_irc \<Rightarrow> IrcConfig" where
  "bot_irc_config i = \<lparr>ic_Nick = bi_Nick i, ic_Channels = bi_Channels i\<rparr>"

record WebhookService =
  wk_Listen :: string
  wk_Token :: string

definition NewWebhook :: "(string \<Rightarrow> string option) \<Rightarrow> string \<Rightarrow> string \<Rightarrow> string + WebhookService" where
  "NewWebhook listen addr token =
     (case listen addr of Some e \<Rightarrow> Inl e | None \<Rightarrow> Inr \<lparr>wk_Listen = addr, wk_Token = token\<rparr>)"

text \<open>The Telegram bot. Its context is there from \<open>Start\<close> on, also when \<open>GetMe\<close> fails and it never polls.\<close>

record TgBot =
  tb_chats :: "int list"
  tb_format :: tmpl
  tb_ctx :: bool
  tb_polling :: bool

definition NewTgBot :: "(string \<Rightarrow> string option) \<Rightarrow> string \<Rightarrow> int list \<Rightarrow> tmpl \<Rightarrow> string + TgBot" where
  "NewTgBot new token chats format =
     (case new token of
        Some e \<Rightarrow> Inl e
      | None \<Rightarrow> Inr \<lparr>tb_chats = chats, tb_format = format, tb_ctx = False, tb_polling = False\<rparr>)"

definition tg_Start :: "bool \<Rightarrow> TgBot \<Rightarrow> TgBot" where
  "tg_Start getme b =
     (let b1 = b\<lparr>tb_ctx := True\<rparr> in if \<not> getme then b1 else b1\<lparr>tb_polling := True\<rparr>)"

definition tg_Stop :: "TgBot \<Rightarrow> TgBot" where
  "tg_Stop b = (if tb_ctx b then b\<lparr>tb_ctx := False, tb_polling := False\<rparr> else b)"

definition TgBot_Post :: "TgBot \<Rightarrow> Message \<Rightarrow> (int \<times> string) list" where
  "TgBot_Post b m = tg_Post (tb_ctx b) (tb_chats b) (tb_format b) m"

lemma stopped_telegram_posts_nothing: "TgBot_Post (tg_Stop b) m = []"
  by (simp add: TgBot_Post_def tg_Post_def tg_Stop_def)

subsection \<open>The program\<close>

datatype bot_part = SeenPart | LogPart | HookPart | TgPart | IrcPart

datatype bot_action =
    Opened bot_part
  | Launched bot_part
  | Listening string
  | Halted bot_part
  | BusClosed
  | Exited int

record 'b bot_env =
  be_decode :: "string \<Rightarrow> string + bot_config"
  be_checks :: bot_checks
  be_compile :: "string \<Rightarrow> string + tmpl"
  be_mkdirSeen :: "string option"
  be_mkdirLog :: "string option"
  be_fs :: "'b seen_fs"
  be_entries :: "(string \<times> bool) list option"
  be_disk :: "string \<rightharpoonup> 'b"
  be_logs :: "string \<times> string \<rightharpoonup> string"
  be_listen :: "string \<Rightarrow> string option"
  be_telegram :: "string \<Rightarrow> string option"

text \<open>What the program has made when it waits for a signal.\<close>

record bot_parts =
  bp_seen :: SeenStore
  bp_log :: LogStore
  bp_bus :: Bus
  bp_hook :: "WebhookService option"
  bp_tg :: "TgBot option"
  bp_client :: irc_client
  bp_irc_config :: IrcConfig
  bp_irc :: IrcBot
  bp_irc_format :: tmpl

text \<open>The optional parts: what is done, what is to be stopped, and the part; an error ends the program.\<close>

definition start_webhook :: "'b bot_env \<Rightarrow> bot_config \<Rightarrow> string + (bot_action list \<times> bot_part list \<times> WebhookService option)" where
  "start_webhook env c =
     (let w = bc_Webhook c
      in if \<not> bw_Enabled w then Inr ([], [], None)
         else
           (case NewWebhook (be_listen env) (bw_Listen w) (bw_Token w) of
              Inl e \<Rightarrow> Inl e
            | Inr h \<Rightarrow> Inr ([Opened HookPart, Launched HookPart], [HookPart], Some h)))"

definition start_telegram :: "'b bot_env \<Rightarrow> tmpl \<Rightarrow> bot_config \<Rightarrow> string + (bot_action list \<times> bot_part list \<times> TgBot option)" where
  "start_telegram env fmt c =
     (let t = bc_Telegram c
      in if \<not> bt_Enabled t then Inr ([], [], None)
         else
           (case NewTgBot (be_telegram env) (bt_Token t) (bt_Chats t) fmt of
              Inl e \<Rightarrow> Inl e
            | Inr b \<Rightarrow> Inr ([Opened TgPart, Launched TgPart, Listening ''telegram''], [TgPart], Some b)))"

text \<open>From the stores to the signal, and the stops in reverse.\<close>

definition run_parts :: "'b bot_env \<Rightarrow> tmpl \<Rightarrow> tmpl \<Rightarrow> bot_config \<Rightarrow> bot_action list \<times> bot_parts option" where
  "run_parts env ircFmt tgFmt c =
     (if be_mkdirSeen env \<noteq> None then ([Exited 1], None)
      else
        (let seen = NewSeenStore (be_fs env) (be_entries env) (be_disk env)
         in if be_mkdirLog env \<noteq> None then ([Opened SeenPart, Exited 1], None)
            else
              (let chlog = NewLogStore (be_logs env); acts = [Opened SeenPart, Opened LogPart]
               in case start_webhook env c of
                    Inl _ \<Rightarrow> (acts @ [Exited 1], None)
                  | Inr (acts1, stops1, hook) \<Rightarrow>
                      (case start_telegram env tgFmt c of
                         Inl _ \<Rightarrow> (acts @ acts1 @ [Exited 1], None)
                       | Inr (acts2, stops2, tg) \<Rightarrow>
                           (let i = bc_IRC c;
                                stoppers = [SeenPart, LogPart] @ stops1 @ stops2 @ [IrcPart]
                            in (acts @ acts1 @ acts2 @ [Opened IrcPart, Launched IrcPart, Listening ''irc''] @
                                  map Halted (rev stoppers) @ [BusClosed],
                                Some \<lparr>bp_seen = seen, bp_log = chlog, bp_bus = NewBus busBufferSize, bp_hook = hook,
                                  bp_tg = tg, bp_client = new_irc_client (bi_Nick i) (bi_Server i) (bi_Port i) (bi_SSL i),
                                  bp_irc_config = bot_irc_config i, bp_irc = NewIrcBot seen chlog,
                                  bp_irc_format = ircFmt\<rparr>))))))"

definition bot_main :: "'b bot_env \<Rightarrow> string \<Rightarrow> bot_action list \<times> bot_parts option" where
  "bot_main env file =
     (case be_decode env file of
        Inl _ \<Rightarrow> ([Exited 1], None)
      | Inr c \<Rightarrow>
          if \<not> valid_bot_config (be_checks env) c then ([Exited 1], None)
          else
            (case parseFormat (be_compile env) ''irc'' (bi_Template (bc_IRC c)) of
               Inl _ \<Rightarrow> ([Exited 1], None)
             | Inr ircFmt \<Rightarrow>
                 (case parseFormat (be_compile env) ''telegram'' (bt_Template (bc_Telegram c)) of
                    Inl _ \<Rightarrow> ([Exited 1], None)
                  | Inr tgFmt \<Rightarrow> run_parts env ircFmt tgFmt c)))"

text \<open>The parts a run opens and those it stops, in order.\<close>

fun opened :: "bot_action \<Rightarrow> bot_part list" where
  "opened (Opened p) = [p]" | "opened _ = []"

fun halted :: "bot_action \<Rightarrow> bot_part list" where
  "halted (Halted p) = [p]" | "halted _ = []"

lemma start_webhook_acts:
  "start_webhook env c = Inr (acts, stops, h) \<Longrightarrow> concat (map opened acts) = stops \<and> concat (map halted acts) = [] \<and>
     (h \<noteq> None \<longleftrightarrow> bw_Enabled (bc_Webhook c)) \<and> set stops \<subseteq> {HookPart} \<and> distinct stops"
  by (auto simp: start_webhook_def Let_def NewWebhook_def split: if_splits option.splits)

lemma start_telegram_acts:
  "start_telegram env fmt c = Inr (acts, stops, t) \<Longrightarrow> concat (map opened acts) = stops \<and> concat (map halted acts) = [] \<and>
     (t \<noteq> None \<longleftrightarrow> bt_Enabled (bc_Telegram c)) \<and> set stops \<subseteq> {TgPart} \<and> distinct stops"
  by (auto simp: start_telegram_def Let_def NewTgBot_def split: if_splits option.splits)

lemma halted_map [simp]: "concat (map halted (map Halted ps)) = ps" "concat (map opened (map Halted ps)) = []"
  by (induction ps) auto

lemma run_parts_cases:
  assumes "run_parts env ircFmt tgFmt c = (acts, parts)"
  obtains (failed) "parts = None" and "last acts = Exited 1" and "concat (map halted acts) = []"
    | (running) acts1 stops1 h acts2 stops2 t p where "start_webhook env c = Inr (acts1, stops1, h)"
        and "start_telegram env tgFmt c = Inr (acts2, stops2, t)" and "parts = Some p" and "bp_bus p = NewBus busBufferSize" and "bp_tg p = t"
        and "bp_hook p = h"
        and "acts = [Opened SeenPart, Opened LogPart] @ acts1 @ acts2 @ [Opened IrcPart, Launched IrcPart, Listening ''irc''] @
           map Halted (rev ([SeenPart, LogPart] @ stops1 @ stops2 @ [IrcPart])) @ [BusClosed]"
proof (cases "be_mkdirSeen env = None \<and> be_mkdirLog env = None")
  case False
  with assms show thesis by (intro failed) (auto simp: run_parts_def Let_def split: if_splits)
next
  case dirs: True
  show thesis
  proof (cases "start_webhook env c")
    case (Inl e)
    with assms dirs show thesis by (intro failed) (auto simp: run_parts_def Let_def)
  next
    case (Inr w)
    obtain acts1 stops1 h where w: "w = (acts1, stops1, h)" by (cases w)
    note sw = Inr [unfolded w]
    show thesis
    proof (cases "start_telegram env tgFmt c")
      case (Inl e)
      with assms dirs sw start_webhook_acts [OF sw] show thesis by (intro failed) (auto simp: run_parts_def Let_def)
    next
      case (Inr t)
      obtain acts2 stops2 b where t: "t = (acts2, stops2, b)" by (cases t)
      note st = Inr [unfolded t]
      obtain p where p: "parts = Some p" "bp_bus p = NewBus busBufferSize" "bp_tg p = b" "bp_hook p = h"
        using assms dirs by (auto simp: run_parts_def Let_def sw st simp del: rev.simps)
      show thesis
        by (rule running [OF sw st p(1) p(2) p(3) p(4)]) (use assms dirs in \<open>simp add: run_parts_def Let_def sw st del: rev.simps\<close>)
    qed
  qed
qed

lemma bot_main_cases:
  assumes "bot_main env file = (acts, parts)"
  obtains (early) "acts = [Exited 1]" and "parts = None"
    | (parts) c ircFmt tgFmt where "be_decode env file = Inr c" and "valid_bot_config (be_checks env) c"
        and "run_parts env ircFmt tgFmt c = (acts, parts)"
proof (cases "be_decode env file")
  case (Inl e)
  with assms show thesis by (intro early) (simp_all add: bot_main_def)
next
  case c: (Inr c)
  show thesis
  proof (cases "valid_bot_config (be_checks env) c")
    case False
    with assms c show thesis by (intro early) (simp_all add: bot_main_def)
  next
    case v: True
    show thesis
    proof (cases "parseFormat (be_compile env) ''irc'' (bi_Template (bc_IRC c))")
      case (Inl e)
      with assms c v show thesis by (intro early) (simp_all add: bot_main_def)
    next
      case i: (Inr ircFmt)
      show thesis
      proof (cases "parseFormat (be_compile env) ''telegram'' (bt_Template (bc_Telegram c))")
        case (Inl e)
        with assms c v i show thesis by (intro early) (simp_all add: bot_main_def)
      next
        case (Inr tgFmt)
        with assms c v i show thesis by (intro parts [of c ircFmt tgFmt]) (simp_all add: bot_main_def)
      qed
    qed
  qed
qed

lemma bot_main_bus: "bot_main env file = (acts, Some p) \<Longrightarrow> bp_bus p = NewBus busBufferSize"
  by (erule bot_main_cases) (auto elim: run_parts_cases)

text \<open>A run that gets as far as the signal stops what it opened, each part once and in reverse: the IRC bot
  first, the two stores last, so nothing that feeds a store outlives it; the bus is closed at the end.
  A run that does not ends with status 1 and stops nothing.\<close>

theorem bot_stops_in_reverse:
  assumes "bot_main env file = (acts, parts)"
  shows "(parts \<noteq> None \<longrightarrow> concat (map halted acts) = rev (concat (map opened acts)) \<and> distinct (concat (map opened acts)) \<and>
      last acts = BusClosed \<and> hd (concat (map halted acts)) = IrcPart \<and>
      (\<exists>ps. concat (map halted acts) = ps @ [LogPart, SeenPart])) \<and>
    (parts = None \<longrightarrow> last acts = Exited 1 \<and> concat (map halted acts) = [])"
  using assms
proof (cases rule: bot_main_cases)
  case (parts c ircFmt tgFmt)
  from parts(3) show ?thesis
  proof (cases rule: run_parts_cases)
      case (running acts1 stops1 h acts2 stops2 t p)
      note w = start_webhook_acts [OF running(1)] and t = start_telegram_acts [OF running(2)]
      have "concat (map opened acts) = [SeenPart, LogPart] @ stops1 @ stops2 @ [IrcPart]"
        using w t by (simp add: running(7) del: rev_append rev.simps map_map)
      moreover have "concat (map halted acts) = rev ([SeenPart, LogPart] @ stops1 @ stops2 @ [IrcPart])"
        using w t by (simp add: running(7) del: rev_append rev.simps map_map)
      moreover have "distinct ([SeenPart, LogPart] @ stops1 @ stops2 @ [IrcPart])" using w t by auto
      moreover have "last acts = BusClosed" by (simp add: running(7))
      ultimately show ?thesis by (simp add: running(3))
  qed simp
qed simp

subsection \<open>Start and Stop of the IRC bot\<close>

text \<open>Where \<open>Start\<close> is: before an attempt, in one, asleep after a failed one, connected, or back. The second
  component says that \<open>Stop\<close> has cancelled the context; a step takes some time. \<open>dial\<close> bounds the time of a connection attempt.\<close>

datatype irc_phase = Trying int | Connecting int | Sleeping int | Online | Returned

definition quit_pause :: int where "quit_pause = second div 2"

inductive irc_life :: "int \<Rightarrow> irc_phase \<times> bool \<Rightarrow> int \<Rightarrow> irc_phase \<times> bool \<Rightarrow> bool" for dial where
  life_cancelled: "irc_life dial (Trying b, True) quit_pause (Returned, True)"
| life_attempt: "irc_life dial (Trying b, False) 0 (Connecting b, False)"
| life_connected: "0 \<le> d \<Longrightarrow> d \<le> dial \<Longrightarrow> irc_life dial (Connecting b, c) d (Online, c)"
| life_failed: "0 \<le> d \<Longrightarrow> d \<le> dial \<Longrightarrow> irc_life dial (Connecting b, c) d (Sleeping b, c)"
| life_slept: "0 \<le> d \<Longrightarrow> d \<le> b \<Longrightarrow> irc_life dial (Sleeping b, c) d (Trying (next_backoff b), c)"
| life_lost: "irc_life dial (Online, c) 0 (Trying baseBackoff, c)"
| life_idle: "irc_life dial (Online, False) second (Online, False)"
| life_quit: "irc_life dial (Online, True) quit_pause (Returned, True)"
| life_stop: "irc_life dial (p, False) 0 (p, True)"

inductive_cases life_from_cancelled: "irc_life dial (p, True) d s"

inductive irc_lives :: "int \<Rightarrow> irc_phase \<times> bool \<Rightarrow> nat \<Rightarrow> int \<Rightarrow> irc_phase \<times> bool \<Rightarrow> bool" for dial where
  lives_none: "irc_lives dial s 0 0 s"
| lives_more: "irc_life dial s d s' \<Longrightarrow> irc_lives dial s' n e s'' \<Longrightarrow> irc_lives dial s (Suc n) (d + e) s''"

text \<open>The pauses stay within their bounds.\<close>

fun phase_ok :: "irc_phase \<Rightarrow> bool" where
  "phase_ok (Trying b) = (baseBackoff \<le> b \<and> b \<le> maxBackoff)"
| "phase_ok (Connecting b) = (baseBackoff \<le> b \<and> b \<le> maxBackoff)"
| "phase_ok (Sleeping b) = (baseBackoff \<le> b \<and> b \<le> maxBackoff)"
| "phase_ok _ = True"

lemma backoff_bounds: "baseBackoff \<le> maxBackoff" "0 < baseBackoff" "0 < quit_pause"
  by (simp_all add: baseBackoff_def maxBackoff_def quit_pause_def second_def)

lemma irc_life_ok: "irc_life dial s d s' \<Longrightarrow> phase_ok (fst s) \<Longrightarrow> phase_ok (fst s')"
  by (erule irc_life.cases) (use backoff_bounds in \<open>auto simp: next_backoff_def Let_def\<close>)

lemma irc_lives_ok: "irc_lives dial s n d s' \<Longrightarrow> phase_ok (fst s) \<Longrightarrow> phase_ok (fst s')"
  by (induction rule: irc_lives.induct) (auto dest: irc_life_ok)

text \<open>Steps and time left after the cancellation.\<close>

fun steps_left :: "irc_phase \<Rightarrow> nat" where
  "steps_left Returned = 0"
| "steps_left (Trying b) = 1"
| "steps_left Online = 2"
| "steps_left (Sleeping b) = 2"
| "steps_left (Connecting b) = 3"

fun time_left :: "int \<Rightarrow> irc_phase \<Rightarrow> int" where
  "time_left dial Returned = 0"
| "time_left dial (Trying b) = quit_pause"
| "time_left dial Online = quit_pause"
| "time_left dial (Sleeping b) = b + quit_pause"
| "time_left dial (Connecting b) = dial + b + quit_pause"

lemma cancelled_step:
  assumes "irc_life dial (p, True) d s" and "phase_ok p" and "0 \<le> dial"
  shows "snd s \<and> Suc (steps_left (fst s)) \<le> steps_left p \<and> d + time_left dial (fst s) \<le> time_left dial p"
  using assms backoff_bounds by (cases rule: life_from_cancelled) auto

lemma cancelled_run:
  "irc_lives dial s n d s' \<Longrightarrow> snd s \<Longrightarrow> phase_ok (fst s) \<Longrightarrow> 0 \<le> dial \<Longrightarrow>
   snd s' \<and> n + steps_left (fst s') \<le> steps_left (fst s) \<and> d + time_left dial (fst s') \<le> time_left dial (fst s)"
proof (induction rule: irc_lives.induct)
  case (lives_more s d s' n e s'')
  then have "irc_life dial (fst s, True) d s'" by (metis prod.collapse)
  from cancelled_step [OF this lives_more.prems(2,3)] irc_life_ok [OF lives_more.hyps(1)] lives_more show ?case by force
qed simp

lemma time_left_bounds:
  assumes "phase_ok p" and "0 \<le> dial"
  shows "0 \<le> time_left dial p \<and> time_left dial p \<le> dial + maxBackoff + quit_pause"
  using assms backoff_bounds by (cases p) auto

lemma cancelled_moves:
  assumes "p \<noteq> Returned" and "0 \<le> dial" and "phase_ok p"
  shows "\<exists>d s. irc_life dial (p, True) d s"
proof (cases p)
  case (Connecting b)
  from life_connected [OF order_refl assms(2)] show ?thesis unfolding Connecting by blast
next
  case (Sleeping b)
  then have "0 \<le> b" using assms(3) backoff_bounds by simp
  from life_slept [OF this order_refl] show ?thesis unfolding Sleeping by blast
qed (use assms(1) in \<open>blast intro: irc_life.intros\<close>)+

text \<open>C40: Stopping the IRC bot ends its connection loop: whatever it was doing, after the cancellation it takes at
  most three more steps, starts no further attempt to connect, is never stuck before it is back, and is
  back within the time of one attempt, one pause of at most five minutes and the half second of its
  farewell. Only the pause of a failed attempt makes it that long: nothing wakes it.\<close>

theorem stop_ends_the_connection:
  assumes "irc_lives dial (Trying baseBackoff, False) n0 d0 (p, True)" and "irc_lives dial (p, True) n d (q, c)" and "0 \<le> dial"
  shows "c \<and> n \<le> 3 \<and> d \<le> dial + maxBackoff + quit_pause \<and>
    (q \<noteq> Returned \<longrightarrow> (\<exists>d' s. irc_life dial (q, c) d' s)) \<and>
    ((\<forall>b. p \<noteq> Connecting b \<and> p \<noteq> Sleeping b) \<longrightarrow> d \<le> quit_pause) \<and>
    (p \<noteq> q \<longrightarrow> (\<forall>b. q \<noteq> Connecting b))"
proof -
  have "phase_ok (Trying baseBackoff)" using backoff_bounds by simp
  with irc_lives_ok [OF assms(1)] have p: "phase_ok p" by simp
  have q: "phase_ok q" using irc_lives_ok [OF assms(2)] p by simp
  have r: "c" "n + steps_left q \<le> steps_left p" "d + time_left dial q \<le> time_left dial p"
    using cancelled_run [OF assms(2)] p assms(3) by simp_all
  have "n \<le> 3" using r(2) by (cases p) auto
  moreover have "d \<le> dial + maxBackoff + quit_pause"
    using r(3) time_left_bounds [OF p assms(3)] time_left_bounds [OF q assms(3)] by simp
  moreover have "(\<forall>b. p \<noteq> Connecting b \<and> p \<noteq> Sleeping b) \<longrightarrow> d \<le> quit_pause"
    using r(3) time_left_bounds [OF q assms(3)] backoff_bounds(3) by (cases p) auto
  moreover have "q \<noteq> Connecting b" if "p \<noteq> q" for b
  proof
    assume "q = Connecting b"
    with r(2) have "n = 0" by (cases p) auto
    with assms(2) have "p = q" by (auto elim: irc_lives.cases)
    with that show False ..
  qed
  ultimately show ?thesis using r(1) cancelled_moves [OF _ assms(3) q] by simp
qed

text \<open>A stop in the first pause.\<close>

theorem stop_ends_the_connection_example:
  "\<exists>n d. irc_lives 30 (Sleeping baseBackoff, True) n d (Returned, True) \<and> n \<le> 3 \<and> d \<le> 30 + maxBackoff + quit_pause"
proof -
  have 1: "irc_lives 30 (Trying baseBackoff, False) 3 (0 + (30 + (0 + 0))) (Sleeping baseBackoff, True)"
    unfolding numeral_3_eq_3
    by (intro lives_more [OF life_attempt] lives_more [OF life_failed] lives_more [OF life_stop] lives_none) simp_all
  have 2: "irc_lives 30 (Sleeping baseBackoff, True) 2 (baseBackoff + (quit_pause + 0)) (Returned, True)"
    unfolding numeral_2_eq_2 using backoff_bounds
    by (intro lives_more [OF life_slept] lives_more [OF life_cancelled] lives_none) simp_all
  from stop_ends_the_connection [OF 1 2]
  show ?thesis by (intro exI [of _ 2] exI [of _ "baseBackoff + (quit_pause + 0)"] conjI 2) simp_all
qed

end
