(* ===== verification/MonLib.thy ===== *)
theory MonLib
  imports Files
begin

text \<open>
  What the monitors share: \<open>monitor/monitor.go\<close>, \<open>monitor/urlshort.go\<close> and \<open>monitor/webhook.go\<close>. JSON, the HTTP
  client and the file system are parameters. A poll loop is a list of rounds; a retried request is a list of
  attempts.
\<close>

text \<open>The dash of the announcements, in UTF-8, with the spaces around it.\<close>

definition dash :: string where "dash = '' '' @ [CHR 0xE2, CHR 0x80, CHR 0x94] @ '' ''"

subsection \<open>State files\<close>

text \<open>\<open>SaveJSON\<close>: an error, or the file system with the new contents under the path. The temporary file is
  replaced by the rename, and left behind by a failed one.\<close>

record 'b state_fs =
  sf_write :: "string \<Rightarrow> string option"
  sf_rename :: "string \<Rightarrow> string option"

definition SaveJSON :: "'b state_fs \<Rightarrow> ('a \<Rightarrow> string + 'b) \<Rightarrow> string \<Rightarrow> 'a \<Rightarrow> (string \<rightharpoonup> 'b) \<Rightarrow>
    string option \<times> (string \<rightharpoonup> 'b)" where
  "SaveJSON fs marshal path v d =
     (case marshal v of
        Inl e \<Rightarrow> (Some e, d)
      | Inr b \<Rightarrow>
          (let tmp = path @ ''.tmp''
           in case sf_write fs tmp of
                Some e \<Rightarrow> (Some e, d)
              | None \<Rightarrow>
                  (case sf_rename fs path of
                     Some e \<Rightarrow> (Some e, d(tmp \<mapsto> b))
                   | None \<Rightarrow> (None, d(tmp := None, path \<mapsto> b)))))"

text \<open>\<open>ReadJSON\<close>: an error, no file, or the value. \<open>unreadable\<close> says that reading fails for another reason
  than a missing file.\<close>

definition ReadJSON :: "(string \<Rightarrow> string option) \<Rightarrow> ('b \<Rightarrow> string + 'a) \<Rightarrow> string \<Rightarrow> (string \<rightharpoonup> 'b) \<Rightarrow> string + 'a option" where
  "ReadJSON unreadable unmarshal path d =
     (case unreadable path of
        Some e \<Rightarrow> Inl e
      | None \<Rightarrow>
          (case d path of
             None \<Rightarrow> Inr None
           | Some b \<Rightarrow> (case unmarshal b of Inl e \<Rightarrow> Inl e | Inr v \<Rightarrow> Inr (Some v))))"

text \<open>A save either leaves the old state in place or replaces it whole.\<close>

lemma SaveJSON_atomic:
  "SaveJSON fs marshal path v d = (err, d') \<Longrightarrow>
   (if err = None then \<exists>b. marshal v = Inr b \<and> d' path = Some b else d' path = d path)"
  by (auto simp: SaveJSON_def Let_def split: sum.splits option.splits)

subsection \<open>History\<close>

record History =
  hi_lines :: "string list"
  hi_closed :: bool

definition NewHistory :: History where
  "NewHistory = \<lparr>hi_lines = [], hi_closed = False\<rparr>"

datatype append_error = MarshalFailed | HistoryClosed

definition Append :: "('a \<Rightarrow> string option) \<Rightarrow> 'a \<Rightarrow> History \<Rightarrow> append_error option \<times> History" where
  "Append marshal v h =
     (case marshal v of
        None \<Rightarrow> (Some MarshalFailed, h)
      | Some b \<Rightarrow>
          if hi_closed h then (Some HistoryClosed, h)
          else (None, h\<lparr>hi_lines := hi_lines h @ [b @ [CHR 0x0A]]\<rparr>))"

text \<open>\<open>Flush\<close> with the outcome of opening and of writing; the buffer is emptied in every case.\<close>

definition Flush :: "bool \<Rightarrow> bool \<Rightarrow> History \<times> string \<Rightarrow> bool \<times> History \<times> string" where
  "Flush open_ok write_ok s =
     (case s of
        (h, file) \<Rightarrow>
          if hi_lines h = [] then (True, h, file)
          else
            (let h' = h\<lparr>hi_lines := []\<rparr>
             in if \<not> open_ok \<or> \<not> write_ok then (False, h', file)
                else (True, h', file @ concat (hi_lines h))))"

definition Close_history :: "bool \<Rightarrow> bool \<Rightarrow> History \<times> string \<Rightarrow> bool \<times> History \<times> string" where
  "Close_history open_ok write_ok s =
     (case Flush open_ok write_ok s of (ok, h, file) \<Rightarrow> (ok, h\<lparr>hi_closed := True\<rparr>, file))"

lemma history_lines_reach_the_file:
  "Flush True True (h, file) = (True, h\<lparr>hi_lines := []\<rparr>, file @ concat (hi_lines h))"
  by (simp add: Flush_def)

text \<open>\<open>LogLevel\<close>: an unknown name leaves the level alone.\<close>

definition LogLevel :: "int \<Rightarrow> string \<Rightarrow> int" where
  "LogLevel lv name =
     (if name = ''debug'' then -4 else if name = ''info'' then 0 else if name = ''warn'' then 4
      else if name = ''error'' then 8 else lv)"

subsection \<open>Posting\<close>

definition GetMaxLength :: int where "GetMaxLength = 400"
definition maxAttempts :: nat where "maxAttempts = 3"
definition post_backoff :: int where "post_backoff = second"

datatype attempt =
    RequestError string
  | NetworkError string
  | Status int

datatype post_error = BadRequest string | Cancelled | LastNetwork string | LastStatus int

text \<open>\<open>Post\<close>: what each attempt meets, and whether the context is cancelled after it. The answer is the error
  and the pauses taken.\<close>

fun post_loop :: "(nat \<Rightarrow> attempt) \<Rightarrow> (nat \<Rightarrow> bool) \<Rightarrow> nat \<Rightarrow> nat \<Rightarrow> post_error option \<Rightarrow> post_error option \<times> int list" where
  "post_loop att cancelled i 0 lastErr = (lastErr, [])"
| "post_loop att cancelled i (Suc n) lastErr =
     (let retry = (\<lambda>err.
            if cancelled i then (Some Cancelled, [])
            else (case post_loop att cancelled (Suc i) n (Some err) of
                    (r, ps) \<Rightarrow> (r, 2 ^ i * post_backoff # ps)))
      in case att i of
           RequestError e \<Rightarrow> (Some (BadRequest e), [])
         | Status s \<Rightarrow> if quot s 100 = 2 then (None, []) else retry (LastStatus s)
         | NetworkError e \<Rightarrow> retry (LastNetwork e))"

definition Post :: "(nat \<Rightarrow> attempt) \<Rightarrow> (nat \<Rightarrow> bool) \<Rightarrow> post_error option \<times> int list" where
  "Post att cancelled = post_loop att cancelled 0 maxAttempts None"

definition accepted_status :: "attempt \<Rightarrow> bool" where
  "accepted_status a \<longleftrightarrow> (case a of Status s \<Rightarrow> quot s 100 = 2 | _ \<Rightarrow> False)"

lemma upto_3: "(\<exists>k<3::nat. P k) \<longleftrightarrow> P 0 \<or> P 1 \<or> P 2" "(\<forall>j<2::nat. Q j) \<longleftrightarrow> Q 0 \<and> Q 1"
  by (auto simp: numeral_3_eq_3 numeral_2_eq_2 less_Suc_eq)

text \<open>C33: A post succeeds exactly when one of the first three attempts is answered with a 2xx status, every
  attempt before it having failed in a way that is retried, without the context being cancelled; and it
  never pauses for more than seven seconds in all.\<close>

theorem post_retries:
  "(fst (Post att cancelled) = None \<longleftrightarrow>
     (\<exists>k<3. accepted_status (att k) \<and>
        (\<forall>j<k. \<not> accepted_status (att j) \<and> (\<forall>e. att j \<noteq> RequestError e) \<and> \<not> cancelled j))) \<and>
   sum_list (snd (Post att cancelled)) \<le> 7 * second"
proof -
  have P: "Post att cancelled = post_loop att cancelled 0 (Suc (Suc (Suc 0))) None"
    by (simp add: Post_def maxAttempts_def numeral_3_eq_3)
  have pos: "0 < second" by (simp add: second_def)
  have "fst (Post att cancelled) = None \<longleftrightarrow>
     (\<exists>k<3. accepted_status (att k) \<and>
        (\<forall>j<k. \<not> accepted_status (att j) \<and> (\<forall>e. att j \<noteq> RequestError e) \<and> \<not> cancelled j))"
    unfolding P upto_3
    by (cases "att 0"; cases "att (Suc 0)"; cases "att (Suc (Suc 0))")
      (auto simp: Let_def accepted_status_def upto_3 numeral_2_eq_2 less_Suc_eq all_conj_distrib split: prod.split)
  moreover have "sum_list (snd (Post att cancelled)) \<le> 7 * second"
    unfolding P using pos
    by (cases "att 0"; cases "att (Suc 0)"; cases "att (Suc (Suc 0))")
      (auto simp: Let_def post_backoff_def split: prod.split)
  ultimately show ?thesis ..
qed

theorem post_retries_example:
  "fst (Post (\<lambda>k. if k = 0 then Status 503 else Status 204) (\<lambda>_. False)) = None"
proof -
  have "\<exists>k<3. accepted_status (if k = (0 :: nat) then Status 503 else Status 204) \<and>
      (\<forall>j<k. \<not> accepted_status (if j = 0 then Status 503 else Status 204) \<and>
        (\<forall>e. (if j = 0 then Status 503 else Status 204) \<noteq> RequestError e) \<and> \<not> False)"
    by (rule exI [of _ 1]) (simp add: accepted_status_def quot_def)
  then show ?thesis using post_retries [of "\<lambda>k. if k = 0 then Status 503 else Status 204" "\<lambda>_. False"] by blast
qed

subsection \<open>Shortening\<close>

definition urlShortBatchSize :: nat where "urlShortBatchSize = 100"

definition apiErrorMessage :: "(string \<Rightarrow> (string \<times> string) option) \<Rightarrow> int \<Rightarrow> string \<Rightarrow> string" where
  "apiErrorMessage decode status body =
     (case decode body of
        Some (code, message) \<Rightarrow>
          if code \<noteq> [] \<or> message \<noteq> [] then ''http status '' @ itoa status @ '': '' @ code @ '': '' @ message
          else ''http status '' @ itoa status
      | None \<Rightarrow> ''http status '' @ itoa status)"

text \<open>One request: \<open>answer\<close> is the outcome of the request, status and body, or its error; \<open>results\<close> decodes a
  body to the short URL of each result, empty for a result without one.\<close>

record shortener_env =
  sh_request :: "string list \<Rightarrow> string + int \<times> string"
  sh_results :: "string \<Rightarrow> string + string list"
  sh_error :: "string \<Rightarrow> (string \<times> string) option"

definition shortenBatch :: "shortener_env \<Rightarrow> string list \<Rightarrow> string + (string \<rightharpoonup> string)" where
  "shortenBatch se targets =
     (case sh_request se targets of
        Inl e \<Rightarrow> Inl e
      | Inr (status, body) \<Rightarrow>
          if quot status 100 \<noteq> 2 then Inl (apiErrorMessage (sh_error se) status body)
          else
            (case sh_results se body of
               Inl e \<Rightarrow> Inl e
             | Inr results \<Rightarrow>
                 Inr (fold (\<lambda>(t, u) m. if u \<noteq> [] then m(t \<mapsto> u) else m) (zip targets results) Map.empty)))"

text \<open>\<open>ShortenBatch\<close>: the chunks in order, and the first error.\<close>

function chunks :: "nat \<Rightarrow> 'a list \<Rightarrow> 'a list list" where
  "chunks n xs = (if xs = [] \<or> n = 0 then [] else take n xs # chunks n (drop n xs))"
  by pat_completeness auto
termination by (relation "measure (length \<circ> snd)") auto

declare chunks.simps [simp del]

fun add_chunks :: "shortener_env \<Rightarrow> string list list \<Rightarrow> (string \<rightharpoonup> string) \<times> string option \<Rightarrow> (string \<rightharpoonup> string) \<times> string option" where
  "add_chunks se [] r = r"
| "add_chunks se (c # cs) (short, firstErr) =
     (case shortenBatch se c of
        Inl e \<Rightarrow> add_chunks se cs (short, if firstErr = None then Some e else firstErr)
      | Inr m \<Rightarrow> add_chunks se cs (short ++ m, firstErr))"

definition ShortenBatch :: "shortener_env \<Rightarrow> string list \<Rightarrow> (string \<rightharpoonup> string) \<times> string option" where
  "ShortenBatch se targets = add_chunks se (chunks urlShortBatchSize targets) (Map.empty, None)"

text \<open>\<open>Shorten\<close>, one target; \<open>single\<close> decodes the answer.\<close>

definition Shorten :: "(string \<Rightarrow> string + int \<times> string) \<Rightarrow> (string \<Rightarrow> string + string) \<Rightarrow>
    (string \<Rightarrow> (string \<times> string) option) \<Rightarrow> string \<Rightarrow> string + string" where
  "Shorten request single err target =
     (case request target of
        Inl e \<Rightarrow> Inl e
      | Inr (status, body) \<Rightarrow>
          if quot status 100 \<noteq> 2 then Inl (apiErrorMessage err status body)
          else
            (case single body of
               Inl e \<Rightarrow> Inl e
             | Inr u \<Rightarrow> if u = [] then Inl ''urlshort: response missing short_url'' else Inr u))"

lemma concat_chunks: "0 < n \<Longrightarrow> concat (chunks n xs) = xs"
proof (induction n xs rule: chunks.induct)
  case (1 n xs)
  then show ?case by (subst chunks.simps) auto
qed

lemma chunk_size: "c \<in> set (chunks n xs) \<Longrightarrow> c \<noteq> [] \<and> length c \<le> n"
proof (induction n xs rule: chunks.induct)
  case (1 n xs)
  then show ?case by (subst (asm) (2) chunks.simps) (auto split: if_splits)
qed

text \<open>A server that answers a request for \<open>ts\<close> gives the results in their order.\<close>

definition answers_in_order :: "shortener_env \<Rightarrow> (string \<Rightarrow> string) \<Rightarrow> bool" where
  "answers_in_order se f \<longleftrightarrow>
     (\<forall>ts status body results. sh_request se ts = Inr (status, body) \<longrightarrow> sh_results se body = Inr results \<longrightarrow>
        quot status 100 = 2 \<longrightarrow> results = map f ts)"

lemma fold_pairs:
  "fold (\<lambda>(t, u) m. if u \<noteq> [] then m(t \<mapsto> u) else m) (zip ts (map f ts)) m0 t =
     (if t \<in> set ts \<and> f t \<noteq> [] then Some (f t) else m0 t)"
  by (induction ts arbitrary: m0) auto

lemma shortenBatch_pairs:
  assumes "answers_in_order se f" and "shortenBatch se ts = Inr m"
  shows "m t = (if t \<in> set ts \<and> f t \<noteq> [] then Some (f t) else None)"
  using assms fold_pairs [of ts f Map.empty t]
  by (auto simp: shortenBatch_def answers_in_order_def split: sum.splits prod.splits if_splits)

lemma add_chunks_sound:
  "answers_in_order se f \<Longrightarrow> \<forall>t u. fst r t = Some u \<longrightarrow> u = f t \<Longrightarrow> fst (add_chunks se cs r) t = Some u \<Longrightarrow> u = f t"
proof (induction se cs r rule: add_chunks.induct)
  case (2 se c cs short e)
  show ?case
  proof (cases "shortenBatch se c")
    case (Inl err)
    then show ?thesis using 2(1) [OF Inl 2(3)] 2(4,5) by simp
  next
    case (Inr m)
    have "\<forall>t u. fst (short ++ m, e) t = Some u \<longrightarrow> u = f t"
      using 2(4) shortenBatch_pairs [OF 2(3) Inr] by (auto simp: map_add_Some_iff split: if_splits)
    then show ?thesis using 2(2) [OF Inr 2(3)] 2(5) Inr by simp
  qed
qed simp

lemma add_chunks_keeps: "fst r t \<noteq> None \<Longrightarrow> fst (add_chunks se cs r) t \<noteq> None"
  by (induction se cs r rule: add_chunks.induct) (auto split: sum.split simp: map_add_def split: option.split)

lemma add_chunks_complete:
  assumes "answers_in_order se f" and "c \<in> set cs" and "shortenBatch se c = Inr m" and "t \<in> set c" and "f t \<noteq> []"
  shows "fst (add_chunks se cs r) t \<noteq> None"
  using assms(1,2,3)
proof (induction se cs r rule: add_chunks.induct)
  case (2 se d cs short e)
  show ?case
  proof (cases "d = c")
    case True
    have "m t = Some (f t)" using shortenBatch_pairs [OF 2(3) 2(5), of t] assms(4,5) by simp
    then have "fst (short ++ m, e) t \<noteq> None" by (simp add: map_add_def)
    then show ?thesis using 2(5) True by (simp only: add_chunks.simps sum.case add_chunks_keeps not_False_eq_True)
  next
    case False
    then show ?thesis using 2 by (cases "shortenBatch se d") auto
  qed
qed simp

lemma add_chunks_error:
  "snd (add_chunks se cs r) = None \<longleftrightarrow> snd r = None \<and> (\<forall>c\<in>set cs. \<exists>m. shortenBatch se c = Inr m)"
  by (induction se cs r rule: add_chunks.induct) (auto split: sum.split)

text \<open>When the API answers a batch in the order of the request, every short URL that \<open>ShortenBatch\<close> returns
  belongs to its target, requests hold at most 100 targets, and without an error every target of which
  the API knows a short URL has one.\<close>

theorem short_urls_belong_to_their_targets:
  assumes "answers_in_order se f" and "ShortenBatch se targets = (short, err)"
  shows "(short t = Some u \<longrightarrow> u = f t) \<and> (err = None \<longrightarrow> t \<in> set targets \<longrightarrow> f t \<noteq> [] \<longrightarrow> short t = Some (f t)) \<and>
    concat (chunks urlShortBatchSize targets) = targets \<and>
    list_all (\<lambda>c. length c \<le> urlShortBatchSize) (chunks urlShortBatchSize targets)"
proof -
  let ?cs = "chunks urlShortBatchSize targets"
  have cc: "concat ?cs = targets" by (rule concat_chunks) (simp add: urlShortBatchSize_def)
  have r: "add_chunks se ?cs (Map.empty, None) = (short, err)" using assms(2) by (simp add: ShortenBatch_def)
  have sound: "u = f t" if "short t = Some u" for t u
    using add_chunks_sound [OF assms(1), of "(Map.empty, None)" ?cs t u] that r by simp
  moreover have "short t = Some (f t)" if "err = None" "t \<in> set targets" "f t \<noteq> []"
  proof -
    from that(2) cc obtain c where c: "c \<in> set ?cs" "t \<in> set c" by (metis UN_iff set_concat)
    from c(1) that(1) r obtain m where m: "shortenBatch se c = Inr m"
      using add_chunks_error [of se ?cs "(Map.empty, None)"] by auto
    from add_chunks_complete [OF assms(1) c(1) m c(2) that(3), of "(Map.empty, None)"] r
    have "short t \<noteq> None" by simp
    with sound show ?thesis by auto
  qed
  moreover have "list_all (\<lambda>c. length c \<le> urlShortBatchSize) ?cs"
    using chunk_size [of _ urlShortBatchSize targets] by (auto simp: list_all_iff)
  ultimately show ?thesis using cc by blast
qed

definition ex_shortener :: shortener_env where
  "ex_shortener = \<lparr>sh_request = (\<lambda>ts. Inr (200, replicate (length ts) CHR ''x'')),
     sh_results = (\<lambda>b. Inr (map (\<lambda>_. ''u'') b)), sh_error = (\<lambda>_. None)\<rparr>"

theorem short_urls_belong_to_their_targets_example:
  "fst (ShortenBatch ex_shortener [''a'', ''b'']) ''b'' = Some ''u''"
proof -
  have o: "answers_in_order ex_shortener (\<lambda>_. ''u'')"
    by (auto simp: answers_in_order_def ex_shortener_def map_replicate_const)
  have "\<exists>m. shortenBatch ex_shortener c = Inr m" for c
    by (simp add: shortenBatch_def ex_shortener_def quot_def)
  then have "snd (ShortenBatch ex_shortener [''a'', ''b'']) = None"
    unfolding ShortenBatch_def add_chunks_error by simp
  moreover obtain short err where r: "ShortenBatch ex_shortener [''a'', ''b''] = (short, err)" by fastforce
  ultimately have "err = None" by simp
  with short_urls_belong_to_their_targets [OF o r] have "short ''b'' = Some ''u''" by fastforce
  then show ?thesis by (simp add: r)
qed

end
