(* ===== verification/MonRun.thy ===== *)
theory MonRun
  imports MonLib
begin

text \<open>
  The life of a monitor: \<open>Loop\<close> of \<open>monitor/monitor.go\<close> and what the \<open>Start\<close> methods do around it with the state file and
  the history. A monitor is given by its round, its state and what of it is persistent. The locale
  \<open>restartable\<close> is the contract under which a restart between two rounds cannot be noticed.
\<close>

subsection \<open>Durations\<close>

text \<open>\<open>time.Duration(n) * time.Second\<close> in 64 bits.\<close>

definition wrap64 :: "int \<Rightarrow> int" where
  "wrap64 n = (n + 2 ^ 63) mod 2 ^ 64 - 2 ^ 63"

definition seconds64 :: "int \<Rightarrow> int" where
  "seconds64 n = wrap64 (n * second)"

lemma seconds_in_range:
  "1 \<le> n \<Longrightarrow> n \<le> 9223372036 \<Longrightarrow> seconds64 n = n * second \<and> 0 < seconds64 n"
proof -
  assume n: "1 \<le> n" "n \<le> 9223372036"
  then have "0 \<le> n * second + 2 ^ 63" "n * second + 2 ^ 63 < 2 ^ 64" by (simp_all add: second_def)
  then have "seconds64 n = n * second" by (simp add: seconds64_def wrap64_def)
  with n show ?thesis by (simp add: second_def)
qed

text \<open>One more second is negative.\<close>

lemma seconds_overflow: "seconds64 9223372037 < 0"
  by (simp add: seconds64_def wrap64_def second_def)

subsection \<open>A monitor\<close>

text \<open>A round of a poll takes what it meets and the state, and gives the new state, the messages handed to the poster and the lines of
  the history; \<open>ms_saves\<close> says whether it saves the state at its end.\<close>

record ('i, 's, 'l, 'b) mon_spec =
  ms_path :: string
  ms_interval :: int
  ms_round :: "'i \<Rightarrow> 's \<Rightarrow> 's \<times> string list \<times> 'l list"
  ms_saves :: "'i \<Rightarrow> 's \<Rightarrow> bool"
  ms_stamp :: "instant \<Rightarrow> 's \<Rightarrow> 's"
  ms_load :: "string + 's option \<Rightarrow> 's \<Rightarrow> 's"
  ms_fresh :: 's
  ms_marshal :: "'s \<Rightarrow> string + 'b"
  ms_unmarshal :: "'b \<Rightarrow> string + 's"
  ms_unreadable :: "string \<Rightarrow> string option"
  ms_line :: "'l \<Rightarrow> string option"

text \<open>What the file system and the clock do at the end of a round.\<close>

record ('i, 'b) round_in =
  ri_in :: 'i
  ri_now :: instant
  ri_fs :: "'b state_fs"
  ri_open :: bool
  ri_write :: bool

record ('s, 'b) mon_run =
  mr_state :: 's
  mr_disk :: "string \<rightharpoonup> 'b"
  mr_history :: History
  mr_file :: string
  mr_posts :: "string list"

text \<open>\<open>saveState\<close>: the time of the save goes into the state.\<close>

definition save_state :: "('i, 's, 'l, 'b) mon_spec \<Rightarrow> instant \<Rightarrow> 'b state_fs \<Rightarrow> ('s, 'b) mon_run \<Rightarrow> ('s, 'b) mon_run" where
  "save_state ms now fs r =
     (let s = ms_stamp ms now (mr_state r)
      in r\<lparr>mr_state := s, mr_disk := snd (SaveJSON fs (ms_marshal ms) (ms_path ms) s (mr_disk r))\<rparr>)"

text \<open>The history lines of a round are appended and flushed.\<close>

definition add_history :: "('i, 's, 'l, 'b) mon_spec \<Rightarrow> 'l list \<Rightarrow> bool \<Rightarrow> bool \<Rightarrow> ('s, 'b) mon_run \<Rightarrow> ('s, 'b) mon_run" where
  "add_history ms ls open_ok write_ok r =
     (case Flush open_ok write_ok (fold (\<lambda>l h. snd (Append (ms_line ms) l h)) ls (mr_history r), mr_file r) of
        (_, h, file) \<Rightarrow> r\<lparr>mr_history := h, mr_file := file\<rparr>)"

definition mon_round :: "('i, 's, 'l, 'b) mon_spec \<Rightarrow> ('i, 'b) round_in \<Rightarrow> ('s, 'b) mon_run \<Rightarrow> ('s, 'b) mon_run" where
  "mon_round ms i r =
     (case ms_round ms (ri_in i) (mr_state r) of
        (s, msgs, ls) \<Rightarrow>
          (let r1 = add_history ms ls (ri_open i) (ri_write i) (r\<lparr>mr_state := s, mr_posts := mr_posts r @ msgs\<rparr>)
           in if ms_saves ms (ri_in i) (mr_state r) then save_state ms (ri_now i) (ri_fs i) r1 else r1))"

text \<open>\<open>Loop\<close>: the rounds until the context is done. Its ticker panics on an interval that is not positive.\<close>

definition Loop :: "int \<Rightarrow> ('a \<Rightarrow> 'r \<Rightarrow> 'r) \<Rightarrow> 'a list \<Rightarrow> 'r \<Rightarrow> 'r option" where
  "Loop interval poll is r = (if interval \<le> 0 then None else Some (fold poll is r))"

text \<open>\<open>Start\<close>, with the directory already there, and its deferred end. The history is closed before the last save.\<close>

definition mon_loaded :: "('i, 's, 'l, 'b) mon_spec \<Rightarrow> string \<Rightarrow> (string \<rightharpoonup> 'b) \<Rightarrow> ('s, 'b) mon_run" where
  "mon_loaded ms file disk =
     \<lparr>mr_state = ms_load ms (ReadJSON (ms_unreadable ms) (ms_unmarshal ms) (ms_path ms) disk) (ms_fresh ms),
      mr_disk = disk, mr_history = NewHistory, mr_file = file, mr_posts = []\<rparr>"

definition mon_stop :: "('i, 's, 'l, 'b) mon_spec \<Rightarrow> ('e, 'b) round_in \<Rightarrow> ('s, 'b) mon_run \<Rightarrow> ('s, 'b) mon_run" where
  "mon_stop ms e r =
     (case Close_history (ri_open e) (ri_write e) (mr_history r, mr_file r) of
        (_, h, file) \<Rightarrow> save_state ms (ri_now e) (ri_fs e) (r\<lparr>mr_history := h, mr_file := file\<rparr>))"

definition mon_Start :: "('i, 's, 'l, 'b) mon_spec \<Rightarrow> ('i, 'b) round_in list \<Rightarrow> ('e, 'b) round_in \<Rightarrow> string \<Rightarrow> (string \<rightharpoonup> 'b) \<Rightarrow>
    ('s, 'b) mon_run option" where
  "mon_Start ms is e file disk =
     map_option (mon_stop ms e) (Loop (seconds64 (ms_interval ms)) (mon_round ms) is (mon_loaded ms file disk))"

lemma save_state_simps [simp]:
  "mr_posts (save_state ms now fs r) = mr_posts r" "mr_state (save_state ms now fs r) = ms_stamp ms now (mr_state r)"
  "mr_history (save_state ms now fs r) = mr_history r" "mr_file (save_state ms now fs r) = mr_file r"
  by (simp_all add: save_state_def Let_def)

lemma add_history_simps [simp]:
  "mr_posts (add_history ms ls a b r) = mr_posts r" "mr_state (add_history ms ls a b r) = mr_state r"
  "mr_disk (add_history ms ls a b r) = mr_disk r"
  by (simp_all add: add_history_def split: prod.split)

lemma mon_stop_simps [simp]:
  "mr_posts (mon_stop ms e r) = mr_posts r" "mr_state (mon_stop ms e r) = ms_stamp ms (ri_now e) (mr_state r)"
  by (simp_all add: mon_stop_def split: prod.split)

lemma mon_round_posts:
  "mr_posts (mon_round ms i r) = mr_posts r @ fst (snd (ms_round ms (ri_in i) (mr_state r)))"
  by (simp add: mon_round_def Let_def split: prod.split)

subsection \<open>The contract of a restart\<close>

text \<open>\<open>same\<close> is equality of states but for what the clock leaves in them; \<open>supported\<close> says that loading accepts
  a state. \<open>json_ok\<close>: what is saved reads back, and the file can be written and read.\<close>

definition json_ok :: "('i, 's, 'l, 'b) mon_spec \<Rightarrow> bool" where
  "json_ok ms \<longleftrightarrow> (\<forall>s. \<exists>b. ms_marshal ms s = Inr b \<and> ms_unmarshal ms b = Inr s) \<and> ms_unreadable ms (ms_path ms) = None"

definition saves_ok :: "('i, 'b) round_in \<Rightarrow> bool" where
  "saves_ok e \<longleftrightarrow> (\<forall>p. sf_write (ri_fs e) p = None \<and> sf_rename (ri_fs e) p = None)"

locale restartable =
  fixes ms :: "('i, 's, 'l, 'b) mon_spec"
    and same :: "'s \<Rightarrow> 's \<Rightarrow> bool"
    and supported :: "'s \<Rightarrow> bool"
  assumes same_refl: "same s s"
    and same_trans: "same s t \<Longrightarrow> same t u \<Longrightarrow> same s u"
    and stamp_same: "same (ms_stamp ms now s) s" "same s (ms_stamp ms now s)"
    and round_same: "same s t \<Longrightarrow> same (fst (ms_round ms i s)) (fst (ms_round ms i t)) \<and>
      snd (ms_round ms i s) = snd (ms_round ms i t)"
    and fresh_supported: "supported (ms_fresh ms)"
    and round_supported: "supported s \<Longrightarrow> supported (fst (ms_round ms i s))"
    and stamp_supported: "supported s \<Longrightarrow> supported (ms_stamp ms now s)"
    and load_supported: "supported s \<Longrightarrow> ms_load ms (Inr (Some s)) t = s"
    and load_cases: "ms_load ms f t = t \<or> (\<exists>s. f = Inr (Some s) \<and> ms_load ms f t = s \<and> supported s)"
begin

lemma round_keeps_supported: "supported (mr_state r) \<Longrightarrow> supported (mr_state (mon_round ms i r))"
  using round_supported [of "mr_state r" "ri_in i"]
  by (auto simp: mon_round_def Let_def stamp_supported split: prod.split)

lemma rounds_keep_supported: "supported (mr_state r) \<Longrightarrow> supported (mr_state (fold (mon_round ms) is r))"
  by (induction "is" arbitrary: r) (auto intro: round_keeps_supported)

lemma loaded_supported: "supported (mr_state (mon_loaded ms file disk))"
proof -
  let ?f = "ReadJSON (ms_unreadable ms) (ms_unmarshal ms) (ms_path ms) disk"
  show ?thesis using load_cases [of ?f "ms_fresh ms"] fresh_supported by (auto simp: mon_loaded_def)
qed

lemma round_state:
  "same (mr_state (mon_round ms k q)) (fst (ms_round ms (ri_in k) (mr_state q)))"
  "same (fst (ms_round ms (ri_in k) (mr_state q))) (mr_state (mon_round ms k q))"
  by (auto simp: mon_round_def Let_def stamp_same same_refl split: prod.split)

lemma round_state_same:
  assumes "ri_in i = ri_in j" and "same (mr_state r) (mr_state r')"
  shows "same (mr_state (mon_round ms i r)) (mr_state (mon_round ms j r'))"
proof -
  have "same (fst (ms_round ms (ri_in i) (mr_state r))) (fst (ms_round ms (ri_in j) (mr_state r')))"
    using round_same [OF assms(2)] assms(1) by simp
  from same_trans [OF round_state(1) this] show ?thesis by (rule same_trans [OF _ round_state(2)])
qed

lemma rounds_same:
  "same (mr_state r) (mr_state r') \<Longrightarrow> mr_posts r' = p @ mr_posts r \<Longrightarrow>
   same (mr_state (fold (mon_round ms) is r)) (mr_state (fold (mon_round ms) is r')) \<and>
   mr_posts (fold (mon_round ms) is r') = p @ mr_posts (fold (mon_round ms) is r)"
proof (induction "is" arbitrary: r r')
  case (Cons i "is")
  have "mr_posts (mon_round ms i r') = p @ mr_posts (mon_round ms i r)"
    using Cons.prems round_same [OF Cons.prems(1)] by (simp add: mon_round_posts)
  with Cons.IH [OF round_state_same [OF refl Cons.prems(1)]] show ?case by simp
qed simp

lemma stop_saves:
  assumes "json_ok ms" and "saves_ok e" and "supported (mr_state r)"
  shows "mr_state (mon_loaded ms file (mr_disk (mon_stop ms e r))) = ms_stamp ms (ri_now e) (mr_state r)"
proof -
  let ?s = "ms_stamp ms (ri_now e) (mr_state r)"
  obtain b where b: "ms_marshal ms ?s = Inr b" "ms_unmarshal ms b = Inr ?s" using assms(1) by (auto simp: json_ok_def)
  have "mr_disk (mon_stop ms e r) (ms_path ms) = Some b"
    using assms(2) b(1) by (simp add: mon_stop_def save_state_def Let_def SaveJSON_def saves_ok_def split: prod.split)
  then show ?thesis
    using assms(1) b(2) load_supported [OF stamp_supported [OF assms(3)]]
    by (simp add: mon_loaded_def ReadJSON_def json_ok_def)
qed

text \<open>Two runs, the second on the files of the first, post together what one run over the same rounds posts.\<close>

lemma restart_is_invisible:
  assumes "json_ok ms" and "saves_ok e" and "0 < seconds64 (ms_interval ms)"
  shows "\<exists>r1 r2 r. mon_Start ms is e file disk = Some r1 \<and> mon_Start ms js e' (mr_file r1) (mr_disk r1) = Some r2 \<and>
    mon_Start ms (is @ js) e' file disk = Some r \<and> mr_posts r = mr_posts r1 @ mr_posts r2 \<and> same (mr_state r2) (mr_state r)"
proof -
  let ?r = "fold (mon_round ms) is (mon_loaded ms file disk)"
  let ?r1 = "mon_stop ms e ?r"
  let ?l = "mon_loaded ms (mr_file ?r1) (mr_disk ?r1)"
  have start: "mon_Start ms ks x f d = Some (mon_stop ms x (fold (mon_round ms) ks (mon_loaded ms f d)))" for ks x f d
    using assms(3) by (simp add: mon_Start_def Loop_def)
  have "supported (mr_state ?r)" by (intro rounds_keep_supported loaded_supported)
  then have "mr_state ?l = ms_stamp ms (ri_now e) (mr_state ?r)" by (rule stop_saves [OF assms(1,2)])
  then have "same (mr_state ?l) (mr_state ?r)" using stamp_same(1) by simp
  moreover have "mr_posts ?r = mr_posts ?r @ mr_posts ?l" by (simp add: mon_loaded_def)
  ultimately have "same (mr_state (fold (mon_round ms) js ?l)) (mr_state (fold (mon_round ms) js ?r))"
    "mr_posts (fold (mon_round ms) js ?r) = mr_posts ?r @ mr_posts (fold (mon_round ms) js ?l)"
    using rounds_same by blast+
  moreover from this(1) have "same (ms_stamp ms (ri_now e') (mr_state (fold (mon_round ms) js ?l)))
      (ms_stamp ms (ri_now e') (mr_state (fold (mon_round ms) js ?r)))"
    using stamp_same same_trans by blast
  ultimately show ?thesis by (simp add: start)
qed

end

end
