(* ===== verification/WebMonitor.thy ===== *)
theory WebMonitor
  imports MonLib
begin

text \<open>
  The web monitor: \<open>web-monitor/probe.go\<close>, \<open>monitor.go\<close> and the start of the monitors in \<open>main.go\<close>. What the HTTP
  client, the URL parser, the file system and the local time zone answer is a parameter. Durations are in
  nanoseconds; the number of hours until an expiry is read exactly, not in floating point.
\<close>

subsection \<open>Probing\<close>

record timeouts =
  to_dns :: int
  to_connect :: int
  to_header :: int
  to_total :: int

definition defaultDNSMs :: int where "defaultDNSMs = 3000"
definition defaultConnectMs :: int where "defaultConnectMs = 3000"
definition defaultHeaderMs :: int where "defaultHeaderMs = 5000"
definition defaultTotalMs :: int where "defaultTotalMs = 10000"

definition timeout_ms :: "int \<Rightarrow> int \<Rightarrow> int" where
  "timeout_ms v def = (if v \<le> 0 then def else v) * 10 ^ 6"

definition resolveTimeouts :: "timeouts \<Rightarrow> timeouts" where
  "resolveTimeouts c = \<lparr>to_dns = timeout_ms (to_dns c) defaultDNSMs, to_connect = timeout_ms (to_connect c) defaultConnectMs,
     to_header = timeout_ms (to_header c) defaultHeaderMs, to_total = timeout_ms (to_total c) defaultTotalMs\<rparr>"

definition makeStatusCheck :: "int list \<Rightarrow> int \<Rightarrow> bool" where
  "makeStatusCheck codes s = (if codes = [] then s \<ge> 200 \<and> s < 300 else s \<in> set codes)"

record ConfigWeb =
  cw_Enabled :: bool
  cw_Name :: string
  cw_URL :: string
  cw_StatusCodes :: "int list"
  cw_FollowRedirection :: "bool option"
  cw_TLSVerify :: "bool option"

text \<open>The TLS settings of a client: whether certificates go unchecked, and its own CA bundle.\<close>

record 'p prober =
  pr_url :: string
  pr_tls :: "(bool \<times> 'p option) option"
  pr_timeouts :: timeouts
  pr_follow :: bool
  pr_codes :: "int list"
  pr_verifyTLS :: bool

datatype web_error = InvalidURL string | ReadCAFailed string | NoCertificates string | DuplicateName string

definition loadCAPool :: "(string \<Rightarrow> string option) \<Rightarrow> (string \<Rightarrow> 'p option) \<Rightarrow> string \<Rightarrow> web_error + 'p option" where
  "loadCAPool readFile parsePEM caFile =
     (if caFile = [] then Inr None
      else
        (case readFile caFile of
           None \<Rightarrow> Inl (ReadCAFailed caFile)
         | Some pem \<Rightarrow> (case parsePEM pem of None \<Rightarrow> Inl (NoCertificates caFile) | Some p \<Rightarrow> Inr (Some p))))"

text \<open>\<open>scheme\<close> parses a URL to its scheme.\<close>

definition newProber :: "(string \<Rightarrow> string option) \<Rightarrow> ConfigWeb \<Rightarrow> timeouts \<Rightarrow> 'p option \<Rightarrow> bool \<Rightarrow> bool \<Rightarrow> web_error + 'p prober" where
  "newProber scheme web toCfg pool follow verify =
     (case scheme (cw_URL web) of
        None \<Rightarrow> Inl (InvalidURL (cw_URL web))
      | Some sc \<Rightarrow>
          if sc \<noteq> ''http'' \<and> sc \<noteq> ''https'' then Inl (InvalidURL (cw_URL web))
          else
            Inr \<lparr>pr_url = cw_URL web,
              pr_tls = (if sc = ''https'' then Some (\<not> verify, if verify then pool else None) else None),
              pr_timeouts = resolveTimeouts toCfg, pr_follow = follow, pr_codes = cw_StatusCodes web, pr_verifyTLS = verify\<rparr>)"

record web_certInfo =
  ce_notAfterUnix :: int
  ce_daysLeft :: int

record probeResult =
  pb_ok :: bool
  pb_status :: int
  pb_ms :: int
  pb_reason :: string
  pb_cert :: "web_certInfo option"

text \<open>An error of the client: one that wraps a \<open>url.Error\<close>, with its timeout flag and its inner message, or
  another one.\<close>

datatype client_error = URLError bool string | PlainError string

definition classifyError :: "client_error \<Rightarrow> string" where
  "classifyError e =
     (case e of
        URLError timeout inner \<Rightarrow> if timeout then ''timeout'' else if inner = [] then ''error'' else inner
      | PlainError msg \<Rightarrow> if msg = [] then ''error'' else msg)"

text \<open>Differences of instants saturate.\<close>

definition go_sub :: "instant \<Rightarrow> instant \<Rightarrow> int" where
  "go_sub t u = max (- (2 ^ 63)) (min (2 ^ 63 - 1) (t - u))"

text \<open>One request: its error when it cannot be built, or its duration and its outcome: an error, or the status and the
  expiry of the leaf certificate of a TLS connection.\<close>

definition Probe :: "'p prober \<Rightarrow> instant \<Rightarrow> string + int \<times> (client_error + int \<times> instant option) \<Rightarrow> probeResult" where
  "Probe p now r =
     (case r of
        Inl e \<Rightarrow> \<lparr>pb_ok = False, pb_status = 0, pb_ms = 0, pb_reason = e, pb_cert = None\<rparr>
      | Inr (took, Inl e) \<Rightarrow>
          \<lparr>pb_ok = False, pb_status = 0, pb_ms = quot took (10 ^ 6), pb_reason = classifyError e, pb_cert = None\<rparr>
      | Inr (took, Inr (status, leaf)) \<Rightarrow>
          (let ok = makeStatusCheck (pr_codes p) status
           in \<lparr>pb_ok = ok, pb_status = status, pb_ms = quot took (10 ^ 6),
               pb_reason = (if ok then [] else ''unexpected status '' @ itoa status),
               pb_cert = (case leaf of
                  None \<Rightarrow> None
                | Some notAfter \<Rightarrow>
                    if pr_verifyTLS p
                    then Some \<lparr>ce_notAfterUnix = notAfter div second, ce_daysLeft = go_sub notAfter now div day_ns\<rparr>
                    else None)\<rparr>))"

subsection \<open>State\<close>

definition web_stateVersion :: int where "web_stateVersion = 1"

datatype web_health = WebUnknown | WebUp | WebDown

record webState =
  ws_Version :: int
  ws_State :: web_health
  ws_PendingUp :: int
  ws_PendingDown :: int
  ws_DownSince :: int
  ws_CertNotAfterUnix :: int
  ws_CertWarnedDays :: int
  ws_CertWarnedDate :: string
  ws_UpdatedAt :: int

record webHistory =
  wh_Timestamp :: instant
  wh_URL :: string
  wh_OK :: bool
  wh_Status :: int
  wh_Duration :: int
  wh_Reason :: string
  wh_DaysLeft :: int

text \<open>What a monitor is made of, less its state. \<open>wm_localDate\<close> formats an instant as a date of the local zone.\<close>

record WebMonitor =
  wm_Name :: string
  wm_URL :: string
  wm_DownRepeats :: int
  wm_UpRepeats :: int
  wm_expiringDays :: "int list"
  wm_host :: string
  wm_localDate :: "instant \<Rightarrow> string"

definition defaultExpiringDays :: "int list" where "defaultExpiringDays = [15, 7, 3, 2, 1]"

definition newWebState :: webState where
  "newWebState = \<lparr>ws_Version = web_stateVersion, ws_State = WebUnknown, ws_PendingUp = 0, ws_PendingDown = 0, ws_DownSince = 0,
     ws_CertNotAfterUnix = 0, ws_CertWarnedDays = 0, ws_CertWarnedDate = [], ws_UpdatedAt = 0\<rparr>"

definition newWebMonitor :: "(string \<Rightarrow> string option) \<Rightarrow> (instant \<Rightarrow> string) \<Rightarrow> ConfigWeb \<Rightarrow> int \<times> int \<Rightarrow> int list \<Rightarrow>
    WebMonitor \<times> webState" where
  "newWebMonitor hostname localDate web alert expiring =
     (let days = sort (if expiring = [] then defaultExpiringDays else expiring);
          host = (case hostname (cw_URL web) of Some h \<Rightarrow> if h \<noteq> [] then h else cw_Name web | None \<Rightarrow> cw_Name web)
      in (\<lparr>wm_Name = cw_Name web, wm_URL = cw_URL web, wm_DownRepeats = fst alert, wm_UpRepeats = snd alert,
            wm_expiringDays = days, wm_host = host, wm_localDate = localDate\<rparr>,
          newWebState))"

subsection \<open>Messages\<close>

definition web_prefix :: "WebMonitor \<Rightarrow> string \<Rightarrow> string" where
  "web_prefix m msg = ''[web:'' @ wm_Name m @ ''] '' @ msg"

definition downMsg :: "WebMonitor \<Rightarrow> probeResult \<Rightarrow> string" where
  "downMsg m res =
     web_prefix m (''DOWN: '' @ wm_URL m @ '' ('' @ (if pb_reason res = [] then ''unreachable'' else pb_reason res) @ '')'' @
       dash @ itoa (wm_DownRepeats m) @ '' consecutive failures'')"

text \<open>\<open>fmtDowntime\<close> of a duration that is not negative.\<close>

definition fmtDowntime :: "int \<Rightarrow> string" where
  "fmtDowntime d =
     (let secs = quot d second
      in if secs < 60 then itoa secs @ ''s''
         else
           (let m = quot secs 60
            in if m < 60 then
                 (let s = secs mod 60 in if s = 0 then itoa m @ ''m'' else itoa m @ ''m'' @ itoa s @ ''s'')
               else
                 (let h = quot m 60; m1 = m mod 60
                  in if m1 = 0 then itoa h @ ''h'' else itoa h @ ''h'' @ itoa m1 @ ''m'')))"

definition upMsg :: "WebMonitor \<Rightarrow> int \<Rightarrow> string" where
  "upMsg m down =
     web_prefix m (''UP: '' @ wm_URL m @ '' recovered'' @ (if down > 0 then '' (down '' @ fmtDowntime down @ '')'' else []))"

subsection \<open>A poll\<close>

definition updateState :: "WebMonitor \<Rightarrow> probeResult \<Rightarrow> instant \<Rightarrow> webState \<Rightarrow> webState \<times> string" where
  "updateState m res now st =
     (case ws_State st of
        WebDown \<Rightarrow>
          if pb_ok res then
            (let n = ws_PendingUp st + 1
             in if n \<ge> wm_UpRepeats m then
                  (st\<lparr>ws_State := WebUp, ws_PendingUp := 0, ws_DownSince := 0\<rparr>,
                   upMsg m (go_sub now (ws_DownSince st * second)))
                else (st\<lparr>ws_PendingUp := n\<rparr>, []))
          else (st\<lparr>ws_PendingUp := 0\<rparr>, [])
      | _ \<Rightarrow>
          if pb_ok res then
            (if ws_State st = WebUnknown then (st\<lparr>ws_State := WebUp\<rparr>, []) else (st\<lparr>ws_PendingDown := 0\<rparr>, []))
          else
            (let n = ws_PendingDown st + 1
             in if n \<ge> wm_DownRepeats m then
                  (st\<lparr>ws_State := WebDown, ws_PendingDown := 0, ws_DownSince := now div second\<rparr>, downMsg m res)
                else (st\<lparr>ws_PendingDown := n\<rparr>, [])))"

definition updateCert :: "WebMonitor \<Rightarrow> web_certInfo \<Rightarrow> instant \<Rightarrow> webState \<Rightarrow> webState \<times> string" where
  "updateCert m cert now st0 =
     (let st = (if ws_CertNotAfterUnix st0 \<noteq> ce_notAfterUnix cert
                then st0\<lparr>ws_CertNotAfterUnix := ce_notAfterUnix cert, ws_CertWarnedDays := last (wm_expiringDays m) + 1,
                   ws_CertWarnedDate := []\<rparr>
                else st0);
          notAfter = wm_localDate m (ce_notAfterUnix cert * second)
      in if ce_daysLeft cert < 0 then
           (let today = format_date now
            in if ws_CertWarnedDate st \<noteq> today then
                 (st\<lparr>ws_CertWarnedDate := today\<rparr>,
                  web_prefix m (''certificate for '' @ wm_host m @ '' expired '' @ notAfter))
               else (st, []))
         else
           (case find (\<lambda>t. ce_daysLeft cert \<le> t \<and> t < ws_CertWarnedDays st) (rev (wm_expiringDays m)) of
              Some t \<Rightarrow>
                (st\<lparr>ws_CertWarnedDays := t\<rparr>,
                 web_prefix m (''certificate for '' @ wm_host m @ '' expires in '' @ itoa (ce_daysLeft cert) @
                   '' day(s) ('' @ notAfter @ '')''))
            | None \<Rightarrow> (st, [])))"

text \<open>A poll: the state it leaves, which is saved, the messages posted and the line of the history.\<close>

definition web_poll :: "WebMonitor \<Rightarrow> instant \<Rightarrow> probeResult \<Rightarrow> webState \<Rightarrow> webState \<times> string list \<times> webHistory" where
  "web_poll m now res st =
     (let hist = \<lparr>wh_Timestamp = now, wh_URL = wm_URL m, wh_OK = pb_ok res, wh_Status = pb_status res, wh_Duration = pb_ms res,
            wh_Reason = pb_reason res, wh_DaysLeft = (case pb_cert res of None \<Rightarrow> 0 | Some c \<Rightarrow> ce_daysLeft c)\<rparr>;
          (st1, msg1) = updateState m res now st;
          (st2, msg2) = (case pb_cert res of None \<Rightarrow> (st1, []) | Some c \<Rightarrow> updateCert m c now st1)
      in (st2\<lparr>ws_UpdatedAt := now div second\<rparr>, filter (\<lambda>msg. msg \<noteq> []) [msg1, msg2], hist))"

definition web_loadState :: "string + webState option \<Rightarrow> webState \<Rightarrow> webState" where
  "web_loadState r st =
     (case r of
        Inr (Some s) \<Rightarrow> if ws_Version s \<noteq> web_stateVersion then st else s
      | _ \<Rightarrow> st)"

subsection \<open>Starting the monitors\<close>

fun checkNames :: "ConfigWeb list \<Rightarrow> string set \<Rightarrow> web_error option" where
  "checkNames [] seen = None"
| "checkNames (w # ws) seen =
     (if \<not> cw_Enabled w then checkNames ws seen
      else if cw_Name w \<in> seen then Some (DuplicateName (cw_Name w))
      else checkNames ws (insert (cw_Name w) seen))"

text \<open>The probers of the enabled webs, or the error that ends the program.\<close>

fun start_probers :: "(string \<Rightarrow> string option) \<Rightarrow> timeouts \<Rightarrow> 'p option \<Rightarrow> ConfigWeb list \<Rightarrow> web_error + (ConfigWeb \<times> 'p prober) list" where
  "start_probers scheme toCfg pool [] = Inr []"
| "start_probers scheme toCfg pool (w # ws) =
     (if \<not> cw_Enabled w then start_probers scheme toCfg pool ws
      else
        (let follow = (case cw_FollowRedirection w of None \<Rightarrow> True | Some b \<Rightarrow> b);
             verify = (case cw_TLSVerify w of None \<Rightarrow> True | Some b \<Rightarrow> b)
         in case newProber scheme w toCfg pool follow verify of
              Inl e \<Rightarrow> Inl e
            | Inr p \<Rightarrow> (case start_probers scheme toCfg pool ws of Inl e \<Rightarrow> Inl e | Inr ps \<Rightarrow> Inr ((w, p) # ps))))"

subsection \<open>Runs\<close>

text \<open>The end of the first run of \<open>n\<close> true entries.\<close>

definition first_run :: "nat \<Rightarrow> bool list \<Rightarrow> nat option" where
  "first_run n bs = find (\<lambda>k. n \<le> k \<and> list_all id (take n (drop (k - n) bs))) [0..<Suc (length bs)]"

definition run_ends :: "nat \<Rightarrow> bool list \<Rightarrow> nat \<Rightarrow> bool" where
  "run_ends n bs k \<longleftrightarrow> n \<le> k \<and> k \<le> length bs \<and> (\<forall>i<n. bs ! (k - n + i))"

lemma run_ends_window:
  "k \<le> length bs \<Longrightarrow> n \<le> k \<and> list_all id (take n (drop (k - n) bs)) \<longleftrightarrow> run_ends n bs k"
  by (auto simp: run_ends_def list_all_length)

lemma first_run_Some_iff: "first_run n bs = Some k \<longleftrightarrow> run_ends n bs k \<and> (\<forall>j<k. \<not> run_ends n bs j)"
proof -
  let ?P = "\<lambda>k. n \<le> k \<and> list_all id (take n (drop (k - n) bs))"
  have "first_run n bs = Some k \<longleftrightarrow> k \<le> length bs \<and> ?P k \<and> (\<forall>j<k. \<not> ?P j)"
    unfolding first_run_def find_Some_iff by (auto simp: less_Suc_eq_le simp del: upt_Suc)
  also have "\<dots> \<longleftrightarrow> k \<le> length bs \<and> run_ends n bs k \<and> (\<forall>j<k. \<not> run_ends n bs j)"
    using run_ends_window [of _ bs n] by (meson less_imp_le order.trans)
  also have "\<dots> \<longleftrightarrow> run_ends n bs k \<and> (\<forall>j<k. \<not> run_ends n bs j)" by (auto simp: run_ends_def)
  finally show ?thesis .
qed

lemma first_run_None_iff: "first_run n bs = None \<longleftrightarrow> (\<forall>k. \<not> run_ends n bs k)"
proof
  show "\<forall>k. \<not> run_ends n bs k" if "first_run n bs = None"
  proof (intro allI notI)
    fix k assume r: "run_ends n bs k"
    then have "first_run n bs = Some (LEAST k. run_ends n bs k)"
      unfolding first_run_Some_iff by (auto intro: LeastI dest: not_less_Least)
    with that show False by simp
  qed
  show "first_run n bs = None" if "\<forall>k. \<not> run_ends n bs k"
    using that first_run_Some_iff [of n bs] by (cases "first_run n bs") auto
qed

lemma first_run_bounds: "first_run n bs = Some k \<Longrightarrow> n \<le> k \<and> k \<le> length bs"
  by (simp add: first_run_Some_iff run_ends_def)

lemma first_run_short: "length bs < n \<Longrightarrow> first_run n bs = None"
  by (auto simp: first_run_None_iff run_ends_def)

lemma first_run_full: "first_run n (replicate n True @ bs) = Some n"
  by (auto simp: first_run_Some_iff run_ends_def nth_append)

lemma run_ends_broken:
  assumes "p < n"
  shows "run_ends n (replicate p True @ False # bs) j \<longleftrightarrow> Suc p \<le> j \<and> run_ends n bs (j - Suc p)"
proof (cases "n \<le> j \<and> p < j - n")
  case True
  then have "j - n + i = Suc (p + (j - Suc p - n + i))" for i by linarith
  moreover have "(replicate p True @ False # bs) ! Suc (p + l) = bs ! l" for l by (simp add: nth_append)
  ultimately have "(replicate p True @ False # bs) ! (j - n + i) = bs ! (j - Suc p - n + i)" for i by metis
  then show ?thesis using True by (auto simp: run_ends_def)
next
  case False
  then have "\<not> run_ends n bs (j - Suc p) \<or> \<not> Suc p \<le> j" using assms by (auto simp: run_ends_def)
  moreover have "\<not> run_ends n (replicate p True @ False # bs) j"
  proof
    assume r: "run_ends n (replicate p True @ False # bs) j"
    then have "n \<le> j" by (simp add: run_ends_def)
    then have "j - n \<le> p" and "p - (j - n) < n" using False assms by auto
    with r have "(replicate p True @ False # bs) ! (j - n + (p - (j - n)))" unfolding run_ends_def by blast
    with \<open>j - n \<le> p\<close> show False by (simp add: nth_append)
  qed
  ultimately show ?thesis by blast
qed

lemma first_run_broken:
  assumes "p < n"
  shows "first_run n (replicate p True @ False # bs) = map_option (\<lambda>k. k + Suc p) (first_run n bs)"
proof (cases "first_run n bs")
  case None
  then have "first_run n (replicate p True @ False # bs) = None"
    by (simp add: first_run_None_iff run_ends_broken [OF assms])
  then show ?thesis using None by simp
next
  case (Some k)
  then have "run_ends n bs k" and least: "\<And>j. j < k \<Longrightarrow> \<not> run_ends n bs j" by (simp_all add: first_run_Some_iff)
  then have "run_ends n (replicate p True @ False # bs) (k + Suc p)" by (simp add: run_ends_broken [OF assms])
  moreover have "\<not> run_ends n (replicate p True @ False # bs) j" if "j < k + Suc p" for j
    using that least [of "j - Suc p"] by (auto simp: run_ends_broken [OF assms])
  ultimately have "first_run n (replicate p True @ False # bs) = Some (k + Suc p)" by (simp add: first_run_Some_iff)
  then show ?thesis using Some by simp
qed

subsection \<open>Hysteresis\<close>

text \<open>The condition after each probe, down or not, as documented: a web goes down with the first run of \<open>dn\<close> failures
  since it was up, and up with the first run of \<open>un\<close> successes since it was down.\<close>

function documented :: "nat \<Rightarrow> nat \<Rightarrow> bool \<Rightarrow> bool list \<Rightarrow> bool list" where
  "documented dn un down oks =
     (case first_run (if down then un else dn) (map (\<lambda>ok. ok = down) oks) of
        None \<Rightarrow> replicate (length oks) down
      | Some k \<Rightarrow>
          if k = 0 then []
          else replicate (k - 1) down @ (\<not> down) # documented dn un (\<not> down) (drop k oks))"
  by pat_completeness auto
termination
  by (relation "measure (\<lambda>(dn, un, down, oks). length oks)") (auto dest: first_run_bounds)

declare documented.simps [simp del]

lemma documented_full:
  assumes "n = (if down then un else dn)" and "0 < n"
  shows "documented dn un down (replicate n down @ oks) = replicate (n - 1) down @ (\<not> down) # documented dn un (\<not> down) oks"
  using assms(2) first_run_full [of n "map (\<lambda>ok. ok = down) oks"]
  by (subst documented.simps) (simp add: assms(1) [symmetric] map_replicate_const)

lemma documented_broken:
  assumes "p < (if down then un else dn)"
  shows "documented dn un down (replicate p down @ (\<not> down) # oks) = replicate (Suc p) down @ documented dn un down oks"
proof -
  let ?n = "if down then un else dn"
  have b: "first_run ?n (map (\<lambda>ok. ok = down) (replicate p down @ (\<not> down) # oks)) =
      map_option (\<lambda>k. k + Suc p) (first_run ?n (map (\<lambda>ok. ok = down) oks))"
    using first_run_broken [OF assms, of "map (\<lambda>ok. ok = down) oks"] by (simp add: map_replicate_const)
  show ?thesis
  proof (cases "first_run ?n (map (\<lambda>ok. ok = down) oks)")
    case None
    have "documented dn un down (replicate p down @ (\<not> down) # oks) = replicate (Suc (p + length oks)) down"
      unfolding documented.simps [of dn un down "replicate p down @ (\<not> down) # oks"] b None by simp
    moreover have "documented dn un down oks = replicate (length oks) down"
      unfolding documented.simps [of dn un down oks] None by simp
    ultimately show ?thesis by (simp only: replicate_add add_Suc [symmetric])
  next
    case (Some k)
    have k: "0 < k" using first_run_bounds [OF Some] assms by simp
    have "documented dn un down (replicate p down @ (\<not> down) # oks) =
        replicate (k + p) down @ (\<not> down) # documented dn un (\<not> down) (drop k oks)"
      unfolding documented.simps [of dn un down "replicate p down @ (\<not> down) # oks"] b Some by simp
    moreover have "documented dn un down oks = replicate (k - 1) down @ (\<not> down) # documented dn un (\<not> down) (drop k oks)"
      unfolding documented.simps [of dn un down oks] Some using k by simp
    moreover have "k + p = Suc p + (k - 1)" using k by simp
    ultimately show ?thesis by (simp only: replicate_add append_assoc)
  qed
qed

lemma documented_prefix:
  assumes "Suc p < (if down then un else dn)"
  shows "drop p (documented dn un down (replicate (Suc p) down @ oks)) =
    down # drop (Suc p) (documented dn un down (replicate (Suc p) down @ oks))"
proof -
  let ?xs = "replicate (Suc p) down @ oks"
  have "p < length (documented dn un down ?xs) \<and> documented dn un down ?xs ! p = down"
  proof (cases "first_run (if down then un else dn) (map (\<lambda>ok. ok = down) ?xs)")
    case None
    have "documented dn un down ?xs = replicate (length ?xs) down"
      unfolding documented.simps [of dn un down ?xs] None by simp
    then show ?thesis by (simp del: replicate.simps)
  next
    case (Some k)
    have k: "Suc p < k" using first_run_bounds [OF Some] assms by simp
    have "documented dn un down ?xs = replicate (k - 1) down @ (\<not> down) # documented dn un (\<not> down) (drop k ?xs)"
      unfolding documented.simps [of dn un down ?xs] Some using k by simp
    moreover have "p < k - 1" using k by simp
    ultimately show ?thesis by (simp only: nth_append length_replicate nth_replicate length_append if_True trans_less_add1)
  qed
  then have l: "p < length (documented dn un down ?xs)" and e: "documented dn un down ?xs ! p = down" by simp_all
  show ?thesis unfolding Cons_nth_drop_Suc [OF l, symmetric] e ..
qed

text \<open>The states and the messages of a sequence of probes.\<close>

fun web_run :: "WebMonitor \<Rightarrow> (probeResult \<times> instant) list \<Rightarrow> webState \<Rightarrow> (webState \<times> string) list" where
  "web_run m [] st = []"
| "web_run m ((res, now) # rs) st = (case updateState m res now st of (st', msg) \<Rightarrow> (st', msg) # web_run m rs st')"

definition is_down :: "webState \<Rightarrow> bool" where
  "is_down st \<longleftrightarrow> ws_State st = WebDown"

lemma message_at_change:
  "updateState m res now st = (st', msg) \<Longrightarrow> (msg \<noteq> []) = (is_down st \<noteq> is_down st')"
  by (auto simp: updateState_def is_down_def downMsg_def upMsg_def web_prefix_def Let_def
      split: web_health.splits if_splits)

lemma messages_at_changes:
  "map (\<lambda>(st', msg). msg \<noteq> []) (web_run m rs st) =
     map2 (\<noteq>) (is_down st # map (is_down \<circ> fst) (web_run m rs st)) (map (is_down \<circ> fst) (web_run m rs st))"
proof (induction m rs st rule: web_run.induct)
  case (2 m res now rs st)
  obtain st' msg where u: "updateState m res now st = (st', msg)" by fastforce
  show ?case using 2 [OF u [symmetric]] message_at_change [OF u] by (simp add: u)
qed simp

text \<open>A web that is up or down, with \<open>p\<close> probes against it in a row.\<close>

definition settled_web :: "WebMonitor \<Rightarrow> webState \<Rightarrow> nat \<Rightarrow> bool" where
  "settled_web m st p \<longleftrightarrow>
     (case ws_State st of
        WebUp \<Rightarrow> ws_PendingDown st = int p \<and> int p < wm_DownRepeats m \<and> ws_PendingUp st = 0
      | WebDown \<Rightarrow> ws_PendingUp st = int p \<and> int p < wm_UpRepeats m \<and> ws_PendingDown st = 0
      | WebUnknown \<Rightarrow> False)"

definition repeats :: "WebMonitor \<Rightarrow> bool \<Rightarrow> nat" where
  "repeats m down = (if down then nat (wm_UpRepeats m) else nat (wm_DownRepeats m))"

lemma updateState_step:
  assumes "settled_web m st p" and "0 < wm_DownRepeats m" and "0 < wm_UpRepeats m"
    and "updateState m res now st = (st', msg)"
  shows "if pb_ok res \<noteq> is_down st then is_down st' = is_down st \<and> settled_web m st' 0
    else if Suc p = repeats m (is_down st) then is_down st' = (\<not> is_down st) \<and> settled_web m st' 0
    else is_down st' = is_down st \<and> settled_web m st' (Suc p)"
  using assms
  by (cases "ws_State st"; cases "pb_ok res")
    (auto simp: settled_web_def updateState_def is_down_def repeats_def Let_def split: if_splits)

lemma settled_below: "settled_web m st p \<Longrightarrow> p < repeats m (is_down st)"
  by (auto simp: settled_web_def repeats_def is_down_def split: web_health.splits)

lemma run_is_documented:
  assumes "0 < wm_DownRepeats m" and "0 < wm_UpRepeats m" and "settled_web m st p"
  shows "map (is_down \<circ> fst) (web_run m rs st) =
    drop p (documented (repeats m False) (repeats m True) (is_down st) (replicate p (is_down st) @ map (pb_ok \<circ> fst) rs))"
  using assms(3)
proof (induction rs arbitrary: st p)
  case Nil
  have "first_run (repeats m (is_down st)) (replicate p True) = None"
    using settled_below [OF Nil] by (simp add: first_run_short)
  then show ?case by (subst documented.simps) (simp add: repeats_def map_replicate_const split: if_splits)
next
  case (Cons x rs)
  obtain res now where x: "x = (res, now)" by (cases x)
  obtain st' msg where u: "updateState m res now st = (st', msg)" by fastforce
  let ?doc = "documented (repeats m False) (repeats m True)"
  let ?oks = "map (pb_ok \<circ> fst) rs"
  note step = updateState_step [OF Cons.prems assms(1,2) u]
  have n: "(if is_down st then repeats m True else repeats m False) = repeats m (is_down st)" by simp
  have below: "p < (if is_down st then repeats m True else repeats m False)"
    using settled_below [OF Cons.prems] unfolding n .
  have run: "map (is_down \<circ> fst) (web_run m (x # rs) st) = is_down st' # map (is_down \<circ> fst) (web_run m rs st')"
    by (simp add: x u)
  consider (broken) "pb_ok res \<noteq> is_down st" | (full) "pb_ok res = is_down st" "Suc p = repeats m (is_down st)"
    | (more) "pb_ok res = is_down st" "Suc p \<noteq> repeats m (is_down st)" by blast
  then show ?case
  proof cases
    case broken
    then have s: "is_down st' = is_down st" "settled_web m st' 0" using step by simp_all
    have e: "replicate p (is_down st) @ map (pb_ok \<circ> fst) (x # rs) = replicate p (is_down st) @ (\<not> is_down st) # ?oks"
      using broken x by auto
    show ?thesis
      unfolding run Cons.IH [OF s(2)] s(1) e documented_broken [OF below] by (simp del: replicate.simps) simp
  next
    case full
    then have s: "is_down st' = (\<not> is_down st)" "settled_web m st' 0" using step by simp_all
    have "replicate p (is_down st) @ map (pb_ok \<circ> fst) (x # rs) = replicate (Suc p) (is_down st) @ ?oks"
      using full(1) x by (simp add: replicate_app_Cons_same)
    moreover have "?doc (is_down st) (replicate (Suc p) (is_down st) @ ?oks) =
        replicate p (is_down st) @ (\<not> is_down st) # ?doc (\<not> is_down st) ?oks"
      using documented_full [of "Suc p" "is_down st" "repeats m True" "repeats m False" ?oks] full(2) n by simp
    ultimately show ?thesis unfolding run Cons.IH [OF s(2)] s(1)
      by (simp only: drop_append length_replicate drop_replicate) simp
  next
    case more
    then have s: "is_down st' = is_down st" "settled_web m st' (Suc p)" using step by simp_all
    have "replicate p (is_down st) @ map (pb_ok \<circ> fst) (x # rs) = replicate (Suc p) (is_down st) @ ?oks"
      using more x by (simp add: replicate_app_Cons_same)
    moreover have "Suc p < (if is_down st then repeats m True else repeats m False)" using below more(2) n by simp
    ultimately show ?thesis
      unfolding run Cons.IH [OF s(2)] s(1) using documented_prefix by metis
  qed
qed


definition ex_web :: WebMonitor where
  "ex_web = \<lparr>wm_Name = ''w'', wm_URL = ''u'', wm_DownRepeats = 2, wm_UpRepeats = 1, wm_expiringDays = [1, 2, 3, 7, 15],
     wm_host = ''h'', wm_localDate = format_date\<rparr>"

definition ex_probe :: "bool \<Rightarrow> probeResult \<times> instant" where
  "ex_probe ok = (\<lparr>pb_ok = ok, pb_status = 0, pb_ms = 0, pb_reason = [], pb_cert = None\<rparr>, 0)"


text \<open>A failure counted before the first good probe is not forgotten by it: two failures that are not in a row take the
  web down.\<close>

lemma unknown_keeps_the_count:
  "map (is_down \<circ> fst) (web_run ex_web (map ex_probe [False, True, False]) newWebState) = [False, False, True]"
  by code_simp

subsection \<open>Certificates\<close>

text \<open>The polls of a certificate that post a warning: the days left, the threshold then recorded and the date.\<close>

fun warnings :: "WebMonitor \<Rightarrow> (web_certInfo \<times> instant) list \<Rightarrow> webState \<Rightarrow> (int \<times> int \<times> string) list" where
  "warnings m [] st = []"
| "warnings m ((c, now) # cs) st =
     (case updateCert m c now st of
        (st', msg) \<Rightarrow>
          (if msg \<noteq> [] then [(ce_daysLeft c, ws_CertWarnedDays st', format_date now)] else []) @ warnings m cs st')"

definition warned_days :: "WebMonitor \<Rightarrow> int \<Rightarrow> webState \<Rightarrow> int" where
  "warned_days m na st = (if ws_CertNotAfterUnix st = na then ws_CertWarnedDays st else last (wm_expiringDays m) + 1)"

definition warned_date :: "int \<Rightarrow> webState \<Rightarrow> string" where
  "warned_date na st = (if ws_CertNotAfterUnix st = na then ws_CertWarnedDate st else [])"

lemma find_hit: "find P (rev xs) = Some x \<Longrightarrow> x \<in> set xs \<and> P x"
  by (auto simp: find_Some_iff) (metis length_rev nth_mem set_rev)

lemma updateCert_valid:
  assumes "ce_notAfterUnix c = na" and "0 \<le> ce_daysLeft c" and "updateCert m c now st = (st', msg)"
  shows "ws_CertNotAfterUnix st' = na \<and>
    (if msg = [] then ws_CertWarnedDays st' = warned_days m na st \<and>
       (\<forall>t\<in>set (wm_expiringDays m). ce_daysLeft c \<le> t \<longrightarrow> warned_days m na st \<le> t)
     else ws_CertWarnedDays st' \<in> set (wm_expiringDays m) \<and> ce_daysLeft c \<le> ws_CertWarnedDays st' \<and>
       ws_CertWarnedDays st' < warned_days m na st)"
  using assms
  by (auto simp: updateCert_def warned_days_def web_prefix_def find_None_iff Let_def not_less
      split: if_splits option.splits dest!: find_hit)

lemma updateCert_expired:
  assumes "ce_notAfterUnix c = na" and "ce_daysLeft c < 0" and "updateCert m c now st = (st', msg)"
  shows "ws_CertNotAfterUnix st' = na \<and> ws_CertWarnedDate st' = format_date now \<and>
    (msg \<noteq> []) = (format_date now \<noteq> warned_date na st)"
  using assms by (auto simp: updateCert_def warned_date_def web_prefix_def Let_def split: if_splits)

text \<open>While a certificate is valid, the warnings about it are for strictly decreasing thresholds of the
  configuration, each crossed at that time, so each threshold warns at most once, whatever the times and the
  number of polls.\<close>

theorem each_threshold_warns_once:
  assumes "\<forall>(c, now)\<in>set cs. ce_notAfterUnix c = na \<and> 0 \<le> ce_daysLeft c"
  shows "sorted_wrt (>) (warned_days m na st # map (\<lambda>w. fst (snd w)) (warnings m cs st)) \<and>
    list_all (\<lambda>(left, t, d). t \<in> set (wm_expiringDays m) \<and> left \<le> t) (warnings m cs st)"
  using assms
proof (induction m cs st rule: warnings.induct)
  case (2 m c now cs st)
  obtain st' msg where u: "updateCert m c now st = (st', msg)" by fastforce
  have c: "ce_notAfterUnix c = na" "0 \<le> ce_daysLeft c" using 2(2) by simp_all
  note v = updateCert_valid [OF c u]
  have w: "warned_days m na st' = ws_CertWarnedDays st'" using v by (simp add: warned_days_def)
  have ih: "sorted_wrt (>) (ws_CertWarnedDays st' # map (\<lambda>w. fst (snd w)) (warnings m cs st'))"
    "list_all (\<lambda>(left, t, d). t \<in> set (wm_expiringDays m) \<and> left \<le> t) (warnings m cs st')"
    using 2(1) [OF u [symmetric]] 2(2) w by simp_all
  show ?case
  proof (cases "msg = []")
    case True
    then show ?thesis using ih v u by simp
  next
    case False
    have "t < warned_days m na st" if "t \<in> set (map (\<lambda>w. fst (snd w)) (warnings m cs st'))" for t
      using ih(1) that v False by (auto simp only: sorted_wrt.simps if_False)
    then show ?thesis using ih v u False by (simp only: warnings.simps prod.case) simp
  qed
qed simp

text \<open>An expired certificate is announced at the first poll and then once for each change of the UTC date, however
  often it is polled.\<close>

theorem expired_once_per_day:
  assumes "\<forall>(c, now)\<in>set cs. ce_notAfterUnix c = na \<and> ce_daysLeft c < 0"
  shows "map (\<lambda>w. snd (snd w)) (warnings m cs st) = tl (remdups_adj (warned_date na st # map (\<lambda>c. format_date (snd c)) cs))"
  using assms
proof (induction m cs st rule: warnings.induct)
  case (2 m c now cs st)
  obtain st' msg where u: "updateCert m c now st = (st', msg)" by fastforce
  have c: "ce_notAfterUnix c = na" "ce_daysLeft c < 0" using 2(2) by simp_all
  note v = updateCert_expired [OF c u]
  have w: "warned_date na st' = format_date now" using v by (simp add: warned_date_def)
  have ih: "map (\<lambda>w. snd (snd w)) (warnings m cs st') = tl (remdups_adj (format_date now # map (\<lambda>c. format_date (snd c)) cs))"
    using 2(1) [OF u [symmetric]] 2(2) w by simp
  have hd: "remdups_adj (x # xs) = x # tl (remdups_adj (x # xs))" for x :: string and xs
    by (simp add: remdups_adj_Cons split: list.split)
  show ?case
  proof (cases "format_date now = warned_date na st")
    case True
    then show ?thesis using ih v u by simp
  next
    case False
    have "map (\<lambda>w. snd (snd w)) (warnings m ((c, now) # cs) st) =
        format_date now # tl (remdups_adj (format_date now # map (\<lambda>c. format_date (snd c)) cs))"
      using ih v u False by simp
    also have "\<dots> = remdups_adj (format_date now # map (\<lambda>c. format_date (snd c)) cs)" by (rule hd [symmetric])
    finally show ?thesis using False by simp
  qed
qed simp

definition ex_cert :: "int \<Rightarrow> web_certInfo \<times> instant" where
  "ex_cert left = (\<lparr>ce_notAfterUnix = 100, ce_daysLeft = left\<rparr>, 0)"

theorem each_threshold_warns_once_example:
  "list_all (\<lambda>(left, t, d). t \<in> set (wm_expiringDays ex_web) \<and> left \<le> t)
     (warnings ex_web (map ex_cert [20, 14, 14, 5, 1]) newWebState)"
  by (rule conjunct2 [OF each_threshold_warns_once [where na = 100]]) (simp add: ex_cert_def)

theorem expired_once_per_day_example:
  "length (warnings ex_web (map ex_cert [-1, -1, -1]) newWebState) = 1"
proof -
  have "map (\<lambda>w. snd (snd w)) (warnings ex_web (map ex_cert [-1, -1, -1]) newWebState) =
      tl (remdups_adj (warned_date 100 newWebState # map (\<lambda>c. format_date (snd c)) (map ex_cert [-1, -1, -1])))"
    by (rule expired_once_per_day) (simp add: ex_cert_def)
  moreover have "format_date 0 \<noteq> []" using length_format_date [of 0] by auto
  ultimately have "map (\<lambda>w. snd (snd w)) (warnings ex_web (map ex_cert [-1, -1, -1]) newWebState) = [format_date 0]"
    by (simp add: ex_cert_def warned_date_def newWebState_def)
  then show ?thesis by (metis length_Cons length_map list.size(3) One_nat_def)
qed

text \<open>A certificate first seen on its last day is warned about by every poll until the thresholds are used up.\<close>

lemma late_certificate:
  "map (\<lambda>w. fst (snd w)) (warnings ex_web (map ex_cert [1, 1, 1, 1, 1, 1]) newWebState) = [15, 7, 3, 2, 1]"
  by (simp add: ex_cert_def ex_web_def newWebState_def updateCert_def web_prefix_def)

subsection \<open>Names\<close>

lemma checkNames_iff:
  "checkNames ws seen = None \<longleftrightarrow>
     distinct (map cw_Name (filter cw_Enabled ws)) \<and> set (map cw_Name (filter cw_Enabled ws)) \<inter> seen = {}"
  by (induction ws seen rule: checkNames.induct) auto

end
