(* ===== verification/MonFeed.thy ===== *)
theory MonFeed
  imports MonLib
begin

text \<open>
  What the GitHub and the Redmine monitor have in common: the shortened texts of the announcements with the UTF-8
  functions they use, the packing of lines into messages, and the contract of a watermark: a poll takes the items of a feed that are
  newer than the watermark, or of its second and not seen, and moves the watermark to the newest of them.
\<close>

subsection \<open>UTF-8\<close>

definition byte_in :: "nat \<Rightarrow> nat \<Rightarrow> char \<Rightarrow> bool" where
  "byte_in lo hi c \<longleftrightarrow> lo \<le> of_char c \<and> of_char c \<le> hi"

definition RuneStart :: "char \<Rightarrow> bool" where
  "RuneStart c \<longleftrightarrow> \<not> byte_in 0x80 0xBF c"

definition continues :: "(nat \<times> nat) list \<Rightarrow> string \<Rightarrow> bool" where
  "continues rs s \<longleftrightarrow> length rs \<le> length s \<and> list_all2 (\<lambda>r c. byte_in (fst r) (snd r) c) rs (take (length rs) s)"

text \<open>The ranges of the bytes after the first byte of a rune; none for a first byte that starts no rune of its own.\<close>

definition rune_tail :: "nat \<Rightarrow> (nat \<times> nat) list" where
  "rune_tail b =
     (let x = (0x80, 0xBF)
      in if 0xC2 \<le> b \<and> b \<le> 0xDF then [x]
         else if b = 0xE0 then [(0xA0, 0xBF), x]
         else if b = 0xED then [(0x80, 0x9F), x]
         else if 0xE1 \<le> b \<and> b \<le> 0xEF then [x, x]
         else if b = 0xF0 then [(0x90, 0xBF), x, x]
         else if 0xF1 \<le> b \<and> b \<le> 0xF3 then [x, x, x]
         else if b = 0xF4 then [(0x80, 0x8F), x, x]
         else [])"

text \<open>The size that \<open>DecodeRuneInString\<close> answers: an invalid byte counts as a rune of one byte.\<close>

definition rune_size :: "string \<Rightarrow> nat" where
  "rune_size s =
     (case s of
        [] \<Rightarrow> 0
      | c # cs \<Rightarrow> if continues (rune_tail (of_char c)) cs then 1 + length (rune_tail (of_char c)) else 1)"

lemma rune_size_pos: "s \<noteq> [] \<Longrightarrow> 0 < rune_size s"
  by (simp add: rune_size_def split: list.split)

lemma rune_size_le: "rune_size s \<le> length s"
  by (simp add: rune_size_def continues_def split: list.split)

function RuneCountInString :: "string \<Rightarrow> nat" where
  "RuneCountInString s = (if s = [] then 0 else 1 + RuneCountInString (drop (rune_size s) s))"
  by pat_completeness auto
termination by (relation "measure length") (simp_all add: rune_size_pos)

declare RuneCountInString.simps [simp del]

definition last_rune_size :: "string \<Rightarrow> nat" where
  "last_rune_size s =
     (let n = length s
      in if n = 0 then 0
         else if byte_in 0 0x7F (last s) then 1
         else
           (case find (\<lambda>k. k \<le> n \<and> RuneStart (s ! (n - k))) [2, 3, 4] of
              Some k \<Rightarrow> if rune_size (drop (n - k) s) = k then k else 1
            | None \<Rightarrow> 1))"

lemma last_rune_size_pos: "s \<noteq> [] \<Longrightarrow> 0 < last_rune_size s"
  by (auto simp: last_rune_size_def Let_def split: option.split)

subsection \<open>Snippets\<close>

function drop_runes :: "nat \<Rightarrow> string \<Rightarrow> string" where
  "drop_runes mx s =
     (if s \<noteq> [] \<and> RuneCountInString s > mx then drop_runes mx (take (length s - last_rune_size s) s) else s)"
  by pat_completeness auto
termination by (relation "measure (length \<circ> snd)") (simp_all add: last_rune_size_pos)

declare drop_runes.simps [simp del]

definition ellipsis :: string where "ellipsis = [CHR 0xE2, CHR 0x80, CHR 0xA6]"

definition snippet :: "string \<Rightarrow> nat \<Rightarrow> string" where
  "snippet s mx =
     (let t = clean_space s in if RuneCountInString t \<le> mx then t else drop_runes mx t @ ellipsis)"

lemma drop_runes_count: "RuneCountInString (drop_runes mx s) \<le> mx"
proof (induction mx s rule: drop_runes.induct)
  case (1 mx s)
  show ?case
  proof (cases "s \<noteq> [] \<and> RuneCountInString s > mx")
    case True
    then show ?thesis using 1 by (subst drop_runes.simps) simp
  next
    case False
    then show ?thesis by (subst drop_runes.simps) (auto simp: RuneCountInString.simps [of "[]"])
  qed
qed

lemma drop_runes_prefix: "\<exists>t. s = drop_runes mx s @ t"
proof (induction mx s rule: drop_runes.induct)
  case (1 mx s)
  show ?case
  proof (cases "s \<noteq> [] \<and> RuneCountInString s > mx")
    case True
    then obtain t where "take (length s - last_rune_size s) s = drop_runes mx (take (length s - last_rune_size s) s) @ t"
      using 1 by auto
    then have "s = drop_runes mx (take (length s - last_rune_size s) s) @ t @ drop (length s - last_rune_size s) s"
      by (metis append_assoc append_take_drop_id)
    then show ?thesis using True by (subst drop_runes.simps) auto
  next
    case False
    then show ?thesis by (subst drop_runes.simps) auto
  qed
qed

text \<open>A suffix that starts a rune is counted on its own.\<close>

lemma rune_tail_range: "r \<in> set (rune_tail b) \<Longrightarrow> 0x80 \<le> fst r \<and> snd r \<le> 0xBF"
  by (auto simp: rune_tail_def Let_def split: if_splits)

lemma continues_append:
  assumes "t \<noteq> []" and "RuneStart (hd t)" and "\<forall>r\<in>set rs. 0x80 \<le> fst r \<and> snd r \<le> 0xBF"
  shows "continues rs (s @ t) = continues rs s"
proof (cases "length rs \<le> length s")
  case True
  then show ?thesis by (simp add: continues_def)
next
  case False
  have "\<not> continues rs (s @ t)"
  proof
    assume c: "continues rs (s @ t)"
    then have l: "list_all2 (\<lambda>r c. byte_in (fst r) (snd r) c) rs (take (length rs) (s @ t))" by (simp add: continues_def)
    have i: "length s < length rs" using False by simp
    from list_all2_nthD [OF l i] have "byte_in (fst (rs ! length s)) (snd (rs ! length s)) (hd t)"
      using i assms(1) by (simp add: nth_append hd_conv_nth)
    moreover have "rs ! length s \<in> set rs" using i by simp
    ultimately have "byte_in 0x80 0xBF (hd t)" using assms(3) by (fastforce simp: byte_in_def)
    then show False using assms(2) by (simp add: RuneStart_def)
  qed
  then show ?thesis using False by (simp add: continues_def)
qed

lemma RuneCount_append:
  assumes "t \<noteq> []" and "RuneStart (hd t)"
  shows "RuneCountInString (s @ t) = RuneCountInString s + RuneCountInString t"
proof (induction s rule: RuneCountInString.induct)
  case (1 s)
  show ?case
  proof (cases "s = []")
    case True
    then show ?thesis by (simp add: RuneCountInString.simps [of "[]"])
  next
    case False
    then have "rune_size (s @ t) = rune_size s"
      using continues_append [OF assms] rune_tail_range by (cases s) (auto simp: rune_size_def)
    then have "drop (rune_size (s @ t)) (s @ t) = drop (rune_size s) s @ t"
      using rune_size_le [of s] by simp
    then have "RuneCountInString (s @ t) = 1 + RuneCountInString (drop (rune_size s) s @ t)"
      using False by (subst RuneCountInString.simps) simp
    also have "\<dots> = 1 + RuneCountInString (drop (rune_size s) s) + RuneCountInString t" using 1 False by simp
    also have "\<dots> = RuneCountInString s + RuneCountInString t" using False by (subst (3) RuneCountInString.simps) simp
    finally show ?thesis .
  qed
qed

text \<open>A snippet has at most one rune more than asked for, the ellipsis; it is the text on one line, or a
  beginning of it followed by the ellipsis, for any bytes, valid UTF-8 or not.\<close>

theorem snippets_are_short:
  "RuneCountInString (snippet s mx) \<le> mx + 1 \<and>
   (snippet s mx = clean_space s \<or> (\<exists>t u. clean_space s = t @ u \<and> u \<noteq> [] \<and> snippet s mx = t @ ellipsis \<and> RuneCountInString t \<le> mx))"
proof (cases "RuneCountInString (clean_space s) \<le> mx")
  case True
  then show ?thesis by (simp add: snippet_def)
next
  case False
  let ?t = "drop_runes mx (clean_space s)"
  obtain u where u: "clean_space s = ?t @ u" using drop_runes_prefix by blast
  have c: "RuneCountInString ?t \<le> mx" by (rule drop_runes_count)
  have "RuneCountInString ellipsis = 1" by code_simp
  then have "RuneCountInString (?t @ ellipsis) \<le> mx + 1"
    using RuneCount_append [of ellipsis ?t] c by (simp add: ellipsis_def RuneStart_def byte_in_def)
  moreover have "u \<noteq> []" using u c False by auto
  moreover have "snippet s mx = ?t @ ellipsis" using False by (simp add: snippet_def)
  ultimately show ?thesis using u c by metis
qed

subsection \<open>Packing lines\<close>

definition feed_sep :: string where "feed_sep = '' || ''"

fun pack_lines :: "int \<Rightarrow> string list \<Rightarrow> string list \<Rightarrow> int \<Rightarrow> string list list" where
  "pack_lines maxLen [] texts curLen = (if texts = [] then [] else [texts])"
| "pack_lines maxLen (l # ls) texts curLen =
     (let sepLen = (if texts = [] then 0 else int (length feed_sep))
      in if curLen + sepLen + int (length l) \<le> maxLen
         then pack_lines maxLen ls (texts @ [l]) (curLen + sepLen + int (length l))
         else (if texts = [] then [] else [texts]) @ pack_lines maxLen ls [l] (int (length l)))"

definition post_lines :: "string \<Rightarrow> int \<Rightarrow> string list \<Rightarrow> string list" where
  "post_lines prompt maxLength ls =
     map (\<lambda>texts. prompt @ Join texts feed_sep) (pack_lines (maxLength - int (length prompt)) ls [] 0)"

lemma concat_pack_lines: "concat (pack_lines maxLen ls texts curLen) = texts @ ls"
  by (induction maxLen ls texts curLen rule: pack_lines.induct) (auto simp: Let_def)

lemma pack_lines_fit:
  assumes "curLen = int (length (Join texts feed_sep))" and "length texts \<le> 1 \<or> curLen \<le> maxLen"
  shows "list_all (\<lambda>p. p \<noteq> [] \<and> (length p = 1 \<or> int (length (Join p feed_sep)) \<le> maxLen)) (pack_lines maxLen ls texts curLen)"
  using assms
proof (induction maxLen ls texts curLen rule: pack_lines.induct)
  case (1 maxLen texts curLen)
  then show ?case by (cases texts) auto
next
  case (2 maxLen l ls texts curLen)
  let ?sepLen = "if texts = [] then 0 else int (length feed_sep)"
  have one: "texts \<noteq> [] \<Longrightarrow> length texts = 1 \<or> int (length (Join texts feed_sep)) \<le> maxLen"
    using 2(3,4) by (cases texts) auto
  show ?case
  proof (cases "curLen + ?sepLen + int (length l) \<le> maxLen")
    case True
    have "curLen + ?sepLen + int (length l) = int (length (Join (texts @ [l]) feed_sep))"
      using 2(3) by (simp add: Join_snoc)
    then show ?thesis using 2(1) [OF refl True] True by (simp add: Let_def)
  next
    case False
    then show ?thesis using 2(2) [OF refl False] one by (simp add: Let_def)
  qed
qed

text \<open>The messages of a round carry all lines in order, each once; none is empty, and each is within the
  limit of the poster unless it carries a single line.\<close>

theorem messages_carry_all_lines:
  "\<exists>parts. concat parts = ls \<and> post_lines prompt maxLength ls = map (\<lambda>p. prompt @ Join p feed_sep) parts \<and>
    list_all (\<lambda>p. p \<noteq> [] \<and> (length p = 1 \<or> int (length (prompt @ Join p feed_sep)) \<le> maxLength)) parts"
proof -
  let ?parts = "pack_lines (maxLength - int (length prompt)) ls [] 0"
  have "list_all (\<lambda>p. p \<noteq> [] \<and> (length p = 1 \<or> int (length (Join p feed_sep)) \<le> maxLength - int (length prompt))) ?parts"
    by (rule pack_lines_fit) simp_all
  then have "list_all (\<lambda>p. p \<noteq> [] \<and> (length p = 1 \<or> int (length (prompt @ Join p feed_sep)) \<le> maxLength)) ?parts"
    by (rule list.pred_mono_strong) auto
  then show ?thesis by (intro exI [of _ ?parts]) (simp add: post_lines_def concat_pack_lines)
qed

subsection \<open>The watermark\<close>

text \<open>A sequence of rounds, with what each of them yields.\<close>

fun rounds :: "('r \<Rightarrow> 's \<Rightarrow> 's \<times> 'a list) \<Rightarrow> 'r list \<Rightarrow> 's \<Rightarrow> 's \<times> 'a list" where
  "rounds poll [] s = (s, [])"
| "rounds poll (r # rs) s =
     (case poll r s of (s1, xs) \<Rightarrow> (case rounds poll rs s1 of (s2, ys) \<Rightarrow> (s2, xs @ ys)))"

text \<open>An answer \<open>es\<close> to a feed that has grown from \<open>R\<close> to \<open>R'\<close> by items no older than \<open>at\<close>: it lists items of the feed,
  newest first, and every item from the second \<open>at\<close> on.\<close>

definition feed_grows :: "('e \<Rightarrow> int) \<Rightarrow> ('e \<Rightarrow> 'i) \<Rightarrow> 'e set \<Rightarrow> 'e set \<Rightarrow> int \<Rightarrow> 'e list \<Rightarrow> bool" where
  "feed_grows etime eid R R' at es \<longleftrightarrow> R \<subseteq> R' \<and> inj_on eid R' \<and> (\<forall>e\<in>R' - R. at \<le> etime e) \<and> distinct es \<and>
     set es \<subseteq> R' \<and> (\<forall>e\<in>R'. at \<le> etime e \<longrightarrow> e \<in> set es) \<and> sorted (map etime (rev es))"

text \<open>A feed that grows through the sets of \<open>h\<close> while it is polled.\<close>

fun feed_growing :: "('e \<Rightarrow> int) \<Rightarrow> ('e \<Rightarrow> 'i) \<Rightarrow> ('r \<Rightarrow> 'e list) \<Rightarrow> ('s \<Rightarrow> int) \<Rightarrow> ('r \<Rightarrow> 's \<Rightarrow> 's \<times> 'a list) \<Rightarrow>
    'e set \<Rightarrow> 's \<Rightarrow> ('r \<times> 'e set) list \<Rightarrow> bool" where
  "feed_growing etime eid entries mark poll R s [] = True"
| "feed_growing etime eid entries mark poll R s ((r, R') # h) =
     (feed_grows etime eid R R' (mark s) (entries r) \<and>
      feed_growing etime eid entries mark poll R' (fst (poll r s)) h)"

text \<open>The watermark \<open>at\<close> and the ids \<open>is\<close> stand for the items \<open>R\<close>.\<close>

definition feed_known :: "('e \<Rightarrow> int) \<Rightarrow> ('e \<Rightarrow> 'i) \<Rightarrow> 'e set \<Rightarrow> int \<Rightarrow> 'i list \<Rightarrow> bool" where
  "feed_known etime eid R at is \<longleftrightarrow> (\<forall>e\<in>R. etime e \<le> at) \<and> set is = eid ` {e \<in> R. etime e = at}"

text \<open>The newest time of a list, and times that the state file keeps exactly.\<close>

lemma fold_newest:
  "fold (\<lambda>e m. if t e > m then t e else m) es m = Max (insert m (t ` set es))" for t :: "'e \<Rightarrow> int"
proof (induction es arbitrary: m)
  case (Cons e es)
  have "(if t e > m then t e else m) = max m (t e)" by simp
  then show ?case using Cons [of "max m (t e)"] by (cases "es = []") (simp_all add: max.assoc max.commute)
qed simp

lemma newest_in:
  assumes "es \<noteq> []"
  obtains e where "e \<in> set es" "t e = Max (t ` set es)"
proof -
  have "Max (t ` set es) \<in> t ` set es" using assms by (intro Max_in) auto
  with that show thesis by (metis imageE)
qed

definition whole_second :: "instant \<Rightarrow> bool" where
  "whole_second t \<longleftrightarrow> t mod second = 0 \<and> four_digit_year t"

lemma whole_second_kept: "whole_second t \<Longrightarrow> parse_rfc3339 (format_rfc3339 t) = Some t"
  using parse_format_rfc3339 [of t] div_mult_mod_eq [of t second] by (simp add: whole_second_def)

text \<open>The contract of a poll: \<open>etime\<close> and \<open>eid\<close> are the time and the id of an item, \<open>entries\<close> the items of an
  answer, newest first, \<open>valid\<close> the answers the contract speaks of, \<open>seeded\<close> the states after the first poll,
  \<open>mark\<close> and \<open>ids\<close> the watermark and the ids kept with it, \<open>poll\<close> the next state and the items taken.\<close>

locale watermark =
  fixes etime :: "'e \<Rightarrow> int" and eid :: "'e \<Rightarrow> 'i"
    and entries :: "'r \<Rightarrow> 'e list" and valid :: "'r \<Rightarrow> bool"
    and seeded :: "'s \<Rightarrow> bool" and mark :: "'s \<Rightarrow> int" and ids :: "'s \<Rightarrow> 'i list"
    and poll :: "'r \<Rightarrow> 's \<Rightarrow> 's \<times> 'e list"
  assumes takes: "seeded s \<Longrightarrow> valid r \<Longrightarrow>
      snd (poll r s) = filter (\<lambda>e. mark s < etime e \<or> etime e = mark s \<and> eid e \<notin> set (ids s)) (rev (entries r))"
    and stays: "seeded s \<Longrightarrow> valid r \<Longrightarrow> snd (poll r s) = [] \<Longrightarrow>
      mark (fst (poll r s)) = mark s \<and> set (ids (fst (poll r s))) = set (ids s)"
    and moves: "seeded s \<Longrightarrow> valid r \<Longrightarrow> snd (poll r s) \<noteq> [] \<Longrightarrow>
      mark (fst (poll r s)) = Max (etime ` set (snd (poll r s))) \<and>
      set (ids (fst (poll r s))) = (if mark (fst (poll r s)) = mark s then set (ids s) else {}) \<union>
        eid ` {e \<in> set (snd (poll r s)). etime e = mark (fst (poll r s))}"
    and keeps: "seeded s \<Longrightarrow> valid r \<Longrightarrow> seeded (fst (poll r s))"
begin

text \<open>The state knows the items \<open>R\<close> of the feed.\<close>

definition knows :: "'e set \<Rightarrow> 's \<Rightarrow> bool" where
  "knows R s \<longleftrightarrow> seeded s \<and> feed_known etime eid R (mark s) (ids s)"

definition grows :: "'e set \<Rightarrow> 'e set \<Rightarrow> int \<Rightarrow> 'r \<Rightarrow> bool" where
  "grows R R' at r \<longleftrightarrow> valid r \<and> feed_grows etime eid R R' at (entries r)"

lemma poll_exact:
  assumes "knows R s" and "grows R R' (mark s) r" and "poll r s = (s', es)"
  shows "distinct es \<and> set es = R' - R \<and> sorted (map etime es) \<and> knows R' s' \<and> mark s \<le> mark s' \<and>
    (\<forall>e\<in>set es. mark s \<le> etime e \<and> etime e \<le> mark s')"
proof -
  have s: "seeded s" "\<forall>e\<in>R. etime e \<le> mark s" "set (ids s) = eid ` {e \<in> R. etime e = mark s}"
    using assms(1) by (simp_all add: knows_def feed_known_def)
  have r: "valid r" "R \<subseteq> R'" "inj_on eid R'" "\<forall>e\<in>R' - R. mark s \<le> etime e" "distinct (entries r)" "set (entries r) \<subseteq> R'"
    "\<forall>e\<in>R'. mark s \<le> etime e \<longrightarrow> e \<in> set (entries r)" "sorted (map etime (rev (entries r)))"
    using assms(2) by (simp_all add: grows_def feed_grows_def)
  let ?new = "\<lambda>e. mark s < etime e \<or> etime e = mark s \<and> eid e \<notin> set (ids s)"
  have es: "es = filter ?new (rev (entries r))" using takes [OF s(1) r(1)] assms(3) by simp
  have known: "?new e \<longleftrightarrow> e \<notin> R" if "e \<in> R'" "mark s \<le> etime e" for e
  proof -
    have "eid e \<in> set (ids s) \<longleftrightarrow> e \<in> R" if "etime e = mark s"
      using that \<open>e \<in> R'\<close> s(3) r(2,3) by (auto dest: inj_onD)
    then show ?thesis using that s(2) by force
  qed
  have set: "set es = R' - R"
  proof
    show "set es \<subseteq> R' - R" using es known r(6) by fastforce
    show "R' - R \<subseteq> set es" using es known r(4,7) by fastforce
  qed
  have sorted: "sorted (map etime es)" unfolding es using r(8) by (rule sorted_filter)
  have low: "mark s \<le> etime e" if "e \<in> set es" for e using that set r(4) by blast
  show ?thesis
  proof (cases "es = []")
    case True
    with set r(2) have "R' = R" by auto
    moreover have "mark s' = mark s" "set (ids s') = set (ids s)" "seeded s'"
      using stays [OF s(1) r(1)] keeps [OF s(1) r(1)] assms(3) True by simp_all
    ultimately show ?thesis using True s by (simp add: knows_def feed_known_def)
  next
    case False
    have m: "mark s' = Max (etime ` set es)"
      "set (ids s') = (if mark s' = mark s then set (ids s) else {}) \<union> eid ` {e \<in> set es. etime e = mark s'}" "seeded s'"
      using moves [OF s(1) r(1)] keeps [OF s(1) r(1)] assms(3) False by simp_all
    have up: "etime e \<le> mark s'" if "e \<in> set es" for e using that m(1) by simp
    have le: "mark s \<le> mark s'" using False low up by (cases es) force+
    have "\<forall>e\<in>R'. etime e \<le> mark s'" using up set s(2) le r(2) by (metis Diff_iff order.trans)
    moreover have "set (ids s') = eid ` {e \<in> R'. etime e = mark s'}"
    proof (cases "mark s' = mark s")
      case True
      then have "{e \<in> R'. etime e = mark s'} = {e \<in> R. etime e = mark s} \<union> {e \<in> set es. etime e = mark s'}"
        using set r(2) by auto
      then show ?thesis using m(2) s(3) True by (simp add: image_Un)
    next
      case False
      then have "{e \<in> R'. etime e = mark s'} = {e \<in> set es. etime e = mark s'}" using set r(2) s(2) le by force
      then show ?thesis using m(2) False by simp
    qed
    ultimately have "knows R' s'" using m(3) by (simp add: knows_def feed_known_def)
    moreover have "distinct es" using es r(5) by simp
    ultimately show ?thesis using set sorted le low up by auto
  qed
qed

lemma polls_exact:
  assumes "knows R s" and "feed_growing etime eid entries mark poll R s h" and "list_all valid (map fst h)"
    and "rounds poll (map fst h) s = (s', es)"
  shows "distinct es \<and> set es = last (R # map snd h) - R \<and> sorted (map etime es) \<and> knows (last (R # map snd h)) s' \<and>
    (\<forall>e\<in>set es. mark s \<le> etime e) \<and> R \<subseteq> last (R # map snd h)"
  using assms
proof (induction h arbitrary: R s es)
  case Nil
  then show ?case by simp
next
  case (Cons x h)
  obtain r R' where x: "x = (r, R')" by (cases x)
  obtain s1 es1 where p: "poll r s = (s1, es1)" by fastforce
  obtain s2 es2 where ps: "rounds poll (map fst h) s1 = (s2, es2)" by fastforce
  have e: "es = es1 @ es2" "s' = s2" using Cons.prems(4) x p ps by auto
  have g: "grows R R' (mark s) r" "feed_growing etime eid entries mark poll R' s1 h" "list_all valid (map fst h)"
    using Cons.prems(2,3) x p by (auto simp: grows_def)
  note 1 = poll_exact [OF Cons.prems(1) g(1) p]
  then have k: "knows R' s1" by simp
  note 2 = Cons.IH [OF k g(2,3)]
  have 3: "distinct es2" "set es2 = last (R' # map snd h) - R'" "sorted (map etime es2)" "knows (last (R' # map snd h)) s2"
    "\<forall>e\<in>set es2. mark s1 \<le> etime e" "R' \<subseteq> last (R' # map snd h)"
    using 2 ps e(2) by auto
  have "R \<subseteq> R'" using g(1) by (simp add: grows_def feed_grows_def)
  moreover have "sorted (map etime (es1 @ es2))" using 1 3(3,5) by (auto simp: sorted_append intro: order.trans)
  moreover have "\<forall>e\<in>set es2. mark s \<le> etime e" using 1 3(5) by force
  ultimately show ?case using 1 3 e x by auto
qed

end

end
