(* ===== verification/GitHubMonitor.thy ===== *)
theory GitHubMonitor
  imports MonFeed
begin

text \<open>
  The GitHub monitor: \<open>github-monitor/github.go\<close> and \<open>monitor.go\<close>. The HTTP client with the JSON decoder and the URL
  shortener are parameters. A round yields the activities it announces; the messages posted are
  a function of them.
\<close>

subsection \<open>The client\<close>

text \<open>A JSON value where an id is expected.\<close>

datatype json_id = JsonString string | JsonNumber int | JsonOther

definition eventID_UnmarshalJSON :: "json_id \<Rightarrow> int option" where
  "eventID_UnmarshalJSON j =
     (case j of
        JsonString s \<Rightarrow> parse_int64 s
      | JsonNumber n \<Rightarrow> if - (2 ^ 63) \<le> n \<and> n < 2 ^ 63 then Some n else None
      | JsonOther \<Rightarrow> None)"

record ghRef =
  rf_URL :: string
  rf_Number :: int
  rf_Title :: string
  rf_HtmlUrl :: string
  rf_PullRequest :: string

record ghReview =
  rv_Body :: string
  rv_HtmlUrl :: string

record ghEvent =
  ev_ID :: int
  ev_Type :: string
  ev_CreatedAt :: string
  ev_Login :: string
  ev_Action :: string
  ev_Issue :: "ghRef option"
  ev_PR :: "ghRef option"
  ev_Comment :: "string option"
  ev_Review :: "ghReview option"

definition IsPR :: "ghRef \<Rightarrow> bool" where
  "IsPR r \<longleftrightarrow> rf_PullRequest r \<noteq> [] \<and> rf_PullRequest r \<noteq> ''null''"

definition gh_Time :: "ghEvent \<Rightarrow> instant" where
  "gh_Time e = (case parse_rfc3339 (ev_CreatedAt e) of None \<Rightarrow> zero_time | Some t \<Rightarrow> t)"

text \<open>An answer of the API: status, body, the decoded body, and the two headers.\<close>

record 'a gh_resp =
  gr_status :: int
  gr_body :: string
  gr_decoded :: "string + 'a"
  gr_etag :: string
  gr_link :: string

record gh_client =
  gc_token :: string
  gc_events :: "string \<Rightarrow> (string \<times> string) list \<Rightarrow> string + ghEvent list gh_resp"
  gc_ref :: "string \<Rightarrow> (string \<times> string) list \<Rightarrow> string + ghRef gh_resp"

definition gh_pageSize :: int where "gh_pageSize = 100"
definition gh_maxPages :: nat where "gh_maxPages = 10"

definition gh_headers :: "gh_client \<Rightarrow> (string \<times> string) list" where
  "gh_headers c = [(''User-Agent'', ''dflybot-github-monitor''), (''Accept'', ''application/vnd.github+json'')] @
     (if gc_token c \<noteq> [] then [(''Authorization'', ''Bearer '' @ gc_token c)] else [])"

definition gh_status_error :: "int \<Rightarrow> string \<Rightarrow> string" where
  "gh_status_error status body = ''github: http status '' @ itoa status @ '': '' @ TrimSpace (take 512 body)"

definition Trim :: "string \<Rightarrow> string \<Rightarrow> string" where
  "Trim s cutset = rev (dropWhile (\<lambda>c. c \<in> set cutset) (rev (dropWhile (\<lambda>c. c \<in> set cutset) s)))"

definition rel_next :: string where "rel_next = ''rel='' @ [CHR 0x22] @ ''next'' @ [CHR 0x22]"

fun link_parts :: "string list \<Rightarrow> string" where
  "link_parts [] = []"
| "link_parts (part # parts) =
     (case SplitChar (CHR '';'') part of
        u # rel # _ \<Rightarrow> if Contains rel rel_next then Trim (TrimSpace u) ''<>'' else link_parts parts
      | _ \<Rightarrow> link_parts parts)"

definition linkNext :: "string \<Rightarrow> string" where
  "linkNext link = link_parts (SplitChar (CHR '','') link)"

text \<open>\<open>getEventsPage\<close>: an error, not modified, or the events, the ETag and the URL of the next page.\<close>

definition getEventsPage :: "gh_client \<Rightarrow> string \<Rightarrow> string \<Rightarrow> string + (ghEvent list \<times> string \<times> string) option" where
  "getEventsPage c url etag =
     (case gc_events c url (gh_headers c @ (if etag \<noteq> [] then [(''If-None-Match'', etag)] else [])) of
        Inl e \<Rightarrow> Inl e
      | Inr r \<Rightarrow>
          if gr_status r = 304 then Inr None
          else if quot (gr_status r) 100 \<noteq> 2 then Inl (gh_status_error (gr_status r) (gr_body r))
          else
            (case gr_decoded r of
               Inl e \<Rightarrow> Inl (''github: decode events: '' @ e)
             | Inr events \<Rightarrow> Inr (Some (events, gr_etag r, linkNext (gr_link r)))))"

text \<open>The pages after the first one, with the number still allowed. A later page that is not modified has no events
  and no next page.\<close>

fun more_pages :: "gh_client \<Rightarrow> nat \<Rightarrow> instant \<Rightarrow> string \<Rightarrow> ghEvent list \<Rightarrow> string + ghEvent list" where
  "more_pages c 0 since url events = Inr events"
| "more_pages c (Suc n) since url events =
     (case getEventsPage c url [] of
        Inl e \<Rightarrow> Inl e
      | Inr None \<Rightarrow> Inr events
      | Inr (Some (got, _, next)) \<Rightarrow>
          if next = [] \<or> (got \<noteq> [] \<and> \<not> gh_Time (last got) > since) then Inr (events @ got)
          else more_pages c n since next (events @ got))"

definition events_url :: "string \<Rightarrow> string \<Rightarrow> string" where
  "events_url project repo =
     ''https://api.github.com/repos/'' @ project @ ''/'' @ repo @ ''/events?per_page='' @ itoa gh_pageSize"

text \<open>\<open>fetchEvents\<close>: an error, not modified, or the events and the new ETag.\<close>

definition fetchEvents :: "gh_client \<Rightarrow> string \<Rightarrow> string \<Rightarrow> string \<Rightarrow> instant \<Rightarrow> string + (ghEvent list \<times> string) option" where
  "fetchEvents c project repo etag since =
     (case getEventsPage c (events_url project repo) etag of
        Inl e \<Rightarrow> Inl e
      | Inr None \<Rightarrow> Inr None
      | Inr (Some (got, newEtag, next)) \<Rightarrow>
          if next = [] \<or> (got \<noteq> [] \<and> \<not> gh_Time (last got) > since) then Inr (Some (got, newEtag))
          else
            (case more_pages c (gh_maxPages - 1) since next got of
               Inl e \<Rightarrow> Inl e
             | Inr events \<Rightarrow> Inr (Some (events, newEtag))))"

definition getRef :: "gh_client \<Rightarrow> string \<Rightarrow> string + ghRef" where
  "getRef c apiURL =
     (case gc_ref c apiURL (gh_headers c) of
        Inl e \<Rightarrow> Inl e
      | Inr r \<Rightarrow>
          if gr_status r \<noteq> 200 then Inl (gh_status_error (gr_status r) (gr_body r))
          else (case gr_decoded r of Inl e \<Rightarrow> Inl (''github: decode ref: '' @ e) | Inr v \<Rightarrow> Inr v))"

subsection \<open>Activities\<close>

definition titleMax :: nat where "titleMax = 100"
definition commentMax :: nat where "commentMax = 120"
definition activityIssue :: string where "activityIssue = ''issue''"
definition activityPR :: string where "activityPR = ''PR''"

definition defaultIssueActions :: "string list" where
  "defaultIssueActions = [''create'', ''comment'', ''close'', ''reopen'']"

definition defaultPRActions :: "string list" where
  "defaultPRActions = [''create'', ''comment'', ''update'', ''close'', ''merge'', ''reopen'']"

record ConfigRepo =
  cr_Project :: string
  cr_Repo :: string
  cr_IssueActions :: "string list"
  cr_PRActions :: "string list"
  cr_IgnoredUsers :: "string list"

definition gh_actionWanted :: "string \<Rightarrow> string \<Rightarrow> string list \<Rightarrow> string list \<Rightarrow> bool" where
  "gh_actionWanted kind action issueActions prActions =
     (if kind = activityIssue then action \<in> set (if issueActions = [] then defaultIssueActions else issueActions)
      else if kind = activityPR then action \<in> set (if prActions = [] then defaultPRActions else prActions)
      else False)"

definition userIgnored :: "string \<Rightarrow> string list \<Rightarrow> bool" where
  "userIgnored login ignored \<longleftrightarrow> login \<noteq> [] \<and> list_ex (\<lambda>u. EqualFold u login) ignored"

record activity =
  ac_kind :: string
  ac_action :: string
  ac_number :: int
  ac_actor :: string
  ac_title :: string
  ac_url :: string
  ac_eventID :: int

definition verb_of :: "string \<Rightarrow> string" where
  "verb_of action =
     (case map_of [(''create'', ''opened''), (''close'', ''closed''), (''reopen'', ''reopened''), (''merge'', ''merged''),
        (''update'', ''updated'')] action of Some v \<Rightarrow> v | None \<Rightarrow> action)"

definition gh_line :: "activity \<Rightarrow> string" where
  "gh_line a =
     (if ac_action a = ''comment''
      then ac_actor a @ '' commented on '' @ ac_kind a @ '' #'' @ itoa (ac_number a) @ '': '' @ ac_title a
      else ac_kind a @ '' #'' @ itoa (ac_number a) @ '' ('' @ ac_title a @ '') '' @ verb_of (ac_action a) @ '' by '' @ ac_actor a @
        (if ac_action a = ''create'' \<and> ac_url a \<noteq> [] then '': '' @ ac_url a else []))"

definition issue_action :: "string \<Rightarrow> string option" where
  "issue_action = map_of [(''opened'', ''create''), (''closed'', ''close''), (''reopened'', ''reopen'')]"

definition pr_action :: "string \<Rightarrow> string option" where
  "pr_action = map_of [(''opened'', ''create''), (''closed'', ''close''), (''merged'', ''merge''), (''reopened'', ''reopen''),
     (''synchronize'', ''update''), (''edited'', ''update'')]"

definition fillPR :: "gh_client \<Rightarrow> ghRef \<Rightarrow> ghRef" where
  "fillPR c ref =
     (if rf_URL ref = [] then ref else (case getRef c (rf_URL ref) of Inl _ \<Rightarrow> ref | Inr full \<Rightarrow> full))"

definition mk_activity :: "ghEvent \<Rightarrow> string \<Rightarrow> string \<Rightarrow> int \<Rightarrow> string \<Rightarrow> string \<Rightarrow> activity" where
  "mk_activity e kind action number title url = \<lparr>ac_kind = kind, ac_action = action, ac_number = number,
     ac_actor = ev_Login e, ac_title = title, ac_url = url, ac_eventID = ev_ID e\<rparr>"

text \<open>The activity of an event, before the filter on its action.\<close>

definition event_activity :: "gh_client \<Rightarrow> ConfigRepo \<Rightarrow> ghEvent \<Rightarrow> activity option" where
  "event_activity c cfg e =
     (if ev_Type e = ''IssuesEvent'' then
        (case (ev_Issue e, issue_action (ev_Action e)) of
           (Some ref, Some action) \<Rightarrow>
             Some (mk_activity e activityIssue action (rf_Number ref) (snippet (rf_Title ref) titleMax) (rf_HtmlUrl ref))
         | _ \<Rightarrow> None)
      else if ev_Type e = ''PullRequestEvent'' then
        (case (ev_PR e, pr_action (ev_Action e)) of
           (Some ref0, Some action) \<Rightarrow>
             (let ref = (if gh_actionWanted activityPR action (cr_IssueActions cfg) (cr_PRActions cfg) \<and>
                            (rf_Title ref0 = [] \<or> rf_HtmlUrl ref0 = []) then fillPR c ref0 else ref0)
              in Some (mk_activity e activityPR action (rf_Number ref) (snippet (rf_Title ref) titleMax) (rf_HtmlUrl ref)))
         | _ \<Rightarrow> None)
      else if ev_Type e = ''IssueCommentEvent'' then
        (case (ev_Issue e, ev_Comment e) of
           (Some issue, Some body) \<Rightarrow>
             Some (mk_activity e (if IsPR issue then activityPR else activityIssue) ''comment'' (rf_Number issue)
               (snippet body commentMax) (rf_HtmlUrl issue))
         | _ \<Rightarrow> None)
      else if ev_Type e = ''PullRequestReviewEvent'' then
        (case (ev_Review e, ev_PR e) of
           (Some review, Some ref) \<Rightarrow>
             if rv_Body review = [] \<or> ev_Action e \<noteq> ''created'' then None
             else Some (mk_activity e activityPR ''comment'' (rf_Number ref) (snippet (rv_Body review) commentMax) (rv_HtmlUrl review))
         | _ \<Rightarrow> None)
      else None)"

definition gh_classify :: "gh_client \<Rightarrow> ConfigRepo \<Rightarrow> ghEvent \<Rightarrow> activity option" where
  "gh_classify c cfg e =
     (if userIgnored (ev_Login e) (cr_IgnoredUsers cfg) then None
      else
        (case event_activity c cfg e of
           None \<Rightarrow> None
         | Some a \<Rightarrow> if gh_actionWanted (ac_kind a) (ac_action a) (cr_IssueActions cfg) (cr_PRActions cfg) then Some a else None))"

subsection \<open>State\<close>

definition gh_stateVersion :: int where "gh_stateVersion = 2"

record repoState =
  rs_Version :: int
  rs_ETag :: string
  rs_LastEventAt :: string
  rs_LastEventIDs :: "int list"
  rs_UpdatedAt :: int

definition new_repoState :: repoState where
  "new_repoState = \<lparr>rs_Version = gh_stateVersion, rs_ETag = [], rs_LastEventAt = [], rs_LastEventIDs = [], rs_UpdatedAt = 0\<rparr>"

definition gh_lastAt :: "repoState \<Rightarrow> instant" where
  "gh_lastAt st = (case parse_rfc3339 (rs_LastEventAt st) of None \<Rightarrow> zero_time | Some t \<Rightarrow> t)"

definition gh_seenAtBoundary :: "repoState \<Rightarrow> int \<Rightarrow> bool" where
  "gh_seenAtBoundary st i \<longleftrightarrow> i \<in> set (rs_LastEventIDs st)"

definition gh_setLast :: "instant \<Rightarrow> int list \<Rightarrow> repoState \<Rightarrow> repoState" where
  "gh_setLast at is st = st\<lparr>rs_LastEventAt := format_rfc3339 at, rs_LastEventIDs := is\<rparr>"

definition gh_loadState :: "string + repoState option \<Rightarrow> repoState \<Rightarrow> repoState" where
  "gh_loadState r st =
     (case r of
        Inr (Some s) \<Rightarrow> if rs_Version s \<noteq> gh_stateVersion then st else s
      | _ \<Rightarrow> st)"

subsection \<open>A round\<close>

definition gh_newest :: "ghEvent list \<Rightarrow> instant" where
  "gh_newest es = fold (\<lambda>e m. if gh_Time e > m then gh_Time e else m) (tl es) (gh_Time (hd es))"

definition gh_touch :: "string \<Rightarrow> instant \<Rightarrow> repoState \<Rightarrow> repoState" where
  "gh_touch etag now st = st\<lparr>rs_ETag := etag, rs_UpdatedAt := now div second\<rparr>"

definition gh_seed :: "instant \<Rightarrow> ghEvent list \<Rightarrow> string \<Rightarrow> repoState \<Rightarrow> repoState" where
  "gh_seed now events etag st =
     gh_touch etag now
       (if events = [] then st
        else gh_setLast (gh_newest events) (map ev_ID (filter (\<lambda>e. gh_Time e = gh_newest events) events)) st)"

definition gh_accept :: "repoState \<Rightarrow> ghEvent list \<Rightarrow> ghEvent list" where
  "gh_accept st events =
     filter (\<lambda>e. gh_Time e > gh_lastAt st \<or> gh_Time e = gh_lastAt st \<and> \<not> gh_seenAtBoundary st (ev_ID e)) (rev events)"

definition gh_advance :: "instant \<Rightarrow> string \<Rightarrow> ghEvent list \<Rightarrow> repoState \<Rightarrow> repoState" where
  "gh_advance now etag accepted st =
     gh_touch etag now
       (if accepted = [] then st
        else gh_setLast (gh_newest accepted)
          ((if gh_newest accepted = gh_lastAt st then rs_LastEventIDs st else []) @
           map ev_ID (filter (\<lambda>e. gh_Time e = gh_newest accepted) accepted)) st)"

text \<open>What \<open>poll\<close> does with the answer of \<open>fetchEvents\<close>: the next state and the activities to announce.\<close>

type_synonym gh_reply = "string + (ghEvent list \<times> string) option"

definition gh_round :: "gh_client \<Rightarrow> ConfigRepo \<Rightarrow> instant \<times> gh_reply \<Rightarrow> repoState \<Rightarrow> repoState \<times> activity list" where
  "gh_round c cfg r st =
     (case r of
        (now, Inr (Some (events, etag))) \<Rightarrow>
          if rs_LastEventAt st = [] \<and> rs_ETag st = [] then (gh_seed now events etag st, [])
          else (gh_advance now etag (gh_accept st events) st, List.map_filter (gh_classify c cfg) (gh_accept st events))
      | _ \<Rightarrow> (st, []))"

record gh_history =
  gy_Timestamp :: instant
  gy_ID :: int
  gy_Activity :: activity

text \<open>The times of the accepted events by their ids, the last one for an id.\<close>

definition idTime :: "ghEvent list \<Rightarrow> int \<Rightarrow> instant" where
  "idTime accepted i = fold (\<lambda>e t. if ev_ID e = i then gh_Time e else t) accepted zero_time"

definition gh_history_lines :: "ghEvent list \<Rightarrow> activity list \<Rightarrow> gh_history list" where
  "gh_history_lines accepted acts =
     map (\<lambda>a. \<lparr>gy_Timestamp = idTime accepted (ac_eventID a), gy_ID = ac_eventID a, gy_Activity = a\<rparr>) acts"

definition gh_shortenURLs :: "(string list \<Rightarrow> string \<rightharpoonup> string) option \<Rightarrow> activity list \<Rightarrow> string \<rightharpoonup> string" where
  "gh_shortenURLs sh acts =
     (case sh of
        None \<Rightarrow> Map.empty
      | Some f \<Rightarrow>
          (let targets = rev (remdups (rev (map ac_url (filter (\<lambda>a. ac_action a = ''create'' \<and> ac_url a \<noteq> []) acts))))
           in if targets = [] then Map.empty else f targets))"

definition gh_announce :: "(string list \<Rightarrow> string \<rightharpoonup> string) option \<Rightarrow> int \<Rightarrow> ConfigRepo \<Rightarrow> activity list \<Rightarrow> string list" where
  "gh_announce sh maxLength cfg acts =
     (let short = gh_shortenURLs sh acts;
          text = (\<lambda>a. gh_line (case short (ac_url a) of Some u \<Rightarrow> if ac_url a \<noteq> [] then a\<lparr>ac_url := u\<rparr> else a | None \<Rightarrow> a))
      in post_lines (''['' @ cr_Project cfg @ ''/'' @ cr_Repo cfg @ ''] '') maxLength (map text acts))"

text \<open>\<open>poll\<close>: the next state, the messages posted and the lines of the history.\<close>

definition gh_poll :: "gh_client \<Rightarrow> (string list \<Rightarrow> string \<rightharpoonup> string) option \<Rightarrow> int \<Rightarrow> ConfigRepo \<Rightarrow> instant \<Rightarrow> repoState \<Rightarrow>
    repoState \<times> string list \<times> gh_history list" where
  "gh_poll c sh maxLength cfg now st =
     (let reply = fetchEvents c (cr_Project cfg) (cr_Repo cfg) (rs_ETag st) (gh_lastAt st)
      in case gh_round c cfg (now, reply) st of
           (st', acts) \<Rightarrow>
             (st', if acts = [] then [] else gh_announce sh maxLength cfg acts,
              case reply of Inr (Some (events, _)) \<Rightarrow> gh_history_lines (gh_accept st events) acts | _ \<Rightarrow> []))"

subsection \<open>The watermark\<close>

text \<open>An event whose creation time is a whole second of a four-digit year.\<close>

definition timed_event :: "ghEvent \<Rightarrow> bool" where
  "timed_event e \<longleftrightarrow>
     (case parse_rfc3339 (ev_CreatedAt e) of None \<Rightarrow> False | Some t \<Rightarrow> whole_second t)"

definition gh_valid :: "instant \<times> ghEvent list \<times> string \<Rightarrow> bool" where
  "gh_valid r \<longleftrightarrow> (case r of (now, events, etag) \<Rightarrow> etag \<noteq> [] \<and> list_all timed_event events)"

definition gh_seeded :: "repoState \<Rightarrow> bool" where
  "gh_seeded st \<longleftrightarrow> rs_LastEventAt st \<noteq> [] \<or> rs_ETag st \<noteq> []"

definition gh_entries :: "instant \<times> ghEvent list \<times> string \<Rightarrow> ghEvent list" where
  "gh_entries r = fst (snd r)"

definition gh_step :: "instant \<times> ghEvent list \<times> string \<Rightarrow> repoState \<Rightarrow> repoState \<times> ghEvent list" where
  "gh_step r st =
     (case r of (now, events, etag) \<Rightarrow> (gh_advance now etag (gh_accept st events) st, gh_accept st events))"

lemma gh_newest_Max: "es \<noteq> [] \<Longrightarrow> gh_newest es = Max (gh_Time ` set es)"
  by (cases es) (simp_all add: gh_newest_def fold_newest)

lemma lastAt_setLast:
  assumes "es \<noteq> []" and "list_all timed_event es"
  shows "gh_lastAt (gh_touch etag now (gh_setLast (gh_newest es) is st)) = gh_newest es"
proof -
  obtain e where e: "e \<in> set es" "gh_Time e = gh_newest es"
    using newest_in [OF assms(1), of gh_Time] gh_newest_Max [OF assms(1)] by metis
  then have "whole_second (gh_Time e)" using assms(2) by (auto simp: list_all_iff timed_event_def gh_Time_def split: option.splits)
  from whole_second_kept [OF this] e(2) show ?thesis by (simp add: gh_lastAt_def gh_touch_def gh_setLast_def)
qed

lemma gh_accept_timed: "list_all timed_event events \<Longrightarrow> list_all timed_event (gh_accept st events)"
  by (simp add: list_all_iff gh_accept_def)

interpretation gh: watermark gh_Time ev_ID gh_entries gh_valid gh_seeded gh_lastAt rs_LastEventIDs gh_step
proof (unfold_locales, goal_cases)
  case (1 s r)
  show ?case
    by (cases r) (simp add: gh_step_def gh_accept_def gh_entries_def gh_seenAtBoundary_def)
next
  case (2 s r)
  then show ?case by (cases r) (simp add: gh_step_def gh_advance_def gh_touch_def gh_lastAt_def)
next
  case (3 s r)
  obtain now events etag where r: "r = (now, events, etag)" by (cases r)
  let ?acc = "gh_accept s events"
  have acc: "?acc \<noteq> []" using 3(3) by (simp add: r gh_step_def)
  have "list_all timed_event ?acc" using 3(2) gh_accept_timed by (simp add: r gh_valid_def)
  from lastAt_setLast [OF acc this] have l: "gh_lastAt (fst (gh_step r s)) = gh_newest ?acc"
    using acc by (simp add: r gh_step_def gh_advance_def)
  have i: "rs_LastEventIDs (fst (gh_step r s)) = (if gh_newest ?acc = gh_lastAt s then rs_LastEventIDs s else []) @
      map ev_ID (filter (\<lambda>e. gh_Time e = gh_newest ?acc) ?acc)"
    using acc by (simp add: r gh_step_def gh_advance_def gh_touch_def gh_setLast_def)
  show ?case unfolding l i using gh_newest_Max [OF acc] by (auto simp: r gh_step_def)
next
  case (4 s r)
  then show ?case by (cases r) (simp add: gh_step_def gh_advance_def gh_touch_def gh_valid_def gh_seeded_def)
qed

subsection \<open>Runs\<close>

text \<open>A round with an answer that lists events; the others are errors and answers that nothing was modified.\<close>

definition answered :: "instant \<times> gh_reply \<Rightarrow> (instant \<times> ghEvent list \<times> string) option" where
  "answered r = (case r of (now, Inr (Some (events, etag))) \<Rightarrow> Some (now, events, etag) | _ \<Rightarrow> None)"

lemma rounds_steps:
  assumes "gh_seeded st" and "list_all gh_valid (List.map_filter answered rs)"
  shows "rounds (gh_round c cfg) rs st =
    (case rounds gh_step (List.map_filter answered rs) st of (st', es) \<Rightarrow> (st', List.map_filter (gh_classify c cfg) es))"
  using assms
proof (induction rs arbitrary: st)
  case Nil
  then show ?case by (simp add: map_filter_def)
next
  case (Cons r rs)
  obtain now reply where r: "r = (now, reply)" by (cases r)
  show ?case
  proof (cases "answered r")
    case None
    then have "gh_round c cfg r st = (st, [])" by (auto simp: r answered_def gh_round_def split: sum.splits option.splits)
    moreover have "List.map_filter answered (r # rs) = List.map_filter answered rs" using None by (simp add: map_filter_def)
    moreover have "rounds (gh_round c cfg) rs st =
        (case rounds gh_step (List.map_filter answered rs) st of (st', es) \<Rightarrow> (st', List.map_filter (gh_classify c cfg) es))"
      using Cons.IH [OF Cons.prems(1)] Cons.prems(2) None by (simp add: map_filter_def)
    ultimately show ?thesis by (simp split: prod.split)
  next
    case (Some a)
    then obtain events etag where reply: "reply = Inr (Some (events, etag))" and a: "a = (now, events, etag)"
      by (auto simp: r answered_def split: sum.splits option.splits)
    have mf: "List.map_filter answered (r # rs) = a # List.map_filter answered rs"
      unfolding map_filter_simps Some by simp
    then have v: "gh_valid a" "list_all gh_valid (List.map_filter answered rs)" using Cons.prems(2) by simp_all
    obtain st1 es where s: "gh_step a st = (st1, es)" by fastforce
    have "gh_round c cfg r st = (st1, List.map_filter (gh_classify c cfg) es)"
      using s Cons.prems(1) by (auto simp: r reply a gh_round_def gh_step_def gh_seeded_def)
    moreover have "gh_seeded st1" using gh.keeps [OF Cons.prems(1) v(1)] s by simp
    moreover obtain st2 es2 where "rounds gh_step (List.map_filter answered rs) st1 = (st2, es2)" by fastforce
    ultimately show ?thesis using Cons.IH [of st1] v(2) mf s by (simp add: map_filter_def)
  qed
qed

lemma seed_knows:
  assumes "gh_valid (now, events, etag)"
  shows "gh.knows (set events) (gh_seed now events etag new_repoState)"
proof (cases "events = []")
  case True
  then show ?thesis
    using assms by (simp add: gh.knows_def gh_seeded_def gh_seed_def gh_touch_def gh_valid_def feed_known_def new_repoState_def)
next
  case False
  have t: "list_all timed_event events" using assms by (simp add: gh_valid_def)
  have "gh_lastAt (gh_seed now events etag new_repoState) = gh_newest events"
    using lastAt_setLast [OF False t] False by (simp add: gh_seed_def)
  moreover have "rs_LastEventIDs (gh_seed now events etag new_repoState) =
      map ev_ID (filter (\<lambda>e. gh_Time e = gh_newest events) events)"
    using False by (simp add: gh_seed_def gh_touch_def gh_setLast_def)
  moreover have "gh_seeded (gh_seed now events etag new_repoState)"
    using assms by (simp add: gh_seeded_def gh_seed_def gh_touch_def gh_valid_def)
  moreover have "gh_Time e \<le> gh_newest events" if "e \<in> set events" for e
    using that gh_newest_Max [OF False] by simp
  ultimately show ?thesis by (auto simp: gh.knows_def feed_known_def)
qed


definition ex_gh_event :: ghEvent where
  "ex_gh_event = \<lparr>ev_ID = 7, ev_Type = ''IssueCommentEvent'', ev_CreatedAt = ''2026-01-02T03:04:05Z'', ev_Login = ''joe'',
     ev_Action = ''created'',
     ev_Issue = Some \<lparr>rf_URL = [], rf_Number = 3, rf_Title = ''t'', rf_HtmlUrl = ''u'', rf_PullRequest = []\<rparr>,
     ev_PR = None, ev_Comment = Some ''yes'', ev_Review = None\<rparr>"

definition ex_gh_client :: gh_client where
  "ex_gh_client = \<lparr>gc_token = [], gc_events = (\<lambda>_ _. Inl ''down''), gc_ref = (\<lambda>_ _. Inl ''down'')\<rparr>"

definition ex_gh_cfg :: ConfigRepo where
  "ex_gh_cfg = \<lparr>cr_Project = ''p'', cr_Repo = ''r'', cr_IssueActions = [], cr_PRActions = [], cr_IgnoredUsers = []\<rparr>"

lemma ex_gh_timed: "timed_event ex_gh_event \<and> zero_time \<le> gh_Time ex_gh_event"
  by code_simp


subsection \<open>Paging\<close>

text \<open>The feed as the server pages it: \<open>pages\<close> in order, each but the last linking to the next.\<close>

fun serves :: "gh_client \<Rightarrow> string \<Rightarrow> ghEvent list list \<Rightarrow> bool" where
  "serves c url [] = False"
| "serves c url [p] = (\<exists>etag. getEventsPage c url [] = Inr (Some (p, etag, [])))"
| "serves c url (p # q # ps) = (\<exists>etag next. next \<noteq> [] \<and> getEventsPage c url [] = Inr (Some (p, etag, next)) \<and> serves c next (q # ps))"

definition newest_first :: "ghEvent list \<Rightarrow> bool" where
  "newest_first es \<longleftrightarrow> sorted (map gh_Time (rev es))"

lemma newest_first_append:
  "newest_first (xs @ ys) \<longleftrightarrow> newest_first xs \<and> newest_first ys \<and> (\<forall>x\<in>set xs. \<forall>y\<in>set ys. gh_Time y \<le> gh_Time x)"
  by (auto simp: newest_first_def sorted_append)

lemma old_rest:
  assumes "newest_first (p @ rest)" and "p \<noteq> []" and "\<not> gh_Time (last p) > since"
  shows "filter (\<lambda>e. gh_Time e > since) rest = []"
proof -
  have "gh_Time e \<le> gh_Time (last p)" if "e \<in> set rest" for e
    using assms(1,2) that by (simp add: newest_first_append)
  then show ?thesis using assms(3) by (fastforce simp: filter_empty_conv)
qed

lemma more_pages_newer:
  assumes "serves c url ps" and "length ps \<le> n" and "newest_first (concat ps)"
  shows "\<exists>es. more_pages c n since url acc = Inr (acc @ es) \<and>
    filter (\<lambda>e. gh_Time e > since) es = filter (\<lambda>e. gh_Time e > since) (concat ps) \<and> (\<exists>rest. concat ps = es @ rest)"
  using assms
proof (induction c url ps arbitrary: n acc rule: serves.induct)
  case (1 c url)
  then show ?case by simp
next
  case (2 c url p)
  then obtain m where "n = Suc m" by (cases n) auto
  then show ?case using 2 by auto
next
  case (3 c url p q ps)
  then obtain m where n: "n = Suc m" by (cases n) auto
  obtain etag nxt where g: "getEventsPage c url [] = Inr (Some (p, etag, nxt))" "nxt \<noteq> []" "serves c nxt (q # ps)"
    using 3(2) by auto
  show ?case
  proof (cases "p \<noteq> [] \<and> \<not> gh_Time (last p) > since")
    case True
    then have "filter (\<lambda>e. gh_Time e > since) (concat (q # ps)) = []" using old_rest [of p "concat (q # ps)" since] 3(4) by simp
    then show ?thesis using True g n by auto
  next
    case False
    have "newest_first (concat (q # ps))" using 3(4) by (simp add: newest_first_append)
    then obtain es rest where es: "more_pages c m since nxt (acc @ p) = Inr ((acc @ p) @ es)"
      "filter (\<lambda>e. gh_Time e > since) es = filter (\<lambda>e. gh_Time e > since) (concat (q # ps))" "concat (q # ps) = es @ rest"
      using 3(1) [OF g(3), of m "acc @ p"] 3(3) n by auto
    have "more_pages c n since url acc = Inr (acc @ p @ es)" using False g n es(1) by auto
    moreover have "filter (\<lambda>e. gh_Time e > since) (p @ es) = filter (\<lambda>e. gh_Time e > since) (concat (p # q # ps))"
      using es(2) by simp
    moreover have "concat (p # q # ps) = (p @ es) @ rest" using es(3) by simp
    ultimately show ?thesis by blast
  qed
qed

text \<open>C27: When the server lists the events newest first in at most ten pages, the events fetched are a beginning of
  the whole list that holds every event newer than the watermark, although paging stops early.\<close>

theorem paging_reaches_the_watermark:
  assumes "getEventsPage c (events_url project repo) etag = Inr (Some (p, newEtag, nxt))"
    and "if ps = [] then nxt = [] else nxt \<noteq> [] \<and> serves c nxt ps" and "length ps < gh_maxPages" and "newest_first (p @ concat ps)"
  shows "\<exists>es. fetchEvents c project repo etag since = Inr (Some (es, newEtag)) \<and>
    filter (\<lambda>e. gh_Time e > since) es = filter (\<lambda>e. gh_Time e > since) (p @ concat ps) \<and> (\<exists>rest. p @ concat ps = es @ rest)"
proof (cases "nxt = [] \<or> (p \<noteq> [] \<and> \<not> gh_Time (last p) > since)")
  case True
  have "filter (\<lambda>e. gh_Time e > since) (concat ps) = []"
  proof (cases "ps = []")
    case False
    then have "p \<noteq> [] \<and> \<not> gh_Time (last p) > since" using True assms(2) by auto
    then show ?thesis using old_rest [OF assms(4)] by blast
  qed simp
  then show ?thesis using True assms(1) by (simp add: fetchEvents_def)
next
  case False
  then have ps: "serves c nxt ps" using assms(2) by (auto split: if_splits)
  have "newest_first (concat ps)" using assms(4) by (simp add: newest_first_append)
  moreover have "length ps \<le> gh_maxPages - 1" using assms(3) by simp
  ultimately obtain es rest where "more_pages c (gh_maxPages - 1) since nxt p = Inr (p @ es)"
    "filter (\<lambda>e. gh_Time e > since) es = filter (\<lambda>e. gh_Time e > since) (concat ps)" "concat ps = es @ rest"
    using more_pages_newer [OF ps] by blast
  then show ?thesis using False assms(1) by (intro exI [of _ "p @ es"]) (auto simp: fetchEvents_def)
qed

text \<open>A page that ends at the second of the watermark ends the paging, although an event of the same second may
  follow on the next page.\<close>

lemma same_second_next_page:
  assumes "getEventsPage c (events_url project repo) etag = Inr (Some (p @ [e], newEtag, nxt))" and "gh_Time e = since"
  shows "fetchEvents c project repo etag since = Inr (Some (p @ [e], newEtag))"
  using assms by (simp add: fetchEvents_def)

definition ex_pages :: gh_client where
  "ex_pages = \<lparr>gc_token = ''t'',
     gc_events = (\<lambda>url _. Inr \<lparr>gr_status = 200, gr_body = [], gr_decoded = Inr (if url = ''v'' then [] else [ex_gh_event]), gr_etag = ''e'',
       gr_link = (if url = ''v'' then [] else ''<v>; '' @ rel_next)\<rparr>),
     gc_ref = (\<lambda>_ _. Inl ''down'')\<rparr>"

theorem paging_reaches_the_watermark_example:
  "\<exists>es. fetchEvents ex_pages ''p'' ''r'' [] zero_time = Inr (Some (es, ''e''))"
proof -
  have l: "linkNext (''<v>; '' @ rel_next) = ''v''" "linkNext [] = []" by code_simp+
  have u: "events_url ''p'' ''r'' \<noteq> ''v''" by (simp add: events_url_def)
  have 1: "getEventsPage ex_pages (events_url ''p'' ''r'') [] = Inr (Some ([ex_gh_event], ''e'', ''v''))"
    using l u by (simp add: getEventsPage_def ex_pages_def quot_def)
  have 2: "serves ex_pages ''v'' [[]]" using l by (simp add: getEventsPage_def ex_pages_def quot_def)
  show ?thesis
    using paging_reaches_the_watermark [OF 1, of "[[]]" zero_time] 2 by (auto simp: gh_maxPages_def newest_first_def)
qed

end
