(* ===== verification/RedmineMonitor.thy ===== *)
theory RedmineMonitor
  imports MonFeed
begin

text \<open>
  The Redmine monitor: \<open>redmine-monitor/atom.go\<close> and \<open>monitor.go\<close>. The HTTP client with the XML decoder, the HTML parser and the URL
  shortener are parameters; the regular expressions are functions. A round yields the activities it
  announces; the messages posted are a function of them.
\<close>

subsection \<open>Entries\<close>

record atomEntry =
  ae_Title :: string
  ae_ID :: string
  ae_Updated :: string
  ae_Author :: string
  ae_Body :: string
  ae_Links :: "(string \<times> string) list"

definition feedLimit :: nat where "feedLimit = 15"

definition rm_time :: "atomEntry \<Rightarrow> instant" where
  "rm_time e = (case parse_rfc3339 (ae_Updated e) of None \<Rightarrow> zero_time | Some t \<Rightarrow> t)"

definition journalID :: "atomEntry \<Rightarrow> string" where
  "journalID e = (case Index (ae_ID e) ''#change-'' of Some i \<Rightarrow> drop (i + 1) (ae_ID e) | None \<Rightarrow> [])"

definition isCreation :: "atomEntry \<Rightarrow> bool" where
  "isCreation e \<longleftrightarrow> Contains (ae_ID e) ''/issues/'' \<and> journalID e = []"

definition issueURL :: "atomEntry \<Rightarrow> string" where
  "issueURL e =
     (let u = (case find (\<lambda>l. fst l = ''alternate'') (ae_Links e) of Some l \<Rightarrow> snd l | None \<Rightarrow> []);
          u1 = (if u = [] then ae_ID e else u)
      in takeWhile (\<lambda>c. c \<noteq> CHR ''#'') u1)"

text \<open>A parsed HTML document: the text of a text node, and the children. The two parameters of \<open>bodyText\<close> are the parser and the
  replacement of the entities, which is used when the parser fails.\<close>

datatype html_node = HtmlNode "string option" "html_node list"

primrec walk :: "html_node \<Rightarrow> string" where
  "walk (HtmlNode t children) = (case t of None \<Rightarrow> [] | Some s \<Rightarrow> s @ '' '') @ concat (map walk children)"

text \<open>\<open>tagRe\<close>: every tag becomes a space; a \<open><\<close> without an end stays.\<close>

fun strip_tags :: "nat \<Rightarrow> string \<Rightarrow> string" where
  "strip_tags 0 s = s"
| "strip_tags (Suc n) [] = []"
| "strip_tags (Suc n) (c # s) =
     (if c = CHR ''<'' \<and> CHR ''>'' \<in> set s then CHR '' '' # strip_tags n (tl (dropWhile (\<lambda>c. c \<noteq> CHR ''>'') s))
      else c # strip_tags n s)"

definition bodyText :: "(string \<Rightarrow> html_node option) \<Rightarrow> (string \<Rightarrow> string) \<Rightarrow> string \<Rightarrow> string" where
  "bodyText parse unescape body =
     (if TrimSpace body = [] then []
      else clean_space (case parse body of None \<Rightarrow> unescape (strip_tags (length body) body) | Some doc \<Rightarrow> walk doc))"

record issueTitle =
  it_Tracker :: string
  it_Number :: int
  it_Status :: string
  it_Subject :: string

text \<open>\<open>titleRe\<close> at a position: digits, an optional status in brackets, a colon and the subject, without line breaks
  outside the status. The first position that matches counts.\<close>

definition title_at :: "string \<Rightarrow> nat \<Rightarrow> (string \<times> string \<times> string \<times> string) option" where
  "title_at s i =
     (let pre = take i s; rest = drop i s; ds = takeWhile is_digit (drop 2 rest); r = dropWhile is_digit (drop 2 rest)
      in if \<not> HasPrefix rest '' #'' \<or> CHR 0x0A \<in> set pre \<or> ds = [] then None
         else if HasPrefix r '' ('' then
           (let status = takeWhile (\<lambda>c. c \<noteq> CHR '')'') (drop 2 r); r1 = dropWhile (\<lambda>c. c \<noteq> CHR '')'') (drop 2 r)
            in if HasPrefix r1 ''): '' \<and> CHR 0x0A \<notin> set (drop 3 r1) then Some (pre, ds, status, drop 3 r1) else None)
         else if HasPrefix r '': '' \<and> CHR 0x0A \<notin> set (drop 2 r) then Some (pre, ds, [], drop 2 r)
         else None)"

definition parseTitle :: "string \<Rightarrow> issueTitle option" where
  "parseTitle s0 =
     (let s = TrimSpace s0
      in case List.map_filter (title_at s) [0..<length s] of
           [] \<Rightarrow> None
         | (pre, ds, status, subject) # _ \<Rightarrow>
             (let t0 = TrimSpace pre;
                  t = (case LastIndex t0 '' - '' of Some i \<Rightarrow> TrimSpace (drop (i + 3) t0) | None \<Rightarrow> t0)
              in case parse_int64 ds of
                   None \<Rightarrow> None
                 | Some n \<Rightarrow> Some \<lparr>it_Tracker = t, it_Number = n, it_Status = TrimSpace status, it_Subject = TrimSpace subject\<rparr>))"

subsection \<open>The client\<close>

text \<open>\<open>redact\<close>: \<open>keyRe\<close> matches \<open>key=\<close> after \<open>?\<close> or \<open>&\<close> in either case and everything up to a character of \<open>ends_key\<close>.\<close>

definition ends_key :: "char \<Rightarrow> bool" where
  "ends_key c \<longleftrightarrow> c \<in> set [CHR ''&'', CHR 0x20, CHR 0x09, CHR 0x0A, CHR 0x0C, CHR 0x0D, CHR 0x22, CHR 0x27]"

function redact :: "string \<Rightarrow> string" where
  "redact s =
     (case s of
        [] \<Rightarrow> []
      | c # cs \<Rightarrow>
          if c \<in> set ''?&'' \<and> EqualFold (take 4 cs) ''key=''
          then c # take 4 cs @ ''REDACTED'' @ redact (dropWhile (\<lambda>c. \<not> ends_key c) (drop 4 cs))
          else c # redact cs)"
  by pat_completeness auto
termination
  by (relation "measure length") (auto simp: less_Suc_eq_le intro: le_trans [OF length_dropWhile_le])

declare redact.simps [simp del]

definition isAnubis :: "string \<Rightarrow> bool" where
  "isAnubis body \<longleftrightarrow> Contains (ToLower body) ''anubis'' \<or> Contains (ToLower body) ''not a bot''"

record rm_resp =
  rr_status :: int
  rr_contentType :: string
  rr_body :: string
  rr_etag :: string
  rr_decoded :: "string + atomEntry list"

datatype rm_error = Anubis | FetchError string

text \<open>\<open>fetch\<close>: \<open>new\<close> is the error of a request that cannot be made, \<open>http\<close> the answer to the request with the ETag.\<close>

definition rm_fetch :: "string option \<Rightarrow> (string \<Rightarrow> (string \<times> string) list \<Rightarrow> string + rm_resp) \<Rightarrow> string \<Rightarrow> string \<Rightarrow>
    rm_error + (atomEntry list \<times> string) option" where
  "rm_fetch new http feedURL etag =
     (case new of
        Some e \<Rightarrow> Inl (FetchError (''create request: '' @ redact e))
      | None \<Rightarrow>
          (case http feedURL ([(''User-Agent'', ''dflybot-redmine-monitor''),
                (''Accept'', ''application/atom+xml, application/xml;q=0.9'')] @
                (if etag \<noteq> [] then [(''If-None-Match'', etag)] else [])) of
             Inl e \<Rightarrow> Inl (FetchError (redact e))
           | Inr r \<Rightarrow>
               if rr_status r = 304 then Inr None
               else if rr_status r \<noteq> 200 then
                 Inl (FetchError (''http status '' @ itoa (rr_status r) @ '': '' @ TrimSpace (take 256 (rr_body r))))
               else if \<not> Contains (rr_contentType r) ''xml'' then
                 (if isAnubis (take 2048 (rr_body r)) then Inl Anubis
                  else Inl (FetchError (''unexpected content type '' @ rr_contentType r)))
               else
                 (case rr_decoded r of
                    Inl e \<Rightarrow> Inl (FetchError (''decode feed: '' @ e))
                  | Inr entries \<Rightarrow> Inr (Some (entries, rr_etag r)))))"

subsection \<open>State\<close>

record issueState =
  is_Tracker :: string
  is_Subject :: string
  is_Status :: string

record projState =
  pj_Version :: int
  pj_ETag :: string
  pj_LastAt :: string
  pj_LastIDs :: "string list"
  pj_Issues :: "string \<rightharpoonup> issueState"
  pj_AnubisStreak :: int
  pj_AnubisWarned :: bool
  pj_UpdatedAt :: int

definition rm_stateVersion :: int where "rm_stateVersion = 1"
definition anubisWarnAfter :: int where "anubisWarnAfter = 3"
definition subjectMax :: nat where "subjectMax = 100"
definition noteMax :: nat where "noteMax = 120"

definition new_projState :: projState where
  "new_projState = \<lparr>pj_Version = rm_stateVersion, pj_ETag = [], pj_LastAt = [], pj_LastIDs = [], pj_Issues = Map.empty,
     pj_AnubisStreak = 0, pj_AnubisWarned = False, pj_UpdatedAt = 0\<rparr>"

definition rm_lastAt :: "projState \<Rightarrow> instant" where
  "rm_lastAt st = (case parse_rfc3339 (pj_LastAt st) of None \<Rightarrow> zero_time | Some t \<Rightarrow> t)"

definition rm_seenAtBoundary :: "projState \<Rightarrow> string \<Rightarrow> bool" where
  "rm_seenAtBoundary st i \<longleftrightarrow> i \<in> set (pj_LastIDs st)"

definition rm_setLast :: "instant \<Rightarrow> string list \<Rightarrow> projState \<Rightarrow> projState" where
  "rm_setLast at ids st = st\<lparr>pj_LastAt := format_rfc3339 at, pj_LastIDs := ids\<rparr>"

definition rm_loadState :: "string + projState option \<Rightarrow> projState \<Rightarrow> projState" where
  "rm_loadState r st =
     (case r of
        Inr (Some s) \<Rightarrow> if pj_Version s \<noteq> rm_stateVersion then st else s
      | _ \<Rightarrow> st)"

text \<open>\<open>remember\<close>: an empty field leaves the known one.\<close>

definition remember :: "issueTitle \<Rightarrow> (string \<rightharpoonup> issueState) \<Rightarrow> string \<rightharpoonup> issueState" where
  "remember it issues =
     (let key = itoa (it_Number it);
          st = (case issues key of Some st \<Rightarrow> st | None \<Rightarrow> \<lparr>is_Tracker = [], is_Subject = [], is_Status = []\<rparr>)
      in issues(key \<mapsto> \<lparr>is_Tracker = (if it_Tracker it \<noteq> [] then it_Tracker it else is_Tracker st),
           is_Subject = (if it_Subject it \<noteq> [] then it_Subject it else is_Subject st),
           is_Status = (if it_Status it \<noteq> [] then it_Status it else is_Status st)\<rparr>))"

subsection \<open>Activities\<close>

definition supportedActions :: "string list" where
  "supportedActions = [''create'', ''comment'', ''close'', ''resolve'', ''reopen'', ''update'']"

definition closedStatuses :: "string list" where "closedStatuses = [''Closed'', ''Resolved'', ''Rejected'']"

definition rm_actionWanted :: "string \<Rightarrow> string list \<Rightarrow> bool" where
  "rm_actionWanted action l \<longleftrightarrow> action \<in> set (if l = [] then supportedActions else l)"

record rm_activity =
  ra_action :: string
  ra_number :: int
  ra_actor :: string
  ra_tracker :: string
  ra_subject :: string
  ra_note :: string
  ra_status :: string
  ra_url :: string
  ra_entryID :: string
  ra_at :: instant

definition rm_verb :: "string \<Rightarrow> string" where
  "rm_verb action =
     (case map_of [(''create'', ''created''), (''comment'', ''commented''), (''close'', ''closed''), (''resolve'', ''resolved''),
        (''reopen'', ''reopened''), (''update'', ''updated'')] action of Some v \<Rightarrow> v | None \<Rightarrow> [])"

definition rm_line :: "rm_activity \<Rightarrow> string" where
  "rm_line a =
     (let detail = (if ra_tracker a \<noteq> [] then ra_tracker a @ '': '' @ ra_subject a else ra_subject a)
      in ''issue #'' @ itoa (ra_number a) @ (if detail \<noteq> [] then '' ('' @ detail @ '')'' else []) @ '' '' @
         rm_verb (ra_action a) @ '' by '' @ ra_actor a @ (if ra_note a \<noteq> [] then '': '' @ ra_note a else []) @
         (if ra_action a = ''create'' \<and> ra_url a \<noteq> [] then '': '' @ ra_url a else []))"

text \<open>The action and the status recorded, of an entry with status \<open>status\<close> and note \<open>note\<close>.\<close>

definition rm_action :: "bool \<Rightarrow> string \<Rightarrow> string \<Rightarrow> issueState option \<Rightarrow> string" where
  "rm_action creation status note prev =
     (if creation then ''create''
      else if status \<noteq> [] then
        (if status = ''Resolved'' then ''resolve''
         else if status = ''Closed'' \<or> status = ''Rejected'' then ''close''
         else (case prev of Some st \<Rightarrow> if is_Status st \<in> set closedStatuses then ''reopen'' else ''update'' | None \<Rightarrow> ''update''))
      else if note \<noteq> [] then ''comment'' else ''update'')"

definition rm_classify :: "(string \<Rightarrow> string) \<Rightarrow> (string \<rightharpoonup> issueState) \<Rightarrow> atomEntry \<Rightarrow> rm_activity option" where
  "rm_classify body issues e =
     (if \<not> Contains (ae_ID e) ''/issues/'' then None
      else
        (case parseTitle (ae_Title e) of
           None \<Rightarrow> None
         | Some it \<Rightarrow>
             (let note0 = body (ae_Body e); note = (if isCreation e then [] else note0);
                  status = (if isCreation e \<and> it_Status it = [] then ''New'' else it_Status it)
              in Some \<lparr>ra_action = rm_action (isCreation e) (it_Status it) note0 (issues (itoa (it_Number it))),
                   ra_number = it_Number it, ra_actor = TrimSpace (ae_Author e), ra_tracker = it_Tracker it,
                   ra_subject = snippet (it_Subject it) subjectMax, ra_note = snippet note noteMax, ra_status = status,
                   ra_url = issueURL e, ra_entryID = ae_ID e, ra_at = rm_time e\<rparr>)))"

text \<open>The classification of the accepted entries in order, with the issues they leave and the wanted activities.\<close>

fun classify_all :: "(string \<Rightarrow> string) \<Rightarrow> string list \<Rightarrow> atomEntry list \<Rightarrow> (string \<rightharpoonup> issueState) \<Rightarrow>
    (string \<rightharpoonup> issueState) \<times> rm_activity list" where
  "classify_all body actions [] issues = (issues, [])"
| "classify_all body actions (e # es) issues =
     (case rm_classify body issues e of
        None \<Rightarrow> classify_all body actions es issues
      | Some a \<Rightarrow>
          (case classify_all body actions es
              (remember \<lparr>it_Tracker = ra_tracker a, it_Number = ra_number a, it_Status = ra_status a, it_Subject = ra_subject a\<rparr> issues) of
             (issues', acts) \<Rightarrow> (issues', (if rm_actionWanted (ra_action a) actions then [a] else []) @ acts)))"

subsection \<open>A round\<close>

record rm_cfg =
  rc_Name :: string
  rc_FeedURL :: string
  rc_Actions :: "string list"

definition rm_newest :: "atomEntry list \<Rightarrow> instant" where
  "rm_newest es = fold (\<lambda>e m. if rm_time e > m then rm_time e else m) (tl es) (rm_time (hd es))"

definition rm_touch :: "string \<Rightarrow> instant \<Rightarrow> projState \<Rightarrow> projState" where
  "rm_touch etag now st = st\<lparr>pj_ETag := etag, pj_UpdatedAt := now div second\<rparr>"

text \<open>\<open>seed\<close>: the newest time starts from the zero time.\<close>

definition seed_newest :: "atomEntry list \<Rightarrow> instant" where
  "seed_newest es = fold (\<lambda>e m. if rm_time e > m then rm_time e else m) es zero_time"

definition rm_seed :: "instant \<Rightarrow> atomEntry list \<Rightarrow> string \<Rightarrow> projState \<Rightarrow> projState" where
  "rm_seed now entries etag st =
     rm_touch etag now
       (if entries = [] then st
        else
          (let issues = fold (\<lambda>e m. case parseTitle (ae_Title e) of Some it \<Rightarrow> remember it m | None \<Rightarrow> m) entries (pj_Issues st)
           in rm_setLast (seed_newest entries) (map ae_ID (filter (\<lambda>e. rm_time e = seed_newest entries) entries))
                (st\<lparr>pj_Issues := issues\<rparr>)))"

text \<open>\<open>warnIfOverflow\<close>: whether it warns.\<close>

definition overflow_warned :: "atomEntry list \<Rightarrow> instant \<Rightarrow> bool" where
  "overflow_warned entries cur \<longleftrightarrow> \<not> (length entries < feedLimit \<or> cur = zero_time) \<and> rm_time (last entries) > cur"

definition rm_accept :: "projState \<Rightarrow> atomEntry list \<Rightarrow> atomEntry list" where
  "rm_accept st entries =
     filter (\<lambda>e. rm_time e \<noteq> zero_time \<and>
         (rm_time e > rm_lastAt st \<or> rm_time e = rm_lastAt st \<and> \<not> rm_seenAtBoundary st (ae_ID e)))
       (rev entries)"

definition rm_advance :: "instant \<Rightarrow> string \<Rightarrow> atomEntry list \<Rightarrow> projState \<Rightarrow> projState" where
  "rm_advance now etag accepted st =
     rm_touch etag now
       (if accepted = [] then st
        else rm_setLast (rm_newest accepted)
          ((if rm_newest accepted = rm_lastAt st then pj_LastIDs st else []) @
           map ae_ID (filter (\<lambda>e. rm_time e = rm_newest accepted) accepted)) st)"

definition end_streak :: "projState \<Rightarrow> projState" where
  "end_streak st = st\<lparr>pj_AnubisStreak := 0, pj_AnubisWarned := False\<rparr>"

definition handleAnubis :: "rm_cfg \<Rightarrow> instant \<Rightarrow> projState \<Rightarrow> projState \<times> string list" where
  "handleAnubis cfg now st =
     (let n = pj_AnubisStreak st + 1; st1 = st\<lparr>pj_AnubisStreak := n, pj_UpdatedAt := now div second\<rparr>
      in if n \<ge> anubisWarnAfter \<and> \<not> pj_AnubisWarned st
         then (st1\<lparr>pj_AnubisWarned := True\<rparr>,
               [''['' @ rc_Name cfg @ ''] I'' @ [CHR 0x27] @ ''m blocked by Anubis ('' @ itoa n @ '' consecutive polls). Help!''])
         else (st1, []))"

type_synonym rm_reply = "rm_error + (atomEntry list \<times> string) option"

text \<open>What \<open>poll\<close> does with the answer of \<open>fetch\<close>: the next state, the activities to announce and the warning about
  Anubis.\<close>

definition rm_react :: "(string \<Rightarrow> string) \<Rightarrow> rm_cfg \<Rightarrow> instant \<times> rm_reply \<Rightarrow> projState \<Rightarrow> projState \<times> rm_activity list \<times> string list" where
  "rm_react body cfg r st0 =
     (case r of
        (now, Inl Anubis) \<Rightarrow> (case handleAnubis cfg now st0 of (st, msgs) \<Rightarrow> (st, [], msgs))
      | (now, Inl (FetchError e)) \<Rightarrow> (st0, [], [])
      | (now, Inr None) \<Rightarrow> (end_streak st0, [], [])
      | (now, Inr (Some (entries, etag))) \<Rightarrow>
          (let st = end_streak st0
           in if pj_LastAt st = [] \<and> pj_ETag st = [] then (rm_seed now entries etag st, [], [])
              else
                (case classify_all body (rc_Actions cfg) (rm_accept st entries) (pj_Issues st) of
                   (issues, acts) \<Rightarrow>
                     (rm_advance now etag (rm_accept st entries) (st\<lparr>pj_Issues := issues\<rparr>), acts, []))))"

definition rm_round :: "(string \<Rightarrow> string) \<Rightarrow> rm_cfg \<Rightarrow> instant \<times> rm_reply \<Rightarrow> projState \<Rightarrow> projState \<times> rm_activity list" where
  "rm_round body cfg r st = (fst (rm_react body cfg r st), fst (snd (rm_react body cfg r st)))"

definition rm_shortenURLs :: "(string list \<Rightarrow> string \<rightharpoonup> string) option \<Rightarrow> rm_activity list \<Rightarrow> string \<rightharpoonup> string" where
  "rm_shortenURLs sh acts =
     (case sh of
        None \<Rightarrow> Map.empty
      | Some f \<Rightarrow>
          (let targets = rev (remdups (rev (map ra_url (filter (\<lambda>a. ra_action a = ''create'' \<and> ra_url a \<noteq> []) acts))))
           in if targets = [] then Map.empty else f targets))"

definition rm_announce :: "(string list \<Rightarrow> string \<rightharpoonup> string) option \<Rightarrow> int \<Rightarrow> rm_cfg \<Rightarrow> rm_activity list \<Rightarrow> string list" where
  "rm_announce sh maxLength cfg acts =
     (let short = rm_shortenURLs sh acts;
          text = (\<lambda>a. rm_line (case short (ra_url a) of Some u \<Rightarrow> if ra_url a \<noteq> [] then a\<lparr>ra_url := u\<rparr> else a | None \<Rightarrow> a))
      in post_lines (''['' @ rc_Name cfg @ ''] '') maxLength (map text acts))"

text \<open>\<open>poll\<close>: the next state, the messages posted and the activities written to the history, each with its own time.\<close>

definition rm_poll :: "(string \<Rightarrow> string) \<Rightarrow> (string list \<Rightarrow> string \<rightharpoonup> string) option \<Rightarrow> int \<Rightarrow> rm_cfg \<Rightarrow>
    (string \<Rightarrow> string \<Rightarrow> rm_reply) \<Rightarrow> instant \<Rightarrow> projState \<Rightarrow> projState \<times> string list \<times> (instant \<times> rm_activity) list" where
  "rm_poll body sh maxLength cfg fetch now st =
     (case rm_react body cfg (now, fetch (rc_FeedURL cfg) (pj_ETag st)) st of
        (st', acts, msgs) \<Rightarrow>
          (st', msgs @ (if acts = [] then [] else rm_announce sh maxLength cfg acts), map (\<lambda>a. (ra_at a, a)) acts))"

subsection \<open>The watermark\<close>

definition timed_entry :: "atomEntry \<Rightarrow> bool" where
  "timed_entry e \<longleftrightarrow>
     (case parse_rfc3339 (ae_Updated e) of None \<Rightarrow> False
      | Some t \<Rightarrow> whole_second t \<and> zero_time < t)"

definition rm_valid :: "instant \<times> atomEntry list \<times> string \<Rightarrow> bool" where
  "rm_valid r \<longleftrightarrow> (case r of (now, entries, etag) \<Rightarrow> etag \<noteq> [] \<and> list_all timed_entry entries)"

definition rm_seeded :: "projState \<Rightarrow> bool" where
  "rm_seeded st \<longleftrightarrow> pj_LastAt st \<noteq> [] \<or> pj_ETag st \<noteq> []"

definition rm_entries :: "instant \<times> atomEntry list \<times> string \<Rightarrow> atomEntry list" where
  "rm_entries r = fst (snd r)"

text \<open>The part of a round that the watermark is about.\<close>

definition rm_step :: "instant \<times> atomEntry list \<times> string \<Rightarrow> projState \<Rightarrow> projState \<times> atomEntry list" where
  "rm_step r st =
     (case r of (now, entries, etag) \<Rightarrow> (rm_advance now etag (rm_accept st entries) st, rm_accept st entries))"

lemma rm_newest_Max: "es \<noteq> [] \<Longrightarrow> rm_newest es = Max (rm_time ` set es)"
  by (cases es) (simp_all add: rm_newest_def fold_newest)

lemma timed_entry_time: "timed_entry e \<Longrightarrow> whole_second (rm_time e) \<and> zero_time < rm_time e"
  by (auto simp: timed_entry_def rm_time_def split: option.splits)

lemma rm_lastAt_setLast:
  assumes "es \<noteq> []" and "list_all timed_entry es" and "n = Max (rm_time ` set es)"
  shows "rm_lastAt (rm_touch etag now (rm_setLast n ids st)) = n"
proof -
  obtain e where e: "e \<in> set es" "rm_time e = n" using newest_in [OF assms(1), of rm_time] assms(3) by metis
  then have "whole_second n" using assms(2) timed_entry_time by (auto simp: list_all_iff)
  from whole_second_kept [OF this] show ?thesis by (simp add: rm_lastAt_def rm_touch_def rm_setLast_def)
qed

interpretation rm: watermark rm_time ae_ID rm_entries rm_valid rm_seeded rm_lastAt pj_LastIDs rm_step
proof (unfold_locales, goal_cases)
  case (1 s r)
  obtain now entries etag where r: "r = (now, entries, etag)" by (cases r)
  have "rm_time e \<noteq> zero_time" if "e \<in> set entries" for e
  proof -
    have "timed_entry e" using 1(2) that by (simp add: r rm_valid_def list_all_iff)
    from timed_entry_time [OF this] show ?thesis by simp
  qed
  then show ?case by (auto simp: r rm_step_def rm_accept_def rm_entries_def rm_seenAtBoundary_def intro!: filter_cong)
next
  case (2 s r)
  then show ?case by (cases r) (simp add: rm_step_def rm_advance_def rm_touch_def rm_lastAt_def)
next
  case (3 s r)
  obtain now entries etag where r: "r = (now, entries, etag)" by (cases r)
  let ?acc = "rm_accept s entries"
  have acc: "?acc \<noteq> []" using 3(3) by (simp add: r rm_step_def)
  have "list_all timed_entry ?acc" using 3(2) by (simp add: r rm_valid_def rm_accept_def list_all_iff)
  from rm_lastAt_setLast [OF acc this rm_newest_Max [OF acc]] have l: "rm_lastAt (fst (rm_step r s)) = rm_newest ?acc"
    using acc by (simp add: r rm_step_def rm_advance_def)
  have i: "pj_LastIDs (fst (rm_step r s)) = (if rm_newest ?acc = rm_lastAt s then pj_LastIDs s else []) @
      map ae_ID (filter (\<lambda>e. rm_time e = rm_newest ?acc) ?acc)"
    using acc by (simp add: r rm_step_def rm_advance_def rm_touch_def rm_setLast_def)
  show ?case unfolding l i using rm_newest_Max [OF acc] by (auto simp: r rm_step_def)
next
  case (4 s r)
  then show ?case by (cases r) (simp add: rm_step_def rm_advance_def rm_touch_def rm_valid_def rm_seeded_def)
qed

subsection \<open>Runs\<close>

definition rm_answered :: "instant \<times> rm_reply \<Rightarrow> (instant \<times> atomEntry list \<times> string) option" where
  "rm_answered r = (case r of (now, Inr (Some (entries, etag))) \<Rightarrow> Some (now, entries, etag) | _ \<Rightarrow> None)"

text \<open>States with the same watermark.\<close>

definition same_mark :: "projState \<Rightarrow> projState \<Rightarrow> bool" where
  "same_mark s t \<longleftrightarrow> pj_LastAt s = pj_LastAt t \<and> pj_LastIDs s = pj_LastIDs t \<and> pj_ETag s = pj_ETag t"

lemma same_mark_step:
  assumes "same_mark s t"
  shows "rm_accept s es = rm_accept t es" "same_mark (rm_advance now etag acc s) (rm_advance now etag acc t)"
    "pj_Issues (rm_advance now etag acc s) = pj_Issues s" "rm_seeded s = rm_seeded t"
  using assms
  by (simp_all add: same_mark_def rm_accept_def rm_seenAtBoundary_def rm_lastAt_def rm_advance_def rm_touch_def rm_setLast_def
      rm_seeded_def)

lemma classify_all_append:
  "classify_all body actions (es @ es') issues =
     (case classify_all body actions es issues of (i1, a1) \<Rightarrow>
       (case classify_all body actions es' i1 of (i2, a2) \<Rightarrow> (i2, a1 @ a2)))"
  by (induction body actions es issues rule: classify_all.induct) (auto split: option.split prod.split)

lemma rm_unanswered:
  assumes "rm_answered r = None"
  shows "snd (rm_round body cfg r st) = []" "same_mark (fst (rm_round body cfg r st)) st"
    "pj_Issues (fst (rm_round body cfg r st)) = pj_Issues st"
  using assms
  by (cases r; auto simp: rm_answered_def rm_round_def rm_react_def handleAnubis_def end_streak_def same_mark_def Let_def
      split: sum.splits rm_error.splits option.splits)+

lemma rm_rounds_steps:
  assumes "same_mark st s" and "rm_seeded s" and "list_all rm_valid (List.map_filter rm_answered rs)"
    and "rounds rm_step (List.map_filter rm_answered rs) s = (s', es)" and "rounds (rm_round body cfg) rs st = (st', acts)"
  shows "acts = snd (classify_all body (rc_Actions cfg) es (pj_Issues st))"
  using assms
proof (induction rs arbitrary: st s es acts)
  case Nil
  then show ?case by (simp add: map_filter_simps)
next
  case (Cons r rs)
  obtain st1 acts1 where r1: "rm_round body cfg r st = (st1, acts1)" by fastforce
  obtain st2 acts2 where r2: "rounds (rm_round body cfg) rs st1 = (st2, acts2)" by fastforce
  have acts: "acts = acts1 @ acts2" "st' = st2" using Cons.prems(5) r1 r2 by simp_all
  show ?case
  proof (cases "rm_answered r")
    case None
    from rm_unanswered [OF None, of body cfg st] r1
    have u: "acts1 = []" "same_mark st1 s" "pj_Issues st1 = pj_Issues st"
      using Cons.prems(1) by (simp_all add: same_mark_def)
    then show ?thesis
      using Cons.IH [OF u(2) Cons.prems(2), of es acts2] Cons.prems(3,4) r2 acts None by (simp add: map_filter_simps)
  next
    case (Some a)
    then obtain now entries etag where rr: "r = (now, Inr (Some (entries, etag)))" and a: "a = (now, entries, etag)"
      by (cases r) (auto simp: rm_answered_def split: sum.splits rm_error.splits option.splits)
    have v: "rm_valid a" "list_all rm_valid (List.map_filter rm_answered rs)" using Cons.prems(3) Some by (simp_all add: map_filter_simps)
    obtain s1 es1 where s1: "rm_step a s = (s1, es1)" by fastforce
    obtain s2 es2 where s2: "rounds rm_step (List.map_filter rm_answered rs) s1 = (s2, es2)" by fastforce
    have es: "es = es1 @ es2" "s' = s2" using Cons.prems(4) Some s1 s2 by (simp_all add: map_filter_simps)
    let ?st = "end_streak st"
    obtain i1 a1 where c: "classify_all body (rc_Actions cfg) (rm_accept ?st entries) (pj_Issues st) = (i1, a1)" by fastforce
    have m: "same_mark ?st s" "same_mark (?st\<lparr>pj_Issues := i1\<rparr>) s"
      using Cons.prems(1) by (simp_all add: same_mark_def end_streak_def)
    then have "rm_seeded ?st" using Cons.prems(2) same_mark_step(4) by blast
    then have "st1 = rm_advance now etag (rm_accept ?st entries) (?st\<lparr>pj_Issues := i1\<rparr>)" "acts1 = a1"
      using r1 c by (auto simp: rr rm_round_def rm_react_def Let_def rm_seeded_def end_streak_def)
    moreover have "es1 = rm_accept ?st entries" "s1 = rm_advance now etag (rm_accept ?st entries) s"
      using s1 same_mark_step(1) [OF m(1)] by (auto simp: a rm_step_def)
    ultimately have n: "same_mark st1 s1" "pj_Issues st1 = i1" "acts1 = a1"
      "classify_all body (rc_Actions cfg) es1 (pj_Issues st) = (i1, a1)"
      using same_mark_step(2,3) [OF m(2)] c by simp_all
    have "rm_seeded s1" using rm.keeps [OF Cons.prems(2) v(1)] s1 by simp
    from Cons.IH [OF n(1) this v(2)] s2 r2 have "acts2 = snd (classify_all body (rc_Actions cfg) es2 i1)" using es acts n(2) by simp
    then show ?thesis using n(3,4) es acts by (simp add: classify_all_append split: prod.split)
  qed
qed

text \<open>C5: After a first round that announces nothing, the activities announced over any rounds, blocked, failed and unmodified ones
  among them, are those of classifying every new entry of the feed once, in the order of time, in one
  pass that starts from the issues seen in the first round.\<close>

theorem entries_are_classified_once:
  assumes "rm_valid (now0, ens0, etag0)"
    and "rm_round body cfg (now0, Inr (Some (ens0, etag0))) new_projState = (st0, acts0)"
    and "feed_growing rm_time ae_ID rm_entries rm_lastAt rm_step (set ens0) st0 h"
    and "list_all rm_valid (map fst h)" and "List.map_filter rm_answered rs = map fst h"
    and "rounds (rm_round body cfg) rs st0 = (st', acts)"
  shows "acts0 = [] \<and>
    (\<exists>es. distinct es \<and> set es = last (set ens0 # map snd h) - set ens0 \<and> sorted (map rm_time es) \<and>
       acts = snd (classify_all body (rc_Actions cfg) es (pj_Issues st0)))"
proof -
  have e: "end_streak new_projState = new_projState" by (simp add: end_streak_def new_projState_def)
  then have 0: "st0 = rm_seed now0 ens0 etag0 new_projState" "acts0 = []"
    using assms(2) by (simp_all add: rm_round_def rm_react_def e new_projState_def)
  have et: "etag0 \<noteq> []" "list_all timed_entry ens0" using assms(1) by (simp_all add: rm_valid_def)
  have k: "rm.knows (set ens0) st0"
  proof (cases "ens0 = []")
    case True
    then show ?thesis
      using et by (simp add: 0 rm.knows_def rm_seeded_def rm_seed_def rm_touch_def feed_known_def new_projState_def)
  next
    case False
    have "seed_newest ens0 = Max (rm_time ` set ens0)"
    proof -
      obtain e where e: "e \<in> set ens0" using False by (cases ens0) auto
      then have "zero_time < rm_time e" using et(2) timed_entry_time by (simp add: list_all_iff)
      also have "rm_time e \<le> Max (rm_time ` set ens0)" using e by simp
      finally have "max zero_time (Max (rm_time ` set ens0)) = Max (rm_time ` set ens0)" by simp
      then show ?thesis unfolding seed_newest_def fold_newest using False by simp
    qed
    moreover from rm_lastAt_setLast [OF False et(2) this] have "rm_lastAt st0 = seed_newest ens0"
      using False by (simp add: 0 rm_seed_def Let_def)
    moreover have "pj_LastIDs st0 = map ae_ID (filter (\<lambda>e. rm_time e = seed_newest ens0) ens0)"
      using False by (simp add: 0 rm_seed_def rm_touch_def rm_setLast_def Let_def)
    moreover have "rm_seeded st0" using et by (simp add: 0 rm_seeded_def rm_seed_def rm_touch_def)
    ultimately show ?thesis by (auto simp: rm.knows_def feed_known_def)
  qed
  then have s: "rm_seeded st0" by (simp add: rm.knows_def)
  obtain st1 es where es: "rounds rm_step (map fst h) st0 = (st1, es)" by fastforce
  have "same_mark st0 st0" by (simp add: same_mark_def)
  from rm_rounds_steps [OF this s _ _ assms(6)] es assms(4,5)
  have "acts = snd (classify_all body (rc_Actions cfg) es (pj_Issues st0))" by simp
  with rm.polls_exact [OF k assms(3,4) es] 0(2) show ?thesis by blast
qed

definition ex_rm_entry :: atomEntry where
  "ex_rm_entry = \<lparr>ae_Title = ''p - Bug #3 (Closed): s'', ae_ID = ''u/issues/3#change-1'', ae_Updated = ''2026-01-02T03:04:05Z'',
     ae_Author = ''joe'', ae_Body = [], ae_Links = []\<rparr>"

definition ex_rm_cfg :: rm_cfg where
  "ex_rm_cfg = \<lparr>rc_Name = ''p'', rc_FeedURL = ''u'', rc_Actions = []\<rparr>"

lemma ex_rm_timed: "timed_entry ex_rm_entry"
  by code_simp

lemma ex_rm_title:
  "parseTitle (ae_Title ex_rm_entry) = Some \<lparr>it_Tracker = ''Bug'', it_Number = 3, it_Status = ''Closed'', it_Subject = ''s''\<rparr>"
  by code_simp

theorem entries_are_classified_once_example:
  "snd (rounds (rm_round (\<lambda>_. []) ex_rm_cfg)
     [(1, Inr (Some ([ex_rm_entry], ''b''))), (2, Inl Anubis), (3, Inr (Some ([ex_rm_entry], ''c'')))]
     (rm_seed 0 [] ''a'' new_projState)) = snd (classify_all (\<lambda>_. []) [] [ex_rm_entry] Map.empty)"
proof -
  let ?h = "[((1 :: instant, [ex_rm_entry], ''b''), {ex_rm_entry}), ((3, [ex_rm_entry], ''c''), {ex_rm_entry})]"
  let ?st = "rm_seed 0 [] ''a'' new_projState"
  have seed: "rm_round (\<lambda>_. []) ex_rm_cfg (0, Inr (Some ([], ''a''))) new_projState = (?st, [])"
    by (simp add: rm_round_def rm_react_def new_projState_def end_streak_def)
  have at: "rm_lastAt ?st = zero_time" by (simp add: rm_lastAt_def rm_seed_def rm_touch_def new_projState_def) code_simp
  have grow: "feed_growing rm_time ae_ID rm_entries rm_lastAt rm_step (set []) ?st ?h"
    using timed_entry_time [OF ex_rm_timed] at by (simp add: feed_grows_def rm_entries_def)
  obtain st' acts where r: "rounds (rm_round (\<lambda>_. []) ex_rm_cfg)
     [(1, Inr (Some ([ex_rm_entry], ''b''))), (2, Inl Anubis), (3, Inr (Some ([ex_rm_entry], ''c'')))] ?st = (st', acts)"
    by fastforce
  have "[] = ([]::rm_activity list) \<and>
    (\<exists>es. distinct es \<and> set es = last (set [] # map snd ?h) - set [] \<and> sorted (map rm_time es) \<and>
       acts = snd (classify_all (\<lambda>_. []) (rc_Actions ex_rm_cfg) es (pj_Issues ?st)))"
  proof (rule entries_are_classified_once [OF _ seed grow _ _ r])
    show "rm_valid (0, [], ''a'')" by (simp add: rm_valid_def)
    show "list_all rm_valid (map fst ?h)" using ex_rm_timed by (simp add: rm_valid_def)
    show "List.map_filter rm_answered [(1, Inr (Some ([ex_rm_entry], ''b''))), (2, Inl Anubis),
        (3, Inr (Some ([ex_rm_entry], ''c'')))] = map fst ?h"
      by (simp add: rm_answered_def map_filter_simps)
  qed
  then obtain es where "distinct es" "set es = {ex_rm_entry}" "acts = snd (classify_all (\<lambda>_. []) [] es (pj_Issues ?st))"
    by (auto simp: ex_rm_cfg_def)
  moreover from this have "es = [ex_rm_entry]"
    by (cases es; cases "tl es") auto
  moreover have "pj_Issues ?st = Map.empty" by (simp add: rm_seed_def rm_touch_def new_projState_def)
  ultimately show ?thesis unfolding r by (simp only: snd_conv)
qed

subsection \<open>Missed activities\<close>

text \<open>When the feed is the newest 15 entries of all activities and there was a first round, a round that does not warn about an
  overflow has every activity that is newer than the watermark.\<close>

theorem no_warning_no_loss:
  assumes "sorted (map rm_time (rev all))" and "entries = take feedLimit all"
    and "cur \<noteq> zero_time" and "\<not> overflow_warned entries cur"
  shows "filter (\<lambda>e. rm_time e > cur) entries = filter (\<lambda>e. rm_time e > cur) all"
proof (cases "length all < feedLimit")
  case True
  then show ?thesis by (simp add: assms(2))
next
  case False
  then have len: "length entries = feedLimit" by (simp add: assms(2))
  then have ne: "entries \<noteq> []" by (auto simp: feedLimit_def)
  have old: "rm_time (last entries) \<le> cur" using assms(3,4) len by (simp add: overflow_warned_def)
  have "all = entries @ drop feedLimit all" by (simp add: assms(2))
  moreover have "rm_time e \<le> rm_time (last entries)" if "e \<in> set (drop feedLimit all)" for e
  proof -
    have "sorted (map rm_time (rev (entries @ drop feedLimit all)))" using assms(1,2) by simp
    then show ?thesis using that ne by (simp add: sorted_append)
  qed
  ultimately have "filter (\<lambda>e. rm_time e > cur) (drop feedLimit all) = []" using old by (fastforce simp: filter_empty_conv)
  then show ?thesis using \<open>all = entries @ drop feedLimit all\<close> by (metis append_Nil2 filter_append)
qed

theorem no_warning_no_loss_example:
  "filter (\<lambda>e. rm_time e > 0) (take feedLimit [ex_rm_entry]) = [ex_rm_entry]"
proof -
  have "filter (\<lambda>e. rm_time e > 0) (take feedLimit [ex_rm_entry]) = filter (\<lambda>e. rm_time e > 0) [ex_rm_entry]"
    by (rule no_warning_no_loss) (simp_all add: feedLimit_def zero_time_def second_def overflow_warned_def)
  moreover have "0 < rm_time ex_rm_entry" by code_simp
  ultimately show ?thesis by simp
qed

subsection \<open>Blocked rounds\<close>

definition blocked :: "instant \<times> rm_reply \<Rightarrow> bool" where
  "blocked r \<longleftrightarrow> snd r = Inl Anubis"

text \<open>The rounds that say whether the monitor is blocked: all but those that fail otherwise.\<close>

definition decides :: "instant \<times> rm_reply \<Rightarrow> bool" where
  "decides r \<longleftrightarrow> blocked r \<or> (\<exists>x. snd r = Inr x)"

fun block_warnings :: "(string \<Rightarrow> string) \<Rightarrow> rm_cfg \<Rightarrow> (instant \<times> rm_reply) list \<Rightarrow> projState \<Rightarrow> string list list" where
  "block_warnings body cfg [] st = []"
| "block_warnings body cfg (r # rs) st =
     snd (snd (rm_react body cfg r st)) # block_warnings body cfg rs (fst (rm_react body cfg r st))"

text \<open>The length of the streak of blocked rounds that ends a list.\<close>

definition streak :: "bool list \<Rightarrow> nat" where
  "streak bs = length (takeWhile id (rev bs))"

definition streak_state :: "bool list \<Rightarrow> projState \<Rightarrow> bool" where
  "streak_state bs st \<longleftrightarrow> pj_AnubisStreak st = int (streak bs) \<and> pj_AnubisWarned st = (streak bs \<ge> 3)"

lemma react_streak:
  assumes "streak_state bs st" and "decides r"
  shows "streak_state (bs @ [blocked r]) (fst (rm_react body cfg r st)) \<and>
    (snd (snd (rm_react body cfg r st)) \<noteq> []) = (streak (bs @ [blocked r]) = 3)"
proof (cases "blocked r")
  case True
  then obtain now where "r = (now, Inl Anubis)" by (cases r) (simp add: blocked_def)
  then show ?thesis
    using assms(1) True by (auto simp: rm_react_def handleAnubis_def streak_state_def streak_def anubisWarnAfter_def Let_def)
next
  case False
  then obtain now x where "r = (now, Inr x)" using assms(2) by (cases r) (auto simp: decides_def)
  then show ?thesis
    using False by (auto simp: rm_react_def streak_state_def streak_def end_streak_def rm_seed_def rm_touch_def rm_setLast_def
        rm_advance_def Let_def split: option.split prod.split)
qed

text \<open>Of a streak of blocked rounds the third warns, once, and no other does, however long the streak is and how many there
  are; every answer of the server ends a streak.\<close>

theorem third_block_warns:
  assumes "list_all decides rs"
  shows "map (\<lambda>msgs. msgs \<noteq> []) (block_warnings body cfg rs new_projState) =
    map (\<lambda>i. streak (take (Suc i) (map blocked rs)) = 3) [0..<length rs]"
proof -
  have g: "map (\<lambda>msgs. msgs \<noteq> []) (block_warnings body cfg rs st) =
      map (\<lambda>i. streak (bs @ take (Suc i) (map blocked rs)) = 3) [0..<length rs]"
    if "streak_state bs st" "list_all decides rs" for bs st
    using that
  proof (induction rs arbitrary: bs st)
    case (Cons r rs)
    let ?bs = "bs @ [blocked r]" and ?st = "fst (rm_react body cfg r st)"
    have r: "streak_state ?bs ?st" "(snd (snd (rm_react body cfg r st)) \<noteq> []) = (streak ?bs = 3)"
      using react_streak [OF Cons.prems(1)] Cons.prems(2) by simp_all
    have "map (\<lambda>i. streak (bs @ take (Suc i) (map blocked (r # rs))) = 3) [0..<length (r # rs)] =
        (streak ?bs = 3) # map (\<lambda>i. streak (?bs @ take (Suc i) (map blocked rs)) = 3) [0..<length rs]"
      by (simp add: upt_conv_Cons map_Suc_upt [symmetric] del: upt_Suc)
    then show ?case using Cons.IH [OF r(1)] Cons.prems(2) r(2) by simp
  qed simp
  have "streak_state [] new_projState" by (simp add: streak_state_def streak_def new_projState_def)
  from g [OF this assms] show ?thesis by simp
qed

theorem third_block_warns_example:
  "map (\<lambda>msgs. msgs \<noteq> []) (block_warnings (\<lambda>_. []) ex_rm_cfg (replicate 4 (0, Inl Anubis)) new_projState) =
     [False, False, True, False]"
proof -
  have "list_all decides (replicate 4 (0, Inl Anubis))" by (simp add: list_all_iff decides_def blocked_def)
  from third_block_warns [OF this, of "\<lambda>_. []" ex_rm_cfg] show ?thesis
    by (simp add: blocked_def streak_def upt_rec numeral_nat)
qed

subsection \<open>Keys\<close>

lemma redact_Nil [simp]: "redact [] = []"
  by (subst redact.simps) simp

lemma redact_key:
  assumes "c \<in> set ''?&''" and "EqualFold (take 4 s) ''key=''"
  shows "redact (c # s) = c # take 4 s @ ''REDACTED'' @ redact (dropWhile (\<lambda>c. \<not> ends_key c) (drop 4 s))"
  using assms by (subst redact.simps) simp

lemma redact_other:
  assumes "\<not> (c \<in> set ''?&'' \<and> EqualFold (take 4 s) ''key='')"
  shows "redact (c # s) = c # redact s"
  unfolding redact.simps [of "c # s"] list.case if_not_P [OF assms] ..

lemma lower_key_itself: "map lower_char ''key='' = ''key=''"
  by code_simp

lemma lower_key: "EqualFold name ''key='' \<Longrightarrow> x \<in> set name \<Longrightarrow> lower_char x \<in> set ''key=''"
  unfolding EqualFold_def ToLower_def by (metis image_eqI list.set_map lower_key_itself)

lemma key_name:
  assumes "EqualFold name ''key=''"
  shows "length name = 4" "\<forall>x\<in>set name. \<not> ends_key x"
proof -
  show l: "length name = 4" using assms by (auto simp: EqualFold_def ToLower_def dest: arg_cong [where f = length])
  have "\<forall>x\<in>set ''key=''. \<not> ends_key x \<and> (\<forall>y. ends_key y \<longrightarrow> lower_char y \<noteq> x)"
    by (simp add: ends_key_def lower_char_def)
  moreover have "lower_char x \<in> set ''key=''" if "x \<in> set name" for x
    using lower_key [OF assms that] .
  ultimately show "\<forall>x\<in>set name. \<not> ends_key x" by blast
qed

text \<open>A key that starts with \<open>?\<close> or \<open>&\<close> and the parameter name in any case, followed by a character that ends it.\<close>

definition is_key_param :: "string \<Rightarrow> bool" where
  "is_key_param q \<longleftrightarrow> (\<exists>c name. q = c # name \<and> c \<in> set ''?&'' \<and> EqualFold name ''key='')"

lemma redact_param:
  assumes "is_key_param q" and "\<forall>c\<in>set k. \<not> ends_key c" and "rest = [] \<or> ends_key (hd rest)"
  shows "redact (q @ k @ rest) = q @ ''REDACTED'' @ redact rest"
proof -
  obtain c name where q: "q = c # name" "c \<in> set ''?&''" "EqualFold name ''key=''"
    using assms(1) by (auto simp: is_key_param_def)
  have "dropWhile (\<lambda>c. \<not> ends_key c) (k @ rest) = rest"
    using assms(2,3) by (cases rest) (auto simp: dropWhile_append)
  then show ?thesis using redact_key [OF q(2), of "name @ k @ rest"] q key_name(1) [OF q(3)] by simp
qed

text \<open>The first four characters cannot match across the start of a parameter.\<close>

lemma key_at:
  assumes "is_key_param q"
  shows "EqualFold (take 4 (a @ q @ s)) ''key='' \<longleftrightarrow> 4 \<le> length a \<and> EqualFold (take 4 a) ''key=''"
proof (cases "4 \<le> length a")
  case True
  then show ?thesis by simp
next
  case False
  obtain c name where q: "q = c # name" "c \<in> set ''?&''" using assms by (auto simp: is_key_param_def)
  have "\<not> EqualFold (take 4 (a @ q @ s)) ''key=''"
  proof
    assume e: "EqualFold (take 4 (a @ q @ s)) ''key=''"
    have "take 4 (a @ q @ s) ! length a = c" using False q(1) by (simp add: nth_append)
    moreover have "length a < length (take 4 (a @ q @ s))" using False q(1) by simp
    ultimately have "c \<in> set (take 4 (a @ q @ s))" by (metis nth_mem)
    then have "lower_char c \<in> set ''key=''" using lower_key [OF e] by blast
    then show False using q(2) by (auto simp: lower_char_def)
  qed
  then show ?thesis using False by simp
qed

text \<open>Skipping a key ends before, at or after the parameter.\<close>

lemma skip_key:
  assumes "is_key_param q" and "\<forall>c\<in>set k1. \<not> ends_key c" and "\<forall>c\<in>set k2. \<not> ends_key c"
    and ih: "\<And>b. length b \<le> length a \<Longrightarrow> redact (b @ q @ k1 @ rest) = redact (b @ q @ k2 @ rest)"
  shows "redact (dropWhile (\<lambda>c. \<not> ends_key c) (a @ q @ k1 @ rest)) = redact (dropWhile (\<lambda>c. \<not> ends_key c) (a @ q @ k2 @ rest))"
proof -
  let ?d = "dropWhile (\<lambda>c. \<not> ends_key c)"
  obtain c name where q: "q = c # name" "EqualFold name ''key=''" using assms(1) by (auto simp: is_key_param_def)
  consider (before) x where "x \<in> set a" "ends_key x" | (at) "\<forall>x\<in>set a. \<not> ends_key x" "ends_key c"
    | (after) "\<forall>x\<in>set a. \<not> ends_key x" "\<not> ends_key c" by blast
  then show ?thesis
  proof cases
    case before
    then have "?d (a @ ys) = ?d a @ ys" for ys using dropWhile_append1 [of x a "\<lambda>c. \<not> ends_key c"] by simp
    then show ?thesis using ih [OF length_dropWhile_le] by simp
  next
    case at
    then have "?d (a @ q @ ys) = [] @ q @ ys" for ys using q(1) by (simp add: dropWhile_append2)
    then show ?thesis using ih [of "[]"] by simp
  next
    case after
    have "?d (a @ q @ k @ rest) = ?d rest" if "\<forall>c\<in>set k. \<not> ends_key c" for k
    proof -
      have "\<forall>x\<in>set (a @ q @ k). \<not> ends_key x" using after q(1) key_name(2) [OF q(2)] that by auto
      then show ?thesis using dropWhile_append2 [of "a @ q @ k" "\<lambda>c. \<not> ends_key c" rest] by simp
    qed
    then show ?thesis using assms(2,3) by simp
  qed
qed

text \<open>C13: What an error message says after the redaction does not depend on the API keys in it: two messages that differ
  only in the value of a key parameter are redacted to the same text, wherever the parameter stands.\<close>

theorem redaction_hides_the_key:
  assumes "is_key_param q" and "\<forall>c\<in>set k1. \<not> ends_key c" and "\<forall>c\<in>set k2. \<not> ends_key c"
    and "rest = [] \<or> ends_key (hd rest)"
  shows "redact (a @ q @ k1 @ rest) = redact (a @ q @ k2 @ rest)"
proof (induction a rule: length_induct)
  case (1 a)
  show ?case
  proof (cases a)
    case Nil
    then show ?thesis using redact_param [OF assms(1,2,4)] redact_param [OF assms(1,3,4)] by simp
  next
    case (Cons c b)
    have ih: "redact (d @ q @ k1 @ rest) = redact (d @ q @ k2 @ rest)" if "length d \<le> length b" for d
      using 1 that Cons by simp
    show ?thesis
    proof (cases "c \<in> set ''?&'' \<and> 4 \<le> length b \<and> EqualFold (take 4 b) ''key=''")
      case False
      then have "redact (c # b @ q @ s) = c # redact (b @ q @ s)" for s
        using key_at [OF assms(1), of b s] by (intro redact_other) blast
      then show ?thesis using ih [of b] by (simp add: Cons)
    next
      case True
      then have "redact (c # b @ q @ s) =
          c # take 4 b @ ''REDACTED'' @ redact (dropWhile (\<lambda>c. \<not> ends_key c) (drop 4 b @ q @ s))" for s
        using redact_key [of c "b @ q @ s"] key_at [OF assms(1), of b s] by simp
      moreover have "redact (dropWhile (\<lambda>c. \<not> ends_key c) (drop 4 b @ q @ k1 @ rest)) =
          redact (dropWhile (\<lambda>c. \<not> ends_key c) (drop 4 b @ q @ k2 @ rest))"
        by (rule skip_key [OF assms(1,2,3)]) (simp add: ih)
      ultimately show ?thesis by (simp add: Cons)
    qed
  qed
qed

theorem redaction_hides_the_key_example:
  "redact (''Get '' @ ''?Key='' @ ''s3cret'' @ '' timeout'') = redact (''Get '' @ ''?Key='' @ ''other'' @ '' timeout'')"
proof -
  have "EqualFold ''Key='' ''key=''" by code_simp
  then have "is_key_param ''?Key=''" by (simp add: is_key_param_def)
  then show ?thesis by (rule redaction_hides_the_key) (simp_all add: ends_key_def)
qed

end
