(* ===== verification/MonRestart.thy ===== *)
theory MonRestart
  imports MonRun WebMonitor GitHubMonitor RedmineMonitor
begin

text \<open>
  The \<open>Start\<close> methods of the web, GitHub and Redmine monitors as instances of a monitor's life, with the proof that each
  keeps the contract of a restart: stopping one between two polls and starting it again changes nothing of
  what it announces. JSON, the file system and the answers of the sources are parameters.
\<close>

text \<open>What a monitor needs of its surroundings: how its state is encoded, and its history lines.\<close>

record ('s, 'l, 'b) mon_files =
  mf_marshal :: "'s \<Rightarrow> string + 'b"
  mf_unmarshal :: "'b \<Rightarrow> string + 's"
  mf_unreadable :: "string \<Rightarrow> string option"
  mf_line :: "'l \<Rightarrow> string option"

definition spec_of :: "('s, 'l, 'b) mon_files \<Rightarrow> string \<Rightarrow> int \<Rightarrow> ('i \<Rightarrow> 's \<Rightarrow> 's \<times> string list \<times> 'l list) \<Rightarrow>
    ('i \<Rightarrow> 's \<Rightarrow> bool) \<Rightarrow> (instant \<Rightarrow> 's \<Rightarrow> 's) \<Rightarrow> (string + 's option \<Rightarrow> 's \<Rightarrow> 's) \<Rightarrow> 's \<Rightarrow> ('i, 's, 'l, 'b) mon_spec" where
  "spec_of mf path interval rnd saves stamp load fresh =
     \<lparr>ms_path = path, ms_interval = interval, ms_round = rnd, ms_saves = saves, ms_stamp = stamp, ms_load = load,
      ms_fresh = fresh, ms_marshal = mf_marshal mf, ms_unmarshal = mf_unmarshal mf, ms_unreadable = mf_unreadable mf,
      ms_line = mf_line mf\<rparr>"

lemma spec_of_simps [simp]:
  "ms_path (spec_of mf path interval rnd saves stamp load fresh) = path"
  "ms_interval (spec_of mf path interval rnd saves stamp load fresh) = interval"
  "ms_round (spec_of mf path interval rnd saves stamp load fresh) = rnd"
  "ms_saves (spec_of mf path interval rnd saves stamp load fresh) = saves"
  "ms_stamp (spec_of mf path interval rnd saves stamp load fresh) = stamp"
  "ms_load (spec_of mf path interval rnd saves stamp load fresh) = load"
  "ms_fresh (spec_of mf path interval rnd saves stamp load fresh) = fresh"
  by (simp_all add: spec_of_def)

subsection \<open>Web\<close>

definition web_stamp :: "instant \<Rightarrow> webState \<Rightarrow> webState" where
  "web_stamp now st = st\<lparr>ws_UpdatedAt := now div second\<rparr>"

definition web_round :: "WebMonitor \<Rightarrow> instant \<times> probeResult \<Rightarrow> webState \<Rightarrow> webState \<times> string list \<times> webHistory list" where
  "web_round m i st = (case web_poll m (fst i) (snd i) st of (st', msgs, h) \<Rightarrow> (st', msgs, [h]))"

definition web_spec :: "(webState, webHistory, 'b) mon_files \<Rightarrow> string \<Rightarrow> int \<Rightarrow> WebMonitor \<Rightarrow>
    (instant \<times> probeResult, webState, webHistory, 'b) mon_spec" where
  "web_spec mf dataDir interval m =
     spec_of mf (dataDir @ ''/'' @ wm_Name m @ ''.state'') interval (web_round m) (\<lambda>_ _. True) web_stamp web_loadState newWebState"

definition web_same :: "webState \<Rightarrow> webState \<Rightarrow> bool" where
  "web_same s t \<longleftrightarrow> s\<lparr>ws_UpdatedAt := 0\<rparr> = t\<lparr>ws_UpdatedAt := 0\<rparr>"

lemma web_same_cases: "web_same s t \<Longrightarrow> (\<And>u. t = s\<lparr>ws_UpdatedAt := u\<rparr> \<Longrightarrow> thesis) \<Longrightarrow> thesis"
  by (cases s; cases t) (auto simp: web_same_def)

lemma updateState_frame:
  "updateState m res now (s\<lparr>ws_UpdatedAt := u\<rparr>) = apfst (\<lambda>t. t\<lparr>ws_UpdatedAt := u\<rparr>) (updateState m res now s)"
  by (cases s) (simp add: updateState_def Let_def downMsg_def upMsg_def web_prefix_def split: web_health.split)

lemma updateCert_frame:
  "updateCert m c now (s\<lparr>ws_UpdatedAt := u\<rparr>) = apfst (\<lambda>t. t\<lparr>ws_UpdatedAt := u\<rparr>) (updateCert m c now s)"
  by (cases s) (simp add: updateCert_def Let_def split: option.split)

lemma web_poll_frame: "web_poll m now res (s\<lparr>ws_UpdatedAt := u\<rparr>) = web_poll m now res s"
proof (cases "updateState m res now s")
  case (Pair s1 m1)
  then show ?thesis
  proof (cases "pb_cert res")
    case (Some c)
    obtain s2 m2 where "updateCert m c now s1 = (s2, m2)" by fastforce
    with Pair Some show ?thesis by (simp add: web_poll_def Let_def updateState_frame updateCert_frame)
  qed (simp add: web_poll_def Let_def updateState_frame)
qed

lemma web_poll_version: "ws_Version (fst (web_poll m now res s)) = ws_Version s"
proof -
  have "ws_Version (fst (updateState m res now t)) = ws_Version t" for t
    by (simp add: updateState_def Let_def split: web_health.split)
  moreover have "ws_Version (fst (updateCert m c now t)) = ws_Version t" for c t
    by (simp add: updateCert_def Let_def split: option.split)
  ultimately show ?thesis by (simp add: web_poll_def Let_def split: prod.split option.split) (metis fst_conv)
qed

interpretation web: restartable "web_spec mf dataDir interval m" web_same "\<lambda>s. ws_Version s = web_stateVersion"
proof unfold_locales
  fix s t :: webState and i :: "instant \<times> probeResult"
  assume "web_same s t"
  then obtain u where t: "t = s\<lparr>ws_UpdatedAt := u\<rparr>" by (rule web_same_cases)
  show "web_same (fst (ms_round (web_spec mf dataDir interval m) i s)) (fst (ms_round (web_spec mf dataDir interval m) i t)) \<and>
      snd (ms_round (web_spec mf dataDir interval m) i s) = snd (ms_round (web_spec mf dataDir interval m) i t)"
    by (simp add: t web_spec_def web_round_def web_poll_frame web_same_def)
next
  fix s :: webState and i
  assume "ws_Version s = web_stateVersion"
  then show "ws_Version (fst (ms_round (web_spec mf dataDir interval m) i s)) = web_stateVersion"
    using web_poll_version [of m "fst i" "snd i" s] by (auto simp: web_spec_def web_round_def split: prod.split)
qed (auto simp: web_spec_def web_same_def web_stamp_def newWebState_def web_loadState_def split: sum.split option.split)

subsection \<open>GitHub\<close>

definition gh_stamp :: "instant \<Rightarrow> repoState \<Rightarrow> repoState" where
  "gh_stamp now st = st\<lparr>rs_UpdatedAt := now div second\<rparr>"

text \<open>A poll meets a client, whose answers are those of that moment, and a time. It saves whenever the events have changed.\<close>

definition gh_turn :: "(string list \<Rightarrow> string \<rightharpoonup> string) option \<Rightarrow> int \<Rightarrow> ConfigRepo \<Rightarrow> gh_client \<times> instant \<Rightarrow> repoState \<Rightarrow>
    repoState \<times> string list \<times> gh_history list" where
  "gh_turn sh maxLength cfg i st = gh_poll (fst i) sh maxLength cfg (snd i) st"

definition gh_saves :: "ConfigRepo \<Rightarrow> gh_client \<times> instant \<Rightarrow> repoState \<Rightarrow> bool" where
  "gh_saves cfg i st \<longleftrightarrow>
     (case fetchEvents (fst i) (cr_Project cfg) (cr_Repo cfg) (rs_ETag st) (gh_lastAt st) of
        Inr (Some _) \<Rightarrow> True | _ \<Rightarrow> False)"

definition gh_spec :: "(string list \<Rightarrow> string) \<Rightarrow> (repoState, gh_history, 'b) mon_files \<Rightarrow>
    (string list \<Rightarrow> string \<rightharpoonup> string) option \<Rightarrow> int \<Rightarrow> string \<Rightarrow> int \<Rightarrow> ConfigRepo \<Rightarrow>
    (gh_client \<times> instant, repoState, gh_history, 'b) mon_spec" where
  "gh_spec join mf sh maxLength dataDir interval cfg =
     spec_of mf (join [dataDir, cr_Project cfg, cr_Repo cfg @ ''.state'']) interval (gh_turn sh maxLength cfg) (gh_saves cfg)
       gh_stamp gh_loadState new_repoState"

definition gh_same :: "repoState \<Rightarrow> repoState \<Rightarrow> bool" where
  "gh_same s t \<longleftrightarrow> s\<lparr>rs_UpdatedAt := 0\<rparr> = t\<lparr>rs_UpdatedAt := 0\<rparr>"

lemma gh_same_cases: "gh_same s t \<Longrightarrow> (\<And>u. t = s\<lparr>rs_UpdatedAt := u\<rparr> \<Longrightarrow> thesis) \<Longrightarrow> thesis"
  by (cases s; cases t) (auto simp: gh_same_def)

lemma gh_frames:
  "gh_lastAt (s\<lparr>rs_UpdatedAt := u\<rparr>) = gh_lastAt s" "gh_accept (s\<lparr>rs_UpdatedAt := u\<rparr>) = gh_accept s"
  "gh_seed now es etag (s\<lparr>rs_UpdatedAt := u\<rparr>) = gh_seed now es etag s"
  "gh_advance now etag es (s\<lparr>rs_UpdatedAt := u\<rparr>) = gh_advance now etag es s"
  by (cases s, simp add: gh_lastAt_def gh_accept_def gh_seenAtBoundary_def gh_seed_def gh_touch_def gh_setLast_def
      gh_advance_def fun_eq_iff)+

lemma gh_round_frame:
  "snd (gh_round c cfg r (s\<lparr>rs_UpdatedAt := u\<rparr>)) = snd (gh_round c cfg r s) \<and>
   gh_same (fst (gh_round c cfg r s)) (fst (gh_round c cfg r (s\<lparr>rs_UpdatedAt := u\<rparr>)))"
  by (auto simp: gh_round_def gh_frames gh_same_def split: prod.split sum.split option.split)

lemma gh_poll_frame:
  "snd (gh_poll c sh n cfg now (s\<lparr>rs_UpdatedAt := u\<rparr>)) = snd (gh_poll c sh n cfg now s) \<and>
   gh_same (fst (gh_poll c sh n cfg now s)) (fst (gh_poll c sh n cfg now (s\<lparr>rs_UpdatedAt := u\<rparr>)))"
proof -
  let ?r = "(now, fetchEvents c (cr_Project cfg) (cr_Repo cfg) (rs_ETag s) (gh_lastAt s))"
  obtain s1 a1 where 1: "gh_round c cfg ?r s = (s1, a1)" by fastforce
  obtain s2 a2 where 2: "gh_round c cfg ?r (s\<lparr>rs_UpdatedAt := u\<rparr>) = (s2, a2)" by fastforce
  from gh_round_frame [where c = c and cfg = cfg and r = ?r and s = s and u = u] 1 2 have "a2 = a1" "gh_same s1 s2" by simp_all
  with 1 2 show ?thesis by (simp add: gh_poll_def gh_frames cong: option.case_cong sum.case_cong)
qed

lemma gh_poll_version: "rs_Version (fst (gh_poll c sh n cfg now s)) = rs_Version s"
proof -
  have "rs_Version (fst (gh_round c cfg r s)) = rs_Version s" for r
    by (simp add: gh_round_def gh_seed_def gh_advance_def gh_touch_def gh_setLast_def split: prod.split sum.split option.split)
  then show ?thesis by (simp add: gh_poll_def Let_def split_beta)
qed

interpretation gh: restartable "gh_spec join mf sh maxLength dataDir interval cfg" gh_same "\<lambda>s. rs_Version s = gh_stateVersion"
proof unfold_locales
  fix s t :: repoState and i :: "gh_client \<times> instant"
  assume "gh_same s t"
  then obtain u where t: "t = s\<lparr>rs_UpdatedAt := u\<rparr>" by (rule gh_same_cases)
  show "gh_same (fst (ms_round (gh_spec join mf sh maxLength dataDir interval cfg) i s))
      (fst (ms_round (gh_spec join mf sh maxLength dataDir interval cfg) i t)) \<and>
      snd (ms_round (gh_spec join mf sh maxLength dataDir interval cfg) i s) =
      snd (ms_round (gh_spec join mf sh maxLength dataDir interval cfg) i t)"
    using gh_poll_frame [where s = s and u = u] by (simp add: t gh_spec_def gh_turn_def)
next
  fix s :: repoState and i
  assume "rs_Version s = gh_stateVersion"
  then show "rs_Version (fst (ms_round (gh_spec join mf sh maxLength dataDir interval cfg) i s)) = gh_stateVersion"
    by (simp add: gh_spec_def gh_turn_def gh_poll_version)
qed (auto simp: gh_spec_def gh_same_def gh_stamp_def new_repoState_def gh_loadState_def split: sum.split option.split)

subsection \<open>Redmine\<close>

definition rm_stamp :: "instant \<Rightarrow> projState \<Rightarrow> projState" where
  "rm_stamp now st = st\<lparr>pj_UpdatedAt := now div second\<rparr>"

text \<open>A poll meets the answer of the feed, for the address and the entity tag it sends, and a time. It saves unless the fetch failed for
  another reason than Anubis.\<close>

definition rm_turn :: "(string \<Rightarrow> string) \<Rightarrow> (string list \<Rightarrow> string \<rightharpoonup> string) option \<Rightarrow> int \<Rightarrow> rm_cfg \<Rightarrow>
    (string \<Rightarrow> string \<Rightarrow> rm_reply) \<times> instant \<Rightarrow> projState \<Rightarrow> projState \<times> string list \<times> (instant \<times> rm_activity) list" where
  "rm_turn body sh maxLength cfg i st = rm_poll body sh maxLength cfg (fst i) (snd i) st"

definition rm_saves :: "rm_cfg \<Rightarrow> (string \<Rightarrow> string \<Rightarrow> rm_reply) \<times> instant \<Rightarrow> projState \<Rightarrow> bool" where
  "rm_saves cfg i st \<longleftrightarrow> (case fst i (rc_FeedURL cfg) (pj_ETag st) of Inl (FetchError _) \<Rightarrow> False | _ \<Rightarrow> True)"

definition rm_spec :: "(string list \<Rightarrow> string) \<Rightarrow> (projState, instant \<times> rm_activity, 'b) mon_files \<Rightarrow> (string \<Rightarrow> string) \<Rightarrow>
    (string list \<Rightarrow> string \<rightharpoonup> string) option \<Rightarrow> int \<Rightarrow> string \<Rightarrow> int \<Rightarrow> rm_cfg \<Rightarrow>
    ((string \<Rightarrow> string \<Rightarrow> rm_reply) \<times> instant, projState, instant \<times> rm_activity, 'b) mon_spec" where
  "rm_spec join mf body sh maxLength dataDir interval cfg =
     spec_of mf (join [dataDir, rc_Name cfg @ ''.state'']) interval (rm_turn body sh maxLength cfg) (rm_saves cfg)
       rm_stamp rm_loadState new_projState"

definition rm_same :: "projState \<Rightarrow> projState \<Rightarrow> bool" where
  "rm_same s t \<longleftrightarrow> s\<lparr>pj_UpdatedAt := 0\<rparr> = t\<lparr>pj_UpdatedAt := 0\<rparr>"

lemma rm_same_cases: "rm_same s t \<Longrightarrow> (\<And>u. t = s\<lparr>pj_UpdatedAt := u\<rparr> \<Longrightarrow> thesis) \<Longrightarrow> thesis"
  by (cases s; cases t) (auto simp: rm_same_def)

lemma rm_frames:
  "end_streak (s\<lparr>pj_UpdatedAt := u\<rparr>) = (end_streak s)\<lparr>pj_UpdatedAt := u\<rparr>"
  "rm_accept (s\<lparr>pj_UpdatedAt := u\<rparr>) = rm_accept s"
  "rm_seed now es etag (s\<lparr>pj_UpdatedAt := u\<rparr>) = rm_seed now es etag s"
  "rm_advance now etag es (s\<lparr>pj_UpdatedAt := u, pj_Issues := is\<rparr>) = rm_advance now etag es (s\<lparr>pj_Issues := is\<rparr>)"
  "handleAnubis cfg now (s\<lparr>pj_UpdatedAt := u\<rparr>) = handleAnubis cfg now s"
  by (cases s, simp add: end_streak_def rm_lastAt_def rm_accept_def rm_seenAtBoundary_def rm_seed_def rm_touch_def rm_setLast_def
      rm_advance_def handleAnubis_def Let_def fun_eq_iff)+

lemma rm_react_frame:
  "snd (rm_react body cfg r (s\<lparr>pj_UpdatedAt := u\<rparr>)) = snd (rm_react body cfg r s) \<and>
   rm_same (fst (rm_react body cfg r s)) (fst (rm_react body cfg r (s\<lparr>pj_UpdatedAt := u\<rparr>)))"
  by (auto simp: rm_react_def rm_frames rm_same_def Let_def split: prod.split sum.split option.split rm_error.split)

lemma rm_poll_frame:
  "snd (rm_poll body sh n cfg fetch now (s\<lparr>pj_UpdatedAt := u\<rparr>)) = snd (rm_poll body sh n cfg fetch now s) \<and>
   rm_same (fst (rm_poll body sh n cfg fetch now s)) (fst (rm_poll body sh n cfg fetch now (s\<lparr>pj_UpdatedAt := u\<rparr>)))"
proof -
  let ?r = "(now, fetch (rc_FeedURL cfg) (pj_ETag s))"
  obtain s1 a1 m1 where 1: "rm_react body cfg ?r s = (s1, a1, m1)" by (cases "rm_react body cfg ?r s")
  obtain s2 a2 m2 where 2: "rm_react body cfg ?r (s\<lparr>pj_UpdatedAt := u\<rparr>) = (s2, a2, m2)"
    by (cases "rm_react body cfg ?r (s\<lparr>pj_UpdatedAt := u\<rparr>)")
  from rm_react_frame [where body = body and cfg = cfg and r = ?r and s = s and u = u] 1 2
  have "a2 = a1" "m2 = m1" "rm_same s1 s2" by simp_all
  with 1 2 show ?thesis by (simp add: rm_poll_def)
qed

lemma rm_poll_version: "pj_Version (fst (rm_poll body sh n cfg fetch now s)) = pj_Version s"
proof -
  have "pj_Version (fst (rm_react body cfg r s)) = pj_Version s" for r
    by (auto simp: rm_react_def rm_seed_def rm_advance_def rm_touch_def rm_setLast_def handleAnubis_def end_streak_def Let_def
        split: prod.split sum.split option.split rm_error.split)
  then show ?thesis by (simp add: rm_poll_def split_beta)
qed

interpretation rm: restartable "rm_spec join mf body sh maxLength dataDir interval cfg" rm_same "\<lambda>s. pj_Version s = rm_stateVersion"
proof unfold_locales
  fix s t :: projState and i :: "(string \<Rightarrow> string \<Rightarrow> rm_reply) \<times> instant"
  assume "rm_same s t"
  then obtain u where t: "t = s\<lparr>pj_UpdatedAt := u\<rparr>" by (rule rm_same_cases)
  show "rm_same (fst (ms_round (rm_spec join mf body sh maxLength dataDir interval cfg) i s))
      (fst (ms_round (rm_spec join mf body sh maxLength dataDir interval cfg) i t)) \<and>
      snd (ms_round (rm_spec join mf body sh maxLength dataDir interval cfg) i s) =
      snd (ms_round (rm_spec join mf body sh maxLength dataDir interval cfg) i t)"
    using rm_poll_frame [where s = s and u = u] by (simp add: t rm_spec_def rm_turn_def)
next
  fix s :: projState and i
  assume "pj_Version s = rm_stateVersion"
  then show "pj_Version (fst (ms_round (rm_spec join mf body sh maxLength dataDir interval cfg) i s)) = rm_stateVersion"
    by (simp add: rm_spec_def rm_turn_def rm_poll_version)
qed (auto simp: rm_spec_def rm_same_def rm_stamp_def new_projState_def rm_loadState_def split: sum.split option.split)

subsection \<open>Restarts\<close>

text \<open>A restart between two polls is invisible. Whatever state file there is at first, a run over some polls followed by a run
  over more, on the files the first one left, announces together exactly what one run over all of them announces, and
  leaves the same state but for the time of the last save. It needs the last save of the first run to succeed,
  JSON that reads back what it wrote, and an interval that fits. First for the web and the Redmine monitor.\<close>

theorem web_restart_is_invisible:
  assumes "1 \<le> interval" and "interval \<le> 9223372036" and "json_ok (web_spec mf dataDir interval m)" and "saves_ok e"
  shows "\<exists>r1 r2 r. mon_Start (web_spec mf dataDir interval m) is e file disk = Some r1 \<and>
    mon_Start (web_spec mf dataDir interval m) js e' (mr_file r1) (mr_disk r1) = Some r2 \<and>
    mon_Start (web_spec mf dataDir interval m) (is @ js) e' file disk = Some r \<and>
    mr_posts r = mr_posts r1 @ mr_posts r2 \<and> web_same (mr_state r2) (mr_state r)"
  using assms(3,4) by (rule web.restart_is_invisible) (use seconds_in_range [OF assms(1,2)] in \<open>simp add: web_spec_def\<close>)

theorem redmine_restart_is_invisible:
  assumes "1 \<le> interval" and "interval \<le> 9223372036" and "json_ok (rm_spec join mf body sh maxLength dataDir interval cfg)" and "saves_ok e"
  shows "\<exists>r1 r2 r. mon_Start (rm_spec join mf body sh maxLength dataDir interval cfg) is e file disk = Some r1 \<and>
    mon_Start (rm_spec join mf body sh maxLength dataDir interval cfg) js e' (mr_file r1) (mr_disk r1) = Some r2 \<and>
    mon_Start (rm_spec join mf body sh maxLength dataDir interval cfg) (is @ js) e' file disk = Some r \<and>
    mr_posts r = mr_posts r1 @ mr_posts r2 \<and> rm_same (mr_state r2) (mr_state r)"
  using assms(3,4) by (rule rm.restart_is_invisible) (use seconds_in_range [OF assms(1,2)] in \<open>simp add: rm_spec_def\<close>)

text \<open>C7: A restart of the GitHub monitor between two polls is invisible: whatever state file there is at first, a run over some polls followed
  by a run over more, on the files the first one left, announces together exactly what one run over all of them
  announces, and leaves the same state but for the time of the last save. It needs the last save of the
  first run to succeed, JSON that reads back what it wrote, and an interval that fits.\<close>

theorem github_restart_is_invisible:
  assumes "1 \<le> interval" and "interval \<le> 9223372036" and "json_ok (gh_spec join mf sh maxLength dataDir interval cfg)" and "saves_ok e"
  shows "\<exists>r1 r2 r. mon_Start (gh_spec join mf sh maxLength dataDir interval cfg) is e file disk = Some r1 \<and>
    mon_Start (gh_spec join mf sh maxLength dataDir interval cfg) js e' (mr_file r1) (mr_disk r1) = Some r2 \<and>
    mon_Start (gh_spec join mf sh maxLength dataDir interval cfg) (is @ js) e' file disk = Some r \<and>
    mr_posts r = mr_posts r1 @ mr_posts r2 \<and> gh_same (mr_state r2) (mr_state r)"
  using assms(3,4) by (rule gh.restart_is_invisible) (use seconds_in_range [OF assms(1,2)] in \<open>simp add: gh_spec_def\<close>)

subsection \<open>Example\<close>

text \<open>States as their own encoding, a client that never reaches GitHub, and a file system that works.\<close>

definition ex_files :: "(repoState, gh_history, repoState) mon_files" where
  "ex_files = \<lparr>mf_marshal = Inr, mf_unmarshal = Inr, mf_unreadable = (\<lambda>_. None), mf_line = (\<lambda>_. Some [])\<rparr>"

definition ex_end :: "(unit, repoState) round_in" where
  "ex_end = \<lparr>ri_in = (), ri_now = 7 * second, ri_fs = \<lparr>sf_write = (\<lambda>_. None), sf_rename = (\<lambda>_. None)\<rparr>, ri_open = True, ri_write = True\<rparr>"

definition ex_repo :: ConfigRepo where
  "ex_repo = \<lparr>cr_Project = ''DragonFlyBSD'', cr_Repo = ''dflybot'', cr_IssueActions = [], cr_PRActions = [], cr_IgnoredUsers = []\<rparr>"

theorem github_restart_is_invisible_example:
  "\<exists>r1 r2. mon_Start (gh_spec concat ex_files None 400 ''data'' 60 ex_repo) [] ex_end [] Map.empty = Some r1 \<and>
     mon_Start (gh_spec concat ex_files None 400 ''data'' 60 ex_repo) [] ex_end (mr_file r1) (mr_disk r1) = Some r2 \<and>
     gh_same (mr_state r2) (new_repoState)"
proof -
  let ?ms = "gh_spec concat ex_files None 400 ''data'' 60 ex_repo"
  have j: "json_ok ?ms" by (simp add: json_ok_def gh_spec_def spec_of_def ex_files_def)
  have s: "saves_ok ex_end" by (simp add: saves_ok_def ex_end_def)
  from github_restart_is_invisible [OF _ _ j s, of "[]" "[]" Map.empty "[]" ex_end] obtain r1 r2 r where
    r: "mon_Start ?ms [] ex_end [] Map.empty = Some r1" "mon_Start ?ms [] ex_end (mr_file r1) (mr_disk r1) = Some r2"
      "mon_Start ?ms [] ex_end [] Map.empty = Some r" "gh_same (mr_state r2) (mr_state r)" by auto
  from r(3) have "mr_state r = gh_stamp (7 * second) new_repoState"
    by (auto simp: mon_Start_def Loop_def mon_loaded_def ReadJSON_def gh_spec_def spec_of_def ex_files_def ex_end_def gh_loadState_def
        mon_stop_def save_state_def Let_def split: if_splits prod.splits)
  with r show ?thesis by (auto simp: gh_same_def gh_stamp_def)
qed

end
