(* ===== verification/GitMonitor.thy ===== *)
theory GitMonitor
  imports MonLib
begin

text \<open>
  The git monitor: \<open>git-monitor/monitor.go\<close>. What the git commands print is a parameter, \<open>None\<close> for a failed
  command. The announcements of a poll, the state and the messages posted are values; the messages go to
  the poster in order, whose answer the code does not look at.
\<close>

subsection \<open>Git\<close>

record git_env =
  ge_refs :: "string \<Rightarrow> string option"
  ge_revlist :: "string \<Rightarrow> string \<Rightarrow> string option"
  ge_show :: "string \<Rightarrow> (string \<times> string \<times> string \<times> string \<times> string) option"
  ge_parents :: "string \<Rightarrow> string option"
  ge_revparse :: "string \<Rightarrow> string option"

record commitInfo =
  ci_Hash :: string
  ci_AuthorName :: string
  ci_AuthorEmail :: string
  ci_Date :: string
  ci_Subject :: string

definition output_lines :: "string \<Rightarrow> string list" where
  "output_lines out = filter (\<lambda>l. l \<noteq> []) (map TrimSpace (SplitChar (CHR 0x0A) out))"

definition listRefs :: "git_env \<Rightarrow> string \<Rightarrow> (string \<times> string) list option" where
  "listRefs ge pre =
     map_option (\<lambda>out.
       fold (\<lambda>line refs. case SplitChar (CHR '' '') line of [name, sha] \<Rightarrow> al_put name sha refs | _ \<Rightarrow> refs)
         (output_lines out) [])
       (ge_refs ge pre)"

definition revList :: "git_env \<Rightarrow> string \<Rightarrow> string \<Rightarrow> string list option" where
  "revList ge oldSHA newSHA = map_option output_lines (ge_revlist ge oldSHA newSHA)"

text \<open>\<open>git show\<close> prints the five lines of its format.\<close>

definition getCommitInfo :: "git_env \<Rightarrow> string \<Rightarrow> commitInfo option" where
  "getCommitInfo ge sha =
     map_option (\<lambda>(h, an, ae, ad, s). \<lparr>ci_Hash = TrimSpace h, ci_AuthorName = TrimSpace an, ci_AuthorEmail = TrimSpace ae,
       ci_Date = TrimSpace ad, ci_Subject = TrimSpace s\<rparr>) (ge_show ge sha)"

definition isMergeCommit :: "git_env \<Rightarrow> string \<Rightarrow> bool" where
  "isMergeCommit ge sha = (case ge_parents ge sha of None \<Rightarrow> False | Some out \<Rightarrow> length (Fields out) > 2)"

definition derefTagToCommit :: "git_env \<Rightarrow> string \<Rightarrow> string option" where
  "derefTagToCommit ge tag = map_option TrimSpace (ge_revparse ge (tag @ ''^{commit}''))"

subsection \<open>State\<close>

record git_state =
  gs_LastSeen :: "string \<rightharpoonup> string"
  gs_SeenTags :: "string \<rightharpoonup> string"

definition empty_git :: git_state where
  "empty_git = \<lparr>gs_LastSeen = Map.empty, gs_SeenTags = Map.empty\<rparr>"

text \<open>\<open>loadState\<close> from what \<open>ReadJSON\<close> answers.\<close>

definition git_loadState :: "string + git_state option \<Rightarrow> git_state \<Rightarrow> string + git_state" where
  "git_loadState r st = (case r of Inl e \<Rightarrow> Inl e | Inr None \<Rightarrow> Inr st | Inr (Some s) \<Rightarrow> Inr s)"

definition branch_ref :: "string \<Rightarrow> string" where "branch_ref b = ''branch:'' @ b"

text \<open>\<open>seedState\<close>: whether it succeeds, and the state it leaves either way.\<close>

definition git_seedState :: "git_env \<Rightarrow> git_state \<Rightarrow> bool \<times> git_state" where
  "git_seedState ge st =
     (if gs_LastSeen st \<noteq> Map.empty \<or> gs_SeenTags st \<noteq> Map.empty then (True, st)
      else
        (case listRefs ge ''refs/heads'' of
           None \<Rightarrow> (False, st)
         | Some refs \<Rightarrow>
             (let st1 = st\<lparr>gs_LastSeen := fold (\<lambda>(n, sha) m. m(branch_ref n \<mapsto> sha)) refs (gs_LastSeen st)\<rparr>
              in case listRefs ge ''refs/tags'' of
                   None \<Rightarrow> (False, st1)
                 | Some tags \<Rightarrow> (True, st1\<lparr>gs_SeenTags := fold (\<lambda>(n, sha) m. m(n \<mapsto> sha)) tags (gs_SeenTags st1)\<rparr>))))"

subsection \<open>Collecting announcements\<close>

record announcement =
  an_branch :: string
  an_tag :: string
  an_info :: commitInfo
  an_tagUpdated :: bool
  an_isMerge :: bool
  an_link :: string

text \<open>One commit of a branch: its announcement, unless its data cannot be had.\<close>

definition add_commit :: "git_env \<Rightarrow> string \<Rightarrow> string \<Rightarrow> git_state \<times> announcement list \<Rightarrow> git_state \<times> announcement list" where
  "add_commit ge b sha s =
     (case getCommitInfo ge sha of
        None \<Rightarrow> s
      | Some ci \<Rightarrow>
          ((fst s)\<lparr>gs_LastSeen := (gs_LastSeen (fst s))(branch_ref b \<mapsto> sha)\<rparr>,
           snd s @ [\<lparr>an_branch = b, an_tag = [], an_info = ci, an_tagUpdated = False,
                     an_isMerge = isMergeCommit ge sha, an_link = []\<rparr>]))"

definition poll_branch :: "git_env \<Rightarrow> (string \<times> string) list \<Rightarrow> string \<Rightarrow> git_state \<times> announcement list \<Rightarrow>
    git_state \<times> announcement list" where
  "poll_branch ge branches b s =
     (let ref = branch_ref b;
          newSHA = (case map_of branches b of None \<Rightarrow> [] | Some x \<Rightarrow> x);
          oldSHA = (case gs_LastSeen (fst s) ref of None \<Rightarrow> [] | Some x \<Rightarrow> x)
      in if oldSHA = [] then ((fst s)\<lparr>gs_LastSeen := (gs_LastSeen (fst s))(ref \<mapsto> newSHA)\<rparr>, snd s)
         else if oldSHA = newSHA then s
         else
           (case revList ge oldSHA newSHA of
              None \<Rightarrow> s
            | Some commits \<Rightarrow> fold (add_commit ge b) commits s))"

definition poll_tag :: "git_env \<Rightarrow> (string \<times> string) list \<Rightarrow> string \<Rightarrow> git_state \<times> announcement list \<Rightarrow>
    git_state \<times> announcement list" where
  "poll_tag ge tags t s =
     (let sha = (case map_of tags t of None \<Rightarrow> [] | Some x \<Rightarrow> x); prev = gs_SeenTags (fst s) t
      in if prev = Some sha then s
         else
           (let commitSHA = (case derefTagToCommit ge t of None \<Rightarrow> sha | Some c \<Rightarrow> c);
                ans = (case getCommitInfo ge commitSHA of
                         None \<Rightarrow> snd s
                       | Some ci \<Rightarrow>
                           snd s @ [\<lparr>an_branch = [], an_tag = t, an_info = ci, an_tagUpdated = (prev \<noteq> None),
                                     an_isMerge = False, an_link = []\<rparr>])
            in ((fst s)\<lparr>gs_SeenTags := (gs_SeenTags (fst s))(t \<mapsto> commitSHA)\<rparr>, ans)))"

definition collectAnnouncements :: "git_env \<Rightarrow> git_state \<Rightarrow> git_state \<times> announcement list" where
  "collectAnnouncements ge st =
     (let s1 = (case listRefs ge ''refs/heads'' of
                  None \<Rightarrow> (st, [])
                | Some branches \<Rightarrow> fold (poll_branch ge branches) (sort (map fst branches)) (st, []));
          s2 = (case listRefs ge ''refs/tags'' of
                  None \<Rightarrow> (fst s1, [])
                | Some tags \<Rightarrow> fold (poll_tag ge tags) (sort (map fst tags)) (fst s1, []))
      in (fst s2, snd s1 @ snd s2))"

subsection \<open>Sending\<close>

definition sanitize :: "string \<Rightarrow> string" where
  "sanitize s = (if s = [] then [] else clean_space s)"

definition formatCommit :: "commitInfo \<Rightarrow> string \<Rightarrow> string" where
  "formatCommit ci link =
     (let s = sanitize (ci_Subject ci);
          s1 = (if sanitize (ci_AuthorName ci) \<noteq> [] then s @ dash @ sanitize (ci_AuthorName ci) else s)
      in if link \<noteq> [] then s1 @ dash @ link else s1)"

text \<open>\<open>resolveLinks\<close>: \<open>render\<close> is the template of the commit URL, if there is one; \<open>short\<close> what \<open>ShortenBatch\<close>
  returned, if there is a shortener.\<close>

definition rendered_links :: "(commitInfo \<Rightarrow> string option) option \<Rightarrow> announcement list \<Rightarrow> announcement list" where
  "rendered_links render ans =
     (case render of
        None \<Rightarrow> ans
      | Some tpl \<Rightarrow> map (\<lambda>a. case tpl (an_info a) of None \<Rightarrow> a | Some u \<Rightarrow> a\<lparr>an_link := u\<rparr>) ans)"

definition link_targets :: "announcement list \<Rightarrow> string list" where
  "link_targets ans =
     fold (\<lambda>a ts. if an_link a = [] \<or> an_link a \<in> set ts then ts else ts @ [an_link a]) ans []"

definition resolveLinks :: "(commitInfo \<Rightarrow> string option) option \<Rightarrow> (string list \<Rightarrow> (string \<rightharpoonup> string) \<times> string option) option \<Rightarrow>
    announcement list \<Rightarrow> announcement list" where
  "resolveLinks render shortener ans0 =
     (let ans = rendered_links render ans0
      in case shortener of
           None \<Rightarrow> ans
         | Some shorten \<Rightarrow>
             (let targets = link_targets ans
              in if targets = [] then ans
                 else map (\<lambda>a. case fst (shorten targets) (an_link a) of None \<Rightarrow> a | Some u \<Rightarrow> a\<lparr>an_link := u\<rparr>) ans))"

text \<open>The messages of a branch in batches; \<open>(batch, curLen)\<close> is the loop's state and the first component of
  the result the messages sent.\<close>

definition separator :: string where "separator = '' || ''"

fun batches :: "string \<Rightarrow> int \<Rightarrow> string list \<Rightarrow> string list \<Rightarrow> int \<Rightarrow> string list" where
  "batches prompt maxLen [] batch curLen =
     (if batch \<noteq> [] then [prompt @ Join batch separator] else [])"
| "batches prompt maxLen (am # ams) batch curLen =
     (let amLen = int (length am); sepLen = (if batch \<noteq> [] then int (length separator) else 0)
      in if curLen + sepLen + amLen \<le> maxLen
         then batches prompt maxLen ams (batch @ [am]) (curLen + (sepLen + amLen))
         else (prompt @ Join batch separator) # batches prompt maxLen ams [am] amLen)"

definition tag_message :: "string \<Rightarrow> announcement \<Rightarrow> string" where
  "tag_message name a =
     ''['' @ name @ ''] tag:'' @ an_tag a @ (if an_tagUpdated a then '' (updated)'' else []) @ dash @
     formatCommit (an_info a) (an_link a)"

definition commit_message :: "announcement \<Rightarrow> string" where
  "commit_message a = (if an_isMerge a then ''(merge) '' else []) @ formatCommit (an_info a) (an_link a)"

definition branch_messages :: "string \<Rightarrow> int \<Rightarrow> announcement list \<Rightarrow> string \<Rightarrow> string list" where
  "branch_messages name maxLength ans b =
     (let bmsgs = map commit_message (filter (\<lambda>a. an_branch a = b) ans);
          prompt = ''['' @ name @ '':'' @ b @ ''] ''
      in batches prompt (maxLength - int (length prompt)) bmsgs [] 0)"

definition sendAnnouncements :: "string \<Rightarrow> int \<Rightarrow> (commitInfo \<Rightarrow> string option) option \<Rightarrow>
    (string list \<Rightarrow> (string \<rightharpoonup> string) \<times> string option) option \<Rightarrow> announcement list \<Rightarrow> string list" where
  "sendAnnouncements name maxLength render shortener ans0 =
     (let ans = resolveLinks render shortener ans0;
          branches = sort (remdups (filter (\<lambda>b. b \<noteq> []) (map an_branch ans)))
      in map (tag_message name) (filter (\<lambda>a. an_tag a \<noteq> []) ans) @
         concat (map (branch_messages name maxLength ans) branches))"

subsection \<open>The poll loop\<close>

record git_cfg =
  gc_Name :: string
  gc_render :: "(commitInfo \<Rightarrow> string option) option"
  gc_shortener :: "(string list \<Rightarrow> (string \<rightharpoonup> string) \<times> string option) option"
  gc_max :: int

text \<open>One round: \<open>None\<close> for the environment is a failed update of the repository. The answer is the new state,
  the messages posted and whether the state is saved.\<close>

definition git_poll :: "git_cfg \<Rightarrow> git_env option \<Rightarrow> git_state \<Rightarrow> git_state \<times> string list \<times> bool" where
  "git_poll cfg env st =
     (case env of
        None \<Rightarrow> (st, [], False)
      | Some ge \<Rightarrow>
          (case collectAnnouncements ge st of
             (st', ans) \<Rightarrow>
               if ans \<noteq> [] then (st', sendAnnouncements (gc_Name cfg) (gc_max cfg) (gc_render cfg) (gc_shortener cfg) ans, True)
               else (st', [], False)))"

text \<open>\<open>Start\<close> up to the loop: whether the loop is reached, and the state saved when the monitor ends otherwise.
  \<open>clone\<close> says whether the repository is there afterwards.\<close>

definition git_start :: "string + git_state option \<Rightarrow> bool \<Rightarrow> git_env \<Rightarrow> bool \<times> git_state" where
  "git_start file clone ge =
     (case git_loadState file empty_git of
        Inl _ \<Rightarrow> (False, empty_git)
      | Inr st \<Rightarrow> if \<not> clone then (False, st) else git_seedState ge st)"

subsection \<open>Every commit once\<close>

lemma branch_ref_inj [simp]: "branch_ref a = branch_ref b \<longleftrightarrow> a = b"
  by (simp add: branch_ref_def)

lemma listRefs_nodup: "listRefs ge pre = Some refs \<Longrightarrow> nodup_keys refs"
proof -
  have "nodup_keys m \<Longrightarrow> nodup_keys (fold (\<lambda>line refs. case SplitChar (CHR '' '') line of
      [name, sha] \<Rightarrow> al_put name sha refs | _ \<Rightarrow> refs) ls m)" for ls m
    by (induction ls arbitrary: m) (auto split: list.split)
  then show "listRefs ge pre = Some refs \<Longrightarrow> nodup_keys refs" by (auto simp: listRefs_def)
qed

text \<open>The commits of a branch among announcements.\<close>

definition hashes_of :: "string \<Rightarrow> announcement list \<Rightarrow> string list" where
  "hashes_of b ans = map (ci_Hash \<circ> an_info) (filter (\<lambda>a. an_branch a = b) ans)"

lemma hashes_append [simp]: "hashes_of b (xs @ ys) = hashes_of b xs @ hashes_of b ys" "hashes_of b [] = []"
  by (simp_all add: hashes_of_def)

definition seen_at :: "string \<Rightarrow> git_state \<times> announcement list \<Rightarrow> string option \<times> string list" where
  "seen_at b s = (gs_LastSeen (fst s) (branch_ref b), hashes_of b (snd s))"

lemma seen_at_add_commit:
  "seen_at b (add_commit ge b' sha s) =
     (if b' = b \<and> getCommitInfo ge sha \<noteq> None
      then (Some sha, snd (seen_at b s) @ [ci_Hash (the (getCommitInfo ge sha))]) else seen_at b s)"
  by (auto simp: seen_at_def add_commit_def hashes_of_def split: option.split)

lemma seen_at_commits_other: "b' \<noteq> b \<Longrightarrow> seen_at b (fold (add_commit ge b') cs s) = seen_at b s"
  by (induction cs arbitrary: s) (simp_all add: seen_at_add_commit)

lemma seen_at_commits:
  "\<forall>c\<in>set cs. \<exists>ci. getCommitInfo ge c = Some ci \<and> ci_Hash ci = c \<Longrightarrow>
   seen_at b (fold (add_commit ge b) cs s) =
     ((if cs = [] then fst (seen_at b s) else Some (last cs)), snd (seen_at b s) @ cs)"
  by (induction cs arbitrary: s) (auto simp: seen_at_add_commit)

lemma seen_at_other_branch: "b' \<noteq> b \<Longrightarrow> seen_at b (poll_branch ge brs b' s) = seen_at b s"
  unfolding poll_branch_def Let_def
  by (auto simp: seen_at_commits_other split: option.split) (simp_all add: seen_at_def)

lemma seen_at_branches:
  assumes "distinct ns" and "b \<in> set ns"
    and "\<And>s. seen_at b s = x \<Longrightarrow> seen_at b (poll_branch ge brs b s) = y" and "seen_at b s = x"
  shows "seen_at b (fold (poll_branch ge brs) ns s) = y"
proof -
  have other: "seen_at b (fold (poll_branch ge brs) ns s) = seen_at b s" if "b \<notin> set ns" for ns s
    using that by (induction ns arbitrary: s) (auto simp: seen_at_other_branch)
  from assms(2) obtain us vs where ns: "ns = us @ b # vs" by (auto simp: in_set_conv_decomp)
  with assms(1) have "b \<notin> set us" "b \<notin> set vs" by auto
  then show ?thesis using assms(3,4) other by (simp add: ns)
qed

lemma seen_at_tags:
  assumes "b \<noteq> []"
  shows "seen_at b (fold (poll_tag ge tags) ts (st, xs)) = seen_at b (st, xs)"
proof -
  have "seen_at b (poll_tag ge tags t s) = seen_at b s" for t s
    using assms by (auto simp: seen_at_def poll_tag_def Let_def hashes_of_def split: option.split)
  then have "seen_at b (fold (poll_tag ge tags) ts s) = seen_at b s" for s
    by (induction ts arbitrary: s) simp_all
  then show ?thesis .
qed

text \<open>A poll in which the tip of a branch moves forward in the history \<open>anc\<close> (the commits reachable from a
  commit), and git answers as documented.\<close>

definition fast_forwards :: "(string \<Rightarrow> string set) \<Rightarrow> string \<Rightarrow> git_env \<Rightarrow> string \<Rightarrow> string \<Rightarrow> bool" where
  "fast_forwards anc b ge old new \<longleftrightarrow>
     old \<noteq> [] \<and> (\<exists>refs. listRefs ge ''refs/heads'' = Some refs \<and> map_of refs b = Some new) \<and> anc old \<subseteq> anc new \<and>
     new \<noteq> [] \<and>
     (old \<noteq> new \<longrightarrow> new \<notin> anc old \<and>
        (\<exists>cs. revList ge old new = Some cs \<and> distinct cs \<and> set cs = anc new - anc old \<and> cs \<noteq> [] \<and> last cs = new \<and>
          (\<forall>c\<in>set cs. \<exists>ci. getCommitInfo ge c = Some ci \<and> ci_Hash ci = c)))"

fun follows :: "(string \<Rightarrow> string set) \<Rightarrow> string \<Rightarrow> git_env list \<Rightarrow> string \<Rightarrow> string list \<Rightarrow> bool" where
  "follows anc b [] t ts = (ts = [])"
| "follows anc b (ge # ges) t ts = (case ts of [] \<Rightarrow> False | t' # ts' \<Rightarrow> fast_forwards anc b ge t t' \<and> follows anc b ges t' ts')"

fun git_polls :: "git_env list \<Rightarrow> git_state \<Rightarrow> git_state \<times> announcement list" where
  "git_polls [] st = (st, [])"
| "git_polls (ge # ges) st =
     (case collectAnnouncements ge st of (st1, ans) \<Rightarrow> (case git_polls ges st1 of (st2, ans') \<Rightarrow> (st2, ans @ ans')))"

lemma collect_branch:
  assumes "b \<noteq> []" and "gs_LastSeen st (branch_ref b) = Some old" and "fast_forwards anc b ge old new"
    and "collectAnnouncements ge st = (st', ans)"
  shows "gs_LastSeen st' (branch_ref b) = Some new \<and> distinct (hashes_of b ans) \<and> set (hashes_of b ans) = anc new - anc old"
proof -
  from assms(3) obtain refs where refs: "listRefs ge ''refs/heads'' = Some refs" "map_of refs b = Some new"
    by (auto simp: fast_forwards_def)
  let ?s1 = "fold (poll_branch ge refs) (sort (map fst refs)) (st, [])"
  define cs where "cs = (if old = new then [] else the (revList ge old new))"
  have cs: "distinct cs" "set cs = anc new - anc old"
    using assms(3) by (auto simp: cs_def fast_forwards_def)
  have "distinct (sort (map fst refs))" using listRefs_nodup [OF refs(1)] by (simp add: nodup_keys_def)
  moreover have "b \<in> set (sort (map fst refs))" using refs(2) by (force dest: map_of_SomeD)
  moreover have "seen_at b (poll_branch ge refs b s) = (Some new, cs)" if "seen_at b s = (Some old, [])" for s
  proof -
    from that have o: "gs_LastSeen (fst s) (branch_ref b) = Some old" by (simp add: seen_at_def)
    show ?thesis
    proof (cases "old = new")
      case True
      then show ?thesis using o that assms(3) refs(2) by (simp add: poll_branch_def Let_def cs_def fast_forwards_def)
    next
      case False
      with assms(3) have r: "revList ge old new = Some cs" "cs \<noteq> []" "last cs = new" "old \<noteq> []"
        "\<forall>c\<in>set cs. \<exists>ci. getCommitInfo ge c = Some ci \<and> ci_Hash ci = c"
        by (auto simp: fast_forwards_def cs_def)
      then show ?thesis using o that refs(2) False seen_at_commits [OF r(5), of b s] by (simp add: poll_branch_def Let_def)
    qed
  qed
  moreover have "seen_at b (st, []) = (Some old, [])" using assms(2) by (simp add: seen_at_def)
  ultimately have s1: "seen_at b ?s1 = (Some new, cs)" by (rule seen_at_branches)
  let ?s2 = "case listRefs ge ''refs/tags'' of None \<Rightarrow> (fst ?s1, [])
    | Some tags \<Rightarrow> fold (poll_tag ge tags) (sort (map fst tags)) (fst ?s1, [])"
  have "seen_at b ?s2 = seen_at b (fst ?s1, [])"
    using seen_at_tags [OF assms(1)] by (auto split: option.split)
  then have "gs_LastSeen (fst ?s2) (branch_ref b) = Some new" "hashes_of b (snd ?s1 @ snd ?s2) = cs"
    using s1 by (simp_all add: seen_at_def)
  moreover have "st' = fst ?s2" "ans = snd ?s1 @ snd ?s2"
    using assms(4) refs(1) by (simp_all add: collectAnnouncements_def Let_def)
  ultimately show ?thesis using cs by simp
qed

text \<open>C3: Over any number of polls in which a branch moves forward, each commit that is new on it is announced
  exactly once and no other commit is, and the state ends at the last tip.\<close>

theorem commits_are_announced_once:
  assumes "b \<noteq> []" and "gs_LastSeen st (branch_ref b) = Some t" and "follows anc b ges t ts"
    and "git_polls ges st = (st', ans)"
  shows "distinct (hashes_of b ans) \<and> set (hashes_of b ans) = anc (last (t # ts)) - anc t \<and>
    gs_LastSeen st' (branch_ref b) = Some (last (t # ts)) \<and> anc t \<subseteq> anc (last (t # ts))"
  using assms(2-4)
proof (induction ges arbitrary: st t ts st' ans)
  case Nil
  then show ?case by simp
next
  case (Cons ge ges)
  from Cons.prems(2) obtain t' ts' where ts: "ts = t' # ts'" and ff: "fast_forwards anc b ge t t'" and fo: "follows anc b ges t' ts'"
    by (cases ts) auto
  obtain st1 ans1 where c: "collectAnnouncements ge st = (st1, ans1)" by fastforce
  obtain st2 ans2 where g: "git_polls ges st1 = (st2, ans2)" by fastforce
  from collect_branch [OF assms(1) Cons.prems(1) ff c] have
    1: "gs_LastSeen st1 (branch_ref b) = Some t'" "distinct (hashes_of b ans1)" "set (hashes_of b ans1) = anc t' - anc t"
    by auto
  note 2 = Cons.IH [OF 1(1) fo g]
  have "anc t \<subseteq> anc t'" using ff by (simp add: fast_forwards_def)
  moreover have "ans = ans1 @ ans2" "st' = st2" using Cons.prems(3) c g by simp_all
  ultimately show ?case using 1 2 ts by auto
qed

subsection \<open>Restarts\<close>

text \<open>A state that knows what the refs of a repository point to.\<close>

definition settled :: "git_env \<Rightarrow> git_state \<Rightarrow> bool" where
  "settled ge st \<longleftrightarrow>
     (\<forall>refs b sha. listRefs ge ''refs/heads'' = Some refs \<longrightarrow> map_of refs b = Some sha \<longrightarrow>
        sha \<noteq> [] \<longrightarrow> gs_LastSeen st (branch_ref b) = Some sha) \<and>
     (\<forall>refs b. listRefs ge ''refs/heads'' = Some refs \<longrightarrow> map_of refs b \<noteq> Some []) \<and>
     (\<forall>tags t sha. listRefs ge ''refs/tags'' = Some tags \<longrightarrow> map_of tags t = Some sha \<longrightarrow> gs_SeenTags st t = Some sha)"

lemma fold_fixed: "(\<And>x. x \<in> set xs \<Longrightarrow> f x s = s) \<Longrightarrow> fold f xs s = s"
  by (induction xs) auto

lemma settled_silent:
  assumes "settled ge st"
  shows "collectAnnouncements ge st = (st, [])"
proof -
  have b: "fold (poll_branch ge refs) (sort (map fst refs)) (st, []) = (st, [])"
    if "listRefs ge ''refs/heads'' = Some refs" for refs
  proof (rule fold_fixed)
    fix b assume "b \<in> set (sort (map fst refs))"
    then obtain sha where "map_of refs b = Some sha" by (cases "map_of refs b") (auto simp: map_of_eq_None_iff)
    moreover from this that assms have "sha \<noteq> []" "gs_LastSeen st (branch_ref b) = Some sha"
      unfolding settled_def by auto
    ultimately show "poll_branch ge refs b (st, []) = (st, [])" by (simp add: poll_branch_def)
  qed
  have t: "fold (poll_tag ge tags) (sort (map fst tags)) (st, []) = (st, [])"
    if "listRefs ge ''refs/tags'' = Some tags" for tags
  proof (rule fold_fixed)
    fix t assume "t \<in> set (sort (map fst tags))"
    then obtain sha where "map_of tags t = Some sha" by (cases "map_of tags t") (auto simp: map_of_eq_None_iff)
    moreover from this that assms have "gs_SeenTags st t = Some sha" unfolding settled_def by auto
    ultimately show "poll_tag ge tags t (st, []) = (st, [])" by (simp add: poll_tag_def)
  qed
  show ?thesis using b t by (simp add: collectAnnouncements_def Let_def split: option.split)
qed

lemma fold_put_map:
  "distinct (map f (map fst xs)) \<Longrightarrow> map_of xs k = Some v \<Longrightarrow> fold (\<lambda>(n, x) m. m(f n \<mapsto> x)) xs m (f k) = Some v"
proof (induction xs arbitrary: m)
  case (Cons y ys)
  have keep: "fold (\<lambda>(n, x) m. m(f n \<mapsto> x)) ys m a = m a" if "a \<notin> f ` fst ` set ys" for m a
    using that by (induction ys arbitrary: m) auto
  obtain n x where y: "y = (n, x)" by (cases y)
  show ?case
  proof (cases "n = k")
    case True
    then have "f k \<notin> f ` fst ` set ys" using Cons.prems(1) y by auto
    from keep [OF this] have "fold (\<lambda>(n, x) m. m(f n \<mapsto> x)) ys (m(f k \<mapsto> x)) (f k) = (m(f k \<mapsto> x)) (f k)" .
    also have "\<dots> = Some v" using True Cons.prems(2) y by simp
    finally show ?thesis by (simp only: fold_simps y prod.case True)
  next
    case False
    then show ?thesis using Cons y by auto
  qed
qed simp

text \<open>After the state of a new monitor has been seeded, polling the unchanged repository announces nothing,
  posts nothing and writes nothing, whatever branches and tags there are.\<close>

theorem seeded_monitor_is_silent:
  assumes "git_start (Inr None) True ge = (True, st)"
    and "\<forall>refs b. listRefs ge ''refs/heads'' = Some refs \<longrightarrow> map_of refs b \<noteq> Some []"
  shows "git_poll cfg (Some ge) st = (st, [], False)"
proof -
  have "git_seedState ge empty_git = (True, st)" using assms(1) by (simp add: git_start_def git_loadState_def)
  then obtain refs tags where r: "listRefs ge ''refs/heads'' = Some refs" "listRefs ge ''refs/tags'' = Some tags"
    "gs_LastSeen st = fold (\<lambda>(n, sha) m. m(branch_ref n \<mapsto> sha)) refs Map.empty"
    "gs_SeenTags st = fold (\<lambda>(n, sha) m. m(n \<mapsto> sha)) tags Map.empty"
    by (auto simp: git_seedState_def empty_git_def Let_def split: option.splits)
  have d: "distinct (map branch_ref (map fst refs))" "distinct (map (\<lambda>n. n) (map fst tags))"
    using listRefs_nodup [OF r(1)] listRefs_nodup [OF r(2)]
    by (simp_all add: nodup_keys_def distinct_map inj_on_def del: map_map)
  have "settled ge st"
    unfolding settled_def using r assms(2) fold_put_map [OF d(1)] fold_put_map [OF d(2)] by auto
  then show ?thesis by (simp add: git_poll_def settled_silent)
qed

text \<open>A tag object is announced again, as updated, by every poll: the state holds its commit, the refs the tag
  object.\<close>

lemma tag_object_repeats:
  assumes "map_of tags t = Some sha" and "gs_SeenTags st t \<noteq> Some sha" and "derefTagToCommit ge t = Some c" and "c \<noteq> sha"
    and "getCommitInfo ge c = Some ci"
  shows "let s1 = poll_tag ge tags t (st, []) in
    \<exists>a. snd (poll_tag ge tags t (fst s1, [])) = [a] \<and> an_tag a = t \<and> an_tagUpdated a"
  using assms by (auto simp: poll_tag_def Let_def)

subsection \<open>Batches\<close>

lemma batches_parts:
  assumes "curLen = int (length (Join batch separator))" and "length batch \<le> 1 \<or> curLen \<le> maxLen"
  shows "\<exists>parts. concat parts = batch @ ams \<and>
    batches prompt maxLen ams batch curLen = map (\<lambda>p. prompt @ Join p separator) parts \<and>
    list_all (\<lambda>p. length p \<le> 1 \<or> int (length (Join p separator)) \<le> maxLen) parts"
  using assms
proof (induction ams arbitrary: batch curLen)
  case Nil
  then show ?case
    by (cases "batch = []") (auto intro: exI [of _ "[]"] exI [of _ "[batch]"])
next
  case (Cons am ams)
  let ?sep = "if batch \<noteq> [] then int (length separator) else 0"
  show ?case
  proof (cases "curLen + ?sep + int (length am) \<le> maxLen")
    case True
    have "curLen + (?sep + int (length am)) = int (length (Join (batch @ [am]) separator))"
      using Cons.prems(1) by (cases "batch = []") (simp_all add: Join_snoc)
    moreover from this True have "length (batch @ [am]) \<le> 1 \<or> curLen + (?sep + int (length am)) \<le> maxLen" by simp
    ultimately obtain parts where "concat parts = (batch @ [am]) @ ams"
      "batches prompt maxLen ams (batch @ [am]) (curLen + (?sep + int (length am))) = map (\<lambda>p. prompt @ Join p separator) parts"
      "list_all (\<lambda>p. length p \<le> 1 \<or> int (length (Join p separator)) \<le> maxLen) parts"
      using Cons.IH by blast
    then show ?thesis using True by (intro exI [of _ parts]) (simp add: Let_def)
  next
    case False
    obtain parts where "concat parts = [am] @ ams"
      "batches prompt maxLen ams [am] (int (length am)) = map (\<lambda>p. prompt @ Join p separator) parts"
      "list_all (\<lambda>p. length p \<le> 1 \<or> int (length (Join p separator)) \<le> maxLen) parts"
      using Cons.IH [of "int (length am)" "[am]"] by auto
    then show ?thesis using False Cons.prems by (intro exI [of _ "batch # parts"]) (auto simp: Let_def)
  qed
qed

text \<open>The messages of a branch carry all its commits in order, each once; a message is within the poster's
  limit unless it carries a single commit.\<close>

theorem announcements_fit:
  "\<exists>parts. concat parts = map commit_message (filter (\<lambda>a. an_branch a = b) ans) \<and>
    branch_messages name maxLength ans b = map (\<lambda>p. ''['' @ name @ '':'' @ b @ ''] '' @ Join p separator) parts \<and>
    list_all (\<lambda>p. length p \<le> 1 \<or> int (length (''['' @ name @ '':'' @ b @ ''] '' @ Join p separator)) \<le> maxLength) parts"
proof -
  let ?prompt = "''['' @ name @ '':'' @ b @ ''] ''"
  obtain parts where p: "concat parts = [] @ map commit_message (filter (\<lambda>a. an_branch a = b) ans)"
    "batches ?prompt (maxLength - int (length ?prompt)) (map commit_message (filter (\<lambda>a. an_branch a = b) ans)) [] 0 =
       map (\<lambda>p. ?prompt @ Join p separator) parts"
    "list_all (\<lambda>p. length p \<le> 1 \<or> int (length (Join p separator)) \<le> maxLength - int (length ?prompt)) parts"
    using batches_parts [where curLen = 0 and batch = "[]" and prompt = ?prompt and maxLen = "maxLength - int (length ?prompt)"
      and ams = "map commit_message (filter (\<lambda>a. an_branch a = b) ans)"] by auto
  from p(3) have "list_all (\<lambda>p. length p \<le> 1 \<or> int (length (?prompt @ Join p separator)) \<le> maxLength) parts"
    by (rule list.pred_mono_strong) auto
  with p show ?thesis by (intro exI [of _ parts]) (simp add: branch_messages_def Let_def)
qed

text \<open>A first commit that does not fit is preceded by a message without any.\<close>

lemma first_batch_may_be_empty:
  "maxLen < int (length am) \<Longrightarrow> batches prompt maxLen [am] [] 0 = [prompt, prompt @ am]"
  by simp

subsection \<open>Examples\<close>

definition ex_git :: git_env where
  "ex_git = \<lparr>ge_refs = (\<lambda>pre. Some (if pre = ''refs/heads'' then ''main b'' @ [CHR 0x0A] else [])),
     ge_revlist = (\<lambda>old new. Some (''x'' @ [CHR 0x0A] @ ''b'' @ [CHR 0x0A])),
     ge_show = (\<lambda>sha. Some (sha, ''joe'', ''joe@x'', ''now'', ''fix'')), ge_parents = (\<lambda>sha. Some sha),
     ge_revparse = (\<lambda>t. None)\<rparr>"

definition ex_history :: "string \<Rightarrow> string set" where
  "ex_history c = (if c = ''b'' then {''a'', ''x'', ''b''} else {c})"

theorem commits_are_announced_once_example:
  "set (hashes_of ''main'' (snd (git_polls [ex_git, ex_git] (empty_git\<lparr>gs_LastSeen := [branch_ref ''main'' \<mapsto> ''a'']\<rparr>)))) =
     {''x'', ''b''}"
proof -
  let ?st = "empty_git\<lparr>gs_LastSeen := [branch_ref ''main'' \<mapsto> ''a'']\<rparr>"
  have refs: "listRefs ex_git ''refs/heads'' = Some [(''main'', ''b'')]" by code_simp
  have rev: "revList ex_git old new = Some [''x'', ''b'']" for old new
  proof -
    have "output_lines (''x'' @ [CHR 0x0A] @ ''b'' @ [CHR 0x0A]) = [''x'', ''b'']" by code_simp
    then show ?thesis by (simp add: revList_def ex_git_def)
  qed
  have ci: "getCommitInfo ex_git ''x'' = Some (the (getCommitInfo ex_git ''x''))" "ci_Hash (the (getCommitInfo ex_git ''x'')) = ''x''"
    "getCommitInfo ex_git ''b'' = Some (the (getCommitInfo ex_git ''b''))" "ci_Hash (the (getCommitInfo ex_git ''b'')) = ''b''"
    by (simp add: getCommitInfo_def ex_git_def, code_simp, simp add: getCommitInfo_def ex_git_def, code_simp)
  have 1: "fast_forwards ex_history ''main'' ex_git ''a'' ''b''"
    unfolding fast_forwards_def using refs rev ci by (auto simp: ex_history_def)
  have 2: "fast_forwards ex_history ''main'' ex_git ''b'' ''b''"
    unfolding fast_forwards_def using refs by (auto simp: ex_history_def)
  obtain st' ans where g: "git_polls [ex_git, ex_git] ?st = (st', ans)" by fastforce
  have "set (hashes_of ''main'' ans) = ex_history ''b'' - ex_history ''a''"
    using commits_are_announced_once [OF _ _ _ g, of "''main''" "''a''" ex_history "[''b'', ''b'']"] 1 2 by simp
  then show ?thesis unfolding g by (auto simp: ex_history_def)
qed

theorem seeded_monitor_is_silent_example:
  "git_poll \<lparr>gc_Name = ''r'', gc_render = None, gc_shortener = None, gc_max = 400\<rparr> (Some ex_git)
     (snd (git_start (Inr None) True ex_git)) = (snd (git_start (Inr None) True ex_git), [], False)"
proof (rule seeded_monitor_is_silent)
  have refs: "listRefs ex_git ''refs/heads'' = Some [(''main'', ''b'')]" by code_simp
  have tags: "listRefs ex_git ''refs/tags'' = Some []" by code_simp
  show "git_start (Inr None) True ex_git = (True, snd (git_start (Inr None) True ex_git))"
    by (simp add: git_start_def git_loadState_def git_seedState_def empty_git_def refs tags)
  show "\<forall>refs b. listRefs ex_git ''refs/heads'' = Some refs \<longrightarrow> map_of refs b \<noteq> Some []"
    by (simp add: refs)
qed

end
