(* ===== verification/JenkinsMonitor.thy ===== *)
theory JenkinsMonitor
  imports MonLib
begin

text \<open>
  The Jenkins monitor: \<open>jenkins-monitor/monitor.go\<close> and the decoding part of \<open>jenkins.go\<close>. What the Jenkins
  API answers is a parameter. The messages posted and the history lines of a round are kept in the state,
  in order; the code does not look at the answer of the poster.
\<close>

subsection \<open>The client\<close>

datatype jenkins_error = NotFound | OtherError string

record jenkinsBuild =
  jb_Number :: int
  jb_Result :: string
  jb_Timestamp :: int
  jb_URL :: string

record jenkinsNode =
  jn_DisplayName :: string
  jn_Offline :: bool
  jn_OfflineCauseReason :: string

record jenkinsQueueItem =
  jq_ID :: int
  jq_Why :: string
  jq_Stuck :: bool
  jq_Blocked :: bool
  jq_InQueueSince :: int
  jq_Task :: string

text \<open>\<open>get\<close>: a request that fails, or its status, body and decoding.\<close>

definition jenkins_get :: "string + int \<times> (string + 'a) \<times> string \<Rightarrow> jenkins_error + 'a" where
  "jenkins_get r =
     (case r of
        Inl e \<Rightarrow> Inl (OtherError e)
      | Inr (status, decoded, body) \<Rightarrow>
          if status = 404 then Inl NotFound
          else if quot status 100 \<noteq> 2 then
            Inl (OtherError (''jenkins: http status '' @ itoa status @ '': '' @ TrimSpace (take 512 body)))
          else (case decoded of Inl e \<Rightarrow> Inl (OtherError e) | Inr v \<Rightarrow> Inr v))"

text \<open>\<open>build\<close>: an answer without a number gets the one asked for.\<close>

definition jenkins_build :: "(int \<Rightarrow> jenkins_error + jenkinsBuild) \<Rightarrow> int \<Rightarrow> jenkins_error + jenkinsBuild" where
  "jenkins_build get number =
     (case get number of
        Inl e \<Rightarrow> Inl e
      | Inr b \<Rightarrow> Inr (if jb_Number b = 0 then b\<lparr>jb_Number := number\<rparr> else b))"

record jenkins_env =
  je_now :: instant
  je_last :: "string \<Rightarrow> jenkins_error + jenkinsBuild option"
  je_build :: "string \<Rightarrow> int \<Rightarrow> jenkins_error + jenkinsBuild"
  je_computers :: "jenkins_error + jenkinsNode list"
  je_queue :: "jenkins_error + jenkinsQueueItem list"
  je_shorten :: "(string \<Rightarrow> string + string) option"

record ConfigJenkins =
  cj_Name :: string
  cj_Jobs :: "string list"
  cj_Nodes :: "string list"
  cj_QueueStuckAfter :: int

definition nodeWanted :: "ConfigJenkins \<Rightarrow> string \<Rightarrow> bool" where
  "nodeWanted cfg n \<longleftrightarrow> list_ex (\<lambda>x. EqualFold x n) (cj_Nodes cfg)"

subsection \<open>State\<close>

definition stateOK :: string where "stateOK = ''ok''"
definition stateFailed :: string where "stateFailed = ''failed''"
definition stateUnknown :: string where "stateUnknown = ''unknown''"
definition stateVersion :: int where "stateVersion = 1"
definition maxNewBuilds :: int where "maxNewBuilds = 20"
definition defaultQueueStuckAfter :: int where "defaultQueueStuckAfter = 300"

record jobState =
  js_State :: string
  js_LastResult :: string
  js_LastBuild :: int
  js_Announced :: int
  js_Consecutive :: int
  js_LastURL :: string
  js_LastSeen :: int
  js_StuckItemID :: int
  js_StuckSince :: int
  js_StuckWhy :: string

record nodeState =
  ns_Offline :: bool
  ns_Reason :: string
  ns_Seen :: int

definition new_job :: jobState where
  "new_job = \<lparr>js_State = stateUnknown, js_LastResult = [], js_LastBuild = 0, js_Announced = 0, js_Consecutive = 0,
     js_LastURL = [], js_LastSeen = 0, js_StuckItemID = 0, js_StuckSince = 0, js_StuckWhy = []\<rparr>"

text \<open>History lines, less their timestamps.\<close>

datatype historyLine =
    JobLine string string string int string
  | NodeLine string bool string
  | QueueStuck string string int
  | QueueCleared string int

record Monitor =
  mo_Jobs :: "string \<rightharpoonup> jobState"
  mo_Nodes :: "string \<rightharpoonup> nodeState"
  mo_firstPoll :: bool
  mo_history :: "historyLine list"
  mo_posts :: "string list"

definition NewMonitor :: Monitor where
  "NewMonitor = \<lparr>mo_Jobs = Map.empty, mo_Nodes = Map.empty, mo_firstPoll = True, mo_history = [], mo_posts = []\<rparr>"

definition job_history :: "string \<Rightarrow> jobState \<Rightarrow> historyLine" where
  "job_history name st = JobLine name (js_State st) (js_LastResult st) (js_LastBuild st) (js_LastURL st)"

definition node_history :: "string \<Rightarrow> nodeState \<Rightarrow> historyLine" where
  "node_history name st = NodeLine name (ns_Offline st) (ns_Reason st)"

definition logHistory :: "historyLine \<Rightarrow> Monitor \<Rightarrow> Monitor" where
  "logHistory h m = m\<lparr>mo_history := mo_history m @ [h]\<rparr>"

definition announce :: "ConfigJenkins \<Rightarrow> string \<Rightarrow> Monitor \<Rightarrow> Monitor" where
  "announce cfg text m = m\<lparr>mo_posts := mo_posts m @ [''['' @ cj_Name cfg @ ''] '' @ text]\<rparr>"

definition put_job :: "string \<Rightarrow> jobState \<Rightarrow> Monitor \<Rightarrow> Monitor" where
  "put_job name st m = m\<lparr>mo_Jobs := (mo_Jobs m)(name \<mapsto> st)\<rparr>"

definition put_node :: "string \<Rightarrow> nodeState \<Rightarrow> Monitor \<Rightarrow> Monitor" where
  "put_node name st m = m\<lparr>mo_Nodes := (mo_Nodes m)(name \<mapsto> st)\<rparr>"

subsection \<open>Texts\<close>

definition shortenURL :: "jenkins_env \<Rightarrow> string \<Rightarrow> string" where
  "shortenURL env target =
     (case je_shorten env of
        None \<Rightarrow> target
      | Some sh \<Rightarrow> if target = [] then target else (case sh target of Inl _ \<Rightarrow> target | Inr u \<Rightarrow> u))"

definition failText :: "jenkins_env \<Rightarrow> string \<Rightarrow> jenkinsBuild \<Rightarrow> int \<Rightarrow> string" where
  "failText env job b consecutive =
     TrimSpace (job @ '' FAILED: build #'' @ itoa (jb_Number b) @
       (if jb_Result b = ''UNSTABLE'' then '' (UNSTABLE)'' else []) @
       (if consecutive > 1 then '' ('' @ itoa consecutive @ '' consecutive failures)'' else []) @ '' '' @
       shortenURL env (jb_URL b))"

definition recoverText :: "jenkins_env \<Rightarrow> string \<Rightarrow> jenkinsBuild \<Rightarrow> int \<Rightarrow> string" where
  "recoverText env job b after =
     job @ '' RECOVERED: build #'' @ itoa (jb_Number b) @ '' SUCCESS after '' @ itoa after @ '' failed builds '' @
     shortenURL env (jb_URL b)"

definition nodeText :: "string \<Rightarrow> bool \<Rightarrow> string \<Rightarrow> string" where
  "nodeText name offline reason =
     ''executor '' @ [CHR 0x60] @ name @ [CHR 0x60] @ '' '' @
     (if offline then ''OFFLINE'' @ (if reason \<noteq> [] then '': '' @ reason else []) else ''back ONLINE'')"

definition queueAge :: "int \<Rightarrow> string" where
  "queueAge age =
     (if age < 60 * second then ''<1m''
      else if age < 3600 * second then itoa (quot age (60 * second)) @ ''m''
      else
        (let h = quot age (3600 * second); m = quot age (60 * second) mod 60
         in if m = 0 then itoa h @ ''h'' else itoa h @ ''h'' @ itoa m @ ''m''))"

definition queueText :: "string \<Rightarrow> string \<Rightarrow> string \<Rightarrow> int \<Rightarrow> string" where
  "queueText job verb why age =
     job @ '' '' @ verb @ (if why \<noteq> [] then '': '' @ Join (Fields why) '' '' else []) @
     (if age > 0 then '' (since '' @ queueAge age @ '' ago)'' else [])"

subsection \<open>Jobs\<close>

definition failed_result :: "string \<Rightarrow> bool" where
  "failed_result r \<longleftrightarrow> r = ''FAILURE'' \<or> r = ''UNSTABLE''"

definition collapseCurrent :: "jenkins_env \<Rightarrow> ConfigJenkins \<Rightarrow> string \<Rightarrow> jenkinsBuild \<Rightarrow> jobState \<times> Monitor \<Rightarrow> jobState \<times> Monitor" where
  "collapseCurrent env cfg job cur s =
     (case s of
        (st, m) \<Rightarrow>
          (let (st1, m1) =
             (if failed_result (jb_Result cur) then
                (let c = js_Consecutive st + 1
                 in (st\<lparr>js_Consecutive := c, js_State := stateFailed, js_Announced := jb_Number cur\<rparr>,
                     announce cfg (failText env job cur c) m))
              else if jb_Result cur = ''SUCCESS'' then (st\<lparr>js_State := stateOK, js_Consecutive := 0\<rparr>, m)
              else (st, m))
           in (st1\<lparr>js_LastResult := jb_Result cur, js_LastBuild := jb_Number cur, js_LastURL := jb_URL cur\<rparr>, m1)))"

definition processBuild :: "jenkins_env \<Rightarrow> ConfigJenkins \<Rightarrow> string \<Rightarrow> jenkinsBuild \<Rightarrow> jobState \<times> Monitor \<Rightarrow> jobState \<times> Monitor" where
  "processBuild env cfg job b s =
     (case s of
        (st, m) \<Rightarrow>
          if jb_Result b = ''SUCCESS'' then
            (st\<lparr>js_State := stateOK, js_Consecutive := 0, js_LastResult := jb_Result b, js_LastURL := jb_URL b\<rparr>,
             if js_State st = stateFailed then announce cfg (recoverText env job b (js_Consecutive st)) m else m)
          else if failed_result (jb_Result b) then
            (let c = js_Consecutive st + 1
             in (st\<lparr>js_Consecutive := c, js_State := stateFailed, js_Announced := jb_Number b,
                    js_LastResult := jb_Result b, js_LastURL := jb_URL b\<rparr>,
                 announce cfg (failText env job b c) m))
          else (st, m))"

text \<open>The loop over the builds \<open>ns\<close>: whether it ends without an error, and what it leaves.\<close>

fun build_loop :: "jenkins_env \<Rightarrow> ConfigJenkins \<Rightarrow> string \<Rightarrow> int list \<Rightarrow> jobState \<times> Monitor \<Rightarrow> bool \<times> jobState \<times> Monitor" where
  "build_loop env cfg job [] s = (True, s)"
| "build_loop env cfg job (n # ns) s =
     (case jenkins_build (je_build env job) n of
        Inl NotFound \<Rightarrow> build_loop env cfg job ns s
      | Inl (OtherError e) \<Rightarrow> (False, s)
      | Inr b \<Rightarrow> build_loop env cfg job ns (processBuild env cfg job b s))"

definition pollJob :: "jenkins_env \<Rightarrow> ConfigJenkins \<Rightarrow> string \<Rightarrow> Monitor \<Rightarrow> bool \<times> Monitor" where
  "pollJob env cfg name m =
     (case je_last env name of
        Inl _ \<Rightarrow> (False, m)
      | Inr None \<Rightarrow> (True, m)
      | Inr (Some cur) \<Rightarrow>
          (let st0 = (case mo_Jobs m name of None \<Rightarrow> new_job | Some st \<Rightarrow> st);
               st = st0\<lparr>js_LastSeen := je_now env div second\<rparr>;
               finish = (\<lambda>(st, m). logHistory (job_history name st) (put_job name st m))
           in if js_LastBuild st = jb_Number cur then (True, finish (st, m))
              else if mo_firstPoll m \<or> js_LastBuild st = 0 \<or> jb_Number cur - js_LastBuild st > maxNewBuilds
              then (True, finish (collapseCurrent env cfg name cur (st, m)))
              else
                (case build_loop env cfg name [js_LastBuild st + 1..jb_Number cur] (st, m) of
                   (False, st1, m1) \<Rightarrow> (False, put_job name st1 m1)
                 | (True, st1, m1) \<Rightarrow> (True, finish (st1\<lparr>js_LastBuild := jb_Number cur\<rparr>, m1)))))"

subsection \<open>Nodes\<close>

definition poll_node :: "jenkins_env \<Rightarrow> ConfigJenkins \<Rightarrow> jenkinsNode \<Rightarrow> Monitor \<Rightarrow> Monitor" where
  "poll_node env cfg n m =
     (let name = jn_DisplayName n; reason = jn_OfflineCauseReason n; now = je_now env div second
      in if \<not> nodeWanted cfg name then m
         else
           (case mo_Nodes m name of
              None \<Rightarrow>
                (let st = \<lparr>ns_Offline = jn_Offline n, ns_Reason = reason, ns_Seen = now\<rparr>; m1 = put_node name st m
                 in if jn_Offline n then logHistory (node_history name st) (announce cfg (nodeText name True reason) m1)
                    else m1)
            | Some st \<Rightarrow>
                if ns_Offline st \<and> \<not> jn_Offline n then
                  (let st1 = \<lparr>ns_Offline = False, ns_Reason = [], ns_Seen = now\<rparr>
                   in logHistory (node_history name st1) (announce cfg (nodeText name False []) (put_node name st1 m)))
                else if \<not> ns_Offline st \<and> jn_Offline n then
                  (let st1 = \<lparr>ns_Offline = True, ns_Reason = reason, ns_Seen = now\<rparr>
                   in logHistory (node_history name st1) (announce cfg (nodeText name True reason) (put_node name st1 m)))
                else put_node name (st\<lparr>ns_Seen := now\<rparr>) m))"

definition pollNodes :: "jenkins_env \<Rightarrow> ConfigJenkins \<Rightarrow> Monitor \<Rightarrow> bool \<times> Monitor" where
  "pollNodes env cfg m =
     (if cj_Nodes cfg = [] then (True, m)
      else
        (case je_computers env of
           Inl _ \<Rightarrow> (False, m)
         | Inr computers \<Rightarrow>
             (let m1 = fold (poll_node env cfg) computers m;
                  seen = set (filter (nodeWanted cfg) (map jn_DisplayName computers))
              in (True, m1\<lparr>mo_Nodes := (\<lambda>n. if n \<notin> seen \<and> \<not> nodeWanted cfg n then None else mo_Nodes m1 n)\<rparr>))))"

subsection \<open>The queue\<close>

definition clear_stuck :: "jobState \<Rightarrow> jobState" where
  "clear_stuck st = st\<lparr>js_StuckItemID := 0, js_StuckSince := 0, js_StuckWhy := []\<rparr>"

definition millisecond :: int where "millisecond = 10 ^ 6"

definition stuck_threshold :: "ConfigJenkins \<Rightarrow> int" where
  "stuck_threshold cfg =
     (if cj_QueueStuckAfter cfg \<le> 0 then defaultQueueStuckAfter else cj_QueueStuckAfter cfg) * second"

text \<open>One job of \<open>pollQueue\<close>; \<open>item\<close> is its item in the queue, the last one listed.\<close>

definition poll_queue_job :: "jenkins_env \<Rightarrow> ConfigJenkins \<Rightarrow> (string \<rightharpoonup> jenkinsQueueItem) \<Rightarrow> string \<Rightarrow> Monitor \<Rightarrow> Monitor" where
  "poll_queue_job env cfg byJob name m =
     (let st = (case mo_Jobs m name of None \<Rightarrow> new_job | Some st \<Rightarrow> st); m1 = put_job name st m
      in case byJob name of
           None \<Rightarrow>
             if js_StuckItemID st \<noteq> 0 then
               (let age = je_now env - js_StuckSince st * millisecond
                in put_job name (clear_stuck st)
                     (logHistory (QueueCleared name (quot age millisecond))
                       (announce cfg (queueText name ''queue cleared'' [] age) m1)))
             else m1
         | Some item \<Rightarrow>
             if jq_Blocked item then (if js_StuckItemID st \<noteq> 0 then put_job name (clear_stuck st) m1 else m1)
             else if js_StuckItemID st = jq_ID item then m1
             else
               (let age0 = je_now env - jq_InQueueSince item * millisecond; age = (if age0 < 0 then 0 else age0)
                in if jq_Stuck item \<or> age \<ge> stuck_threshold cfg then
                     put_job name
                       (st\<lparr>js_StuckItemID := jq_ID item, js_StuckSince := jq_InQueueSince item, js_StuckWhy := jq_Why item\<rparr>)
                       (logHistory (QueueStuck name (jq_Why item) (quot age millisecond))
                         (announce cfg (queueText name ''STUCK in queue'' (jq_Why item) age) m1))
                   else m1))"

definition pollQueue :: "jenkins_env \<Rightarrow> ConfigJenkins \<Rightarrow> Monitor \<Rightarrow> bool \<times> Monitor" where
  "pollQueue env cfg m =
     (case je_queue env of
        Inl _ \<Rightarrow> (False, m)
      | Inr items \<Rightarrow>
          (let byJob = fold (\<lambda>it m. m(jq_Task it \<mapsto> it)) items Map.empty
           in (True, fold (poll_queue_job env cfg byJob) (cj_Jobs cfg) m)))"

subsection \<open>A round\<close>

fun poll_jobs :: "jenkins_env \<Rightarrow> ConfigJenkins \<Rightarrow> string list \<Rightarrow> bool \<times> Monitor \<Rightarrow> bool \<times> Monitor" where
  "poll_jobs env cfg [] s = s"
| "poll_jobs env cfg (n # ns) (ok, m) =
     (case pollJob env cfg n m of (ok1, m1) \<Rightarrow> poll_jobs env cfg ns (ok \<and> ok1, m1))"

text \<open>\<open>poll\<close>: the new state and whether it was saved, with the history flushed.\<close>

definition poll :: "jenkins_env \<Rightarrow> ConfigJenkins \<Rightarrow> Monitor \<Rightarrow> bool \<times> Monitor" where
  "poll env cfg m =
     (case poll_jobs env cfg (cj_Jobs cfg) (True, m) of
        (ok1, m1) \<Rightarrow>
          (case pollNodes env cfg m1 of
             (ok2, m2) \<Rightarrow>
               (case pollQueue env cfg m2 of
                  (ok3, m3) \<Rightarrow>
                    if \<not> (ok1 \<and> ok2 \<and> ok3) then (False, m3)
                    else (True, m3\<lparr>mo_firstPoll := False, mo_history := []\<rparr>))))"

text \<open>\<open>loadState\<close> from what \<open>ReadJSON\<close> answers: version, jobs and nodes.\<close>

definition loadState :: "string + (int \<times> (string \<rightharpoonup> jobState) \<times> (string \<rightharpoonup> nodeState)) option \<Rightarrow> Monitor \<Rightarrow> Monitor" where
  "loadState r m =
     (case r of
        Inr (Some (v, jobs, nodes)) \<Rightarrow> if v \<noteq> stateVersion then m else m\<lparr>mo_Jobs := jobs, mo_Nodes := nodes\<rparr>
      | _ \<Rightarrow> m)"

subsection \<open>Any grouping of the builds into polls\<close>

text \<open>What the announcements and the verdict of a job depend on.\<close>

definition job_view :: "jobState \<times> Monitor \<Rightarrow> string \<times> int \<times> int \<times> string \<times> string \<times> string list" where
  "job_view s = (case s of (st, m) \<Rightarrow>
     (js_State st, js_Consecutive st, js_Announced st, js_LastResult st, js_LastURL st, mo_posts m))"

lemma text_shorten:
  "je_shorten env = je_shorten env' \<Longrightarrow> failText env = failText env'"
  "je_shorten env = je_shorten env' \<Longrightarrow> recoverText env = recoverText env'"
  by (simp_all add: fun_eq_iff failText_def recoverText_def shortenURL_def)

lemma processBuild_view:
  assumes "job_view s = job_view s'" and "je_shorten env = je_shorten env'"
  shows "job_view (processBuild env cfg job b s) = job_view (processBuild env' cfg job b s')"
  using assms(1)
  by (cases s; cases s') (simp add: job_view_def processBuild_def announce_def Let_def text_shorten[OF assms(2)])

lemma fold_processBuild_view:
  assumes "job_view s = job_view s'" and "je_shorten env = je_shorten env'"
  shows "job_view (fold (processBuild env cfg job) bs s) = job_view (fold (processBuild env' cfg job) bs s')"
  using assms(1) by (induction bs arbitrary: s s') (simp_all add: processBuild_view[OF _ assms(2)])

lemma processBuild_frame:
  "processBuild env cfg job b (st, m) = (st', m') \<Longrightarrow>
     js_LastBuild st' = js_LastBuild st \<and> mo_firstPoll m' = mo_firstPoll m \<and> mo_Jobs m' = mo_Jobs m"
  by (auto simp: processBuild_def announce_def Let_def split: if_splits)

lemma fold_processBuild_frame:
  "fold (processBuild env cfg job) bs (st, m) = (st', m') \<Longrightarrow>
     js_LastBuild st' = js_LastBuild st \<and> mo_firstPoll m' = mo_firstPoll m \<and> mo_Jobs m' = mo_Jobs m"
proof (induction bs arbitrary: st m)
  case (Cons b bs)
  obtain st1 m1 where s1: "processBuild env cfg job b (st, m) = (st1, m1)" by fastforce
  then have "fold (processBuild env cfg job) bs (st1, m1) = (st', m')" using Cons.prems by simp
  from Cons.IH[OF this] processBuild_frame[OF s1] show ?case by simp
qed simp

text \<open>The builds Jenkins still has among \<open>ns\<close>.\<close>

definition existing_builds :: "(int \<Rightarrow> jenkins_error + jenkinsBuild) \<Rightarrow> int list \<Rightarrow> jenkinsBuild list" where
  "existing_builds get ns = List.map_filter (\<lambda>n. case jenkins_build get n of Inl _ \<Rightarrow> None | Inr b \<Rightarrow> Some b) ns"

lemma existing_builds_append:
  "existing_builds get (xs @ ys) = existing_builds get xs @ existing_builds get ys"
  by (simp add: existing_builds_def map_filter_def)

lemma build_loop_existing:
  assumes "\<And>n e. je_build env job n \<noteq> Inl (OtherError e)"
  shows "build_loop env cfg job ns s =
    (True, fold (processBuild env cfg job) (existing_builds (je_build env job) ns) s)"
proof (induction ns arbitrary: s)
  case (Cons n ns)
  show ?case
  proof (cases "je_build env job n")
    case (Inl e)
    then have "e = NotFound" using assms[of n] by (cases e) auto
    then show ?thesis using Inl Cons.IH
      by (simp add: jenkins_build_def existing_builds_def map_filter_def)
  next
    case (Inr b)
    then show ?thesis using Cons.IH
      by (simp add: jenkins_build_def existing_builds_def map_filter_def)
  qed
qed (simp add: existing_builds_def map_filter_def)

text \<open>One poll whose newest build is not too far from the last one.\<close>

lemma pollJob_step:
  assumes st: "mo_Jobs m job = Some st" and first: "\<not> mo_firstPoll m"
    and last: "je_last env job = Inr (Some cur)"
    and get: "\<And>n e. je_build env job n \<noteq> Inl (OtherError e)"
    and gap: "0 < js_LastBuild st" "js_LastBuild st \<le> jb_Number cur" "jb_Number cur - js_LastBuild st \<le> maxNewBuilds"
  shows "\<exists>m' st'. pollJob env cfg job m = (True, m') \<and> mo_Jobs m' job = Some st' \<and> \<not> mo_firstPoll m' \<and>
    js_LastBuild st' = jb_Number cur \<and>
    job_view (st', m') =
      job_view (fold (processBuild env cfg job)
        (existing_builds (je_build env job) [js_LastBuild st + 1..jb_Number cur]) (st, m))"
proof (cases "js_LastBuild st = jb_Number cur")
  case True
  then show ?thesis
    using st first last
    by (simp add: pollJob_def Let_def logHistory_def put_job_def job_view_def existing_builds_def map_filter_def)
next
  case False
  let ?st = "st\<lparr>js_LastSeen := je_now env div second\<rparr>"
  let ?bs = "existing_builds (je_build env job) [js_LastBuild st + 1..jb_Number cur]"
  obtain st1 m1 where s1: "fold (processBuild env cfg job) ?bs (?st, m) = (st1, m1)" by fastforce
  have v: "job_view (st1, m1) = job_view (fold (processBuild env cfg job) ?bs (st, m))"
    unfolding s1[symmetric] by (rule fold_processBuild_view) (simp_all add: job_view_def)
  have loop: "build_loop env cfg job [js_LastBuild st + 1..jb_Number cur] (?st, m) = (True, st1, m1)"
    using build_loop_existing[OF get, of cfg "[js_LastBuild st + 1..jb_Number cur]" "(?st, m)"] s1 by simp
  have "\<not> mo_firstPoll m1" using fold_processBuild_frame[OF s1] first by simp
  moreover have "pollJob env cfg job m =
      (True, logHistory (job_history job (st1\<lparr>js_LastBuild := jb_Number cur\<rparr>))
         (put_job job (st1\<lparr>js_LastBuild := jb_Number cur\<rparr>) m1))"
    using st first last False gap loop by (simp add: pollJob_def Let_def)
  ultimately show ?thesis
    using v by (simp add: logHistory_def put_job_def job_view_def)
qed

text \<open>Rounds of one job; \<open>newest\<close> are the numbers of the newest completed build that they see.\<close>

definition close_builds :: "int \<Rightarrow> int \<Rightarrow> bool" where
  "close_builds a b \<longleftrightarrow> a \<le> b \<and> b - a \<le> maxNewBuilds"

fun newest_builds :: "string \<Rightarrow> jenkins_env list \<Rightarrow> int list \<Rightarrow> bool" where
  "newest_builds job [] ns = (ns = [])"
| "newest_builds job (env # envs) ns =
     (case ns of
        [] \<Rightarrow> False
      | n # ns' \<Rightarrow> (\<exists>cur. je_last env job = Inr (Some cur) \<and> jb_Number cur = n) \<and> newest_builds job envs ns')"

definition poll_job_rounds :: "ConfigJenkins \<Rightarrow> string \<Rightarrow> jenkins_env list \<Rightarrow> Monitor \<Rightarrow> Monitor" where
  "poll_job_rounds cfg job envs m = fold (\<lambda>env m. snd (pollJob env cfg job m)) envs m"

lemma upto_join: "a \<le> b \<Longrightarrow> b \<le> c \<Longrightarrow> [a + 1..c] = [a + 1..b] @ [b + 1..c]" for a b c :: int
  using upto_split2 [of "a + 1" b c] by (cases "a = b") auto

lemma successively_last:
  "successively close_builds (a # ns) \<Longrightarrow> a \<le> last (a # ns)"
  by (induction ns arbitrary: a) (force simp: close_builds_def)+


text \<open>Two builds, one of them pruned, seen in two rounds and at once.\<close>

definition ex_build :: "int \<Rightarrow> string \<Rightarrow> jenkinsBuild" where
  "ex_build n r = \<lparr>jb_Number = n, jb_Result = r, jb_Timestamp = 0, jb_URL = ''u''\<rparr>"

definition ex_builds :: "int \<Rightarrow> jenkins_error + jenkinsBuild" where
  "ex_builds n = (if n = 2 then Inl NotFound else Inr (ex_build n (if n = 4 then ''SUCCESS'' else ''FAILURE'')))"

definition ex_jenkins :: "int \<Rightarrow> jenkins_env" where
  "ex_jenkins n = \<lparr>je_now = 0, je_last = (\<lambda>_. Inr (Some (ex_build n ''SUCCESS''))), je_build = (\<lambda>_. ex_builds),
     je_computers = Inr [\<lparr>jn_DisplayName = ''w'', jn_Offline = (n = 3), jn_OfflineCauseReason = ''r''\<rparr>], je_queue = Inr [],
     je_shorten = None\<rparr>"

definition ex_jcfg :: ConfigJenkins where
  "ex_jcfg = \<lparr>cj_Name = ''ci'', cj_Jobs = [''j''], cj_Nodes = [''w''], cj_QueueStuckAfter = 0\<rparr>"

definition ex_monitor :: Monitor where
  "ex_monitor = NewMonitor\<lparr>mo_firstPoll := False, mo_Jobs := [''j'' \<mapsto> new_job\<lparr>js_LastBuild := 1\<rparr>]\<rparr>"


subsection \<open>The verdict and the count of failures\<close>

definition job_ok :: "jobState \<Rightarrow> bool" where
  "job_ok st \<longleftrightarrow> js_State st \<in> {stateOK, stateFailed, stateUnknown} \<and> 0 \<le> js_Consecutive st \<and>
     (js_State st = stateFailed \<longleftrightarrow> 0 < js_Consecutive st)"

definition jobs_ok :: "Monitor \<Rightarrow> bool" where
  "jobs_ok m \<longleftrightarrow> (\<forall>name st. mo_Jobs m name = Some st \<longrightarrow> job_ok st)"

lemmas states = stateOK_def stateFailed_def stateUnknown_def

lemma job_ok_cong:
  "js_State st = js_State st' \<Longrightarrow> js_Consecutive st = js_Consecutive st' \<Longrightarrow> job_ok st = job_ok st'"
  by (simp add: job_ok_def)

lemma job_ok_other [simp]:
  "job_ok (st\<lparr>js_LastSeen := t\<rparr>) = job_ok st" "job_ok (st\<lparr>js_LastBuild := n\<rparr>) = job_ok st"
  "job_ok (st\<lparr>js_StuckItemID := i, js_StuckSince := n, js_StuckWhy := w\<rparr>) = job_ok st"
  by (rule job_ok_cong; simp)+

lemma new_job_ok: "job_ok new_job"
  by (simp add: job_ok_def new_job_def states)

lemma processBuild_ok: "job_ok (fst s) \<Longrightarrow> job_ok (fst (processBuild env cfg job b s))"
  by (cases s) (auto simp: processBuild_def job_ok_def Let_def states)

lemma collapseCurrent_ok: "job_ok (fst s) \<Longrightarrow> job_ok (fst (collapseCurrent env cfg job b s))"
  by (cases s) (auto simp: collapseCurrent_def job_ok_def Let_def states)

lemma collapseCurrent_jobs: "mo_Jobs (snd (collapseCurrent env cfg job b s)) = mo_Jobs (snd s)"
  by (cases s) (auto simp: collapseCurrent_def announce_def Let_def)

lemma processBuild_jobs: "mo_Jobs (snd (processBuild env cfg job b s)) = mo_Jobs (snd s)"
  by (cases s) (auto simp: processBuild_def announce_def Let_def)

lemma build_loop_ok:
  "job_ok (fst s) \<Longrightarrow> build_loop env cfg job ns s = (r, st', m') \<Longrightarrow> job_ok st' \<and> mo_Jobs m' = mo_Jobs (snd s)"
proof (induction env cfg job ns s arbitrary: r st' m' rule: build_loop.induct)
  case (2 env cfg job n ns s)
  show ?case
  proof (cases "jenkins_build (je_build env job) n")
    case (Inl e)
    then show ?thesis using 2 by (cases e) auto
  next
    case (Inr b)
    then have "build_loop env cfg job ns (processBuild env cfg job b s) = (r, st', m')" using 2(4) by simp
    from 2(2) [OF Inr processBuild_ok [OF 2(3)] this] show ?thesis by (simp only: processBuild_jobs)
  qed
qed auto

lemma put_job_ok: "jobs_ok m \<Longrightarrow> job_ok st \<Longrightarrow> jobs_ok (put_job name st m)"
  by (simp add: jobs_ok_def put_job_def)

lemma jobs_ok_cong: "mo_Jobs m = mo_Jobs m' \<Longrightarrow> jobs_ok m = jobs_ok m'"
  by (simp add: jobs_ok_def)

lemma logHistory_ok: "jobs_ok (logHistory h m) = jobs_ok m"
  by (rule jobs_ok_cong) (simp add: logHistory_def)

lemma announce_ok: "jobs_ok (announce cfg t m) = jobs_ok m"
  by (rule jobs_ok_cong) (simp add: announce_def)

lemma put_node_ok: "jobs_ok (put_node n st m) = jobs_ok m"
  by (rule jobs_ok_cong) (simp add: put_node_def)

lemmas frames_ok = logHistory_ok announce_ok put_node_ok

lemma pollJob_ok:
  assumes "jobs_ok m"
  shows "jobs_ok (snd (pollJob env cfg name m))"
proof -
  define st0 where "st0 = (case mo_Jobs m name of None \<Rightarrow> new_job | Some st \<Rightarrow> st)"
  define st where "st = st0\<lparr>js_LastSeen := je_now env div second\<rparr>"
  have "job_ok st0" using assms new_job_ok by (auto simp: st0_def jobs_ok_def split: option.split)
  then have st: "job_ok st" by (simp add: st_def)
  have finish: "jobs_ok (logHistory h (put_job name st1 m1))"
    if "job_ok st1" "mo_Jobs m1 = mo_Jobs m" for st1 m1 h
    using that put_job_ok assms jobs_ok_cong frames_ok by metis
  show ?thesis
  proof (cases "je_last env name")
    case (Inr c)
    show ?thesis
    proof (cases c)
      case (Some cur)
      obtain st1 m1 where c1: "collapseCurrent env cfg name cur (st, m) = (st1, m1)" by fastforce
      have 1: "job_ok st1" "mo_Jobs m1 = mo_Jobs m"
        using collapseCurrent_ok [of "(st, m)" env cfg name cur] collapseCurrent_jobs [of env cfg name cur "(st, m)"] st c1
        by simp_all
      obtain r st2 m2 where l: "build_loop env cfg name [js_LastBuild st + 1..jb_Number cur] (st, m) = (r, st2, m2)"
        by (metis prod.exhaust)
      have 2: "job_ok st2" "mo_Jobs m2 = mo_Jobs m" using build_loop_ok [OF _ l] st by simp_all
      then have 3: "job_ok (st2\<lparr>js_LastBuild := jb_Number cur\<rparr>)" by simp
      have 4: "jobs_ok (put_job name st2 m2)" using put_job_ok 2 assms jobs_ok_cong by metis
      have "pollJob env cfg name m =
          (let finish = (\<lambda>(st, m). logHistory (job_history name st) (put_job name st m))
           in if js_LastBuild st = jb_Number cur then (True, finish (st, m))
              else if mo_firstPoll m \<or> js_LastBuild st = 0 \<or> jb_Number cur - js_LastBuild st > maxNewBuilds
              then (True, finish (st1, m1))
              else (case (r, st2, m2) of (False, st1, m1) \<Rightarrow> (False, put_job name st1 m1)
                 | (True, st1, m1) \<Rightarrow> (True, finish (st1\<lparr>js_LastBuild := jb_Number cur\<rparr>, m1))))"
        unfolding pollJob_def Inr Some st0_def [symmetric] Let_def st_def [symmetric] c1 [symmetric] l [symmetric] by simp
      then show ?thesis using finish 1 2 3 4 st by (cases r) (simp_all add: Let_def)
    qed (simp add: pollJob_def Inr assms)
  qed (simp add: pollJob_def assms)
qed

lemma fold_ok: "(\<And>x m. jobs_ok m \<Longrightarrow> jobs_ok (f x m)) \<Longrightarrow> jobs_ok m \<Longrightarrow> jobs_ok (fold f xs m)"
  by (induction xs arbitrary: m) simp_all

lemma poll_jobs_ok: "jobs_ok (snd s) \<Longrightarrow> jobs_ok (snd (poll_jobs env cfg ns s))"
proof (induction env cfg ns s rule: poll_jobs.induct)
  case (2 env cfg n ns ok m)
  then show ?case using pollJob_ok [of m env cfg n] by (cases "pollJob env cfg n m") simp
qed simp

lemma pollNodes_ok: "jobs_ok m \<Longrightarrow> jobs_ok (snd (pollNodes env cfg m))"
proof -
  assume "jobs_ok m"
  moreover have "jobs_ok (poll_node env cfg n m)" if "jobs_ok m" for n m
    using that by (auto simp: poll_node_def Let_def frames_ok split: option.split)
  ultimately have "jobs_ok (fold (poll_node env cfg) cs m)" for cs by (simp add: fold_ok)
  then show ?thesis using \<open>jobs_ok m\<close> by (auto simp: pollNodes_def Let_def jobs_ok_def split: sum.split)
qed

lemma poll_queue_job_ok:
  assumes "jobs_ok m"
  shows "jobs_ok (poll_queue_job env cfg byJob name m)"
proof -
  define st where "st = (case mo_Jobs m name of None \<Rightarrow> new_job | Some st \<Rightarrow> st)"
  have st: "job_ok st" using assms new_job_ok by (auto simp: st_def jobs_ok_def split: option.split)
  then have "job_ok (clear_stuck st)"
    "job_ok (st\<lparr>js_StuckItemID := i, js_StuckSince := s, js_StuckWhy := w\<rparr>)" for i s w
    by (simp_all add: clear_stuck_def)
  then show ?thesis using st assms
    unfolding poll_queue_job_def st_def [symmetric]
    by (auto simp: Let_def frames_ok put_job_ok split: option.split)
qed

text \<open>The verdict of a job agrees with its count of failures: after any round, failed or not, the verdict is
  one of the three, and it is \<open>failed\<close> exactly when the count is positive, so a recovery is never announced
  after zero failed builds.\<close>

theorem verdicts_agree_with_counts:
  assumes "jobs_ok m"
  shows "jobs_ok (snd (poll env cfg m))"
proof -
  have "jobs_ok (snd (poll_jobs env cfg (cj_Jobs cfg) (True, m)))" using poll_jobs_ok assms by simp
  from pollNodes_ok [OF this] have 2: "jobs_ok (snd (pollNodes env cfg (snd (poll_jobs env cfg (cj_Jobs cfg) (True, m)))))" .
  then have "jobs_ok (snd (pollQueue env cfg (snd (pollNodes env cfg (snd (poll_jobs env cfg (cj_Jobs cfg) (True, m)))))))"
    by (auto simp: pollQueue_def Let_def fold_ok poll_queue_job_ok split: sum.split)
  then show ?thesis
    unfolding poll_def by (auto split: prod.split simp: jobs_ok_def)
qed

theorem verdicts_agree_with_counts_example:
  "jobs_ok (snd (poll (ex_jenkins 3) ex_jcfg ex_monitor))"
  by (rule verdicts_agree_with_counts) (simp add: jobs_ok_def ex_monitor_def job_ok_def new_job_def states)

subsection \<open>Changes of a node\<close>

text \<open>What the rounds observe of node \<open>n\<close>, and messages that report a sequence of conditions of it.\<close>

definition node_obs :: "string \<Rightarrow> jenkins_env \<Rightarrow> bool list" where
  "node_obs n env =
     (case je_computers env of Inl _ \<Rightarrow> [] | Inr cs \<Rightarrow> map jn_Offline (filter (\<lambda>c. jn_DisplayName c = n) cs))"

definition node_offline :: "string \<Rightarrow> Monitor \<Rightarrow> bool" where
  "node_offline n m = (case mo_Nodes m n of None \<Rightarrow> False | Some st \<Rightarrow> ns_Offline st)"

definition node_reports :: "ConfigJenkins \<Rightarrow> string \<Rightarrow> bool list \<Rightarrow> string list \<Rightarrow> bool" where
  "node_reports cfg n = list_all2 (\<lambda>offline t. \<exists>reason. t = ''['' @ cj_Name cfg @ ''] '' @ nodeText n offline reason)"

text \<open>The conditions after each change.\<close>

definition changes :: "bool \<Rightarrow> bool list \<Rightarrow> bool list" where
  "changes b os = tl (remdups_adj (b # os))"

lemma changes_Nil [simp]: "changes b [] = []"
  by (simp add: changes_def)

lemma changes_Cons [simp]: "changes b (x # xs) = (if x = b then changes b xs else x # changes x xs)"
  by (simp add: changes_def remdups_adj_Cons split: list.split)

lemma changes_append: "changes b (xs @ ys) = changes b xs @ changes (last (b # xs)) ys"
  by (induction xs arbitrary: b) auto

lemma poll_node_reports:
  assumes "nodeWanted cfg (jn_DisplayName c)"
  shows "\<exists>ts. mo_posts (poll_node env cfg c m) = mo_posts m @ ts \<and>
    node_reports cfg (jn_DisplayName c) (changes (node_offline (jn_DisplayName c) m) [jn_Offline c]) ts \<and>
    node_offline (jn_DisplayName c) (poll_node env cfg c m) = jn_Offline c"
  using assms
  by (auto simp: poll_node_def Let_def node_offline_def announce_def put_node_def logHistory_def node_reports_def
      split: option.split)

lemma poll_node_unwanted: "\<not> nodeWanted cfg (jn_DisplayName c) \<Longrightarrow> poll_node env cfg c m = m"
  by (simp add: poll_node_def Let_def)

lemma poll_nodes_reports:
  assumes "nodeWanted cfg n" and "\<forall>c\<in>set cs. nodeWanted cfg (jn_DisplayName c) \<longrightarrow> jn_DisplayName c = n"
  shows "\<exists>ts. mo_posts (fold (poll_node env cfg) cs m) = mo_posts m @ ts \<and>
    node_reports cfg n (changes (node_offline n m) (map jn_Offline (filter (\<lambda>c. jn_DisplayName c = n) cs))) ts \<and>
    node_offline n (fold (poll_node env cfg) cs m) =
      last (node_offline n m # map jn_Offline (filter (\<lambda>c. jn_DisplayName c = n) cs))"
  using assms(2)
proof (induction cs arbitrary: m)
  case Nil
  then show ?case by (simp add: node_reports_def)
next
  case (Cons c cs)
  show ?case
  proof (cases "jn_DisplayName c = n")
    case False
    then have "poll_node env cfg c m = m" using Cons.prems by (intro poll_node_unwanted) auto
    then show ?thesis using Cons False by simp
  next
    case True
    let ?m1 = "poll_node env cfg c m"
    obtain ts1 where 1: "mo_posts ?m1 = mo_posts m @ ts1"
      "node_reports cfg n (changes (node_offline n m) [jn_Offline c]) ts1" "node_offline n ?m1 = jn_Offline c"
      using poll_node_reports [of cfg c env m] assms(1) True by auto
    obtain ts2 where 2: "mo_posts (fold (poll_node env cfg) cs ?m1) = mo_posts ?m1 @ ts2"
      "node_reports cfg n (changes (node_offline n ?m1) (map jn_Offline (filter (\<lambda>c. jn_DisplayName c = n) cs))) ts2"
      "node_offline n (fold (poll_node env cfg) cs ?m1) =
         last (node_offline n ?m1 # map jn_Offline (filter (\<lambda>c. jn_DisplayName c = n) cs))"
      using Cons.IH [of ?m1] Cons.prems by auto
    have "node_reports cfg n (changes (node_offline n m) [jn_Offline c] @
        changes (jn_Offline c) (map jn_Offline (filter (\<lambda>c. jn_DisplayName c = n) cs))) (ts1 @ ts2)"
      using 1(2) 2(2) 1(3) unfolding node_reports_def by (simp only: list_all2_appendI)
    then have "node_reports cfg n (changes (node_offline n m)
        (map jn_Offline (filter (\<lambda>c. jn_DisplayName c = n) (c # cs)))) (ts1 @ ts2)"
      using True by (simp split: if_splits)
    then show ?thesis using 1 2 True by (intro exI [of _ "ts1 @ ts2"]) simp
  qed
qed

lemma pollNodes_reports:
  assumes "nodeWanted cfg n"
    and "\<forall>cs c. je_computers env = Inr cs \<longrightarrow> c \<in> set cs \<longrightarrow> nodeWanted cfg (jn_DisplayName c) \<longrightarrow> jn_DisplayName c = n"
  shows "\<exists>ts. mo_posts (snd (pollNodes env cfg m)) = mo_posts m @ ts \<and>
    node_reports cfg n (changes (node_offline n m) (node_obs n env)) ts \<and>
    node_offline n (snd (pollNodes env cfg m)) = last (node_offline n m # node_obs n env)"
proof (cases "je_computers env")
  case (Inl e)
  then show ?thesis by (simp add: pollNodes_def node_obs_def node_reports_def)
next
  case (Inr cs)
  have "cj_Nodes cfg \<noteq> []" using assms(1) by (auto simp: nodeWanted_def)
  moreover obtain ts where "mo_posts (fold (poll_node env cfg) cs m) = mo_posts m @ ts"
    "node_reports cfg n (changes (node_offline n m) (map jn_Offline (filter (\<lambda>c. jn_DisplayName c = n) cs))) ts"
    "node_offline n (fold (poll_node env cfg) cs m) =
       last (node_offline n m # map jn_Offline (filter (\<lambda>c. jn_DisplayName c = n) cs))"
    using poll_nodes_reports [OF assms(1), of cs env m] assms(2) Inr by auto
  ultimately show ?thesis using assms(1) Inr
    by (intro exI [of _ ts]) (simp add: pollNodes_def Let_def node_obs_def node_offline_def)
qed

definition poll_node_rounds :: "ConfigJenkins \<Rightarrow> jenkins_env list \<Rightarrow> Monitor \<Rightarrow> Monitor" where
  "poll_node_rounds cfg envs m = fold (\<lambda>env m. snd (pollNodes env cfg m)) envs m"



end
