(* ===== verification/MonMain.thy ===== *)
theory MonMain
  imports MonRestart GitMonitor JenkinsMonitor
begin

text \<open>
  The main programs of the five monitors, with the parts they set up: the URL shortener client, the git monitor
  with its repository, the Jenkins client and the \<open>Start\<close> methods that are not instances of the common life. The
  configuration decoder, the checks of the validator package, paths and the file system are parameters.
\<close>

subsection \<open>The shared sections of the configuration\<close>

record ConfigWebhook =
  wb_URL :: string
  wb_Method :: string
  wb_Token :: string
  wb_From :: string
  wb_Target :: string

record ConfigURLShort =
  us_API :: string
  us_Token :: string
  us_Timeout :: int

text \<open>A slice that is not given is \<open>None\<close>.\<close>

record 'e mon_config =
  mc_LogLevel :: string
  mc_DataDir :: string
  mc_Webhook :: ConfigWebhook
  mc_URLShort :: "ConfigURLShort option"
  mc_Entries :: "'e list option"

record mon_checks =
  ck_dirpath :: "string \<Rightarrow> bool"
  ck_url :: "string \<Rightarrow> bool"

definition valid_webhook :: "mon_checks \<Rightarrow> ConfigWebhook \<Rightarrow> bool" where
  "valid_webhook ck w \<longleftrightarrow>
     ck_url ck (wb_URL w) \<and> wb_Method w \<in> set [''GET'', ''PUT'', ''POST''] \<and> wb_From w \<noteq> [] \<and> wb_Target w \<noteq> []"

definition valid_common :: "mon_checks \<Rightarrow> 'e mon_config \<Rightarrow> bool" where
  "valid_common ck c \<longleftrightarrow>
     mc_LogLevel c \<in> set [''debug'', ''info'', ''warn'', ''error''] \<and> ck_dirpath ck (mc_DataDir c) \<and>
     valid_webhook ck (mc_Webhook c)"

text \<open>\<open>required,min=1,dive\<close> on the entries.\<close>

definition valid_entries :: "('e \<Rightarrow> bool) \<Rightarrow> 'e mon_config \<Rightarrow> bool" where
  "valid_entries ok c \<longleftrightarrow> (case mc_Entries c of None \<Rightarrow> False | Some es \<Rightarrow> es \<noteq> [] \<and> list_all ok es)"

definition entries :: "'e mon_config \<Rightarrow> 'e list" where
  "entries c = (case mc_Entries c of None \<Rightarrow> [] | Some es \<Rightarrow> es)"

text \<open>The level: the flag first, and in place of the configured one.\<close>

definition mon_level :: "bool \<Rightarrow> string \<Rightarrow> int" where
  "mon_level debug name0 =
     (let lv = (if debug then -4 else 0); name = (if debug then ''debug'' else name0)
      in if name \<noteq> [] then LogLevel lv name else lv)"

subsection \<open>The URL shortener client\<close>

record URLShortener =
  ux_api :: string
  ux_token :: string
  ux_timeout :: int

datatype shortener_error = MissingConfig | InvalidAPI string | TokenRequired

definition defaultURLShortTimeout :: int where "defaultURLShortTimeout = 5 * second"

text \<open>\<open>parse\<close> gives scheme and host of a URL.\<close>

definition NewURLShortener :: "(string \<Rightarrow> (string \<times> string) option) \<Rightarrow> ConfigURLShort option \<Rightarrow> shortener_error + URLShortener" where
  "NewURLShortener parse cfg0 =
     (case cfg0 of
        None \<Rightarrow> Inl MissingConfig
      | Some cfg \<Rightarrow>
          (let api = TrimRightChar (CHR ''/'') (TrimSpace (us_API cfg))
           in if (case parse api of None \<Rightarrow> True | Some (sc, host) \<Rightarrow> sc \<noteq> ''http'' \<and> sc \<noteq> ''https'' \<or> host = [])
              then Inl (InvalidAPI (us_API cfg))
              else if TrimSpace (us_Token cfg) = [] then Inl TokenRequired
              else Inr \<lparr>ux_api = api, ux_token = us_Token cfg,
                     ux_timeout = (if us_Timeout cfg > 0 then seconds64 (us_Timeout cfg) else defaultURLShortTimeout)\<rparr>))"

text \<open>The requests it sends: method, address and authorisation.\<close>

definition links_request :: "URLShortener \<Rightarrow> string \<times> string \<times> string" where
  "links_request u = (''POST'', ux_api u @ ''/links'', ''Bearer '' @ ux_token u)"

definition batch_request :: "URLShortener \<Rightarrow> string \<times> string \<times> string" where
  "batch_request u = (''POST'', ux_api u @ ''/links/batch'', ''Bearer '' @ ux_token u)"

subsection \<open>Starting\<close>

datatype mon_action =
    StartMonitor string "string option" int
  | ExitWith int

text \<open>What the main programs meet: the file, the data directory, and the URL parser.\<close>

record 'c main_world =
  wo_decode :: "string \<Rightarrow> string + 'c"
  wo_dir :: "string \<Rightarrow> bool"
  wo_parse :: "string \<Rightarrow> (string \<times> string) option"
  wo_join :: "string list \<Rightarrow> string"
  wo_checks :: mon_checks

text \<open>The optional shortener.\<close>

definition main_shortener :: "'e mon_config main_world \<Rightarrow> 'e mon_config \<Rightarrow> unit + URLShortener option" where
  "main_shortener wo c =
     (case mc_URLShort c of
        None \<Rightarrow> Inr None
      | Some u \<Rightarrow> (case NewURLShortener (wo_parse wo) (Some u) of Inl _ \<Rightarrow> Inl () | Inr s \<Rightarrow> Inr (Some s)))"

text \<open>What all but the web monitor do before they start anything.\<close>

definition main_setup :: "'e mon_config main_world \<Rightarrow> ('e mon_config \<Rightarrow> bool) \<Rightarrow> string \<Rightarrow>
    unit + ('e mon_config \<times> URLShortener option)" where
  "main_setup wo valid file =
     (case wo_decode wo file of
        Inl _ \<Rightarrow> Inl ()
      | Inr c \<Rightarrow>
          if \<not> valid c then Inl ()
          else if \<not> wo_dir wo (mc_DataDir c) then Inl ()
          else (case main_shortener wo c of Inl _ \<Rightarrow> Inl () | Inr s \<Rightarrow> Inr (c, s)))"

definition main_of :: "unit + ('e mon_config \<times> URLShortener option) \<Rightarrow> ('e mon_config \<Rightarrow> mon_action list) \<Rightarrow> mon_action list" where
  "main_of setup run = (case setup of Inl _ \<Rightarrow> [ExitWith 1] | Inr (c, s) \<Rightarrow> run c)"

subsection \<open>Redmine\<close>

record project_entry =
  pe_Enabled :: bool
  pe_Project :: rm_cfg
  pe_Interval :: int

definition valid_project :: "mon_checks \<Rightarrow> project_entry \<Rightarrow> bool" where
  "valid_project ck e \<longleftrightarrow>
     rc_Name (pe_Project e) \<noteq> [] \<and> rc_FeedURL (pe_Project e) \<noteq> [] \<and> ck_url ck (rc_FeedURL (pe_Project e)) \<and>
     1 \<le> pe_Interval e \<and> set (rc_Actions (pe_Project e)) \<subseteq> set supportedActions"

fun rm_checkNames :: "project_entry list \<Rightarrow> string set \<Rightarrow> string option" where
  "rm_checkNames [] seen = None"
| "rm_checkNames (e # es) seen =
     (if \<not> pe_Enabled e then rm_checkNames es seen
      else if rc_Name (pe_Project e) \<in> seen then Some (rc_Name (pe_Project e))
      else rm_checkNames es (insert (rc_Name (pe_Project e)) seen))"

definition project_paths :: "(string list \<Rightarrow> string) \<Rightarrow> string \<Rightarrow> rm_cfg \<Rightarrow> string \<times> string" where
  "project_paths join dataDir cfg = (join [dataDir, rc_Name cfg @ ''.state''], join [dataDir, rc_Name cfg @ ''.history''])"

definition redmine_main :: "project_entry mon_config main_world \<Rightarrow> string \<Rightarrow> mon_action list" where
  "redmine_main wo file =
     main_of (main_setup wo (\<lambda>c. valid_common (wo_checks wo) c \<and> valid_entries (valid_project (wo_checks wo)) c \<and>
         rm_checkNames (entries c) {} = None) file)
       (\<lambda>c. map (\<lambda>e. case project_paths (wo_join wo) (mc_DataDir c) (pe_Project e) of
            (st, hi) \<Rightarrow> StartMonitor st (Some hi) (pe_Interval e)) (filter pe_Enabled (entries c)))"

subsection \<open>GitHub\<close>

record repo_entry =
  re_Enabled :: bool
  re_Repo :: ConfigRepo
  re_Interval :: int

definition valid_repo :: "repo_entry \<Rightarrow> bool" where
  "valid_repo e \<longleftrightarrow>
     (let r = re_Repo e
      in cr_Project r \<noteq> [] \<and> cr_Repo r \<noteq> [] \<and> set (cr_IssueActions r) \<subseteq> set defaultIssueActions \<and>
         set (cr_PRActions r) \<subseteq> set defaultPRActions \<and> [] \<notin> set (cr_IgnoredUsers r) \<and> 1 \<le> re_Interval e)"

definition repo_paths :: "(string list \<Rightarrow> string) \<Rightarrow> string \<Rightarrow> ConfigRepo \<Rightarrow> string \<times> string" where
  "repo_paths join dataDir cfg =
     (join [dataDir, cr_Project cfg, cr_Repo cfg @ ''.state''], join [dataDir, cr_Project cfg, cr_Repo cfg @ ''.history''])"

definition github_main :: "repo_entry mon_config main_world \<Rightarrow> string \<Rightarrow> mon_action list" where
  "github_main wo file =
     main_of (main_setup wo (\<lambda>c. valid_common (wo_checks wo) c \<and> valid_entries valid_repo c) file)
       (\<lambda>c. map (\<lambda>e. case repo_paths (wo_join wo) (mc_DataDir c) (re_Repo e) of
            (st, hi) \<Rightarrow> StartMonitor st (Some hi) (re_Interval e)) (filter re_Enabled (entries c)))"

subsection \<open>Web\<close>

record web_entry =
  we_Web :: ConfigWeb
  we_Interval :: int

record web_sections =
  wx_CAFile :: string
  wx_ExpiringDays :: "int list"
  wx_DownRepeats :: int
  wx_UpRepeats :: int
  wx_Timeouts :: timeouts

definition valid_web :: "mon_checks \<Rightarrow> web_entry \<Rightarrow> bool" where
  "valid_web ck e \<longleftrightarrow>
     cw_Name (we_Web e) \<noteq> [] \<and> cw_URL (we_Web e) \<noteq> [] \<and> ck_url ck (cw_URL (we_Web e)) \<and> 1 \<le> we_Interval e \<and>
     list_all (\<lambda>s. 100 \<le> s \<and> s \<le> 599) (cw_StatusCodes (we_Web e))"

definition valid_sections :: "web_sections \<Rightarrow> bool" where
  "valid_sections x \<longleftrightarrow> list_all (\<lambda>d. 1 \<le> d) (wx_ExpiringDays x) \<and> 1 \<le> wx_DownRepeats x \<and> 1 \<le> wx_UpRepeats x"

definition web_paths :: "string \<Rightarrow> ConfigWeb \<Rightarrow> string \<times> string" where
  "web_paths dataDir w = (dataDir @ ''/'' @ cw_Name w @ ''.state'', dataDir @ ''/'' @ cw_Name w @ ''.history'')"

text \<open>Each monitor is started as soon as its prober is there; an invalid address ends the program.\<close>

fun start_webs :: "(string \<Rightarrow> string option) \<Rightarrow> timeouts \<Rightarrow> 'p option \<Rightarrow> string \<Rightarrow> web_entry list \<Rightarrow> mon_action list" where
  "start_webs scheme toCfg pool dataDir [] = []"
| "start_webs scheme toCfg pool dataDir (e # es) =
     (let w = we_Web e
      in if \<not> cw_Enabled w then start_webs scheme toCfg pool dataDir es
         else
           (let follow = (case cw_FollowRedirection w of None \<Rightarrow> True | Some b \<Rightarrow> b);
                verify = (case cw_TLSVerify w of None \<Rightarrow> True | Some b \<Rightarrow> b)
            in case newProber scheme w toCfg pool follow verify of
                 Inl _ \<Rightarrow> [ExitWith 1]
               | Inr p \<Rightarrow>
                   (case web_paths dataDir w of
                      (st, hi) \<Rightarrow> StartMonitor st (Some hi) (we_Interval e) # start_webs scheme toCfg pool dataDir es)))"

definition web_main :: "(string \<Rightarrow> string option) \<Rightarrow> (string \<Rightarrow> 'p option) \<Rightarrow> (string \<Rightarrow> string option) \<Rightarrow>
    (web_entry mon_config \<times> web_sections) main_world \<Rightarrow> string \<Rightarrow> mon_action list" where
  "web_main readFile parsePEM scheme wo file =
     (case wo_decode wo file of
        Inl _ \<Rightarrow> [ExitWith 1]
      | Inr (c, x) \<Rightarrow>
          if \<not> (valid_common (wo_checks wo) c \<and> valid_sections x \<and> valid_entries (valid_web (wo_checks wo)) c) then [ExitWith 1]
          else if checkNames (map we_Web (entries c)) {} \<noteq> None then [ExitWith 1]
          else if \<not> wo_dir wo (mc_DataDir c) then [ExitWith 1]
          else
            (case loadCAPool readFile parsePEM (wx_CAFile x) of
               Inl _ \<Rightarrow> [ExitWith 1]
             | Inr pool \<Rightarrow> start_webs scheme (wx_Timeouts x) pool (mc_DataDir c) (entries c)))"

subsection \<open>Monitors apart\<close>

fun files_of :: "mon_action \<Rightarrow> string list" where
  "files_of (StartMonitor st hi _) = st # (case hi of None \<Rightarrow> [] | Some h \<Rightarrow> [h])"
| "files_of (ExitWith _) = []"

fun intervals_of :: "mon_action \<Rightarrow> int list" where
  "intervals_of (StartMonitor _ _ n) = [n]" | "intervals_of (ExitWith _) = []"

lemma checkNames_distinct:
  "checkNames ws seen = None \<Longrightarrow>
   distinct (map cw_Name (filter cw_Enabled ws)) \<and> seen \<inter> set (map cw_Name (filter cw_Enabled ws)) = {}"
  by (induction ws seen rule: checkNames.induct) (auto split: if_splits)

lemma rm_checkNames_distinct:
  "rm_checkNames es seen = None \<Longrightarrow>
   distinct (map (rc_Name \<circ> pe_Project) (filter pe_Enabled es)) \<and>
   seen \<inter> set (map (rc_Name \<circ> pe_Project) (filter pe_Enabled es)) = {}"
  by (induction es seen rule: rm_checkNames.induct) (auto split: if_splits)

lemma suffixes_apart: "a @ ''.state'' \<noteq> b @ ''.history''" "b @ ''.history'' \<noteq> a @ ''.state''"
proof -
  have "last (a @ ''.state'') \<noteq> last (b @ ''.history'')" by simp
  then show "a @ ''.state'' \<noteq> b @ ''.history''" "b @ ''.history'' \<noteq> a @ ''.state''" by metis+
qed

text \<open>Paths made of distinct names, one pair for each, are distinct.\<close>

definition names_apart :: "('e \<Rightarrow> string) \<Rightarrow> ('e \<Rightarrow> string \<times> string) \<Rightarrow> 'e list \<Rightarrow> bool" where
  "names_apart name paths es \<longleftrightarrow>
     (\<forall>e\<in>set es. fst (paths e) \<noteq> snd (paths e)) \<and>
     (\<forall>e\<in>set es. \<forall>e'\<in>set es. name e \<noteq> name e' \<longrightarrow>
        {fst (paths e), snd (paths e)} \<inter> {fst (paths e'), snd (paths e')} = {})"

lemma paths_distinct:
  assumes "distinct (map name es)" and "names_apart name paths es"
  shows "distinct (concat (map (\<lambda>e. [fst (paths e), snd (paths e)]) es))"
  using assms
proof (induction es)
  case (Cons e es)
  then have "names_apart name paths es" by (simp add: names_apart_def)
  moreover have "{fst (paths e), snd (paths e)} \<inter> {fst (paths e'), snd (paths e')} = {}" if "e' \<in> set es" for e'
  proof -
    from Cons.prems(1) that have "name e \<noteq> name e'" by (auto simp: rev_image_eqI)
    with Cons.prems(2) that show ?thesis by (simp add: names_apart_def)
  qed
  then have "{fst (paths e), snd (paths e)} \<inter> set (concat (map (\<lambda>e. [fst (paths e), snd (paths e)]) es)) = {}" by fastforce
  moreover have "fst (paths e) \<noteq> snd (paths e)" using Cons.prems(2) by (simp add: names_apart_def)
  ultimately show ?case using Cons.IH Cons.prems(1) by simp
qed simp

lemma start_webs_prefix:
  "\<exists>ws rest. filter (\<lambda>e. cw_Enabled (we_Web e)) es = ws @ rest \<and>
     concat (map files_of (start_webs scheme toCfg pool dataDir es)) =
       concat (map (\<lambda>e. [fst (web_paths dataDir (we_Web e)), snd (web_paths dataDir (we_Web e))]) ws) \<and>
     concat (map intervals_of (start_webs scheme toCfg pool dataDir es)) = map we_Interval ws"
proof (induction es)
  case (Cons e es)
  then obtain ws rest where IH: "filter (\<lambda>e. cw_Enabled (we_Web e)) es = ws @ rest"
    "concat (map files_of (start_webs scheme toCfg pool dataDir es)) =
       concat (map (\<lambda>e. [fst (web_paths dataDir (we_Web e)), snd (web_paths dataDir (we_Web e))]) ws)"
    "concat (map intervals_of (start_webs scheme toCfg pool dataDir es)) = map we_Interval ws" by blast
  let ?w = "we_Web e"
  let ?p = "newProber scheme ?w toCfg pool (case cw_FollowRedirection ?w of None \<Rightarrow> True | Some b \<Rightarrow> b)
      (case cw_TLSVerify ?w of None \<Rightarrow> True | Some b \<Rightarrow> b)"
  consider "\<not> cw_Enabled ?w" | x where "cw_Enabled ?w" "?p = Inl x" | p where "cw_Enabled ?w" "?p = Inr p"
    by (cases ?p) auto
  then show ?case
  proof cases
    case 1
    with IH show ?thesis by auto
  next
    case 2
    then show ?thesis by (intro exI [of _ "[]"] exI [of _ "e # filter (\<lambda>e. cw_Enabled (we_Web e)) es"]) (simp add: Let_def)
  next
    case 3
    with IH show ?thesis by (intro exI [of _ "e # ws"] exI [of _ rest]) (simp add: Let_def split_beta)
  qed
qed simp

lemma web_main_cases:
  fixes parsePEM :: "string \<Rightarrow> 'p option"
  obtains (failed) "web_main readFile parsePEM scheme wo path = [ExitWith 1]"
    | (started) c and x :: web_sections and pool :: "'p option" where "valid_entries (valid_web (wo_checks wo)) c" and "checkNames (map we_Web (entries c)) {} = None"
        and "web_main readFile parsePEM scheme wo path = start_webs scheme (wx_Timeouts x) pool (mc_DataDir c) (entries c)"
proof (cases "wo_decode wo path")
  case (Inl e)
  then show thesis by (intro failed) (simp add: web_main_def)
next
  case (Inr a)
  obtain c x where a: "wo_decode wo path = Inr (c, x)" using Inr by (cases a) simp
  show thesis
  proof (cases "valid_common (wo_checks wo) c \<and> valid_sections x \<and> valid_entries (valid_web (wo_checks wo)) c \<and>
      checkNames (map we_Web (entries c)) {} = None \<and> wo_dir wo (mc_DataDir c)")
    case True
    then show thesis
    proof (cases "loadCAPool readFile parsePEM (wx_CAFile x)")
      case (Inr pool)
      with True a show thesis by (intro started [of c x pool]) (simp_all add: web_main_def)
    qed (use a in \<open>auto intro!: failed simp: web_main_def\<close>)
  qed (use a in \<open>auto intro!: failed simp: web_main_def\<close>)
qed


text \<open>The same for the Redmine monitors, if paths in the data directory are apart for different names.\<close>

lemma main_setup_cases:
  "main_setup wo valid path = Inr (c, s) \<Longrightarrow> valid c"
  by (auto simp: main_setup_def split: sum.splits if_splits)

theorem redmine_monitors_are_apart:
  assumes "\<And>d. inj (\<lambda>n. wo_join wo [d, n])"
  shows "distinct (concat (map files_of (redmine_main wo path))) \<and>
   list_all (\<lambda>n. 1 \<le> n) (concat (map intervals_of (redmine_main wo path)))"
proof -
  let ?valid = "\<lambda>c. valid_common (wo_checks wo) c \<and> valid_entries (valid_project (wo_checks wo)) c \<and>
    rm_checkNames (entries c) {} = None"
  consider "redmine_main wo path = [ExitWith 1]"
    | c s where "main_setup wo ?valid path = Inr (c, s)" "redmine_main wo path =
        map (\<lambda>e. StartMonitor (fst (project_paths (wo_join wo) (mc_DataDir c) (pe_Project e)))
          (Some (snd (project_paths (wo_join wo) (mc_DataDir c) (pe_Project e)))) (pe_Interval e)) (filter pe_Enabled (entries c))"
    by (cases "main_setup wo ?valid path") (auto simp: redmine_main_def main_of_def split_beta)
  then show ?thesis
  proof cases
    case 2
    let ?es = "filter pe_Enabled (entries c)" and ?paths = "\<lambda>e. project_paths (wo_join wo) (mc_DataDir c) (pe_Project e)"
    note v = main_setup_cases [OF 2(1)]
    have d: "distinct (map (rc_Name \<circ> pe_Project) ?es)" using v rm_checkNames_distinct by blast
    have "wo_join wo [mc_DataDir c, n] = wo_join wo [mc_DataDir c, n'] \<longleftrightarrow> n = n'" for n n'
      using assms [of "mc_DataDir c"] by (auto simp: inj_def)
    then have "names_apart (rc_Name \<circ> pe_Project) ?paths ?es"
      using suffixes_apart by (auto simp: names_apart_def project_paths_def)
    from paths_distinct [OF d this] have "distinct (concat (map files_of (redmine_main wo path)))"
      by (simp add: 2(2) comp_def)
    moreover have "\<forall>e\<in>set ?es. 1 \<le> pe_Interval e"
      using v by (auto simp: valid_entries_def entries_def list_all_iff valid_project_def split: option.splits)
    ultimately show ?thesis by (simp add: 2(2) list_all_iff comp_def)
  qed simp
qed

text \<open>The GitHub monitor has no such check: two enabled entries for one repository share its state file.\<close>

definition ex_twice :: "repo_entry mon_config" where
  "ex_twice = \<lparr>mc_LogLevel = ''info'', mc_DataDir = ''data/'',
     mc_Webhook = \<lparr>wb_URL = ''u'', wb_Method = ''POST'', wb_Token = [], wb_From = ''github'', wb_Target = ''#c''\<rparr>,
     mc_URLShort = None,
     mc_Entries = Some (replicate 2 \<lparr>re_Enabled = True, re_Repo = ex_repo, re_Interval = 60\<rparr>)\<rparr>"

definition ex_world :: "'c \<Rightarrow> 'c main_world" where
  "ex_world c = \<lparr>wo_decode = (\<lambda>_. Inr c), wo_dir = (\<lambda>_. True), wo_parse = (\<lambda>_. None), wo_join = concat,
     wo_checks = \<lparr>ck_dirpath = (\<lambda>_. True), ck_url = (\<lambda>_. True)\<rparr>\<rparr>"

lemma github_monitors_may_share_files:
  "\<not> distinct (concat (map files_of (github_main (ex_world ex_twice) path)))"
  by (simp add: github_main_def main_of_def main_setup_def ex_world_def ex_twice_def ex_repo_def main_shortener_def repo_paths_def
      valid_common_def valid_webhook_def valid_entries_def valid_repo_def entries_def numeral_2_eq_2 defaultIssueActions_def)

subsection \<open>Git\<close>

record git_repo =
  gr_Enabled :: bool
  gr_Name :: string
  gr_URL :: string
  gr_CommitURL :: string
  gr_Interval :: int

text \<open>The commit template is tried on the zero commit; \<open>url\<close> says that a URL parses.\<close>

definition zero_commit :: commitInfo where
  "zero_commit = \<lparr>ci_Hash = [], ci_AuthorName = [], ci_AuthorEmail = [], ci_Date = [], ci_Subject = []\<rparr>"

definition git_NewMonitor :: "(string \<Rightarrow> (commitInfo \<Rightarrow> string option) option) \<Rightarrow> (string \<Rightarrow> bool) \<Rightarrow> string \<Rightarrow>
    (commitInfo \<Rightarrow> string option) option option" where
  "git_NewMonitor compile url commitURL =
     (if commitURL = [] then Some None
      else
        (case compile commitURL of
           None \<Rightarrow> None
         | Some tpl \<Rightarrow> (case tpl zero_commit of None \<Rightarrow> None | Some u \<Rightarrow> if url u then Some (Some tpl) else None)))"

text \<open>The entries carry tags of their own, but nothing makes the validator descend into them.\<close>

definition git_main :: "(string \<Rightarrow> (commitInfo \<Rightarrow> string option) option) \<Rightarrow> (string \<Rightarrow> bool) \<Rightarrow> git_repo mon_config main_world \<Rightarrow>
    string \<Rightarrow> mon_action list" where
  "git_main compile url wo path =
     main_of (main_setup wo (\<lambda>c. valid_common (wo_checks wo) c \<and> mc_Entries c \<noteq> None) path)
       (\<lambda>c. let repos = filter gr_Enabled (entries c)
            in if list_ex (\<lambda>r. Option.is_none (git_NewMonitor compile url (gr_CommitURL r))) repos then [ExitWith 1]
               else map (\<lambda>r. StartMonitor (wo_join wo [mc_DataDir c, gr_Name r @ ''.state'']) None (gr_Interval r)) repos)"

definition repo_dir :: "(string list \<Rightarrow> string) \<Rightarrow> string \<Rightarrow> string \<Rightarrow> string" where
  "repo_dir join dataDir name = join [dataDir, name @ ''.git'']"

text \<open>The two commands on the repository; \<open>run\<close> says whether one succeeds.\<close>

definition cloneRepo :: "(string \<Rightarrow> bool) \<Rightarrow> (string list \<Rightarrow> bool) \<Rightarrow> string \<Rightarrow> string \<Rightarrow> bool" where
  "cloneRepo exists run url dir = (if exists dir then True else run [''git'', ''clone'', ''--mirror'', url, dir])"

definition updateRepo :: "(string list \<Rightarrow> bool) \<Rightarrow> string \<Rightarrow> bool" where
  "updateRepo run dir = run [''git'', ''--git-dir='' @ dir, ''remote'', ''update'', ''--prune'']"

text \<open>\<open>Start\<close> on the state file. A round comes with what git prints once the repository is updated, or
  \<open>None\<close> when updating fails.\<close>

record 'b git_files =
  gf_path :: string
  gf_marshal :: "git_state \<Rightarrow> string + 'b"
  gf_unmarshal :: "'b \<Rightarrow> string + git_state"
  gf_unreadable :: "string \<Rightarrow> string option"

definition git_saveState :: "'b git_files \<Rightarrow> 'b state_fs \<Rightarrow> git_state \<Rightarrow> (string \<rightharpoonup> 'b) \<Rightarrow> (string \<rightharpoonup> 'b)" where
  "git_saveState gf fs st disk = snd (SaveJSON fs (gf_marshal gf) (gf_path gf) st disk)"

definition git_round :: "'b git_files \<Rightarrow> git_cfg \<Rightarrow> git_env option \<times> 'b state_fs \<Rightarrow> git_state \<times> string list \<times> (string \<rightharpoonup> 'b) \<Rightarrow>
    git_state \<times> string list \<times> (string \<rightharpoonup> 'b)" where
  "git_round gf cfg i x =
     (case x of
        (st, msgs, disk) \<Rightarrow>
          (case git_poll cfg (fst i) st of
             (st', new, saved) \<Rightarrow> (st', msgs @ new, if saved then git_saveState gf (snd i) st' disk else disk)))"

definition git_Start :: "'b git_files \<Rightarrow> git_cfg \<Rightarrow> int \<Rightarrow> bool \<Rightarrow> git_env \<Rightarrow> 'b state_fs \<Rightarrow> (git_env option \<times> 'b state_fs) list \<Rightarrow>
    'b state_fs \<Rightarrow> (string \<rightharpoonup> 'b) \<Rightarrow> (string list \<times> (string \<rightharpoonup> 'b)) option" where
  "git_Start gf cfg interval clone ge fs0 is fs1 disk =
     (case git_start (ReadJSON (gf_unreadable gf) (gf_unmarshal gf) (gf_path gf) disk) clone ge of
        (False, st) \<Rightarrow> Some ([], git_saveState gf fs1 st disk)
      | (True, st) \<Rightarrow>
          map_option (\<lambda>(st', msgs, disk'). (msgs, git_saveState gf fs1 st' disk'))
            (Loop (seconds64 interval) (git_round gf cfg) is (st, [], git_saveState gf fs0 st disk)))"

text \<open>A state file that cannot be read is replaced by the empty state.\<close>

lemma unreadable_state_is_overwritten:
  assumes "gf_unreadable gf (gf_path gf) = Some e" and "gf_marshal gf empty_git = Inr b"
    and "\<forall>p. sf_write fs1 p = None \<and> sf_rename fs1 p = None"
  shows "\<exists>disk'. git_Start gf cfg interval clone ge fs0 is fs1 disk = Some ([], disk') \<and> disk' (gf_path gf) = Some b"
  using assms by (simp add: git_Start_def ReadJSON_def git_start_def git_loadState_def git_saveState_def SaveJSON_def)

text \<open>A repository without an interval passes validation, and its monitor panics before its first poll.\<close>

definition ex_no_interval :: "git_repo mon_config" where
  "ex_no_interval = \<lparr>mc_LogLevel = ''info'', mc_DataDir = ''data/'',
     mc_Webhook = \<lparr>wb_URL = ''u'', wb_Method = ''POST'', wb_Token = [], wb_From = ''git'', wb_Target = ''#c''\<rparr>,
     mc_URLShort = None,
     mc_Entries = Some [\<lparr>gr_Enabled = True, gr_Name = ''r'', gr_URL = ''u'', gr_CommitURL = [], gr_Interval = 0\<rparr>]\<rparr>"

lemma missing_interval_panics:
  "git_main compile url (ex_world ex_no_interval) path = [StartMonitor ''data/r.state'' None 0]"
  "git_start (ReadJSON (gf_unreadable gf) (gf_unmarshal gf) (gf_path gf) disk) clone ge = (True, st) \<Longrightarrow>
   git_Start gf cfg 0 clone ge fs0 is fs1 disk = None"
proof -
  show "git_main compile url (ex_world ex_no_interval) path = [StartMonitor ''data/r.state'' None 0]"
    by (simp add: git_main_def main_of_def main_setup_def ex_world_def ex_no_interval_def main_shortener_def valid_common_def
        valid_webhook_def entries_def git_NewMonitor_def)
  show "git_start (ReadJSON (gf_unreadable gf) (gf_unmarshal gf) (gf_path gf) disk) clone ge = (True, st) \<Longrightarrow>
     git_Start gf cfg 0 clone ge fs0 is fs1 disk = None"
    by (simp add: git_Start_def Loop_def seconds64_def wrap64_def)
qed

subsection \<open>Jenkins\<close>

record jenkins_section =
  jx_Config :: ConfigJenkins
  jx_URL :: string
  jx_Interval :: int
  jx_User :: string
  jx_Password :: string
  jx_APIToken :: string

definition valid_jenkins :: "mon_checks \<Rightarrow> jenkins_section \<Rightarrow> bool" where
  "valid_jenkins ck j \<longleftrightarrow>
     (let c = jx_Config j
      in cj_Name c \<noteq> [] \<and> jx_URL j \<noteq> [] \<and> ck_url ck (jx_URL j) \<and> 1 \<le> jx_Interval j \<and>
         cj_Jobs c \<noteq> [] \<and> [] \<notin> set (cj_Jobs c) \<and> (cj_QueueStuckAfter c \<noteq> 0 \<longrightarrow> 1 \<le> cj_QueueStuckAfter c))"

text \<open>The client: its base address and credentials, and the addresses it asks. \<open>escape\<close> and \<open>encode\<close> are \<open>url.PathEscape\<close> and the
  encoding of a query.\<close>

record jenkinsClient =
  jc_baseURL :: string
  jc_user :: string
  jc_secret :: string

definition newJenkinsClient :: "jenkins_section \<Rightarrow> jenkinsClient" where
  "newJenkinsClient j =
     \<lparr>jc_baseURL = TrimRightChar (CHR ''/'') (jx_URL j), jc_user = jx_User j,
      jc_secret = (if jx_APIToken j = [] then jx_Password j else jx_APIToken j)\<rparr>"

type_synonym query_encoder = "(string \<times> string) list \<Rightarrow> string"

definition jobPath :: "(string \<Rightarrow> string) \<Rightarrow> query_encoder \<Rightarrow> jenkinsClient \<Rightarrow> string \<Rightarrow> string \<Rightarrow> string" where
  "jobPath escape encode c name tree = jc_baseURL c @ ''/job/'' @ escape name @ ''/api/json?'' @ encode [(''tree'', tree)]"

definition buildPath :: "(string \<Rightarrow> string) \<Rightarrow> query_encoder \<Rightarrow> jenkinsClient \<Rightarrow> string \<Rightarrow> int \<Rightarrow> string" where
  "buildPath escape encode c name number =
     jc_baseURL c @ ''/job/'' @ escape name @ ''/'' @ itoa number @ ''/api/json?'' @
       encode [(''tree'', ''number,result,timestamp,url'')]"

definition computersPath :: "query_encoder \<Rightarrow> jenkinsClient \<Rightarrow> string" where
  "computersPath encode c =
     jc_baseURL c @ ''/computer/api/json?'' @ encode [(''tree'', ''computer[displayName,offline,offlineCauseReason]'')]"

definition queuePath :: "query_encoder \<Rightarrow> jenkinsClient \<Rightarrow> string" where
  "queuePath encode c =
     jc_baseURL c @ ''/queue/api/json?'' @ encode [(''tree'', ''items[id,why,stuck,blocked,inQueueSince,task[name]]'')]"

definition jenkins_auth :: "(string \<Rightarrow> string) \<Rightarrow> jenkinsClient \<Rightarrow> string option" where
  "jenkins_auth base64 c =
     (if jc_user c \<noteq> [] \<and> jc_secret c \<noteq> [] then Some (''Basic '' @ base64 (jc_user c @ '':'' @ jc_secret c)) else None)"

text \<open>The answers that a poll meets, from what \<open>get\<close> gives for a path.\<close>

record jenkinsJob =
  jo_Color :: string
  jo_LastBuild :: "jenkinsBuild option"
  jo_LastCompletedBuild :: "jenkinsBuild option"

definition lastCompleted :: "(string \<Rightarrow> string) \<Rightarrow> query_encoder \<Rightarrow> jenkinsClient \<Rightarrow> (string \<Rightarrow> jenkins_error + jenkinsJob) \<Rightarrow>
    string \<Rightarrow> jenkins_error + jenkinsBuild option" where
  "lastCompleted escape encode c get name =
     (case get (jobPath escape encode c name ''color,lastBuild[number,result],lastCompletedBuild[number,result,timestamp,url]'') of
        Inl e \<Rightarrow> Inl e | Inr job \<Rightarrow> Inr (jo_LastCompletedBuild job))"

record jenkins_net =
  jn_job :: "string \<Rightarrow> jenkins_error + jenkinsJob"
  jn_build :: "string \<Rightarrow> jenkins_error + jenkinsBuild"
  jn_computers :: "string \<Rightarrow> jenkins_error + jenkinsNode list"
  jn_queue :: "string \<Rightarrow> jenkins_error + jenkinsQueueItem list"

definition jenkins_asks :: "(string \<Rightarrow> string) \<Rightarrow> query_encoder \<Rightarrow> jenkinsClient \<Rightarrow> jenkins_net \<Rightarrow> instant \<Rightarrow>
    (string \<Rightarrow> string + string) option \<Rightarrow> jenkins_env" where
  "jenkins_asks escape encode c net now sh =
     \<lparr>je_now = now, je_last = lastCompleted escape encode c (jn_job net),
      je_build = (\<lambda>name. jenkins_build (\<lambda>number. jn_build net (buildPath escape encode c name number))),
      je_computers = jn_computers net (computersPath encode c), je_queue = jn_queue net (queuePath encode c),
      je_shorten = sh\<rparr>"

text \<open>\<open>Start\<close>: what is persistent is the version, the jobs and the nodes; a successful poll saves.\<close>

type_synonym jenkins_saved = "int \<times> (string \<rightharpoonup> jobState) \<times> (string \<rightharpoonup> nodeState)"

record 'b jenkins_files =
  jf_path :: string
  jf_marshal :: "jenkins_saved \<Rightarrow> string + 'b"
  jf_unmarshal :: "'b \<Rightarrow> string + jenkins_saved"
  jf_unreadable :: "string \<Rightarrow> string option"

definition jenkins_saveState :: "'b jenkins_files \<Rightarrow> 'b state_fs \<Rightarrow> Monitor \<Rightarrow> (string \<rightharpoonup> 'b) \<Rightarrow> (string \<rightharpoonup> 'b)" where
  "jenkins_saveState jf fs m disk = snd (SaveJSON fs (jf_marshal jf) (jf_path jf) (stateVersion, mo_Jobs m, mo_Nodes m) disk)"

definition jenkins_round :: "'b jenkins_files \<Rightarrow> ConfigJenkins \<Rightarrow> jenkins_env \<times> 'b state_fs \<Rightarrow> Monitor \<times> (string \<rightharpoonup> 'b) \<Rightarrow>
    Monitor \<times> (string \<rightharpoonup> 'b)" where
  "jenkins_round jf cfg i x =
     (case poll (fst i) cfg (fst x) of
        (ok, m) \<Rightarrow> (m, if ok then jenkins_saveState jf (snd i) m (snd x) else snd x))"

definition jenkins_Start :: "'b jenkins_files \<Rightarrow> ConfigJenkins \<Rightarrow> int \<Rightarrow> (jenkins_env \<times> 'b state_fs) list \<Rightarrow> 'b state_fs \<Rightarrow>
    (string \<rightharpoonup> 'b) \<Rightarrow> (Monitor \<times> (string \<rightharpoonup> 'b)) option" where
  "jenkins_Start jf cfg interval is fs1 disk =
     (let m0 = (loadState (ReadJSON (jf_unreadable jf) (jf_unmarshal jf) (jf_path jf) disk) NewMonitor)\<lparr>mo_firstPoll := True\<rparr>
      in map_option (\<lambda>(m, disk'). (m\<lparr>mo_history := []\<rparr>, jenkins_saveState jf fs1 m disk'))
           (Loop (seconds64 interval) (jenkins_round jf cfg) is (m0, disk)))"

definition jenkins_main :: "(unit mon_config \<times> jenkins_section) main_world \<Rightarrow> string \<Rightarrow> mon_action list" where
  "jenkins_main wo path =
     (case wo_decode wo path of
        Inl _ \<Rightarrow> [ExitWith 1]
      | Inr (c, j) \<Rightarrow>
          if \<not> (valid_common (wo_checks wo) c \<and> valid_jenkins (wo_checks wo) j) then [ExitWith 1]
          else if \<not> wo_dir wo (mc_DataDir c) then [ExitWith 1]
          else if (case mc_URLShort c of None \<Rightarrow> False | Some u \<Rightarrow> isl (NewURLShortener (wo_parse wo) (Some u))) then [ExitWith 1]
          else
            (let name = cj_Name (jx_Config j)
             in [StartMonitor (wo_join wo [mc_DataDir c, name @ ''.state''])
                   (Some (wo_join wo [mc_DataDir c, name @ ''.history''])) (jx_Interval j)]))"

text \<open>What a stopped Jenkins monitor saved is what it starts with again, but for the first poll, which tells
  of what it finds failed.\<close>

theorem jenkins_restart_keeps_the_verdicts:
  assumes "jenkins_Start jf cfg interval is fs1 disk = Some (m, disk1)"
    and "\<forall>p. sf_write fs1 p = None \<and> sf_rename fs1 p = None" and "jf_unreadable jf (jf_path jf) = None"
    and "\<forall>s. \<exists>b. jf_marshal jf s = Inr b \<and> jf_unmarshal jf b = Inr s" and "1 \<le> interval" and "interval \<le> 9223372036"
  shows "\<exists>m'. jenkins_Start jf cfg interval [] fs1 disk1 = Some (m', disk1) \<and> mo_Jobs m' = mo_Jobs m \<and> mo_Nodes m' = mo_Nodes m"
proof -
  obtain b where b: "jf_marshal jf (stateVersion, mo_Jobs m, mo_Nodes m) = Inr b"
    "jf_unmarshal jf b = Inr (stateVersion, mo_Jobs m, mo_Nodes m)" using assms(4) by blast
  from assms(1) obtain m1 disk0 where m1: "m = m1\<lparr>mo_history := []\<rparr>" "disk1 = jenkins_saveState jf fs1 m1 disk0"
    by (auto simp: jenkins_Start_def Let_def)
  then have j: "mo_Jobs m1 = mo_Jobs m" "mo_Nodes m1 = mo_Nodes m" by simp_all
  have d: "disk1 = disk0(jf_path jf @ ''.tmp'' := None, jf_path jf \<mapsto> b)"
    using assms(2) b(1) by (simp add: m1(2) jenkins_saveState_def SaveJSON_def Let_def flip: j)
  let ?l = "NewMonitor\<lparr>mo_Jobs := mo_Jobs m, mo_Nodes := mo_Nodes m, mo_firstPoll := True\<rparr>"
  have "loadState (ReadJSON (jf_unreadable jf) (jf_unmarshal jf) (jf_path jf) disk1) NewMonitor =
      NewMonitor\<lparr>mo_Jobs := mo_Jobs m, mo_Nodes := mo_Nodes m\<rparr>"
    using assms(3) b(2) by (simp add: ReadJSON_def d loadState_def)
  then have "jenkins_Start jf cfg interval [] fs1 disk1 = Some (?l\<lparr>mo_history := []\<rparr>, jenkins_saveState jf fs1 ?l disk1)"
    using seconds_in_range [OF assms(5,6)] by (simp add: jenkins_Start_def Let_def Loop_def)
  moreover have "jenkins_saveState jf fs1 ?l disk1 = disk1"
    using assms(2) b(1) by (auto simp: jenkins_saveState_def SaveJSON_def d Let_def fun_eq_iff)
  ultimately show ?thesis by simp
qed

end
