(* ===== verification/Spec2Isabelle.thy ===== *)
theory Spec2Isabelle
  imports UrlApiProps UrlServerProps UrlConfigProps UrlLogs UrlMaint UrlTls UrlParts UrlLogging
    BotRelay MonMain
begin

text \<open>
  A verification development of dflybot: an IRC bot, a URL shortener and five monitors that announce changes
  of other systems through the bot. Paths are relative to the directory of the Go sources.

  How the parts interact. The URL shortener (\<open>urlshort/\<close>) is a server of its own: a link store in bbolt, a
  REST API for configured clients, redirects for everyone, daily logs and automatic backups. The bot (the files at the
  top) connects to IRC, keeps channel logs and a database of the nicks it has seen, and has a message bus: a
  webhook and the IRC side produce messages, the IRC side and Telegram consume them. A monitor polls its
  source, shortens links through the API of the URL shortener and posts its announcements to the webhook of the bot.

  Conventions. Go strings are byte strings, modelled as \<open>string\<close>; machine integers are \<open>int\<close> or \<open>nat\<close> with the bounds written
  out where the code relies on them (\<open>parse_int64\<close>, \<open>go_sub\<close>); an instant is nanoseconds since 1970. A function that returns an
  error is of type \<open>error + 'a\<close>, \<open>Inl\<close> the error; a nil pointer or a missing file is \<open>None\<close>. A method is a function from
  the state to the new state and the answer; goroutines that share a state appear as events whose order is
  arbitrary. Maps whose order of iteration matters are association lists, the others functions to \<open>option\<close>. White space, letter case
  and digits are those of ASCII.

  Theories of the shared vocabulary:
  \<^item> \<open>Prelude\<close>: the string functions of \<open>strings\<close> and \<open>strconv\<close> that the sources use, errors, association lists;
  \<^item> \<open>GoTime\<close>: calendar dates, the layouts used and RFC 3339, with the round trips of formatting and parsing;
  \<^item> \<open>Files\<close>: a directory, appending and the buffered writer.

  The URL shortener:
  \<^item> \<open>UrlStore\<close> (\<open>store_bbolt.go\<close>, \<open>store.go\<close>), \<open>UrlStoreSpec\<close> and \<open>UrlStoreProps\<close>: the two buckets of links and targets, the contract
    of a bbolt bucket as the locales \<open>bucket\<close> and \<open>bolt_db\<close>, of the store as the locale \<open>link_store\<close>, and what holds over
    runs of operations: the buckets stay inverse, published links are stable, batches and pages are exact;
  \<^item> \<open>UrlTarget\<close> (\<open>canonicalizeTarget\<close> of \<open>api.go\<close>), \<open>UrlRules\<close> (\<open>rules.go\<close>), \<open>UrlAuth\<close> (\<open>auth.go\<close>): canonical targets, generated keys, tokens and
    namespaces;
  \<^item> \<open>UrlStatus\<close> (\<open>store.go\<close>, \<open>logfile.go\<close>, \<open>maintenance.go\<close>, \<open>tls.go\<close>): the counters and file statistics that the status endpoint shows;
  \<^item> \<open>UrlConfig\<close>, \<open>UrlConfigProps\<close> (\<open>config.go\<close>): defaults, validation, and what the other parts may rely on after it;
  \<^item> \<open>UrlApi\<close>, \<open>UrlApiProps\<close> (\<open>api.go\<close>): every endpoint on the store, authorisation, listings;
  \<^item> \<open>RateLimit\<close>, \<open>UrlServer\<close>, \<open>UrlServerProps\<close> (\<open>server.go\<close>, \<open>redirect.go\<close>, \<open>home.go\<close>): token buckets with an LRU list, routing, client addresses, listeners;
  \<^item> \<open>UrlLogs\<close> (\<open>logfile.go\<close>, \<open>accesslog.go\<close>), \<open>UrlMaint\<close> (\<open>maintenance.go\<close>), \<open>UrlTls\<close> (\<open>tls.go\<close>, \<open>logging.go\<close>): rotation and retention, backups, certificates;
  \<^item> \<open>UrlLogging\<close> (\<open>logging.go\<close>): loggers as trees of handlers, with their attributes and groups;
  \<^item> \<open>UrlParts\<close> (\<open>tls.go\<close>, \<open>maintenance.go\<close>): the TLS settings of the listeners, and the start and stop of the backup job;
  \<^item> \<open>UrlBuild\<close> (\<open>main.go\<close>, \<open>NewServer\<close>, \<open>NewRuleset\<close>): a validated configuration builds a server, and the program as the list of what it opens,
    serves and closes, checked against an automaton of its resources.

  The bot:
  \<^item> \<open>TtlCache\<close> (\<open>ttlcache/\<close>): entries with an expiry, the cleaner as an event;
  \<^item> \<open>BotSeen\<close>, \<open>BotSeenLookup\<close> (\<open>seen.go\<close>): the seen database as a refinement of a table, saving and loading, queries;
  \<^item> \<open>BotBus\<close> (\<open>bus.go\<close>, \<open>format.go\<close>, \<open>webhook.go\<close>, \<open>telegram.go\<close>): bounded queues, subscribers, the two ends outside IRC;
  \<^item> \<open>BotLog\<close> (\<open>log.go\<close>), \<open>BotIrc\<close> (\<open>irc.go\<close>): channel logs and all handlers of IRC lines;
  \<^item> \<open>BotOpMe\<close>, \<open>BotMirror\<close>: operator grants, and the mirror of the members against a server given as a step relation;
  \<^item> \<open>BotMain\<close> (\<open>main.go\<close>, with the \<open>Start\<close> and \<open>Stop\<close> of the parts): configuration, the order of starting and stopping, and the connection loop as a step
    relation with the time that its steps take;
  \<^item> \<open>BotRelay\<close>: the running bot, composed of the webhook, the IRC handlers, the bus and the two sinks.

  The monitors:
  \<^item> \<open>MonLib\<close> (\<open>monitor/\<close>): state files, history, posting with retries, shortening in batches;
  \<^item> \<open>MonFeed\<close>: what two monitors share: snippets cut at runes of UTF-8, packing of lines into messages, and the contract of a watermark as the locale
    \<open>watermark\<close>, under which every item of a growing feed is taken once, in the order of time;
  \<^item> \<open>GitMonitor\<close> (\<open>git-monitor/\<close>), \<open>JenkinsMonitor\<close> (\<open>jenkins-monitor/\<close>), \<open>WebMonitor\<close> (\<open>web-monitor/\<close>), \<open>GitHubMonitor\<close> (\<open>github-monitor/\<close>),
    \<open>RedmineMonitor\<close> (\<open>redmine-monitor/\<close>): a round of each as a function of the answers it gets; the last two interpret \<open>watermark\<close>;
  \<^item> \<open>MonRun\<close>, \<open>MonRestart\<close>: the life of a monitor around its rounds, with its state file and history, and the contract of a
    restart as the locale \<open>restartable\<close>, which the web, GitHub and Redmine monitors interpret;
  \<^item> \<open>MonMain\<close>: the five main programs, and the \<open>Start\<close> of the git and the Jenkins monitor.

  What the groups of lemmas show: an invariant with the lemmas that every operation keeps it (the store, the
  seen database, the rate limiter, published backups, the verdicts of jobs); the refinement of an abstract object (a
  table of nicks, a bounded LRU table, the membership on a server, one pass over a feed); the exact effect of loops against a
  declarative description (pages, batches, hysteresis, grouping of builds, warnings); safety over arbitrary runs (authorisation, single use of
  credentials, redaction, the order in which resources are opened and closed); and the composition of parts: what the bot accepts is what its sinks show, and a restart of a
  monitor changes nothing of what it announces.

  Bounds and fuel. The filtered listing runs with the number of links plus two, which \<open>api_always_answers\<close> proves to be enough;
  the flush of the seen database with the number of dirty channels plus one; \<open>strip_tags\<close> with the length of the text; later pages of GitHub with
  the nine that the code allows. The other loops are structural or have a termination proof by a measure.

  Hypotheses on code outside the repository are named: \<open>bolt_db\<close> (bbolt keeps a bucket as a sorted map), \<open>net_url\<close> (the URL library), \<open>fast_forwards\<close>
  (what git prints for a branch that moves forward), \<open>feed_growing\<close> (a feed lists its newest items, and new items are not
  older than the watermark), \<open>answers_in_order\<close> (the API answers a batch in order), \<open>json_ok\<close> and \<open>saves_ok\<close> (JSON reads back what it wrote, and a save
  succeeds). Each has an example that satisfies it.

  Not modelled: the parsing of flags and the decoding of configuration files, which give the configurations as parameters; signals, beyond
  the moment they arrive; the scheduling of goroutines, beyond the order of events; the insides of bbolt, autocert, goirc, the Telegram library and the HTTP, TLS,
  JSON and validator packages, which are parameters; the compilation of regular expressions and templates; the text of log messages. A
  post or a request is its outcome; the time-outs of clients and servers appear as settings, and \<open>dial\<close> bounds the time of a
  connection attempt.
\<close>

end
